(* ===== verification/Prelude.thy ===== *)
theory Prelude
  imports Main "HOL-Library.Word" "HOL-Library.Multiset" "HOL-Library.Char_ord"
    "HOL-Library.List_Lexorder" "HOL-Library.Sublist"
begin

text \<open>
  Shared vocabulary of the development: the Go types the program is written in (identifiers,
  instants, durations, errors), the comparison sort the code calls through package \<open>sort\<close>,
  and the list lemmas the component theories share.

  \<^item> \<open>uuid\<close> is Go's \<open>uuid.UUID\<close>, an array of sixteen bytes; it is kept as the 128-bit word
    those bytes spell in big-endian order, and \<open>uuid_byte\<close> reads one byte of the array.
  \<^item> \<open>go_time\<close> is \<open>time.Time\<close>: nanoseconds since Go's zero instant, so \<open>IsZero\<close> is equality
    with \<open>0\<close>. Durations are \<open>int64\<close> nanoseconds kept as \<open>int\<close>; \<open>time_Sub\<close> saturates as
    \<open>time.Time.Sub\<close> does.
  \<^item> \<open>go_error\<close> is the \<open>error\<close> interface: one constructor per package of sentinel errors, the
    errors of the database driver, errors made from a message, and \<open>Wrap\<close> for
    \<open>fmt.Errorf("...: %w", err)\<close>; \<open>errors_Is\<close> looks through wrappers as \<open>errors.Is\<close> does.
\<close>

named_theorems model_defs \<open>definitions of the model's operations\<close>
named_theorems branch_simps \<open>one equation per branch of an operation\<close>
named_theorems inv_intros \<open>operations that keep a component's invariant\<close>

section \<open>Types\<close>

type_synonym uuid = "128 word"
type_synonym go_time = int
type_synonym duration = int
type_synonym bytes = "8 word list"

definition uuid_Nil :: uuid where
  "uuid_Nil = 0"

definition uuid_byte :: "uuid \<Rightarrow> nat \<Rightarrow> 8 word" where
  "uuid_byte u i = ucast (drop_bit (8 * (15 - i)) u)"

definition maxInt64 :: int where
  "maxInt64 = 9223372036854775807"

definition minInt64 :: int where
  "minInt64 = - 9223372036854775808"

definition time_Sub :: "go_time \<Rightarrow> go_time \<Rightarrow> duration" where
  "time_Sub t u = (let d = t - u in
     if d > maxInt64 then maxInt64 else if d < minInt64 then minInt64 else d)"

definition time_IsZero :: "go_time \<Rightarrow> bool" where
  "time_IsZero t \<longleftrightarrow> t = 0"

definition Second :: duration where
  "Second = 1000000000"

definition Millisecond :: duration where
  "Millisecond = 1000000"

section \<open>Errors\<close>

datatype match_err = ErrTicketNoPlayer | ErrTicketNoGameMode | ErrPartyTooLarge | ErrTicketNotFound

datatype player_err = ErrInvalidNickname | ErrRefreshTokenInvalid | ErrPlayerNotFound
  | ErrIdentityNotFound | ErrIdentityAlreadyLinked

datatype social_err = ErrSelfFriend | ErrSelfBlock | ErrAlreadyFriends | ErrAlreadyRequested
  | ErrRequestNotFound | ErrNotFriends | ErrBlocked

datatype group_err = ErrInvalidName | ErrGroupNotFound | ErrNotOwner | ErrOwnerMustDelete
  | ErrNotMember

datatype chat_err = ErrSelfMessage | ErrInvalidBody | ErrNotChannelMember

datatype storage_err = ErrInvalidFilename | ErrFileTooLarge | ErrFileNotFound | ErrQuotaExceeded
  | ErrUploadIncomplete | ErrObjectNotFound

datatype leaderboard_err = ErrLeaderboardNotFound | ErrEntryNotFound

datatype db_err = ErrNoTx | ErrNoRows | PgError string | ErrConn | ErrTxCommitRollback

datatype go_error =
    MatchE match_err | PlayerE player_err | SocialE social_err | GroupE group_err
  | ChatE chat_err | StorageE storage_err | LeaderboardE leaderboard_err | DbE db_err
  | ErrInvalidCredential | ErrorString string | Wrap string go_error

fun errors_Is :: "go_error \<Rightarrow> go_error \<Rightarrow> bool" where
  "errors_Is (Wrap m e) target = (Wrap m e = target \<or> errors_Is e target)"
| "errors_Is e target = (e = target)"

type_synonym 'a result = "go_error + 'a"

lemma errors_Is_refl [simp]: "errors_Is e e"
  by (cases e) simp_all

section \<open>Comparison sort\<close>

text \<open>
  \<open>sort.SliceStable\<close> and \<open>sort.Slice\<close> with a comparison function: insertion from the right
  into a sorted list, an element going before the first one that is not strictly less than it.
  This is a stable sort; where the code calls the unstable \<open>sort.Slice\<close> the keys are distinct
  and every sort gives the same list.
\<close>

fun insert_by :: "('a \<Rightarrow> 'a \<Rightarrow> bool) \<Rightarrow> 'a \<Rightarrow> 'a list \<Rightarrow> 'a list" where
  "insert_by lt x [] = [x]"
| "insert_by lt x (y # ys) = (if lt y x then y # insert_by lt x ys else x # y # ys)"

definition sort_by :: "('a \<Rightarrow> 'a \<Rightarrow> bool) \<Rightarrow> 'a list \<Rightarrow> 'a list" where
  "sort_by lt xs = foldr (insert_by lt) xs []"

lemma mset_insert_by [simp]: "mset (insert_by lt x xs) = add_mset x (mset xs)"
  by (induction xs) auto

lemma mset_sort_by [simp]: "mset (sort_by lt xs) = mset xs"
  by (induction xs) (simp_all add: sort_by_def)

lemma set_sort_by [simp]: "set (sort_by lt xs) = set xs"
  by (metis mset_sort_by set_mset_mset)

lemma length_sort_by [simp]: "length (sort_by lt xs) = length xs"
  by (metis mset_sort_by size_mset)

lemma distinct_sort_by [simp]: "distinct (sort_by lt xs) = distinct xs"
  by (metis mset_sort_by mset_eq_imp_distinct_iff)

lemma sort_by_Nil [simp]: "sort_by lt [] = []"
  by (simp add: sort_by_def)

lemma sort_by_Cons: "sort_by lt (x # xs) = insert_by lt x (sort_by lt xs)"
  by (simp add: sort_by_def)

text \<open>
  For a strict weak order the result is sorted: no later element is strictly less than an
  earlier one.
\<close>

definition strict_weak :: "('a \<Rightarrow> 'a \<Rightarrow> bool) \<Rightarrow> bool" where
  "strict_weak lt \<longleftrightarrow> (\<forall>x y. lt x y \<longrightarrow> \<not> lt y x)
     \<and> (\<forall>x y z. \<not> lt x y \<longrightarrow> \<not> lt y z \<longrightarrow> \<not> lt x z)"

lemma strict_weakD:
  assumes "strict_weak lt"
  shows "lt x y \<Longrightarrow> \<not> lt y x"
    and "\<not> lt x y \<Longrightarrow> \<not> lt y z \<Longrightarrow> \<not> lt x z"
  using assms unfolding strict_weak_def by blast+

lemma set_insert_by [simp]: "set (insert_by lt x xs) = insert x (set xs)"
  by (metis mset_insert_by set_mset_add_mset_insert set_mset_mset)

lemma sorted_insert_by:
  assumes "strict_weak lt" and "sorted_wrt (\<lambda>x y. \<not> lt y x) xs"
  shows "sorted_wrt (\<lambda>x y. \<not> lt y x) (insert_by lt x xs)"
  using assms(2)
proof (induction xs)
  case (Cons y ys)
  show ?case
  proof (cases "lt y x")
    case True
    then show ?thesis using Cons strict_weakD(1) [OF assms(1)] by auto
  next
    case False
    then have "\<forall>z \<in> set ys. \<not> lt z x"
      using Cons.prems strict_weakD(2) [OF assms(1)] by auto
    then show ?thesis using False Cons.prems by auto
  qed
qed simp

lemma sorted_sort_by:
  assumes "strict_weak lt"
  shows "sorted_wrt (\<lambda>x y. \<not> lt y x) (sort_by lt xs)"
  by (induction xs) (simp_all add: sort_by_Cons sorted_insert_by [OF assms])

text \<open>
  Two lists with the same elements have one sorted form when ties are impossible: this is what
  makes a result independent of Go's unspecified map iteration order.
\<close>

lemma sorted_wrt_unique:
  assumes "sorted_wrt lt xs" and "sorted_wrt lt ys" and "mset xs = mset ys"
    and "\<And>x y. lt x y \<Longrightarrow> \<not> lt y x"
  shows "xs = ys"
  using assms(1-3)
proof (induction xs arbitrary: ys)
  case Nil
  then show ?case by simp
next
  case (Cons x xs)
  then obtain y ys' where ys: "ys = y # ys'" by (cases ys) auto
  have "x = y"
  proof (rule ccontr)
    assume "x \<noteq> y"
    have "x \<in> set ys'" and "y \<in> set xs"
      using Cons.prems(3) \<open>x \<noteq> y\<close> ys
      by (metis list.set_intros(1) set_ConsD set_mset_mset)+
    then show False using Cons.prems(1,2) ys assms(4) by auto
  qed
  then show ?case using Cons ys by auto
qed

lemma sorted_wrt_strict:
  assumes "sorted_wrt (\<lambda>x y. \<not> lt y x) zs" "distinct zs" "\<And>x y. x \<in> set zs \<Longrightarrow> y \<in> set zs \<Longrightarrow> x \<noteq> y \<Longrightarrow> lt x y \<or> lt y x"
  shows "sorted_wrt lt zs"
  using assms by (induction zs) (simp_all, metis)

text \<open>In a strictly sorted list as many elements come before an element as its index says.\<close>

lemma count_before:
  assumes "sorted_wrt lt xs" "i < length xs" "\<And>x y. lt x y \<Longrightarrow> \<not> lt y x"
  shows "length (filter (\<lambda>x. lt x (xs ! i)) xs) = i"
proof -
  have "lt (xs ! j) (xs ! i) \<longleftrightarrow> j < i" if "j < length xs" for j
    using assms that sorted_wrt_nth_less [OF assms(1)] by (metis linorder_neqE_nat)
  then have "{j. j < length xs \<and> lt (xs ! j) (xs ! i)} = {..<i}"
    using assms(2) by auto
  then show ?thesis by (simp add: length_filter_conv_card)
qed

lemma sort_by_perm:
  assumes "mset xs = mset ys" and "strict_weak lt"
    and "\<And>x y. x \<in> set xs \<Longrightarrow> y \<in> set xs \<Longrightarrow> x \<noteq> y \<Longrightarrow> lt x y \<or> lt y x"
    and "distinct xs"
  shows "sort_by lt xs = sort_by lt ys"
proof -
  have "set ys = set xs" and "distinct ys"
    using assms(1,4) by (metis set_mset_mset) (metis assms(1,4) mset_eq_imp_distinct_iff)
  then have "sorted_wrt lt (sort_by lt xs)" and "sorted_wrt lt (sort_by lt ys)"
    using sorted_wrt_strict [OF sorted_sort_by [OF assms(2)], of xs] sorted_wrt_strict [OF sorted_sort_by [OF assms(2)], of ys]
      assms(3,4) by simp_all
  then show ?thesis
    by (rule sorted_wrt_unique) (use assms(1) strict_weakD(1) [OF assms(2)] in auto)
qed

section \<open>Lists\<close>

lemma filter_eq_Nil_iff: "filter P xs = [] \<longleftrightarrow> (\<forall>x \<in> set xs. \<not> P x)"
  by (induction xs) auto

lemma distinct_map_filterI [intro]: "distinct (map f xs) \<Longrightarrow> distinct (map f (filter P xs))"
  by (induction xs) auto

lemma distinct_map_unique:
  "distinct (map f xs) \<Longrightarrow> x \<in> set xs \<Longrightarrow> y \<in> set xs \<Longrightarrow> f x = f y \<Longrightarrow> x = y"
  by (simp add: distinct_map inj_on_def)

lemma no_match_iff: "length (filter P xs) = 0 \<longleftrightarrow> \<not> list_ex P xs"
  by (induction xs) auto

lemma image_filter_neq: "f ` {x \<in> set xs. f x \<noteq> y} = f ` set xs - {y}"
  by auto

lemma Diff_two: "A - {x, y} = A - {x} - {y}"
  by blast

lemma filter_key_singleton:
  assumes "distinct (map f xs)" and "k \<in> f ` set xs"
  shows "\<exists>x \<in> set xs. f x = k \<and> filter (\<lambda>y. f y = k) xs = [x]"
  using assms
proof (induction xs)
  case (Cons x xs)
  show ?case
  proof (cases "f x = k")
    case True
    then have "filter (\<lambda>y. f y = k) xs = []" using Cons.prems(1) by (auto simp: filter_empty_conv image_iff)
    then show ?thesis using True by simp
  next
    case False
    then show ?thesis using Cons by auto
  qed
qed simp

lemma map_concat_join:
  assumes "\<And>x. x \<in> set xs \<Longrightarrow> map key (g x) = [h x]"
  shows "map key (concat (map g xs)) = map h xs"
  using assms by (induction xs) auto

lemma strict_weak_key: "strict_weak (\<lambda>x y. (key y :: 'b :: linorder) < key x)"
  by (auto simp: strict_weak_def)

section \<open>Permutations, sublists and concatenations\<close>

lemma set_ord: "(\<And>rs. mset (ord rs) = mset rs) \<Longrightarrow> set (ord rs) = set rs"
  by (metis set_mset_mset)

lemma distinct_map_inj: "distinct (map f xs) \<Longrightarrow> distinct xs"
  by (simp add: distinct_map)

lemma distinct_concat_map:
  assumes "distinct (map key xs)" and "\<And>x. x \<in> set xs \<Longrightarrow> distinct (g x)"
    and "\<And>x t. x \<in> set xs \<Longrightarrow> t \<in> set (g x) \<Longrightarrow> tag t = key x"
  shows "distinct (concat (map g xs))"
  using assms
proof (induction xs)
  case (Cons x xs)
  have "set (g x) \<inter> set (concat (map g xs)) = {}"
  proof (rule ccontr)
    assume "set (g x) \<inter> set (concat (map g xs)) \<noteq> {}"
    then obtain t y where "t \<in> set (g x)" "y \<in> set xs" "t \<in> set (g y)" by auto
    then have "key x = key y" using Cons.prems(3) by (metis list.set_intros)
    then show False using Cons.prems(1) \<open>y \<in> set xs\<close> by auto
  qed
  then show ?case using Cons by auto
qed simp

lemma concat_map_filter: "concat (map g (List.map_filter f xs)) = concat (map (\<lambda>x. case f x of None \<Rightarrow> [] | Some y \<Rightarrow> g y) xs)"
  by (induction xs) (auto simp: map_filter_simps split: option.splits)

lemma mset_concat_perm: "mset xs = mset ys \<Longrightarrow> mset (concat (map g xs)) = mset (concat (map g ys))"
  unfolding mset_concat map_map by (metis mset_map sum_mset_sum_list)

lemma subseq_set: "subseq xs ys \<Longrightarrow> set xs \<subseteq> set ys"
  by (induction rule: list_emb.induct) auto

lemma subseq_distinct: "subseq xs ys \<Longrightarrow> distinct ys \<Longrightarrow> distinct xs"
  by (induction rule: list_emb.induct) (auto dest: subseq_set)

lemma distinct_subseteq_mset: "distinct xs \<Longrightarrow> set xs \<subseteq> set ys \<Longrightarrow> mset xs \<subseteq># mset ys"
  by (metis List.finite_set finite_set_mset mset_set_set mset_set_set_mset_msubset
      set_mset_mset subset_imp_msubset_mset_set subset_mset.order_trans)

lemma mset_subset_concat:
  assumes "mset vs \<subseteq># mset us"
  shows "mset (concat (map g vs)) \<subseteq># mset (concat (map g us))"
proof -
  obtain ws where "mset us = mset (vs @ ws)"
    using assms by (metis mset_append mset_subset_eq_exists_conv ex_mset)
  then have "mset (concat (map g us)) = mset (concat (map g (vs @ ws)))" by (rule mset_concat_perm)
  then show ?thesis by simp
qed

lemma distinct_subset_mset: "mset xs \<subseteq># mset ys \<Longrightarrow> distinct ys \<Longrightarrow> distinct xs"
  by (metis distinct_append ex_mset mset_append mset_eq_imp_distinct_iff mset_subset_eq_exists_conv)

lemma strict_weak_less: "strict_weak ((<) :: 'a :: linorder \<Rightarrow> 'a \<Rightarrow> bool)"
  by (auto simp: strict_weak_def)

lemma distinct_concat_units:
  "distinct (concat (map g xs)) \<Longrightarrow> (\<And>x. x \<in> set xs \<Longrightarrow> g x \<noteq> []) \<Longrightarrow> distinct xs"
proof (induction xs)
  case (Cons x xs)
  then have "hd (g x) \<in> set (g x)" by simp
  then have "x \<notin> set xs" using Cons.prems(1) by auto
  then show ?case using Cons by simp
qed simp

lemma concat_units_disjoint:
  assumes "distinct (concat (map g xs))" and "u \<in> set xs" "v \<in> set xs" "u \<noteq> v" and "t \<in> set (g u)"
  shows "t \<notin> set (g v)"
  using assms
proof (induction xs)
  case (Cons x xs)
  have disj: "t \<notin> set (g w)" if "w \<in> set xs" "t \<in> set (g x)" for w t
    using Cons.prems(1) that by auto
  consider "u = x" "v \<in> set xs" | "v = x" "u \<in> set xs" | "u \<in> set xs" "v \<in> set xs"
    using Cons.prems(2-4) by auto
  then show ?case
  proof cases
    case 3
    then show ?thesis using Cons by simp
  qed (use disj Cons.prems(5) in blast)+
qed simp

lemma concat_units_hd:
  assumes "distinct (concat (map g xs))" and "u \<in> set xs" "v \<in> set xs" "u \<noteq> v" and "g u \<noteq> []" "g v \<noteq> []"
  shows "hd (g u) \<noteq> hd (g v)"
  using concat_units_disjoint [OF assms(1-4), of "hd (g u)"] assms(5,6) by (metis hd_in_set)

lemma all_pairs_nth:
  assumes "distinct xs"
  shows "(\<forall>i < length xs. \<forall>j < length xs. j \<noteq> i \<longrightarrow> P (xs ! i) (xs ! j)) \<longleftrightarrow>
    (\<forall>x \<in> set xs. \<forall>y \<in> set xs. y \<noteq> x \<longrightarrow> P x y)"
  using assms by (metis in_set_conv_nth nth_eq_iff_index_eq)

text \<open>A textual form of ids, for concrete instances.\<close>

definition unary_str :: "uuid \<Rightarrow> string" where
  "unary_str u = replicate (Suc (unat u)) (CHR ''x'')"

end
