(* ===== verification/Go_Strings.thy ===== *)
theory Go_Strings
  imports Prelude
begin

text \<open>
  The part of Go's string library the program calls: UTF-8 decoding (\<open>unicode/utf8\<close>), the
  character classes of \<open>unicode\<close>, \<open>strings.TrimSpace\<close>, \<open>Cut\<close>, \<open>Split\<close>, \<open>Join\<close>, and
  \<open>path.Clean\<close> and \<open>path.Join\<close>. A Go string is its byte sequence, one \<open>char\<close> per byte.
\<close>

section \<open>UTF-8\<close>

abbreviation RuneError :: nat where
  "RuneError \<equiv> 65533"

definition in_range :: "nat \<Rightarrow> nat \<Rightarrow> nat \<Rightarrow> bool" where
  "in_range lo hi b \<longleftrightarrow> lo \<le> b \<and> b \<le> hi"

text \<open>
  \<open>utf8.DecodeRuneInString\<close>: the rune at the head of the string and its width. A malformed
  sequence is \<open>RuneError\<close> with width one, and the empty string \<open>RuneError\<close> with width zero. The
  range of the second byte depends on the first one, which rules out overlong forms, surrogates
  and code points past U+10FFFF.
\<close>

definition second_lo :: "nat \<Rightarrow> nat" where
  "second_lo b = (if b = 224 then 160 else if b = 240 then 144 else 128)"

definition second_hi :: "nat \<Rightarrow> nat" where
  "second_hi b = (if b = 237 then 159 else if b = 244 then 143 else 191)"

definition byte_at :: "string \<Rightarrow> nat \<Rightarrow> nat" where
  "byte_at s i = (if i < length s then of_char (s ! i) else 0)"

definition DecodeRune :: "string \<Rightarrow> nat \<times> nat" where
  "DecodeRune s = (if s = [] then (RuneError, 0) else
     let b0 = byte_at s 0; b1 = byte_at s 1; b2 = byte_at s 2; b3 = byte_at s 3 in
     if b0 < 128 then (b0, 1)
     else if in_range 194 223 b0 \<and> in_range 128 191 b1 then
       ((b0 - 192) * 64 + (b1 - 128), 2)
     else if in_range 224 239 b0 \<and> in_range (second_lo b0) (second_hi b0) b1
       \<and> in_range 128 191 b2 then
       ((b0 - 224) * 4096 + (b1 - 128) * 64 + (b2 - 128), 3)
     else if in_range 240 244 b0 \<and> in_range (second_lo b0) (second_hi b0) b1
       \<and> in_range 128 191 b2 \<and> in_range 128 191 b3 then
       ((b0 - 240) * 262144 + (b1 - 128) * 4096 + (b2 - 128) * 64 + (b3 - 128), 4)
     else (RuneError, 1))"

lemma DecodeRune_width: "s \<noteq> [] \<Longrightarrow> 0 < snd (DecodeRune s)"
  by (auto simp: DecodeRune_def Let_def)

text \<open>\<open>for _, r := range s\<close>: the runes of a string with their widths.\<close>

function decode_all :: "string \<Rightarrow> (nat \<times> nat) list" where
  "decode_all s = (if s = [] then [] else DecodeRune s # decode_all (drop (snd (DecodeRune s)) s))"
  by pat_completeness auto
termination
  by (relation "measure length") (auto simp: DecodeRune_width)

declare decode_all.simps [simp del]

definition range_runes :: "string \<Rightarrow> nat list" where
  "range_runes s = map fst (decode_all s)"

definition RuneCountInString :: "string \<Rightarrow> nat" where
  "RuneCountInString s = length (decode_all s)"

definition ValidString :: "string \<Rightarrow> bool" where
  "ValidString s \<longleftrightarrow> list_all (\<lambda>(r, n). \<not> (r = RuneError \<and> n = 1)) (decode_all s)"

definition IsSpace :: "nat \<Rightarrow> bool" where
  "IsSpace r \<longleftrightarrow> in_range 9 13 r \<or> r = 32 \<or> r = 133 \<or> r = 160 \<or> r = 5760
     \<or> in_range 8192 8202 r \<or> r = 8232 \<or> r = 8233 \<or> r = 8239 \<or> r = 8287 \<or> r = 12288"

definition IsControl :: "nat \<Rightarrow> bool" where
  "IsControl r \<longleftrightarrow> r \<le> 31 \<or> in_range 127 159 r"

text \<open>An ASCII byte is never part of a longer sequence: it is a rune of its own.\<close>

lemma DecodeRune_tail: "0 < i \<Longrightarrow> i < snd (DecodeRune s) \<Longrightarrow> 128 \<le> byte_at s i"
proof -
  assume i: "0 < i" "i < snd (DecodeRune s)"
  have "snd (DecodeRune s) \<le> 4" by (simp add: DecodeRune_def Let_def)
  then have "i = 1 \<or> i = 2 \<or> i = 3" using i by linarith
  then show ?thesis
    by (elim disjE) (use i(2) in \<open>auto simp: DecodeRune_def Let_def in_range_def second_lo_def split: if_splits\<close>)
qed

lemma ascii_rune:
  assumes "c \<in> set s" "of_char c < (128 :: nat)"
  shows "of_char c \<in> set (range_runes s)"
  using assms(1)
proof (induction s rule: decode_all.induct)
  case (1 s)
  then have ne: "s \<noteq> []" by auto
  have runes: "range_runes s = fst (DecodeRune s) # range_runes (drop (snd (DecodeRune s)) s)"
    using ne by (simp add: range_runes_def decode_all.simps [of s])
  show ?case
  proof (cases "c \<in> set (drop (snd (DecodeRune s)) s)")
    case True
    then show ?thesis using "1.IH" [OF ne] runes by simp
  next
    case False
    then have "c \<in> set (take (snd (DecodeRune s)) s)"
      using "1.prems" by (metis Un_iff append_take_drop_id set_append)
    then obtain i where i: "i < snd (DecodeRune s)" "i < length s" "s ! i = c"
      by (auto simp: in_set_conv_nth)
    have "i = 0"
      using DecodeRune_tail [of i s] i assms(2) by (cases i) (auto simp: byte_at_def)
    then have "byte_at s 0 = of_char c" using i ne by (simp add: byte_at_def)
    then have "fst (DecodeRune s) = of_char c" using assms(2) ne by (simp add: DecodeRune_def Let_def)
    then show ?thesis using runes by simp
  qed
qed

section \<open>TrimSpace\<close>

definition RuneStart :: "nat \<Rightarrow> bool" where
  "RuneStart b \<longleftrightarrow> \<not> in_range 128 191 b"

text \<open>
  \<open>utf8.DecodeLastRuneInString\<close>: back up over at most three continuation bytes to a byte that
  starts a rune, and accept the rune decoded there only if it ends where the string ends.
\<close>

definition DecodeLastRune :: "string \<Rightarrow> nat \<times> nat" where
  "DecodeLastRune s = (if s = [] then (RuneError, 0) else
     let e = length s; r = byte_at s (e - 1) in
     if r < 128 then (r, 1) else
     let lim = e - 4;
         start = (case find (\<lambda>i. RuneStart (byte_at s i)) (rev [lim ..< e - 1]) of
                    Some i \<Rightarrow> i | None \<Rightarrow> lim - 1);
         (r', n) = DecodeRune (drop start s)
     in if start + n \<noteq> e then (RuneError, 1) else (r', n))"

lemma find_SomeD: "find P xs = Some x \<Longrightarrow> P x" "find P xs = Some x \<Longrightarrow> x \<in> set xs"
  by (auto simp: find_Some_iff)

lemma DecodeLastRune_width: "s \<noteq> [] \<Longrightarrow> 0 < snd (DecodeLastRune s)"
proof -
  assume s: "s \<noteq> []"
  define start where "start = (case find (\<lambda>i. RuneStart (byte_at s i)) (rev [length s - 4 ..< length s - 1]) of
    Some i \<Rightarrow> i | None \<Rightarrow> length s - 4 - 1)"
  have "start < length s"
    using s find_SomeD(2) by (fastforce simp: start_def split: option.splits)
  then have "0 < snd (DecodeRune (drop start s))" by (simp add: DecodeRune_width)
  then show ?thesis
    using s unfolding DecodeLastRune_def Let_def start_def [symmetric] by (simp add: split_beta)
qed

function TrimLeft :: "string \<Rightarrow> string" where
  "TrimLeft s = (if s = [] then [] else
     if IsSpace (fst (DecodeRune s)) then TrimLeft (drop (snd (DecodeRune s)) s) else s)"
  by pat_completeness auto
termination
  by (relation "measure length") (auto simp: DecodeRune_width)

function TrimRight :: "string \<Rightarrow> string" where
  "TrimRight s = (if s = [] then [] else
     if IsSpace (fst (DecodeLastRune s)) then TrimRight (take (length s - snd (DecodeLastRune s)) s)
     else s)"
  by pat_completeness auto
termination
  by (relation "measure length") (auto simp: DecodeLastRune_width)

declare TrimLeft.simps [simp del] TrimRight.simps [simp del]

definition TrimSpace :: "string \<Rightarrow> string" where
  "TrimSpace s = TrimRight (TrimLeft s)"

lemma TrimSpace_Nil [simp]: "TrimSpace [] = []"
  by (simp add: TrimSpace_def TrimLeft.simps [of "[]"] TrimRight.simps [of "[]"])

lemma length_TrimLeft: "length (TrimLeft s) \<le> length s"
proof (induction s rule: TrimLeft.induct)
  case (1 s)
  show ?case
  proof (cases "s \<noteq> [] \<and> IsSpace (fst (DecodeRune s))")
    case True
    then have "length (TrimLeft (drop (snd (DecodeRune s)) s)) \<le> length s"
      using "1.IH" by fastforce
    with True show ?thesis by (subst TrimLeft.simps) simp
  next
    case False
    then show ?thesis by (subst TrimLeft.simps) auto
  qed
qed

lemma length_TrimRight: "length (TrimRight s) \<le> length s"
proof (induction s rule: TrimRight.induct)
  case (1 s)
  let ?t = "take (length s - snd (DecodeLastRune s)) s"
  show ?case
  proof (cases "s \<noteq> [] \<and> IsSpace (fst (DecodeLastRune s))")
    case True
    then have "length (TrimRight ?t) \<le> length ?t" using "1.IH" by blast
    also have "\<dots> \<le> length s" by simp
    finally show ?thesis using True by (subst TrimRight.simps) simp
  next
    case False
    then show ?thesis by (subst TrimRight.simps) auto
  qed
qed

lemma length_TrimSpace: "length (TrimSpace s) \<le> length s"
  using length_TrimLeft [of s] length_TrimRight [of "TrimLeft s"] by (simp add: TrimSpace_def)

section \<open>Splitting and joining\<close>

fun split_on :: "char \<Rightarrow> string \<Rightarrow> string list" where
  "split_on c [] = [[]]"
| "split_on c (x # xs) =
     (if x = c then [] # split_on c xs
      else case split_on c xs of [] \<Rightarrow> [[x]] | y # ys \<Rightarrow> (x # y) # ys)"

fun join_with :: "char \<Rightarrow> string list \<Rightarrow> string" where
  "join_with c [] = []"
| "join_with c [x] = x"
| "join_with c (x # y # ys) = x @ c # join_with c (y # ys)"

text \<open>\<open>strings.Cut\<close>: the parts before and after the first separator.\<close>

definition Cut :: "string \<Rightarrow> char \<Rightarrow> string \<times> string \<times> bool" where
  "Cut s c = (if c \<in> set s then (takeWhile (\<lambda>x. x \<noteq> c) s, tl (dropWhile (\<lambda>x. x \<noteq> c) s), True)
     else (s, [], False))"

definition CutPrefix :: "string \<Rightarrow> string \<Rightarrow> string option" where
  "CutPrefix s p = (if prefix p s then Some (drop (length p) s) else None)"

lemma split_on_nonempty [simp]: "split_on c s \<noteq> []"
  by (cases s) (auto split: list.splits)

lemma split_on_notin: "c \<notin> set s \<Longrightarrow> split_on c s = [s]"
  by (induction s) auto

lemma split_on_append: "split_on c (s @ c # t) = split_on c s @ split_on c t"
  by (induction s) (auto split: list.splits)

lemma join_with_snoc: "xs \<noteq> [] \<Longrightarrow> join_with c (xs @ [y]) = join_with c xs @ c # y"
  by (induction c xs rule: join_with.induct) auto

lemma append_sep_inject:
  assumes "c \<notin> set b" and "c \<notin> set b'"
  shows "xs @ c # b = ys @ c # b' \<longleftrightarrow> xs = ys \<and> b = b'"
proof
  assume eq: "xs @ c # b = ys @ c # b'"
  have take: "takeWhile (\<lambda>x. x \<noteq> c) (rev (zs @ c # d)) = rev d" if "c \<notin> set d" for zs d
    using that by (auto simp: takeWhile_append takeWhile_eq_all_conv)
  have "rev b = rev b'"
    using eq take [OF assms(1), of xs] take [OF assms(2), of ys] by simp
  then show "xs = ys \<and> b = b'" using eq by simp
qed simp

lemma split_on_join_with:
  "\<forall>x \<in> set zs. c \<notin> set x \<Longrightarrow> zs \<noteq> [] \<Longrightarrow> split_on c (join_with c zs) = zs"
  by (induction c zs rule: join_with.induct) (auto simp: split_on_notin split_on_append)

text \<open>Joining separator-free, non-empty pieces loses nothing.\<close>

lemma join_with_inject:
  assumes "\<forall>x \<in> set xs. c \<notin> set x \<and> x \<noteq> []" and "\<forall>y \<in> set ys. c \<notin> set y \<and> y \<noteq> []"
    and "join_with c xs = join_with c ys"
  shows "xs = ys"
proof -
  have nil: "zs = []" if "join_with c zs = []" "\<forall>x \<in> set zs. c \<notin> set x \<and> x \<noteq> []"
    for zs :: "string list"
    using that by (cases zs; cases "tl zs") auto
  show ?thesis
  proof (cases "xs = [] \<or> ys = []")
    case True
    then show ?thesis using assms nil by (metis join_with.simps(1))
  next
    case False
    then show ?thesis using assms split_on_join_with by metis
  qed
qed

section \<open>Paths\<close>

text \<open>
  \<open>path.Clean\<close>, the shortest equivalent path by lexical processing: empty and \<open>.\<close> elements
  are dropped, \<open>..\<close> removes the element before it unless there is none to remove, and at the
  root \<open>..\<close> disappears. The accumulator holds the elements kept so far, last first.
\<close>

fun clean_elems :: "bool \<Rightarrow> string list \<Rightarrow> string list \<Rightarrow> string list" where
  "clean_elems rooted acc [] = rev acc"
| "clean_elems rooted acc (e # es) =
     (if e = [] \<or> e = ''.'' then clean_elems rooted acc es
      else if e = ''..'' then
        (case acc of
           [] \<Rightarrow> if rooted then clean_elems rooted [] es else clean_elems rooted [''..''] es
         | a # as \<Rightarrow> if a = ''..'' then clean_elems rooted (''..'' # acc) es
                     else clean_elems rooted as es)
      else clean_elems rooted (e # acc) es)"

definition path_Clean :: "string \<Rightarrow> string" where
  "path_Clean p = (if p = [] then ''.'' else
     let rooted = (hd p = CHR ''/'');
         out = (if rooted then ''/'' else []) @ join_with (CHR ''/'') (clean_elems rooted [] (split_on (CHR ''/'') p))
     in if out = [] then ''.'' else out)"

definition path_Join :: "string list \<Rightarrow> string" where
  "path_Join es = (let ne = filter (\<lambda>e. e \<noteq> []) es in
     if ne = [] then [] else path_Clean (join_with (CHR ''/'') ne))"

text \<open>An element that is kept as it is: non-empty, no dots and no separator.\<close>

definition plain_elem :: "string \<Rightarrow> bool" where
  "plain_elem e \<longleftrightarrow> e \<noteq> [] \<and> e \<noteq> ''.'' \<and> e \<noteq> ''..'' \<and> CHR ''/'' \<notin> set e"

lemma clean_elems_plain:
  "\<forall>e \<in> set es'. plain_elem e \<Longrightarrow>
   clean_elems rooted acc (es @ es') = clean_elems rooted acc es @ es'"
proof (induction rooted acc es rule: clean_elems.induct)
  case (1 rooted acc)
  have "clean_elems rooted acc es' = rev acc @ es'"
    using "1.prems" by (induction es' arbitrary: acc) (auto simp: plain_elem_def)
  then show ?case by simp
next
  case (2 rooted acc e es)
  then show ?case by (auto split: list.splits)
qed

lemma path_Clean_two:
  assumes "plain_elem a" and "plain_elem b"
  shows "path_Clean (p @ CHR ''/'' # a @ CHR ''/'' # b) =
    (let rooted = (p = [] \<or> hd p = CHR ''/'');
         es = clean_elems rooted [] (split_on (CHR ''/'') p)
     in (if rooted then ''/'' else []) @ join_with (CHR ''/'') (es @ [a, b]))"
proof -
  let ?q = "p @ CHR ''/'' # a @ CHR ''/'' # b"
  have split: "split_on (CHR ''/'') ?q = split_on (CHR ''/'') p @ [a, b]"
    using assms by (simp add: split_on_append plain_elem_def split_on_notin)
  have "clean_elems r [] (split_on (CHR ''/'') ?q) = clean_elems r [] (split_on (CHR ''/'') p) @ [a, b]" for r
    using assms by (simp add: split clean_elems_plain)
  moreover have "join_with (CHR ''/'') (xs @ [a, b]) \<noteq> []" for xs
    using join_with_snoc [of "xs @ [a]"] by simp
  ultimately show ?thesis by (cases p) (auto simp: path_Clean_def Let_def)
qed

lemma path_Clean_two_bare:
  assumes "plain_elem a" and "plain_elem b"
  shows "path_Clean (a @ CHR ''/'' # b) = a @ CHR ''/'' # b"
proof -
  have "split_on (CHR ''/'') (a @ CHR ''/'' # b) = [a, b]"
    using assms by (simp add: split_on_append plain_elem_def split_on_notin)
  moreover have "hd (a @ CHR ''/'' # b) \<noteq> CHR ''/''"
    using assms by (cases a) (auto simp: plain_elem_def)
  ultimately show ?thesis
    using assms by (auto simp: path_Clean_def Let_def plain_elem_def)
qed

text \<open>
  The last two plain elements of a joined path can be read back: joining under one prefix is
  injective in them.
\<close>

lemma join_with_two_inject:
  assumes "c \<notin> set a" "c \<notin> set b" "c \<notin> set a'" "c \<notin> set b'"
    and "join_with c (xs @ [a, b]) = join_with c (xs @ [a', b'])"
  shows "a = a' \<and> b = b'"
proof -
  have two: "join_with c (xs @ [x, y]) = join_with c (xs @ [x]) @ c # y" for x y
    using join_with_snoc [of "xs @ [x]" c y] by simp
  have b: "join_with c (xs @ [a]) = join_with c (xs @ [a']) \<and> b = b'"
    using assms(5) append_sep_inject [OF assms(2,4)] by (simp add: two)
  show ?thesis
  proof (cases "xs = []")
    case True
    then show ?thesis using b by simp
  next
    case False
    then show ?thesis
      using b append_sep_inject [OF assms(1,3)] by (simp add: join_with_snoc)
  qed
qed

lemma path_Join_inject:
  assumes "plain_elem a" "plain_elem b" "plain_elem a'" "plain_elem b'"
    and "path_Join [p, a, b] = path_Join [p, a', b']"
  shows "a = a' \<and> b = b'"
proof -
  have noslash: "CHR ''/'' \<notin> set a" "CHR ''/'' \<notin> set b" "CHR ''/'' \<notin> set a'" "CHR ''/'' \<notin> set b'"
    using assms(1-4) by (auto simp: plain_elem_def)
  have ne: "a \<noteq> []" "b \<noteq> []" "a' \<noteq> []" "b' \<noteq> []"
    using assms(1-4) by (auto simp: plain_elem_def)
  show ?thesis
  proof (cases "p = []")
    case True
    then have "a @ CHR ''/'' # b = a' @ CHR ''/'' # b'"
      using assms(5) ne path_Clean_two_bare [OF assms(1,2)] path_Clean_two_bare [OF assms(3,4)]
      by (simp add: path_Join_def Let_def)
    then show ?thesis using append_sep_inject [OF noslash(2,4)] by simp
  next
    case False
    let ?es = "clean_elems (hd p = CHR ''/'') [] (split_on (CHR ''/'') p)"
    have "join_with (CHR ''/'') (?es @ [a, b]) = join_with (CHR ''/'') (?es @ [a', b'])"
      using assms(5) ne False path_Clean_two [OF assms(1,2), of p] path_Clean_two [OF assms(3,4), of p]
      by (simp add: path_Join_def Let_def)
    then show ?thesis by (rule join_with_two_inject [OF noslash])
  qed
qed

end
