(* ===== verification/Database.thy ===== *)
theory Database
  imports Go_Strings
begin

text \<open>
  The relational store behind the repositories and the transaction runner over it.

  \<^item> \<open>tables\<close> has one field per table of \<open>schema/db/schema.sql\<close> that the program reads or writes,
    each a list of rows in insertion order; a row record has the table's columns.
  \<^item> \<open>db\<close> is what a call sees of the server: the tables, the instant \<open>NOW()\<close> returns, the
    transaction on the context (\<open>internal/infra/db/db.go\<close> keeps it there under \<open>txKey\<close>) and a
    script of the faults the coming round trips meet. A round trip whose fault is \<open>Lost\<close> fails
    before it has an effect; \<open>AckLost\<close> on a commit is a commit that took effect and whose answer
    never arrived.
  \<^item> \<open>'a tx\<close> is Go code that runs against the store and returns \<open>('a, error)\<close>.
  \<^item> \<open>stmt\<close> runs one SQL statement: it needs a transaction on the context (\<open>db.Tx\<close>), is refused
    in a transaction that has already failed, as PostgreSQL does, and refused for a write in a
    read-only transaction.
  \<^item> \<open>Session_run\<close> is \<open>Session.run\<close>, with \<open>RW\<close> and \<open>RO\<close>.

  Transactions are serial here: a transaction runs from its begin to its end with no statement of
  another one in between.
\<close>

section \<open>Rows and tables\<close>

record player_row =
  p_id :: uuid
  p_nickname :: "string option"
  p_registered_at :: go_time
  p_updated_at :: go_time

record identity_row =
  pi_id :: uuid
  pi_player_id :: uuid
  pi_provider :: string
  pi_provider_uid :: string
  pi_created_at :: go_time

record refresh_token_row =
  rt_id :: uuid
  rt_player_id :: uuid
  rt_token_hash :: bytes
  rt_expires_at :: go_time
  rt_revoked_at :: "go_time option"
  rt_created_at :: go_time

record friend_request_row =
  fr_id :: uuid
  fr_requester_id :: uuid
  fr_addressee_id :: uuid
  fr_created_at :: go_time

record friendship_row =
  f_id :: uuid
  f_player_low :: uuid
  f_player_high :: uuid
  f_created_at :: go_time

record block_row =
  b_id :: uuid
  b_blocker_id :: uuid
  b_blocked_id :: uuid
  b_created_at :: go_time

record group_row =
  g_id :: uuid
  g_name :: string
  g_owner_id :: uuid
  g_founded_at :: go_time

record group_member_row =
  gm_id :: uuid
  gm_group_id :: uuid
  gm_player_id :: uuid
  gm_joined_at :: go_time

record direct_message_row =
  dm_id :: uuid
  dm_player_low :: uuid
  dm_player_high :: uuid
  dm_sender_id :: uuid
  dm_body :: string
  dm_created_at :: go_time

record channel_message_row =
  cm_id :: uuid
  cm_channel_id :: uuid
  cm_sender_id :: uuid
  cm_body :: string
  cm_created_at :: go_time

record player_file_row =
  pf_id :: uuid
  pf_owner_id :: uuid
  pf_filename :: string
  pf_size :: int
  pf_hash :: string
  pf_modified_at :: go_time
  pf_created_at :: go_time

record title_file_row =
  tf_id :: uuid
  tf_filename :: string
  tf_size :: int
  tf_hash :: string
  tf_tags :: "string list"
  tf_modified_at :: go_time
  tf_created_at :: go_time

record leaderboard_row =
  le_id :: uuid
  le_leaderboard_id :: string
  le_player_id :: uuid
  le_score :: int
  le_achieved_at :: go_time
  le_created_at :: go_time

record tables =
  players :: "player_row list"
  player_identities :: "identity_row list"
  refresh_tokens :: "refresh_token_row list"
  friend_requests :: "friend_request_row list"
  friendships :: "friendship_row list"
  player_blocks :: "block_row list"
  groups :: "group_row list"
  group_members :: "group_member_row list"
  direct_messages :: "direct_message_row list"
  channel_messages :: "channel_message_row list"
  player_files :: "player_file_row list"
  title_files :: "title_file_row list"
  leaderboard_entries :: "leaderboard_row list"

definition empty_tables :: tables where
  "empty_tables = \<lparr>players = [], player_identities = [], refresh_tokens = [], friend_requests = [],
     friendships = [], player_blocks = [], groups = [], group_members = [], direct_messages = [],
     channel_messages = [], player_files = [], title_files = [], leaderboard_entries = []\<rparr>"

text \<open>Foreign keys to \<open>players\<close> and \<open>groups\<close>.\<close>

definition has_player :: "tables \<Rightarrow> uuid \<Rightarrow> bool" where
  "has_player t p \<longleftrightarrow> p \<in> p_id ` set (players t)"

definition has_group :: "tables \<Rightarrow> uuid \<Rightarrow> bool" where
  "has_group t g \<longleftrightarrow> g \<in> g_id ` set (groups t)"

definition nickname_of :: "tables \<Rightarrow> uuid \<Rightarrow> string option" where
  "nickname_of t p = (case find (\<lambda>r. p_id r = p) (players t) of Some r \<Rightarrow> p_nickname r | None \<Rightarrow> None)"

text \<open>The SQLSTATE codes of the constraint violations the statements can raise.\<close>

abbreviation unique_violation :: db_err where
  "unique_violation \<equiv> PgError ''23505''"

abbreviation foreign_key_violation :: db_err where
  "foreign_key_violation \<equiv> PgError ''23503''"

abbreviation check_violation :: db_err where
  "check_violation \<equiv> PgError ''23514''"

abbreviation string_truncation :: db_err where
  "string_truncation \<equiv> PgError ''22001''"

abbreviation read_only_violation :: db_err where
  "read_only_violation \<equiv> PgError ''25006''"

abbreviation in_failed_transaction :: db_err where
  "in_failed_transaction \<equiv> PgError ''25P02''"

text \<open>
  \<open>toTimestamptz\<close>: an instant written to a \<open>TIMESTAMPTZ\<close> column keeps whole microseconds, which
  is all the column's type holds.
\<close>

definition toTimestamptz :: "go_time \<Rightarrow> go_time" where
  "toTimestamptz t = t - t mod 1000"

abbreviation negative_limit :: db_err where
  "negative_limit \<equiv> PgError ''2201W''"

abbreviation negative_offset :: db_err where
  "negative_offset \<equiv> PgError ''2201X''"

text \<open>The conversion \<open>int32(n)\<close> of an \<open>int\<close>.\<close>

definition int32_of :: "int \<Rightarrow> int" where
  "int32_of n = (n + 2 ^ 31) mod 2 ^ 32 - 2 ^ 31"

lemma int32_of_small: "0 \<le> n \<Longrightarrow> n < 2 ^ 31 \<Longrightarrow> int32_of n = n"
  by (simp add: int32_of_def)

section \<open>Code that talks to the store\<close>

datatype fault = Works | Lost | AckLost

record tx_state =
  tx_readonly :: bool
  tx_aborted :: bool

record db =
  db_tables :: tables
  db_now :: go_time
  db_tx :: "tx_state option"
  db_faults :: "fault list"

type_synonym 'a tx = "db \<Rightarrow> (go_error + 'a) \<times> db"

definition tx_return :: "'a \<Rightarrow> 'a tx" where
  "tx_return x s = (Inr x, s)"

definition tx_fail :: "go_error \<Rightarrow> 'a tx" where
  "tx_fail e s = (Inl e, s)"

definition tx_bind :: "'a tx \<Rightarrow> ('a \<Rightarrow> 'b tx) \<Rightarrow> 'b tx" where
  "tx_bind m f s = (case m s of (Inl e, s') \<Rightarrow> (Inl e, s') | (Inr x, s') \<Rightarrow> f x s')"

definition tx_catch :: "'a tx \<Rightarrow> (go_error \<Rightarrow> 'a tx) \<Rightarrow> 'a tx" where
  "tx_catch m h s = (case m s of (Inl e, s') \<Rightarrow> h e s' | (Inr x, s') \<Rightarrow> (Inr x, s'))"

text \<open>\<open>err != nil && !errors.Is(err, target)\<close>: an error that is not \<open>target\<close> is passed on.\<close>

definition ignoring :: "go_error \<Rightarrow> unit tx \<Rightarrow> unit tx" where
  "ignoring target m = tx_catch m (\<lambda>e. if errors_Is e target then tx_return () else tx_fail e)"

definition next_fault :: "db \<Rightarrow> fault" where
  "next_fault s = (case db_faults s of [] \<Rightarrow> Works | f # fs \<Rightarrow> f)"

definition pop_fault :: "db \<Rightarrow> db" where
  "pop_fault s = s\<lparr>db_faults := tl (db_faults s)\<rparr>"

definition abort_tx :: "db \<Rightarrow> db" where
  "abort_tx s = s\<lparr>db_tx := map_option (\<lambda>t. t\<lparr>tx_aborted := True\<rparr>) (db_tx s)\<rparr>"

text \<open>
  One statement. \<open>f\<close> is what it does to the tables at the transaction's instant: a constraint
  violation, or its result and the tables after it.
\<close>

definition stmt :: "bool \<Rightarrow> (go_time \<Rightarrow> tables \<Rightarrow> db_err + ('a \<times> tables)) \<Rightarrow> 'a tx" where
  "stmt writes f s = (case db_tx s of
     None \<Rightarrow> (Inl (DbE ErrNoTx), s)
   | Some t \<Rightarrow>
       if tx_aborted t then (Inl (DbE in_failed_transaction), s)
       else let s1 = pop_fault s in
       if next_fault s \<noteq> Works then (Inl (DbE ErrConn), abort_tx s1)
       else if writes \<and> tx_readonly t then (Inl (DbE read_only_violation), abort_tx s1)
       else (case f (db_now s) (db_tables s) of
               Inl e \<Rightarrow> (Inl (DbE e), abort_tx s1)
             | Inr (x, t') \<Rightarrow> (Inr x, s1\<lparr>db_tables := t'\<rparr>)))"

definition sql_query :: "(tables \<Rightarrow> 'a) \<Rightarrow> 'a tx" where
  "sql_query q = stmt False (\<lambda>now t. Inr (q t, t))"

definition sql_exec :: "(go_time \<Rightarrow> tables \<Rightarrow> db_err + ('a \<times> tables)) \<Rightarrow> 'a tx" where
  "sql_exec f = stmt True f"

text \<open>A \<open>:one\<close> query: no row is \<open>pgx.ErrNoRows\<close>, which leaves the transaction usable.\<close>

definition sql_one :: "(tables \<Rightarrow> 'a option) \<Rightarrow> 'a tx" where
  "sql_one q = tx_bind (sql_query q)
     (\<lambda>r. case r of None \<Rightarrow> tx_fail (DbE ErrNoRows) | Some x \<Rightarrow> tx_return x)"

section \<open>Session\<close>

text \<open>
  \<open>Session.run\<close>: begin, the work with the transaction on its context, then commit if it returned
  no error. The deferred rollback leaves the tables as they were at the begin. Committing a failed
  transaction is a rollback that pgx reports as an error. The context the caller holds never has
  the transaction on it.
\<close>

definition rollback_to :: "db \<Rightarrow> db \<Rightarrow> db" where
  "rollback_to s s1 = s1\<lparr>db_tables := db_tables s, db_tx := db_tx s\<rparr>"

definition begin_tx :: "bool \<Rightarrow> db \<Rightarrow> db" where
  "begin_tx readonly s = (pop_fault s)\<lparr>db_tx := Some \<lparr>tx_readonly = readonly, tx_aborted = False\<rparr>\<rparr>"

definition tx_failed :: "db \<Rightarrow> bool" where
  "tx_failed s = (case db_tx s of Some t \<Rightarrow> tx_aborted t | None \<Rightarrow> False)"

definition Session_run :: "bool \<Rightarrow> 'a tx \<Rightarrow> 'a tx" where
  "Session_run readonly fn s =
     (if next_fault s \<noteq> Works then (Inl (Wrap ''db: begin tx'' (DbE ErrConn)), pop_fault s)
      else case fn (begin_tx readonly s) of
        (Inl e, s1) \<Rightarrow> (Inl e, rollback_to s s1)
      | (Inr x, s1) \<Rightarrow>
          if tx_failed s1 then
            (Inl (Wrap ''db: commit'' (DbE ErrTxCommitRollback)),
             rollback_to s s1)
          else (case next_fault s1 of
            Works \<Rightarrow> (Inr x, (pop_fault s1)\<lparr>db_tx := db_tx s\<rparr>)
          | Lost \<Rightarrow> (Inl (Wrap ''db: commit'' (DbE ErrConn)), rollback_to s (pop_fault s1))
          | AckLost \<Rightarrow> (Inl (Wrap ''db: commit'' (DbE ErrConn)), (pop_fault s1)\<lparr>db_tx := db_tx s\<rparr>)))"

definition RW :: "'a tx \<Rightarrow> 'a tx" where
  "RW fn = Session_run False fn"

definition RO :: "'a tx \<Rightarrow> 'a tx" where
  "RO fn = Session_run True fn"

lemmas tx_defs = tx_return_def tx_fail_def tx_bind_def tx_catch_def stmt_def sql_query_def
  sql_exec_def sql_one_def next_fault_def pop_fault_def abort_tx_def rollback_to_def
  begin_tx_def tx_failed_def Session_run_def RW_def RO_def

text \<open>
  \<open>outcome\<close> is what a caller sees of a call: its result and the tables after it.
\<close>

definition outcome :: "('a tx) \<Rightarrow> db \<Rightarrow> (go_error + 'a) \<times> tables" where
  "outcome m s = (fst (m s), db_tables (snd (m s)))"

section \<open>Triples\<close>

text \<open>
  \<open>tx_triple P m Q E\<close>: run on tables that satisfy \<open>P\<close>, whatever faults the script holds, code \<open>m\<close>
  ends either with a result and tables that satisfy \<open>Q\<close> or with an error and tables that satisfy
  \<open>E\<close>. One rule per combinator, so that a property of an operation is proved along its code.
\<close>

definition tx_triple ::
    "(tables \<Rightarrow> bool) \<Rightarrow> 'a tx \<Rightarrow> ('a \<Rightarrow> tables \<Rightarrow> bool) \<Rightarrow> (go_error \<Rightarrow> tables \<Rightarrow> bool) \<Rightarrow> bool" where
  "tx_triple P m Q E \<longleftrightarrow> (\<forall>s. P (db_tables s) \<longrightarrow>
     (case m s of (Inr x, s') \<Rightarrow> Q x (db_tables s') | (Inl e, s') \<Rightarrow> E e (db_tables s')))"

abbreviation preserves :: "(tables \<Rightarrow> bool) \<Rightarrow> 'a tx \<Rightarrow> bool" where
  "preserves I m \<equiv> tx_triple I m (\<lambda>_. I) (\<lambda>_. I)"

named_theorems triple_rules \<open>one rule per combinator\<close>

lemma tx_tripleD:
  assumes "tx_triple P m Q E" and "P (db_tables s)"
  shows "m s = (Inr x, s') \<Longrightarrow> Q x (db_tables s')" and "m s = (Inl e, s') \<Longrightarrow> E e (db_tables s')"
  using assms unfolding tx_triple_def by (auto dest!: spec [of _ s])

lemma tx_triple_weaken:
  assumes "tx_triple P' m Q' E'" and "\<And>t. P t \<Longrightarrow> P' t" and "\<And>x t. Q' x t \<Longrightarrow> Q x t"
    and "\<And>e t. E' e t \<Longrightarrow> E e t"
  shows "tx_triple P m Q E"
  using assms unfolding tx_triple_def by (fastforce split: prod.splits sum.splits)

lemma triple_return [triple_rules]: "(\<And>t. P t \<Longrightarrow> Q x t) \<Longrightarrow> tx_triple P (tx_return x) Q E"
  by (simp add: tx_triple_def tx_return_def)

lemma triple_fail [triple_rules]: "(\<And>t. P t \<Longrightarrow> E e t) \<Longrightarrow> tx_triple P (tx_fail e) Q E"
  by (simp add: tx_triple_def tx_fail_def)

lemma triple_bind [triple_rules]:
  "tx_triple P m R E \<Longrightarrow> (\<And>x. tx_triple (R x) (f x) Q E) \<Longrightarrow> tx_triple P (tx_bind m f) Q E"
  unfolding tx_triple_def tx_bind_def by (fastforce split: prod.splits sum.splits)

lemma triple_catch [triple_rules]:
  "tx_triple P m Q F \<Longrightarrow> (\<And>e. tx_triple (F e) (h e) Q E) \<Longrightarrow> tx_triple P (tx_catch m h) Q E"
  unfolding tx_triple_def tx_catch_def by (fastforce split: prod.splits sum.splits)

lemma triple_if [triple_rules]:
  "(c \<Longrightarrow> tx_triple P m Q E) \<Longrightarrow> (\<not> c \<Longrightarrow> tx_triple P n Q E) \<Longrightarrow> tx_triple P (if c then m else n) Q E"
  by simp

lemma triple_option [triple_rules]:
  "(y = None \<Longrightarrow> tx_triple P m Q E) \<Longrightarrow> (\<And>x. y = Some x \<Longrightarrow> tx_triple P (f x) Q E) \<Longrightarrow>
   tx_triple P (case y of None \<Rightarrow> m | Some x \<Rightarrow> f x) Q E"
  by (cases y) simp_all

lemma triple_let [triple_rules]: "tx_triple P (f x) Q E \<Longrightarrow> tx_triple P (let y = x in f y) Q E"
  by simp

lemma triple_stmt:
  assumes "\<And>now t x t'. P t \<Longrightarrow> f now t = Inr (x, t') \<Longrightarrow> Q x t'" and "\<And>e t. P t \<Longrightarrow> E (DbE e) t"
  shows "tx_triple P (stmt w f) Q E"
  unfolding tx_triple_def
proof (intro allI impI)
  fix s :: db assume P: "P (db_tables s)"
  then show "case stmt w f s of (Inr x, s') \<Rightarrow> Q x (db_tables s') | (Inl e, s') \<Rightarrow> E e (db_tables s')"
    using assms(1) [OF P, of "db_now s"] assms(2) [OF P]
    by (auto simp: stmt_def Let_def abort_tx_def pop_fault_def split: option.splits sum.splits)
qed

lemma triple_exec [triple_rules]:
  assumes "\<And>now t x t'. P t \<Longrightarrow> f now t = Inr (x, t') \<Longrightarrow> Q x t'" and "\<And>e t. P t \<Longrightarrow> E (DbE e) t"
  shows "tx_triple P (sql_exec f) Q E"
  unfolding sql_exec_def by (rule triple_stmt) (fact assms)+

lemma triple_query [triple_rules]:
  "(\<And>t. P t \<Longrightarrow> Q (q t) t) \<Longrightarrow> (\<And>e t. P t \<Longrightarrow> E (DbE e) t) \<Longrightarrow> tx_triple P (sql_query q) Q E"
  unfolding sql_query_def by (rule triple_stmt) auto

lemma triple_one [triple_rules]:
  "(\<And>t x. P t \<Longrightarrow> q t = Some x \<Longrightarrow> Q x t) \<Longrightarrow> (\<And>e t. P t \<Longrightarrow> E (DbE e) t) \<Longrightarrow>
   tx_triple P (sql_one q) Q E"
  unfolding sql_one_def
  by (rule triple_bind [where R = "\<lambda>r t. P t \<and> r = q t"]; rule triple_query triple_option)
    (auto intro!: triple_return triple_fail)

lemma triple_affected:
  assumes "\<And>t. P t \<Longrightarrow> n t \<noteq> 0 \<Longrightarrow> Q () (upd t)" and "\<And>t. P t \<Longrightarrow> n t = 0 \<Longrightarrow> E e (upd t)"
    and "\<And>d t. P t \<Longrightarrow> E (DbE d) t"
  shows "tx_triple P (tx_bind (sql_exec (\<lambda>now t. Inr (n t, upd t)))
     (\<lambda>a. if a = (0::nat) then tx_fail e else tx_return ())) Q E"
  by (rule triple_bind [where R = "\<lambda>a t'. \<exists>t. P t \<and> a = n t \<and> t' = upd t"], rule triple_exec)
    (auto intro!: triple_if triple_fail triple_return simp: assms)

lemma triple_step:
  assumes "tx_triple P m R F" and "\<And>x. tx_triple (R x) (f x) Q E" and "\<And>e t. F e t \<Longrightarrow> E e t"
  shows "tx_triple P (tx_bind m f) Q E"
  by (rule triple_bind [OF tx_triple_weaken [OF assms(1) _ _ assms(3)] assms(2)])

lemma triple_tail:
  assumes "tx_triple P m R F" and "\<And>x t. R x t \<Longrightarrow> Q x t" and "\<And>e t. F e t \<Longrightarrow> E e t"
  shows "tx_triple P m Q E"
  by (rule tx_triple_weaken [OF assms(1) _ assms(2) assms(3)])

lemma triple_ignoring:
  assumes "tx_triple P m R F" and "\<And>t. R () t \<Longrightarrow> Q () t"
    and "\<And>e t. F e t \<Longrightarrow> errors_Is e target \<Longrightarrow> Q () t"
    and "\<And>e t. F e t \<Longrightarrow> \<not> errors_Is e target \<Longrightarrow> E e t"
  shows "tx_triple P (ignoring target m) Q E"
  unfolding ignoring_def
  by (rule triple_catch [OF triple_tail [OF assms(1), of Q F]])
    (auto intro!: triple_if triple_return triple_fail intro: assms(2-4))

section \<open>What a transaction runner promises\<close>

text \<open>
  The contract of \<open>tx.ReadWriter\<close> (\<open>internal/usecase/tx/tx.go\<close>): what is returned as a success was
  committed as the work left it. An error is either the work's own, passed on as it is, with the
  tables untouched, or one of the store (\<open>infra\<close>), and then the tables are untouched or, when the
  commit's answer was lost, as the finished work left them; never in between.
\<close>

fun infra :: "go_error \<Rightarrow> bool" where
  "infra (DbE e) = True"
| "infra (Wrap m e) = infra e"
| "infra e = False"

locale transactor =
  fixes rw :: "'a tx \<Rightarrow> 'a tx"
  assumes commits: "rw fn s = (Inr x, s') \<Longrightarrow>
      \<exists>s0 s1. db_tables s0 = db_tables s \<and> fn s0 = (Inr x, s1) \<and> db_tables s' = db_tables s1"
    and atomic: "rw fn s = (Inl e, s') \<Longrightarrow>
      db_tables s' = db_tables s \<and> (\<exists>s0 s1. db_tables s0 = db_tables s \<and> fn s0 = (Inl e, s1)) \<or>
      infra e \<and> (db_tables s' = db_tables s \<or>
        (\<exists>s0 s1 x. db_tables s0 = db_tables s \<and> fn s0 = (Inr x, s1) \<and> db_tables s' = db_tables s1))"
begin

text \<open>The tables the work leaves with an error of its own do not matter: they are rolled back.\<close>

lemma run_triple:
  assumes "tx_triple P fn Q F"
  shows "tx_triple P (rw fn) Q (\<lambda>e t. P t \<and> (\<exists>t'. F e t') \<or> infra e \<and> (P t \<or> (\<exists>x. Q x t)))"
  unfolding tx_triple_def
proof (intro allI impI)
  fix s :: db assume P: "P (db_tables s)"
  obtain r s' where r: "rw fn s = (r, s')" by fastforce
  show "case rw fn s of (Inr x, s') \<Rightarrow> Q x (db_tables s')
    | (Inl e, s') \<Rightarrow> P (db_tables s') \<and> (\<exists>t'. F e t')
        \<or> infra e \<and> (P (db_tables s') \<or> (\<exists>x. Q x (db_tables s')))"
  proof (cases r)
    case (Inr x)
    then have "Q x (db_tables s')"
      using commits [of fn s x s'] r P tx_tripleD(1) [OF assms] by metis
    then show ?thesis using r Inr by simp
  next
    case (Inl e)
    then have "P (db_tables s') \<and> (\<exists>t'. F e t') \<or> infra e \<and> (P (db_tables s') \<or> (\<exists>x. Q x (db_tables s')))"
      using atomic [of fn s e s'] r P tx_tripleD [OF assms] by metis
    then show ?thesis using r Inl by simp
  qed
qed

lemma run_preserves:
  assumes "tx_triple I fn (\<lambda>_. I) F"
  shows "preserves I (rw fn)"
  using run_triple [OF assms] by (rule tx_triple_weaken) auto

end

lemma db_tables_begin_tx [simp]: "db_tables (begin_tx ro s) = db_tables s"
  by (simp add: begin_tx_def pop_fault_def)

text \<open>The laws, for the session: each success and each error comes from one branch of \<open>run\<close>.\<close>

lemma Session_run_commits:
  assumes "Session_run ro fn s = (Inr x, s')"
  shows "\<exists>s1. fn (begin_tx ro s) = (Inr x, s1) \<and> db_tables s' = db_tables s1"
  using assms by (auto simp: Session_run_def pop_fault_def
      split: if_splits prod.splits sum.splits fault.splits)

lemma Session_run_atomic:
  assumes "Session_run ro fn s = (Inl e, s')"
  shows "db_tables s' = db_tables s \<and> (\<exists>s1. fn (begin_tx ro s) = (Inl e, s1)) \<or>
    infra e \<and> (db_tables s' = db_tables s \<or>
      (\<exists>s1 x. fn (begin_tx ro s) = (Inr x, s1) \<and> next_fault s1 = AckLost \<and> db_tables s' = db_tables s1))"
  using assms by (auto simp: Session_run_def pop_fault_def rollback_to_def
      split: if_splits prod.splits sum.splits fault.splits)

lemma transactor_Session_run: "transactor (Session_run ro)"
proof
  fix fn :: "'a tx" and s x s'
  assume "Session_run ro fn s = (Inr x, s')"
  then show "\<exists>s0 s1. db_tables s0 = db_tables s \<and> fn s0 = (Inr x, s1) \<and> db_tables s' = db_tables s1"
    using Session_run_commits [of ro fn s x s'] db_tables_begin_tx [of ro s] by metis
next
  fix fn :: "'a tx" and s e s'
  assume "Session_run ro fn s = (Inl e, s')"
  then show "db_tables s' = db_tables s \<and> (\<exists>s0 s1. db_tables s0 = db_tables s \<and> fn s0 = (Inl e, s1)) \<or>
    infra e \<and> (db_tables s' = db_tables s \<or>
      (\<exists>s0 s1 x. db_tables s0 = db_tables s \<and> fn s0 = (Inr x, s1) \<and> db_tables s' = db_tables s1))"
    using Session_run_atomic [of ro fn s e s'] db_tables_begin_tx [of ro s] by metis
qed

interpretation session_rw: transactor RW
  using transactor_Session_run [of False] by (simp add: RW_def [abs_def])

interpretation session_ro: transactor RO
  using transactor_Session_run [of True] by (simp add: RO_def [abs_def])

lemmas triple_RW [triple_rules] = session_rw.run_preserves
lemmas triple_RO [triple_rules] = session_ro.run_preserves

section \<open>Refinement of an abstract component\<close>

text \<open>
  A component stores an abstract state: \<open>ok\<close> says which tables represent one and \<open>view\<close> reads it.
  \<open>refines ok view m spec\<close>: under any faults, \<open>m\<close> either returns what the abstract operation \<open>spec\<close>
  returns and leaves its state, or reports an error of the store, and then the abstract state is
  the old one or, after a lost acknowledgement, the one \<open>spec\<close> leads to. The tables stay well formed.
\<close>

definition on_abs :: "(tables \<Rightarrow> bool) \<Rightarrow> (tables \<Rightarrow> 'g) \<Rightarrow> ('g \<Rightarrow> bool) \<Rightarrow> tables \<Rightarrow> bool" where
  "on_abs ok view G t \<longleftrightarrow> ok t \<and> G (view t)"

definition refines ::
    "(tables \<Rightarrow> bool) \<Rightarrow> (tables \<Rightarrow> 'g) \<Rightarrow> 'a tx \<Rightarrow> ('g \<Rightarrow> (go_error + 'a) \<times> 'g) \<Rightarrow> bool" where
  "refines ok view m spec \<longleftrightarrow> (\<forall>g0. tx_triple (on_abs ok view (\<lambda>g. g = g0)) m
     (\<lambda>x. on_abs ok view (\<lambda>g. spec g0 = (Inr x, g)))
     (\<lambda>e. on_abs ok view (\<lambda>g. spec g0 = (Inl e, g) \<or> infra e \<and> (g = g0 \<or> (\<exists>x. spec g0 = (Inr x, g))))))"

lemma refines_RW:
  assumes "\<And>g0. tx_triple (on_abs ok view (\<lambda>g. g = g0)) work
      (\<lambda>x. on_abs ok view (\<lambda>g. spec g0 = (Inr x, g))) (\<lambda>e t. infra e \<or> spec g0 = (Inl e, g0))"
  shows "refines ok view (RW work) spec"
  unfolding refines_def
  by (intro allI, rule tx_triple_weaken [OF session_rw.run_triple [OF assms]]) (auto simp: on_abs_def)

lemma refines_RO:
  assumes "\<And>g0. tx_triple (on_abs ok view (\<lambda>g. g = g0)) work
      (\<lambda>x. on_abs ok view (\<lambda>g. spec g0 = (Inr x, g))) (\<lambda>e t. infra e \<or> spec g0 = (Inl e, g0))"
  shows "refines ok view (RO work) spec"
  unfolding refines_def
  by (intro allI, rule tx_triple_weaken [OF session_ro.run_triple [OF assms]]) (auto simp: on_abs_def)

lemma refines_fail: "(\<And>g. spec g = (Inl e, g)) \<Longrightarrow> refines ok view (tx_fail e) spec"
  unfolding refines_def by (auto intro!: triple_fail simp: on_abs_def)

lemma refinesD:
  assumes "refines ok view m spec" and "ok (db_tables s)"
  shows "m s = (Inr x, s') \<Longrightarrow> ok (db_tables s') \<and> spec (view (db_tables s)) = (Inr x, view (db_tables s'))"
    and "m s = (Inl e, s') \<Longrightarrow> ok (db_tables s') \<and>
      (spec (view (db_tables s)) = (Inl e, view (db_tables s')) \<or>
       infra e \<and> (view (db_tables s') = view (db_tables s)
         \<or> (\<exists>x. spec (view (db_tables s)) = (Inr x, view (db_tables s')))))"
proof -
  let ?g = "view (db_tables s)"
  have g: "on_abs ok view (\<lambda>g. g = ?g) (db_tables s)" using assms(2) by (simp add: on_abs_def)
  note t = tx_tripleD [OF spec [OF assms(1) [unfolded refines_def], of ?g] g]
  show "m s = (Inr x, s') \<Longrightarrow> ok (db_tables s') \<and> spec ?g = (Inr x, view (db_tables s'))"
    using t(1) unfolding on_abs_def by metis
  show "m s = (Inl e, s') \<Longrightarrow> ok (db_tables s') \<and>
      (spec ?g = (Inl e, view (db_tables s')) \<or>
       infra e \<and> (view (db_tables s') = ?g \<or> (\<exists>x. spec ?g = (Inr x, view (db_tables s')))))"
    using t(2) unfolding on_abs_def by metis
qed

text \<open>What the abstract operation keeps, the concrete one keeps, under any faults.\<close>

lemma refines_preserves:
  assumes "refines ok view m spec" and "\<And>g r g'. I g \<Longrightarrow> spec g = (r, g') \<Longrightarrow> I g'"
  shows "preserves (on_abs ok view I) m"
  unfolding tx_triple_def
proof (intro allI impI)
  fix s :: db assume I: "on_abs ok view I (db_tables s)"
  then have ok: "ok (db_tables s)" and Ig: "I (view (db_tables s))" by (simp_all add: on_abs_def)
  obtain r s' where r: "m s = (r, s')" by fastforce
  have "ok (db_tables s') \<and> I (view (db_tables s'))"
  proof (cases r)
    case (Inl e)
    then show ?thesis using refinesD(2) [OF assms(1) ok, of e s'] r Ig assms(2) [OF Ig] by metis
  next
    case (Inr x)
    then show ?thesis using refinesD(1) [OF assms(1) ok, of x s'] r assms(2) [OF Ig] by metis
  qed
  then show "case m s of (Inr x, s') \<Rightarrow> on_abs ok view I (db_tables s')
    | (Inl e, s') \<Rightarrow> on_abs ok view I (db_tables s')"
    using r by (simp add: on_abs_def split: sum.split)
qed

text \<open>The outcome of a call, read off the refinement.\<close>

lemma refines_outcome:
  assumes "refines ok view m spec" and "ok (db_tables s)" and "outcome m s = (r, t)"
  shows "ok t \<and> ((r, view t) = spec (view (db_tables s)) \<or>
      (\<exists>e. r = Inl e \<and> infra e \<and> (view t = view (db_tables s)
        \<or> (\<exists>x. spec (view (db_tables s)) = (Inr x, view t)))))"
proof (cases r)
  case (Inl e)
  then show ?thesis
    using refinesD(2) [OF assms(1,2), of e "snd (m s)"] assms(3) by (cases "m s") (auto simp: outcome_def)
next
  case (Inr x)
  then show ?thesis
    using refinesD(1) [OF assms(1,2), of x "snd (m s)"] assms(3) by (cases "m s") (auto simp: outcome_def)
qed

section \<open>Runs without faults\<close>

text \<open>
  With an empty fault script a transaction runs its statements on the tables one after the other,
  and an operation is determined by what the statements do. \<open>quiet\<close> says so of a state, and
  \<open>tx_eval\<close> collects the equations that evaluate a session there.
\<close>

definition quiet :: "db \<Rightarrow> bool" where
  "quiet s \<longleftrightarrow> db_faults s = [] \<and> db_tx s = None"

definition live :: "bool \<Rightarrow> db \<Rightarrow> bool" where
  "live ro s \<longleftrightarrow> db_faults s = [] \<and> db_tx s = Some \<lparr>tx_readonly = ro, tx_aborted = False\<rparr>"

named_theorems tx_eval \<open>evaluation of a session whose fault script is empty\<close>

lemma live_begin_tx [simp]: "quiet s \<Longrightarrow> live ro (begin_tx ro s)"
  by (simp add: quiet_def live_def begin_tx_def pop_fault_def)

lemma db_now_begin_tx [simp]: "db_now (begin_tx ro s) = db_now s"
  by (simp add: begin_tx_def pop_fault_def)

lemma live_tables [simp]: "live ro (s\<lparr>db_tables := t\<rparr>) = live ro s"
  by (simp add: live_def)

lemma pop_fault_live: "live ro s \<Longrightarrow> pop_fault s = s"
  by (simp add: live_def pop_fault_def)

lemma return_eval [tx_eval]: "tx_return x s = (Inr x, s)"
  by (simp add: tx_return_def)

lemma fail_eval [tx_eval]: "tx_fail e s = (Inl e, s)"
  by (simp add: tx_fail_def)

lemma query_eval [tx_eval]: "live ro s \<Longrightarrow> sql_query q s = (Inr (q (db_tables s)), s)"
  by (simp add: sql_query_def stmt_def live_def next_fault_def pop_fault_def Let_def)

lemma one_eval [tx_eval]:
  "live ro s \<Longrightarrow> sql_one q s =
     (case q (db_tables s) of None \<Rightarrow> (Inl (DbE ErrNoRows), s) | Some x \<Rightarrow> (Inr x, s))"
  by (simp add: sql_one_def tx_bind_def query_eval tx_return_def tx_fail_def split: option.split)

lemma exec_eval [tx_eval]:
  "live False s \<Longrightarrow> sql_exec f s =
     (case f (db_now s) (db_tables s) of
        Inl e \<Rightarrow> (Inl (DbE e), abort_tx s) | Inr (x, t) \<Rightarrow> (Inr x, s\<lparr>db_tables := t\<rparr>))"
  using pop_fault_live [of False s]
  by (simp add: sql_exec_def stmt_def live_def next_fault_def Let_def split: sum.split)

lemma bind_eval [tx_eval]:
  "tx_bind m f s = (case m s of (Inl e, s') \<Rightarrow> (Inl e, s') | (Inr x, s') \<Rightarrow> f x s')"
  by (simp add: tx_bind_def)

lemma catch_eval [tx_eval]:
  "tx_catch m h s = (case m s of (Inl e, s') \<Rightarrow> h e s' | (Inr x, s') \<Rightarrow> (Inr x, s'))"
  by (simp add: tx_catch_def)

text \<open>A finished transaction, by its outcome.\<close>

lemma Session_run_success:
  assumes "quiet s" and "fn (begin_tx ro s) = (Inr x, s1)" and "live ro s1"
  shows "Session_run ro fn s = (Inr x, s1\<lparr>db_tx := None\<rparr>)"
  using assms
  by (simp add: Session_run_def quiet_def live_def next_fault_def tx_failed_def pop_fault_def)

lemma Session_run_error:
  assumes "quiet s" and "fn (begin_tx ro s) = (Inl e, s1)"
  shows "Session_run ro fn s = (Inl e, s1\<lparr>db_tables := db_tables s, db_tx := None\<rparr>)"
  using assms by (simp add: Session_run_def quiet_def next_fault_def rollback_to_def)

lemma outcome_run_success:
  assumes "quiet s" and "fn (begin_tx ro s) = (Inr x, s1)" and "live ro s1"
  shows "outcome (Session_run ro fn) s = (Inr x, db_tables s1)"
  using Session_run_success [of s fn ro x s1] assms by (simp add: outcome_def)

lemma outcome_run_error:
  assumes "quiet s" and "fn (begin_tx ro s) = (Inl e, s1)"
  shows "outcome (Session_run ro fn) s = (Inl e, db_tables s)"
  using Session_run_error [of s fn ro e s1] assms by (simp add: outcome_def)

lemma stmt_eval [tx_eval]:
  "live ro s \<Longrightarrow> stmt False f s = (case f (db_now s) (db_tables s) of
     Inl e \<Rightarrow> (Inl (DbE e), abort_tx s) | Inr (x, t) \<Rightarrow> (Inr x, s\<lparr>db_tables := t\<rparr>))"
  using pop_fault_live [of ro s] by (simp add: stmt_def live_def next_fault_def Let_def split: sum.split)

lemma RO_outcome:
  assumes "quiet s" and "work (begin_tx True s) = (r, begin_tx True s)"
  shows "outcome (RO work) s = (r, db_tables s)"
proof (cases r)
  case (Inl e)
  then show ?thesis using outcome_run_error [OF assms(1), of work True e] assms(2) by (simp add: RO_def)
next
  case (Inr x)
  then show ?thesis
    using outcome_run_success [OF assms(1), of work True x] assms live_begin_tx [OF assms(1), of True] by (simp add: RO_def)
qed

lemma preserves_snd: "preserves I m \<Longrightarrow> I (db_tables s) \<Longrightarrow> I (db_tables (snd (m s)))"
  by (cases "m s"; cases "fst (m s)") (auto dest: tx_tripleD)

lemma preserves_RO_query: "preserves I (RO (sql_query q))"
  by (rule session_ro.run_preserves, rule triple_query) auto

lemma outcome_fail: "outcome (tx_fail e) s = (Inl e, db_tables s)"
  by (simp add: outcome_def tx_fail_def)


definition clean :: "'a tx \<Rightarrow> db \<Rightarrow> bool" where
  "clean m s \<longleftrightarrow> (case m s of (Inr x, s') \<Rightarrow> live False s' | (Inl e, s') \<Rightarrow> \<not> infra e)"

lemma refines_clean:
  assumes "refines ok view (RW work) spec" and "quiet s" and "ok (db_tables s)"
    and "clean work (begin_tx False s)"
  shows "(fst (outcome (RW work) s), view (snd (outcome (RW work) s))) = spec (view (db_tables s))"
proof -
  obtain r s1 where w: "work (begin_tx False s) = (r, s1)" by fastforce
  have "\<not> (\<exists>e. fst (outcome (RW work) s) = Inl e \<and> infra e)"
  proof (cases r)
    case (Inl e)
    then show ?thesis
      using outcome_run_error [of s work False e s1] assms(2,4) w by (simp add: RW_def clean_def)
  next
    case (Inr x)
    then show ?thesis
      using outcome_run_success [of s work False x s1] assms(2,4) w by (simp add: RW_def clean_def)
  qed
  then show ?thesis
    using refines_outcome [OF assms(1,3), of "fst (outcome (RW work) s)" "snd (outcome (RW work) s)"] by auto
qed

lemma refines_exact:
  assumes "refines ok view (RW work) spec" "quiet s" "ok (db_tables s)" "clean work (begin_tx False s)"
  shows "map_prod (\<lambda>r. r) view (outcome (RW work) s) = spec (view (db_tables s))"
  using refines_clean [OF assms] by (cases "outcome (RW work) s") simp

lemma RO_query_outcome: "quiet s \<Longrightarrow> outcome (RO (sql_query q)) s = (Inr (q (db_tables s)), db_tables s)"
  using outcome_run_success [of s "sql_query q" True "q (db_tables s)" "begin_tx True s"]
  by (simp add: RO_def query_eval [of True])

section \<open>Handling errors and rows\<close>

text \<open>
  The three shapes of error handling the code has: an error turned into a domain error when it is
  \<open>target\<close>, \<open>fmt.Errorf\<close> around whatever error there is, and a lookup whose \<open>target\<close> error means absence.
\<close>

definition tx_mapping :: "go_error \<Rightarrow> go_error \<Rightarrow> 'a tx \<Rightarrow> 'a tx" where
  "tx_mapping target err m = tx_catch m (\<lambda>e. if errors_Is e target then tx_fail err else tx_fail e)"

definition tx_wrap :: "string \<Rightarrow> 'a tx \<Rightarrow> 'a tx" where
  "tx_wrap msg m = tx_catch m (\<lambda>e. tx_fail (Wrap msg e))"

definition tx_optional :: "go_error \<Rightarrow> 'a tx \<Rightarrow> 'a option tx" where
  "tx_optional target m = tx_catch (tx_bind m (\<lambda>x. tx_return (Some x)))
     (\<lambda>e. if errors_Is e target then tx_return None else tx_fail e)"

definition lift_result :: "'a result \<Rightarrow> 'a tx" where
  "lift_result r = (case r of Inl e \<Rightarrow> tx_fail e | Inr x \<Rightarrow> tx_return x)"

lemma find_Some: "find P xs = Some x \<Longrightarrow> x \<in> set xs \<and> P x"
  by (auto simp: find_Some_iff)

lemma query_errors: "sql_query q s = (Inl e, s') \<Longrightarrow> db_tables s' = db_tables s \<and> (\<exists>d. e = DbE d \<and> d \<noteq> ErrNoRows)"
  by (auto simp: sql_query_def stmt_def Let_def abort_tx_def pop_fault_def split: option.splits if_splits)

lemma query_result: "sql_query q s = (Inr x, s') \<Longrightarrow> db_tables s' = db_tables s \<and> x = q (db_tables s)"
  by (auto simp: sql_query_def stmt_def Let_def abort_tx_def pop_fault_def split: option.splits if_splits)

lemma triple_lookup:
  assumes "\<And>t x. P t \<Longrightarrow> q t = Some x \<Longrightarrow> Q x t" and "\<And>t. P t \<Longrightarrow> q t = None \<Longrightarrow> E (DbE ErrNoRows) t"
    and "\<And>e t. P t \<Longrightarrow> e \<noteq> ErrNoRows \<Longrightarrow> E (DbE e) t"
  shows "tx_triple P (sql_one q) Q E"
  unfolding tx_triple_def
proof (intro allI impI)
  fix s :: db assume P: "P (db_tables s)"
  obtain r s' where run: "sql_query q s = (r, s')" by fastforce
  show "case sql_one q s of (Inr x, s') \<Rightarrow> Q x (db_tables s') | (Inl e, s') \<Rightarrow> E e (db_tables s')"
  proof (cases r)
    case (Inl e)
    then show ?thesis using run query_errors [of q s e s'] assms(3) [OF P] by (auto simp: sql_one_def tx_bind_def)
  next
    case (Inr x)
    then have "db_tables s' = db_tables s" "x = q (db_tables s)" using run query_result [of q s x s'] by auto
    then show ?thesis using run Inr assms(1,2) [OF P]
      by (auto simp: sql_one_def tx_bind_def tx_return_def tx_fail_def split: option.split)
  qed
qed

lemma triple_mapping:
  assumes "tx_triple P m Q E" and "\<And>e t. E e t \<Longrightarrow> P t"
  shows "tx_triple P (tx_mapping target err m) Q (\<lambda>_. P)"
  unfolding tx_mapping_def
  by (rule triple_catch [OF assms(1)]) (auto intro!: triple_if triple_fail intro: assms(2))

lemma triple_wrap: "tx_triple P m Q (\<lambda>_. F) \<Longrightarrow> tx_triple P (tx_wrap msg m) Q (\<lambda>_. F)"
  unfolding tx_wrap_def by (rule triple_catch) (auto intro!: triple_fail)

lemma triple_optional:
  assumes "tx_triple P m Q (\<lambda>_. F)"
  shows "tx_triple P (tx_optional target m) (\<lambda>r t. case r of Some x \<Rightarrow> Q x t | None \<Rightarrow> F t) (\<lambda>_. F)"
  unfolding tx_optional_def
  by (rule triple_catch [where F = "\<lambda>_. F"], rule triple_bind [OF assms])
     (auto intro!: triple_return triple_if triple_fail)

lemma triple_lift: "(\<And>x. r = Inr x \<Longrightarrow> (\<And>t. P t \<Longrightarrow> Q x t)) \<Longrightarrow> tx_triple P (lift_result r) Q (\<lambda>_. P)"
  by (cases r) (auto simp: lift_result_def intro!: triple_return triple_fail)

text \<open>
  \<open>JOIN players p ON p.id = \<dots>\<close>, and \<open>ORDER BY \<dots> DESC\<close> as the stable sort: rows with equal keys keep
  the order they were inserted in, one of those SQL allows.
\<close>

definition join_player :: "tables \<Rightarrow> uuid \<Rightarrow> (player_row \<Rightarrow> 'a) \<Rightarrow> 'a list" where
  "join_player t p f = map f (filter (\<lambda>row. p_id row = p) (players t))"

definition newest_first :: "('a \<Rightarrow> go_time) \<Rightarrow> 'a list \<Rightarrow> 'a list" where
  "newest_first key rows = sort_by (\<lambda>x y. key y < key x) rows"

lemma newest_first_sorted: "sorted_wrt (\<lambda>x y. key x \<ge> key y) (newest_first key xs)"
  using sorted_sort_by [OF strict_weak_key [of key], of xs] by (simp add: newest_first_def not_less)

lemma set_newest_first [simp]: "set (newest_first key xs) = set xs"
  by (simp add: newest_first_def)

lemma distinct_map_newest_first [simp]: "distinct (map f (newest_first key xs)) = distinct (map f xs)"
  by (metis mset_eq_imp_distinct_iff mset_map mset_sort_by newest_first_def)

definition oldest_first :: "('a \<Rightarrow> go_time) \<Rightarrow> 'a list \<Rightarrow> 'a list" where
  "oldest_first key rows = sort_by (\<lambda>x y. key x < key y) rows"

lemma oldest_first_sorted: "sorted_wrt (\<lambda>x y. key x \<le> key y) (oldest_first key xs)"
proof -
  have "strict_weak (\<lambda>x y. key x < key y)" by (auto simp: strict_weak_def)
  then show ?thesis using sorted_sort_by [of "\<lambda>x y. key x < key y" xs] by (simp add: oldest_first_def not_less)
qed

lemma set_oldest_first [simp]: "set (oldest_first key xs) = set xs"
  by (simp add: oldest_first_def)

lemma distinct_map_oldest_first [simp]: "distinct (map f (oldest_first key xs)) = distinct (map f xs)"
  by (metis mset_eq_imp_distinct_iff mset_map mset_sort_by oldest_first_def)

lemma join_player_ids:
  assumes "distinct (map p_id (players t))" and "has_player t p" and "\<And>row. key (f row) = p_id row"
  shows "map key (join_player t p f) = [p]"
  using filter_key_singleton [of p_id "players t" p] assms
  by (auto simp: has_player_def join_player_def)

lemma has_player_cong: "players t' = players t \<Longrightarrow> has_player t' = has_player t"
  by (simp add: has_player_def fun_eq_iff)

text \<open>Small stores, for concrete instances of the properties.\<close>

definition sample_player :: "uuid \<Rightarrow> player_row" where
  "sample_player u = \<lparr>p_id = u, p_nickname = None, p_registered_at = 0, p_updated_at = 0\<rparr>"

definition sample_db :: "uuid list \<Rightarrow> db" where
  "sample_db us = \<lparr>db_tables = empty_tables\<lparr>players := map sample_player us\<rparr>, db_now = 0, db_tx = None,
     db_faults = []\<rparr>"

lemmas sample_simps = sample_db_def sample_player_def empty_tables_def quiet_def

end
