(* ===== verification/Connect.thy ===== *)
theory Connect
  imports Database
begin

text \<open>
  The request boundary of the gateway: the authenticated player on the request's context
  (\<open>internal/infra/connectrpc/authctx\<close>), the interceptor that puts it there
  (\<open>internal/infra/connectrpc/interceptor/auth.go\<close>), and Connect's error codes. The token verifier
  the interceptor calls is an argument, as it is a field of the interceptor in the code.
\<close>

datatype code = CodeInvalidArgument | CodeNotFound | CodeAlreadyExists | CodePermissionDenied
  | CodeResourceExhausted | CodeFailedPrecondition | CodeUnauthenticated | CodeInternal | CodeUnimplemented

type_synonym connect_error = "code \<times> go_error"
type_synonym 'a response = "connect_error + 'a"

record ctx =
  ctx_player :: "uuid option"

definition authctx_With :: "ctx \<Rightarrow> uuid \<Rightarrow> ctx" where
  "authctx_With c p = c\<lparr>ctx_player := Some p\<rparr>"

definition authctx_From :: "ctx \<Rightarrow> uuid option" where
  "authctx_From c = ctx_player c"

definition bearerPrefix :: string where
  "bearerPrefix = ''Bearer ''"

text \<open>
  \<open>populate\<close>: the value of the Authorization header (empty when absent) and a verifier that gives
  the player id of a valid token.
\<close>

definition auth_populate :: "(string \<Rightarrow> go_error + uuid) \<Rightarrow> string \<Rightarrow> ctx \<Rightarrow> ctx" where
  "auth_populate verify raw c =
     (if raw = [] then c
      else case CutPrefix raw bearerPrefix of
        None \<Rightarrow> c
      | Some rawToken \<Rightarrow> (case verify rawToken of Inl e \<Rightarrow> c | Inr p \<Rightarrow> authctx_With c p))"

text \<open>\<open>requireAuth\<close>, which every authenticated handler starts with.\<close>

definition requireAuth :: "ctx \<Rightarrow> uuid response" where
  "requireAuth c = (case authctx_From c of
     None \<Rightarrow> Inl (CodeUnauthenticated, ErrorString ''authentication required'')
   | Some p \<Rightarrow> Inr p)"

lemma requireAuth_simps [simp]:
  "ctx_player c = Some p \<Longrightarrow> requireAuth c = Inr p"
  "ctx_player c = None \<Longrightarrow> requireAuth c = Inl (CodeUnauthenticated, ErrorString ''authentication required'')"
  by (simp_all add: requireAuth_def authctx_From_def)

text \<open>
  A handler that passes a usecase's result on: \<open>f\<close> makes the response, \<open>toErr\<close> is the package's
  \<open>toConnectError\<close>.
\<close>

definition respond :: "(go_error \<Rightarrow> connect_error) \<Rightarrow> ('a \<Rightarrow> 'b) \<Rightarrow> ((go_error + 'a) \<times> 's) \<Rightarrow> 'b response \<times> 's" where
  "respond toErr f r = (case r of (Inl e, s) \<Rightarrow> (Inl (toErr e), s) | (Inr x, s) \<Rightarrow> (Inr (f x), s))"

lemma snd_respond [simp]: "snd (respond toErr f r) = snd r"
  by (simp add: respond_def split: prod.split sum.split)

text \<open>\<open>if err != nil { return nil, err }\<close> before any call that changes state.\<close>

definition or_return :: "'a response \<Rightarrow> 's \<Rightarrow> ('a \<Rightarrow> 'b response \<times> 's) \<Rightarrow> 'b response \<times> 's" where
  "or_return r s k = (case r of Inl e \<Rightarrow> (Inl e, s) | Inr x \<Rightarrow> k x)"

lemma or_return_simps [simp]:
  "or_return (Inl e) s k = (Inl e, s)" "or_return (Inr x) s k = k x"
  by (simp_all add: or_return_def)

end
