(* ===== verification/Social.thy ===== *)
theory Social
  imports Connect
begin

text \<open>
  The friend graph: \<open>internal/domain/social\<close>, the statements of \<open>schema/db/queries/social.sql\<close>, the
  repositories of \<open>internal/infra/repository/social.go\<close>, the usecase \<open>internal/usecase/social\<close> and the
  handlers of \<open>internal/presentation/gateway/social\<close>.

  Every \<open>uuid.New()\<close> is an argument of the operation that calls it. \<open>social_inv\<close> is the invariant of
  the three tables, \<open>graph\<close> the graph they stand for, and the lemmas show that every operation keeps
  the invariant under any faults and, without faults, does to the graph what the abstract operation
  of \<open>Spec_\<dots>\<close> says.
\<close>

section \<open>Domain\<close>

record FriendRequest =
  Requester :: uuid
  Addressee :: uuid

record Friendship =
  Low :: uuid
  High :: uuid

record Block =
  Blocker :: uuid
  Blocked :: uuid

record Friend =
  Friend_PlayerID :: uuid
  Friend_Nickname :: "string option"
  Since :: go_time

record PendingRequest =
  Pending_PlayerID :: uuid
  Pending_Nickname :: "string option"
  RequestedAt :: go_time

record BlockedPlayer =
  Blocked_PlayerID :: uuid
  Blocked_Nickname :: "string option"
  BlockedAt :: go_time

text \<open>\<open>OrderPair\<close> compares the sixteen bytes from the first to the last.\<close>

function OrderPair_from :: "nat \<Rightarrow> uuid \<Rightarrow> uuid \<Rightarrow> uuid \<times> uuid" where
  "OrderPair_from i a b =
     (if i < 16 then
        if uuid_byte a i < uuid_byte b i then (a, b)
        else if uuid_byte a i > uuid_byte b i then (b, a)
        else OrderPair_from (i + 1) a b
      else (a, b))"
  by pat_completeness auto
termination
  by (relation "measure (\<lambda>(i, a, b). 16 - i)") auto

declare OrderPair_from.simps [simp del]

definition OrderPair :: "uuid \<Rightarrow> uuid \<Rightarrow> uuid \<times> uuid" where
  "OrderPair a b = OrderPair_from 0 a b"

definition NewFriendRequest :: "uuid \<Rightarrow> uuid \<Rightarrow> FriendRequest" where
  "NewFriendRequest requester addressee = \<lparr>Requester = requester, Addressee = addressee\<rparr>"

definition NewFriendship :: "uuid \<Rightarrow> uuid \<Rightarrow> Friendship" where
  "NewFriendship a b = (let (low, high) = OrderPair a b in \<lparr>Low = low, High = high\<rparr>)"

definition NewBlock :: "uuid \<Rightarrow> uuid \<Rightarrow> Block" where
  "NewBlock blocker blocked = \<lparr>Blocker = blocker, Blocked = blocked\<rparr>"

section \<open>Statements\<close>

definition is_request :: "uuid \<Rightarrow> uuid \<Rightarrow> friend_request_row \<Rightarrow> bool" where
  "is_request r a row \<longleftrightarrow> fr_requester_id row = r \<and> fr_addressee_id row = a"

definition is_friendship :: "uuid \<Rightarrow> uuid \<Rightarrow> friendship_row \<Rightarrow> bool" where
  "is_friendship l h row \<longleftrightarrow> f_player_low row = l \<and> f_player_high row = h"

definition is_block :: "uuid \<Rightarrow> uuid \<Rightarrow> block_row \<Rightarrow> bool" where
  "is_block a b row \<longleftrightarrow> b_blocker_id row = a \<and> b_blocked_id row = b"

definition sql_CreateFriendRequest :: "uuid \<Rightarrow> uuid \<Rightarrow> uuid \<Rightarrow> unit tx" where
  "sql_CreateFriendRequest uid r a = sql_exec (\<lambda>now t.
     if uid \<in> fr_id ` set (friend_requests t) \<or> list_ex (is_request r a) (friend_requests t)
     then Inl unique_violation
     else if \<not> has_player t r \<or> \<not> has_player t a then Inl foreign_key_violation
     else Inr ((), t\<lparr>friend_requests := friend_requests t @
       [\<lparr>fr_id = uid, fr_requester_id = r, fr_addressee_id = a, fr_created_at = now\<rparr>]\<rparr>))"

definition sql_FriendRequestExists :: "uuid \<Rightarrow> uuid \<Rightarrow> bool tx" where
  "sql_FriendRequestExists r a = sql_query (\<lambda>t. list_ex (is_request r a) (friend_requests t))"

definition sql_DeleteFriendRequest :: "uuid \<Rightarrow> uuid \<Rightarrow> nat tx" where
  "sql_DeleteFriendRequest r a = sql_exec (\<lambda>now t.
     Inr (length (filter (is_request r a) (friend_requests t)),
          t\<lparr>friend_requests := filter (\<lambda>row. \<not> is_request r a row) (friend_requests t)\<rparr>))"

definition sql_ListIncomingRequests :: "uuid \<Rightarrow> PendingRequest list tx" where
  "sql_ListIncomingRequests me = sql_query (\<lambda>t. newest_first RequestedAt (concat (map (\<lambda>fr.
     join_player t (fr_requester_id fr) (\<lambda>p. \<lparr>Pending_PlayerID = p_id p, Pending_Nickname = p_nickname p,
       RequestedAt = fr_created_at fr\<rparr>))
     (filter (\<lambda>fr. fr_addressee_id fr = me) (friend_requests t)))))"

definition sql_ListOutgoingRequests :: "uuid \<Rightarrow> PendingRequest list tx" where
  "sql_ListOutgoingRequests me = sql_query (\<lambda>t. newest_first RequestedAt (concat (map (\<lambda>fr.
     join_player t (fr_addressee_id fr) (\<lambda>p. \<lparr>Pending_PlayerID = p_id p, Pending_Nickname = p_nickname p,
       RequestedAt = fr_created_at fr\<rparr>))
     (filter (\<lambda>fr. fr_requester_id fr = me) (friend_requests t)))))"

definition sql_CreateFriendship :: "uuid \<Rightarrow> uuid \<Rightarrow> uuid \<Rightarrow> unit tx" where
  "sql_CreateFriendship uid low high = sql_exec (\<lambda>now t.
     if \<not> low < high then Inl check_violation
     else if uid \<in> f_id ` set (friendships t) \<or> list_ex (is_friendship low high) (friendships t)
     then Inl unique_violation
     else if \<not> has_player t low \<or> \<not> has_player t high then Inl foreign_key_violation
     else Inr ((), t\<lparr>friendships := friendships t @
       [\<lparr>f_id = uid, f_player_low = low, f_player_high = high, f_created_at = now\<rparr>]\<rparr>))"

definition sql_FriendshipExists :: "uuid \<Rightarrow> uuid \<Rightarrow> bool tx" where
  "sql_FriendshipExists low high = sql_query (\<lambda>t. list_ex (is_friendship low high) (friendships t))"

definition sql_DeleteFriendship :: "uuid \<Rightarrow> uuid \<Rightarrow> nat tx" where
  "sql_DeleteFriendship low high = sql_exec (\<lambda>now t.
     Inr (length (filter (is_friendship low high) (friendships t)),
          t\<lparr>friendships := filter (\<lambda>row. \<not> is_friendship low high row) (friendships t)\<rparr>))"

definition sql_ListFriends :: "uuid \<Rightarrow> Friend list tx" where
  "sql_ListFriends me = sql_query (\<lambda>t. newest_first Since (concat (map (\<lambda>f.
     join_player t (if f_player_low f = me then f_player_high f else f_player_low f)
       (\<lambda>p. \<lparr>Friend_PlayerID = p_id p, Friend_Nickname = p_nickname p, Since = f_created_at f\<rparr>))
     (filter (\<lambda>f. f_player_low f = me \<or> f_player_high f = me) (friendships t)))))"

definition sql_BlockPlayer :: "uuid \<Rightarrow> uuid \<Rightarrow> uuid \<Rightarrow> unit tx" where
  "sql_BlockPlayer uid blocker blocked = sql_exec (\<lambda>now t.
     if list_ex (is_block blocker blocked) (player_blocks t) then Inr ((), t)
     else if uid \<in> b_id ` set (player_blocks t) then Inl unique_violation
     else if \<not> has_player t blocker \<or> \<not> has_player t blocked then Inl foreign_key_violation
     else Inr ((), t\<lparr>player_blocks := player_blocks t @
       [\<lparr>b_id = uid, b_blocker_id = blocker, b_blocked_id = blocked, b_created_at = now\<rparr>]\<rparr>))"

definition sql_UnblockPlayer :: "uuid \<Rightarrow> uuid \<Rightarrow> unit tx" where
  "sql_UnblockPlayer blocker blocked = sql_exec (\<lambda>now t.
     Inr ((), t\<lparr>player_blocks := filter (\<lambda>row. \<not> is_block blocker blocked row) (player_blocks t)\<rparr>))"

definition sql_BlockExistsEitherWay :: "uuid \<Rightarrow> uuid \<Rightarrow> bool tx" where
  "sql_BlockExistsEitherWay a b = sql_query (\<lambda>t.
     list_ex (\<lambda>row. is_block a b row \<or> is_block b a row) (player_blocks t))"

definition sql_ListBlocked :: "uuid \<Rightarrow> BlockedPlayer list tx" where
  "sql_ListBlocked me = sql_query (\<lambda>t. newest_first BlockedAt (concat (map (\<lambda>b.
     join_player t (b_blocked_id b) (\<lambda>p. \<lparr>Blocked_PlayerID = p_id p, Blocked_Nickname = p_nickname p,
       BlockedAt = b_created_at b\<rparr>))
     (filter (\<lambda>b. b_blocker_id b = me) (player_blocks t)))))"

section \<open>Repositories\<close>

definition FriendRequests_Save :: "uuid \<Rightarrow> FriendRequest \<Rightarrow> unit tx" where
  "FriendRequests_Save uid r = sql_CreateFriendRequest uid (Requester r) (Addressee r)"

definition FriendRequests_Delete :: "uuid \<Rightarrow> uuid \<Rightarrow> unit tx" where
  "FriendRequests_Delete requester addressee =
     tx_bind (sql_DeleteFriendRequest requester addressee)
       (\<lambda>affected. if affected = 0 then tx_fail (SocialE ErrRequestNotFound) else tx_return ())"

definition FriendRequests_Exists :: "uuid \<Rightarrow> uuid \<Rightarrow> bool tx" where
  "FriendRequests_Exists requester addressee = sql_FriendRequestExists requester addressee"

definition FriendRequests_ListIncoming :: "uuid \<Rightarrow> PendingRequest list tx" where
  "FriendRequests_ListIncoming addressee = sql_ListIncomingRequests addressee"

definition FriendRequests_ListOutgoing :: "uuid \<Rightarrow> PendingRequest list tx" where
  "FriendRequests_ListOutgoing requester = sql_ListOutgoingRequests requester"

definition Friendships_Save :: "uuid \<Rightarrow> Friendship \<Rightarrow> unit tx" where
  "Friendships_Save uid f = sql_CreateFriendship uid (Low f) (High f)"

definition Friendships_Delete :: "uuid \<Rightarrow> uuid \<Rightarrow> unit tx" where
  "Friendships_Delete a b = (let (low, high) = OrderPair a b in
     tx_bind (sql_DeleteFriendship low high)
       (\<lambda>affected. if affected = 0 then tx_fail (SocialE ErrNotFriends) else tx_return ()))"

definition Friendships_Exists :: "uuid \<Rightarrow> uuid \<Rightarrow> bool tx" where
  "Friendships_Exists a b = (let (low, high) = OrderPair a b in sql_FriendshipExists low high)"

definition Friendships_ListFriends :: "uuid \<Rightarrow> Friend list tx" where
  "Friendships_ListFriends playerID = sql_ListFriends playerID"

definition Blocks_Save :: "uuid \<Rightarrow> Block \<Rightarrow> unit tx" where
  "Blocks_Save uid b = sql_BlockPlayer uid (Blocker b) (Blocked b)"

definition Blocks_Delete :: "uuid \<Rightarrow> uuid \<Rightarrow> unit tx" where
  "Blocks_Delete blocker blocked = sql_UnblockPlayer blocker blocked"

definition Blocks_IsBlocked :: "uuid \<Rightarrow> uuid \<Rightarrow> bool tx" where
  "Blocks_IsBlocked a b = sql_BlockExistsEitherWay a b"

definition Blocks_ListBlocked :: "uuid \<Rightarrow> BlockedPlayer list tx" where
  "Blocks_ListBlocked blocker = sql_ListBlocked blocker"

section \<open>Usecase\<close>

text \<open>
  The work of \<open>SendFriendRequest\<close> inside its transaction; its result is the variable \<open>accepted\<close>
  the closure sets. An id is drawn by whichever \<open>Save\<close> runs.
\<close>

definition send_request_work :: "uuid \<Rightarrow> uuid \<Rightarrow> uuid \<Rightarrow> bool tx" where
  "send_request_work uid me addressee =
     tx_bind (Blocks_IsBlocked me addressee) (\<lambda>blocked.
     if blocked then tx_fail (SocialE ErrBlocked) else
     tx_bind (Friendships_Exists me addressee) (\<lambda>friends.
     if friends then tx_fail (SocialE ErrAlreadyFriends) else
     tx_bind (FriendRequests_Exists addressee me) (\<lambda>reverse.
     if reverse then
       tx_bind (FriendRequests_Delete addressee me) (\<lambda>_.
       tx_bind (Friendships_Save uid (NewFriendship me addressee)) (\<lambda>_. tx_return True))
     else
     tx_bind (FriendRequests_Exists me addressee) (\<lambda>forward.
     if forward then tx_fail (SocialE ErrAlreadyRequested)
     else tx_bind (FriendRequests_Save uid (NewFriendRequest me addressee)) (\<lambda>_. tx_return False)))))"

definition SendFriendRequest :: "uuid \<Rightarrow> uuid \<Rightarrow> uuid \<Rightarrow> bool tx" where
  "SendFriendRequest uid me addressee =
     (if me = addressee then tx_fail (SocialE ErrSelfFriend)
      else RW (send_request_work uid me addressee))"

definition AcceptFriendRequest :: "uuid \<Rightarrow> uuid \<Rightarrow> uuid \<Rightarrow> unit tx" where
  "AcceptFriendRequest uid me requester =
     RW (tx_bind (FriendRequests_Delete requester me)
           (\<lambda>_. Friendships_Save uid (NewFriendship requester me)))"

definition DeclineFriendRequest :: "uuid \<Rightarrow> uuid \<Rightarrow> unit tx" where
  "DeclineFriendRequest me requester = RW (FriendRequests_Delete requester me)"

definition CancelFriendRequest :: "uuid \<Rightarrow> uuid \<Rightarrow> unit tx" where
  "CancelFriendRequest me addressee = RW (FriendRequests_Delete me addressee)"

definition RemoveFriend :: "uuid \<Rightarrow> uuid \<Rightarrow> unit tx" where
  "RemoveFriend me friend = RW (Friendships_Delete me friend)"

definition block_work :: "uuid \<Rightarrow> uuid \<Rightarrow> uuid \<Rightarrow> unit tx" where
  "block_work uid me target =
     tx_bind (Blocks_Save uid (NewBlock me target)) (\<lambda>_.
     tx_bind (ignoring (SocialE ErrNotFriends) (Friendships_Delete me target)) (\<lambda>_.
     tx_bind (ignoring (SocialE ErrRequestNotFound) (FriendRequests_Delete me target)) (\<lambda>_.
     tx_bind (ignoring (SocialE ErrRequestNotFound) (FriendRequests_Delete target me)) (\<lambda>_.
     tx_return ()))))"

definition BlockPlayer :: "uuid \<Rightarrow> uuid \<Rightarrow> uuid \<Rightarrow> unit tx" where
  "BlockPlayer uid me target =
     (if me = target then tx_fail (SocialE ErrSelfBlock) else RW (block_work uid me target))"

definition UnblockPlayer :: "uuid \<Rightarrow> uuid \<Rightarrow> unit tx" where
  "UnblockPlayer me target = RW (Blocks_Delete me target)"

definition ListBlocked :: "uuid \<Rightarrow> BlockedPlayer list tx" where
  "ListBlocked me = RO (Blocks_ListBlocked me)"

definition ListFriends :: "uuid \<Rightarrow> Friend list tx" where
  "ListFriends me = RO (Friendships_ListFriends me)"

definition ListIncomingRequests :: "uuid \<Rightarrow> PendingRequest list tx" where
  "ListIncomingRequests me = RO (FriendRequests_ListIncoming me)"

definition ListOutgoingRequests :: "uuid \<Rightarrow> PendingRequest list tx" where
  "ListOutgoingRequests me = RO (FriendRequests_ListOutgoing me)"

lemmas social_repo_defs = FriendRequests_Save_def FriendRequests_Delete_def FriendRequests_Exists_def
  FriendRequests_ListIncoming_def FriendRequests_ListOutgoing_def Friendships_Save_def
  Friendships_Delete_def Friendships_Exists_def Friendships_ListFriends_def Blocks_Save_def
  Blocks_Delete_def Blocks_IsBlocked_def Blocks_ListBlocked_def

lemmas social_sql_defs = sql_CreateFriendRequest_def sql_FriendRequestExists_def
  sql_DeleteFriendRequest_def sql_ListIncomingRequests_def sql_ListOutgoingRequests_def
  sql_CreateFriendship_def sql_FriendshipExists_def sql_DeleteFriendship_def sql_ListFriends_def
  sql_BlockPlayer_def sql_UnblockPlayer_def sql_BlockExistsEitherWay_def sql_ListBlocked_def

section \<open>Handlers\<close>

text \<open>
  The messages carry player ids as strings: \<open>parse\<close> is \<open>uuid.Parse\<close> and \<open>str\<close> is \<open>UUID.String\<close>. A
  protobuf timestamp carries the instant it is made from.
\<close>

definition parsePlayerID :: "(string \<Rightarrow> uuid option) \<Rightarrow> string \<Rightarrow> uuid response" where
  "parsePlayerID parse raw = (case parse raw of
     None \<Rightarrow> Inl (CodeInvalidArgument, ErrorString ''invalid player id'') | Some uid \<Rightarrow> Inr uid)"

datatype RequestStatus = REQUEST_STATUS_PENDING | REQUEST_STATUS_ACCEPTED

record FriendPb =
  FriendPb_PlayerId :: string
  FriendPb_Nickname :: "string option"
  FriendPb_Since :: go_time

record FriendRequestPb =
  FriendRequestPb_PlayerId :: string
  FriendRequestPb_Nickname :: "string option"
  FriendRequestPb_RequestedAt :: go_time

record BlockedPlayerPb =
  BlockedPlayerPb_PlayerId :: string
  BlockedPlayerPb_Nickname :: "string option"
  BlockedPlayerPb_BlockedAt :: go_time

definition toFriendPb :: "(uuid \<Rightarrow> string) \<Rightarrow> Friend \<Rightarrow> FriendPb" where
  "toFriendPb str f = \<lparr>FriendPb_PlayerId = str (Friend_PlayerID f), FriendPb_Nickname = Friend_Nickname f,
     FriendPb_Since = Since f\<rparr>"

definition toFriendRequestPb :: "(uuid \<Rightarrow> string) \<Rightarrow> PendingRequest \<Rightarrow> FriendRequestPb" where
  "toFriendRequestPb str r = \<lparr>FriendRequestPb_PlayerId = str (Pending_PlayerID r),
     FriendRequestPb_Nickname = Pending_Nickname r, FriendRequestPb_RequestedAt = RequestedAt r\<rparr>"

definition toRequestListPb :: "(uuid \<Rightarrow> string) \<Rightarrow> PendingRequest list \<Rightarrow> FriendRequestPb list" where
  "toRequestListPb str rs = map (toFriendRequestPb str) rs"

definition toBlockedListPb :: "(uuid \<Rightarrow> string) \<Rightarrow> BlockedPlayer list \<Rightarrow> BlockedPlayerPb list" where
  "toBlockedListPb str bs = map (\<lambda>b. \<lparr>BlockedPlayerPb_PlayerId = str (Blocked_PlayerID b),
     BlockedPlayerPb_Nickname = Blocked_Nickname b, BlockedPlayerPb_BlockedAt = BlockedAt b\<rparr>) bs"

definition social_toConnectError :: "go_error \<Rightarrow> connect_error" where
  "social_toConnectError err =
     (if errors_Is err (SocialE ErrSelfFriend) \<or> errors_Is err (SocialE ErrSelfBlock)
      then (CodeInvalidArgument, err)
      else if errors_Is err (SocialE ErrAlreadyFriends) \<or> errors_Is err (SocialE ErrAlreadyRequested)
      then (CodeAlreadyExists, err)
      else if errors_Is err (SocialE ErrRequestNotFound) \<or> errors_Is err (SocialE ErrNotFriends)
      then (CodeNotFound, err)
      else if errors_Is err (SocialE ErrBlocked) then (CodeFailedPrecondition, err)
      else (CodeInternal, err))"

definition Handler_SendFriendRequest ::
    "(string \<Rightarrow> uuid option) \<Rightarrow> ctx \<Rightarrow> string \<Rightarrow> uuid \<Rightarrow> db \<Rightarrow> RequestStatus response \<times> db" where
  "Handler_SendFriendRequest parse c raw uid s =
     or_return (requireAuth c) s (\<lambda>me.
     or_return (parsePlayerID parse raw) s (\<lambda>addressee.
     respond social_toConnectError
       (\<lambda>accepted. if accepted then REQUEST_STATUS_ACCEPTED else REQUEST_STATUS_PENDING)
       (SendFriendRequest uid me addressee s)))"

definition Handler_AcceptFriendRequest ::
    "(string \<Rightarrow> uuid option) \<Rightarrow> ctx \<Rightarrow> string \<Rightarrow> uuid \<Rightarrow> db \<Rightarrow> unit response \<times> db" where
  "Handler_AcceptFriendRequest parse c raw uid s =
     or_return (requireAuth c) s (\<lambda>me.
     or_return (parsePlayerID parse raw) s (\<lambda>requester.
     respond social_toConnectError (\<lambda>_. ()) (AcceptFriendRequest uid me requester s)))"

definition Handler_DeclineFriendRequest ::
    "(string \<Rightarrow> uuid option) \<Rightarrow> ctx \<Rightarrow> string \<Rightarrow> db \<Rightarrow> unit response \<times> db" where
  "Handler_DeclineFriendRequest parse c raw s =
     or_return (requireAuth c) s (\<lambda>me.
     or_return (parsePlayerID parse raw) s (\<lambda>requester.
     respond social_toConnectError (\<lambda>_. ()) (DeclineFriendRequest me requester s)))"

definition Handler_CancelFriendRequest ::
    "(string \<Rightarrow> uuid option) \<Rightarrow> ctx \<Rightarrow> string \<Rightarrow> db \<Rightarrow> unit response \<times> db" where
  "Handler_CancelFriendRequest parse c raw s =
     or_return (requireAuth c) s (\<lambda>me.
     or_return (parsePlayerID parse raw) s (\<lambda>addressee.
     respond social_toConnectError (\<lambda>_. ()) (CancelFriendRequest me addressee s)))"

definition Handler_ListFriends :: "(uuid \<Rightarrow> string) \<Rightarrow> ctx \<Rightarrow> db \<Rightarrow> FriendPb list response \<times> db" where
  "Handler_ListFriends str c s =
     or_return (requireAuth c) s (\<lambda>me.
     respond social_toConnectError (map (toFriendPb str)) (ListFriends me s))"

definition Handler_ListIncomingRequests ::
    "(uuid \<Rightarrow> string) \<Rightarrow> ctx \<Rightarrow> db \<Rightarrow> FriendRequestPb list response \<times> db" where
  "Handler_ListIncomingRequests str c s =
     or_return (requireAuth c) s (\<lambda>me.
     respond social_toConnectError (toRequestListPb str) (ListIncomingRequests me s))"

definition Handler_ListOutgoingRequests ::
    "(uuid \<Rightarrow> string) \<Rightarrow> ctx \<Rightarrow> db \<Rightarrow> FriendRequestPb list response \<times> db" where
  "Handler_ListOutgoingRequests str c s =
     or_return (requireAuth c) s (\<lambda>me.
     respond social_toConnectError (toRequestListPb str) (ListOutgoingRequests me s))"

definition Handler_RemoveFriend ::
    "(string \<Rightarrow> uuid option) \<Rightarrow> ctx \<Rightarrow> string \<Rightarrow> db \<Rightarrow> unit response \<times> db" where
  "Handler_RemoveFriend parse c raw s =
     or_return (requireAuth c) s (\<lambda>me.
     or_return (parsePlayerID parse raw) s (\<lambda>friend.
     respond social_toConnectError (\<lambda>_. ()) (RemoveFriend me friend s)))"

definition Handler_BlockPlayer ::
    "(string \<Rightarrow> uuid option) \<Rightarrow> ctx \<Rightarrow> string \<Rightarrow> uuid \<Rightarrow> db \<Rightarrow> unit response \<times> db" where
  "Handler_BlockPlayer parse c raw uid s =
     or_return (requireAuth c) s (\<lambda>me.
     or_return (parsePlayerID parse raw) s (\<lambda>target.
     respond social_toConnectError (\<lambda>_. ()) (BlockPlayer uid me target s)))"

definition Handler_UnblockPlayer ::
    "(string \<Rightarrow> uuid option) \<Rightarrow> ctx \<Rightarrow> string \<Rightarrow> db \<Rightarrow> unit response \<times> db" where
  "Handler_UnblockPlayer parse c raw s =
     or_return (requireAuth c) s (\<lambda>me.
     or_return (parsePlayerID parse raw) s (\<lambda>target.
     respond social_toConnectError (\<lambda>_. ()) (UnblockPlayer me target s)))"

definition Handler_ListBlocked :: "(uuid \<Rightarrow> string) \<Rightarrow> ctx \<Rightarrow> db \<Rightarrow> BlockedPlayerPb list response \<times> db" where
  "Handler_ListBlocked str c s =
     or_return (requireAuth c) s (\<lambda>me.
     respond social_toConnectError (toBlockedListPb str) (ListBlocked me s))"

section \<open>Canonical pairs\<close>

lemma uuid_byte_div: "i < 16 \<Longrightarrow> unat (uuid_byte a i) = (unat a div 2 ^ (8 * (15 - i))) mod 256"
  by (simp add: uuid_byte_def unsigned_ucast_eq take_bit_eq_mod unat_drop_bit_eq flip: drop_bit_eq_div)

lemma uuid_prefix_step:
  assumes "i < 16"
  shows "unat a div 2 ^ (8 * (15 - i)) = 256 * (unat a div 2 ^ (8 * (16 - i))) + unat (uuid_byte a i)"
proof -
  have "8 * (16 - i) = 8 * (15 - i) + 8" using assms by simp
  then have "unat a div 2 ^ (8 * (16 - i)) = unat a div 2 ^ (8 * (15 - i)) div 256"
    by (simp add: power_add div_mult2_eq)
  then show ?thesis using uuid_byte_div [OF assms, of a] by simp
qed

lemma div_less_imp_less: "(m::nat) div k < n div k \<Longrightarrow> m < n"
  by (meson div_le_mono leD not_le_imp_less)

lemma OrderPair_from_eq:
  assumes "i \<le> 16" and "unat a div 2 ^ (8 * (16 - i)) = unat b div 2 ^ (8 * (16 - i))"
  shows "OrderPair_from i a b = (min a b, max a b)"
  using assms
proof (induction i a b rule: OrderPair_from.induct)
  case (1 i a b)
  show ?case
  proof (cases "i < 16")
    case False
    then have "a = b" using 1 by (simp add: word_unat_eq_iff)
    then show ?thesis by (subst OrderPair_from.simps) (use False in simp)
  next
    case True
    consider "uuid_byte a i < uuid_byte b i" | "uuid_byte b i < uuid_byte a i" | "uuid_byte a i = uuid_byte b i"
      by fastforce
    then show ?thesis
    proof cases
      case c: 1
      then have "unat a < unat b"
        using uuid_prefix_step [OF True] "1.prems"(2) div_less_imp_less [of "unat a" _ "unat b"]
        by (metis add_less_cancel_left word_less_nat_alt)
      then have "a < b" by (simp add: word_less_nat_alt)
      then show ?thesis by (subst OrderPair_from.simps) (use True c in \<open>simp add: min_def max_def less_imp_le\<close>)
    next
      case c: 2
      then have "unat b < unat a"
        using uuid_prefix_step [OF True] "1.prems"(2) div_less_imp_less [of "unat b" _ "unat a"]
        by (metis add_less_cancel_left word_less_nat_alt)
      then have "b < a" by (simp add: word_less_nat_alt)
      then show ?thesis
        by (subst OrderPair_from.simps) (use True c in \<open>auto simp: min_def max_def\<close>)
    next
      case c: 3
      then have eq: "unat a div 2 ^ (8 * (15 - i)) = unat b div 2 ^ (8 * (15 - i))"
        using "1.prems"(2) uuid_prefix_step [OF True, of a] uuid_prefix_step [OF True, of b] by simp
      have "16 - (i + 1) = 15 - i" by simp
      then have "OrderPair_from (i + 1) a b = (min a b, max a b)"
        using "1.IH" [OF True] c True eq by simp
      then show ?thesis by (subst OrderPair_from.simps) (use True c in simp)
    qed
  qed
qed

lemma OrderPair_eq: "OrderPair a b = (min a b, max a b)"
proof -
  have "unat u div 2 ^ (8 * (16 - 0)) = 0" for u :: uuid
    using unsigned_less [of u, where 'a = nat] by (intro div_less) simp
  then show ?thesis using OrderPair_from_eq [of 0 a b] by (simp add: OrderPair_def)
qed

lemma min_max_set [simp]: "{min a b, max a b} = {a, b :: uuid}"
  by (auto simp: min_def max_def)

lemma min_less_max: "min a b < max a b \<longleftrightarrow> a \<noteq> (b :: uuid)"
  by (auto simp: min_def max_def)

section \<open>The graph behind the tables\<close>

record graph =
  gr_friends :: "uuid set set"
  gr_requests :: "(uuid \<times> uuid) set"
  gr_blocks :: "(uuid \<times> uuid) set"

definition abs_graph :: "tables \<Rightarrow> graph" where
  "abs_graph t = \<lparr>
     gr_friends = (\<lambda>f. {f_player_low f, f_player_high f}) ` set (friendships t),
     gr_requests = (\<lambda>r. (fr_requester_id r, fr_addressee_id r)) ` set (friend_requests t),
     gr_blocks = (\<lambda>b. (b_blocker_id b, b_blocked_id b)) ` set (player_blocks t)\<rparr>"

text \<open>Tables that represent a graph: what the schema's constraints say of the three tables.\<close>

definition social_wf :: "tables \<Rightarrow> bool" where
  "social_wf t \<longleftrightarrow>
     distinct (map p_id (players t)) \<and>
     distinct (map (\<lambda>r. (fr_requester_id r, fr_addressee_id r)) (friend_requests t)) \<and>
     distinct (map (\<lambda>f. (f_player_low f, f_player_high f)) (friendships t)) \<and>
     distinct (map (\<lambda>b. (b_blocker_id b, b_blocked_id b)) (player_blocks t)) \<and>
     (\<forall>f \<in> set (friendships t). f_player_low f < f_player_high f) \<and>
     (\<forall>r \<in> set (friend_requests t). has_player t (fr_requester_id r) \<and> has_player t (fr_addressee_id r)) \<and>
     (\<forall>f \<in> set (friendships t). has_player t (f_player_low f) \<and> has_player t (f_player_high f)) \<and>
     (\<forall>b \<in> set (player_blocks t). has_player t (b_blocker_id b) \<and> has_player t (b_blocked_id b))"

text \<open>The rules of the graph itself.\<close>

definition graph_ok :: "graph \<Rightarrow> bool" where
  "graph_ok g \<longleftrightarrow>
     (\<forall>a b. (a, b) \<in> gr_requests g \<longrightarrow> a \<noteq> b \<and> (b, a) \<notin> gr_requests g \<and> {a, b} \<notin> gr_friends g) \<and>
     (\<forall>a b. (a, b) \<in> gr_blocks g \<longrightarrow> a \<noteq> b \<and> {a, b} \<notin> gr_friends g
        \<and> (a, b) \<notin> gr_requests g \<and> (b, a) \<notin> gr_requests g) \<and>
     (\<forall>f \<in> gr_friends g. \<exists>a b. a \<noteq> b \<and> f = {a, b})"

definition social_inv :: "tables \<Rightarrow> bool" where
  "social_inv t \<longleftrightarrow> social_wf t \<and> graph_ok (abs_graph t)"

definition Spec_SendFriendRequest :: "uuid \<Rightarrow> uuid \<Rightarrow> graph \<Rightarrow> (go_error + bool) \<times> graph" where
  "Spec_SendFriendRequest me a g =
     (if me = a then (Inl (SocialE ErrSelfFriend), g)
      else if (me, a) \<in> gr_blocks g \<or> (a, me) \<in> gr_blocks g then (Inl (SocialE ErrBlocked), g)
      else if {me, a} \<in> gr_friends g then (Inl (SocialE ErrAlreadyFriends), g)
      else if (a, me) \<in> gr_requests g then
        (Inr True, g\<lparr>gr_requests := gr_requests g - {(a, me)}, gr_friends := insert {me, a} (gr_friends g)\<rparr>)
      else if (me, a) \<in> gr_requests g then (Inl (SocialE ErrAlreadyRequested), g)
      else (Inr False, g\<lparr>gr_requests := insert (me, a) (gr_requests g)\<rparr>))"

definition Spec_DeleteRequest :: "uuid \<Rightarrow> uuid \<Rightarrow> graph \<Rightarrow> (go_error + unit) \<times> graph" where
  "Spec_DeleteRequest r a g =
     (if (r, a) \<in> gr_requests g then (Inr (), g\<lparr>gr_requests := gr_requests g - {(r, a)}\<rparr>)
      else (Inl (SocialE ErrRequestNotFound), g))"

text \<open>
  Accepting when the two are already friends cannot happen in a graph that obeys its rules; the
  store would refuse the second row.
\<close>

definition Spec_AcceptFriendRequest :: "uuid \<Rightarrow> uuid \<Rightarrow> graph \<Rightarrow> (go_error + unit) \<times> graph" where
  "Spec_AcceptFriendRequest me r g =
     (if (r, me) \<in> gr_requests g then
        (Inr (), g\<lparr>gr_requests := gr_requests g - {(r, me)}, gr_friends := insert {r, me} (gr_friends g)\<rparr>)
      else (Inl (SocialE ErrRequestNotFound), g))"

definition Spec_RemoveFriend :: "uuid \<Rightarrow> uuid \<Rightarrow> graph \<Rightarrow> (go_error + unit) \<times> graph" where
  "Spec_RemoveFriend me f g =
     (if {me, f} \<in> gr_friends g then (Inr (), g\<lparr>gr_friends := gr_friends g - {{me, f}}\<rparr>)
      else (Inl (SocialE ErrNotFriends), g))"

definition Spec_BlockPlayer :: "uuid \<Rightarrow> uuid \<Rightarrow> graph \<Rightarrow> (go_error + unit) \<times> graph" where
  "Spec_BlockPlayer me a g =
     (if me = a then (Inl (SocialE ErrSelfBlock), g)
      else (Inr (), g\<lparr>gr_friends := gr_friends g - {{me, a}}, gr_requests := gr_requests g - {(me, a), (a, me)},
              gr_blocks := insert (me, a) (gr_blocks g)\<rparr>))"

definition Spec_UnblockPlayer :: "uuid \<Rightarrow> uuid \<Rightarrow> graph \<Rightarrow> (go_error + unit) \<times> graph" where
  "Spec_UnblockPlayer me a g = (Inr (), g\<lparr>gr_blocks := gr_blocks g - {(me, a)}\<rparr>)"

section \<open>What the statements do to the graph\<close>

abbreviation on_graph :: "(graph \<Rightarrow> bool) \<Rightarrow> tables \<Rightarrow> bool" where
  "on_graph \<equiv> on_abs social_wf abs_graph"

lemma request_exists: "list_ex (is_request r a) (friend_requests t) \<longleftrightarrow> (r, a) \<in> gr_requests (abs_graph t)"
  by (auto simp: list_ex_iff is_request_def abs_graph_def)

lemma block_exists: "list_ex (is_block a b) (player_blocks t) \<longleftrightarrow> (a, b) \<in> gr_blocks (abs_graph t)"
  by (auto simp: list_ex_iff is_block_def abs_graph_def)

lemma min_max_pair: "(l::uuid) < h \<Longrightarrow> l = min a b \<and> h = max a b \<longleftrightarrow> {l, h} = {a, b}"
  by (auto simp: min_def max_def doubleton_eq_iff split: if_splits)

lemma friendship_row_pair:
  assumes "social_wf t" and "f \<in> set (friendships t)"
  shows "is_friendship (min a b) (max a b) f \<longleftrightarrow> {f_player_low f, f_player_high f} = {a, b}"
  using assms min_max_pair [of "f_player_low f" "f_player_high f" a b]
  by (auto simp: social_wf_def is_friendship_def)

lemma friendship_exists:
  "social_wf t \<Longrightarrow> list_ex (is_friendship (min a b) (max a b)) (friendships t)
    \<longleftrightarrow> {a, b} \<in> gr_friends (abs_graph t)"
  by (auto simp: list_ex_iff friendship_row_pair abs_graph_def)

lemma has_player_update [simp]:
  "has_player (t\<lparr>friend_requests := x\<rparr>) = has_player t"
  "has_player (t\<lparr>friendships := y\<rparr>) = has_player t"
  "has_player (t\<lparr>player_blocks := z\<rparr>) = has_player t"
  by (simp_all add: has_player_def fun_eq_iff)

text \<open>Deleting the rows of a pair removes the pair from the graph and keeps the constraints.\<close>

lemma delete_request_rows:
  "abs_graph (t\<lparr>friend_requests := filter (\<lambda>row. \<not> is_request r a row) (friend_requests t)\<rparr>) =
     (abs_graph t)\<lparr>gr_requests := gr_requests (abs_graph t) - {(r, a)}\<rparr>"
  "social_wf t \<Longrightarrow> social_wf (t\<lparr>friend_requests := filter (\<lambda>row. \<not> is_request r a row) (friend_requests t)\<rparr>)"
  by (auto simp: abs_graph_def is_request_def social_wf_def)

lemma delete_friendship_rows:
  assumes "social_wf t"
  shows "abs_graph (t\<lparr>friendships := filter (\<lambda>row. \<not> is_friendship (min a b) (max a b) row) (friendships t)\<rparr>) =
     (abs_graph t)\<lparr>gr_friends := gr_friends (abs_graph t) - {{a, b}}\<rparr>"
    and "social_wf (t\<lparr>friendships := filter (\<lambda>row. \<not> is_friendship (min a b) (max a b) row) (friendships t)\<rparr>)"
proof -
  have eq: "filter (\<lambda>row. \<not> is_friendship (min a b) (max a b) row) (friendships t) =
      filter (\<lambda>row. {f_player_low row, f_player_high row} \<noteq> {a, b}) (friendships t)"
    by (intro filter_cong refl) (simp add: friendship_row_pair [OF assms])
  show "abs_graph (t\<lparr>friendships := filter (\<lambda>row. \<not> is_friendship (min a b) (max a b) row) (friendships t)\<rparr>) =
     (abs_graph t)\<lparr>gr_friends := gr_friends (abs_graph t) - {{a, b}}\<rparr>"
    unfolding eq abs_graph_def by (simp add: image_filter_neq)
  show "social_wf (t\<lparr>friendships := filter (\<lambda>row. \<not> is_friendship (min a b) (max a b) row) (friendships t)\<rparr>)"
    using assms by (auto simp: social_wf_def)
qed

lemma delete_block_rows:
  "abs_graph (t\<lparr>player_blocks := filter (\<lambda>row. \<not> is_block a b row) (player_blocks t)\<rparr>) =
     (abs_graph t)\<lparr>gr_blocks := gr_blocks (abs_graph t) - {(a, b)}\<rparr>"
  "social_wf t \<Longrightarrow> social_wf (t\<lparr>player_blocks := filter (\<lambda>row. \<not> is_block a b row) (player_blocks t)\<rparr>)"
  by (auto simp: abs_graph_def is_block_def social_wf_def)

section \<open>Repository contracts\<close>


lemma FriendRequests_Delete_triple:
  "tx_triple (on_graph G) (FriendRequests_Delete r a)
     (\<lambda>_. on_graph (\<lambda>g'. \<exists>g. G g \<and> Spec_DeleteRequest r a g = (Inr (), g')))
     (\<lambda>e t. infra e \<or> e = SocialE ErrRequestNotFound \<and> on_graph (\<lambda>g. G g \<and> (r, a) \<notin> gr_requests g) t)"
  unfolding FriendRequests_Delete_def sql_DeleteFriendRequest_def
  by (rule triple_affected, unfold no_match_iff request_exists)
    (auto simp: on_abs_def Spec_DeleteRequest_def delete_request_rows)

lemma Friendships_Delete_triple:
  "tx_triple (on_graph G) (Friendships_Delete a b)
     (\<lambda>_. on_graph (\<lambda>g'. \<exists>g. G g \<and> Spec_RemoveFriend a b g = (Inr (), g')))
     (\<lambda>e t. infra e \<or> e = SocialE ErrNotFriends \<and> on_graph (\<lambda>g. G g \<and> {a, b} \<notin> gr_friends g) t)"
  unfolding Friendships_Delete_def sql_DeleteFriendship_def OrderPair_eq Let_def prod.case
  by (rule triple_affected, unfold no_match_iff)
    (auto simp: on_abs_def Spec_RemoveFriend_def delete_friendship_rows friendship_exists)

lemma add_request_row:
  assumes "social_wf t" and "(r, a) \<notin> gr_requests (abs_graph t)" "has_player t r" "has_player t a"
    and "fr_requester_id row = r" "fr_addressee_id row = a"
  shows "abs_graph (t\<lparr>friend_requests := friend_requests t @ [row]\<rparr>) =
      (abs_graph t)\<lparr>gr_requests := insert (r, a) (gr_requests (abs_graph t))\<rparr>"
    and "social_wf (t\<lparr>friend_requests := friend_requests t @ [row]\<rparr>)"
  using assms by (auto simp: abs_graph_def social_wf_def)

lemma add_friendship_row:
  assumes "social_wf t" and "{a, b} \<notin> gr_friends (abs_graph t)" and "a \<noteq> b"
    and "has_player t (min a b)" "has_player t (max a b)"
    and "f_player_low row = min a b" "f_player_high row = max a b"
  shows "abs_graph (t\<lparr>friendships := friendships t @ [row]\<rparr>) =
      (abs_graph t)\<lparr>gr_friends := insert {a, b} (gr_friends (abs_graph t))\<rparr>"
    and "social_wf (t\<lparr>friendships := friendships t @ [row]\<rparr>)"
  using assms friendship_exists [OF assms(1), of a b]
  by (auto simp: abs_graph_def social_wf_def min_less_max list_ex_iff is_friendship_def)

lemma add_block_row:
  assumes "social_wf t" and "(a, b) \<notin> gr_blocks (abs_graph t)" "has_player t a" "has_player t b"
    and "b_blocker_id row = a" "b_blocked_id row = b"
  shows "abs_graph (t\<lparr>player_blocks := player_blocks t @ [row]\<rparr>) =
      (abs_graph t)\<lparr>gr_blocks := insert (a, b) (gr_blocks (abs_graph t))\<rparr>"
    and "social_wf (t\<lparr>player_blocks := player_blocks t @ [row]\<rparr>)"
  using assms by (auto simp: abs_graph_def social_wf_def)

lemma FriendRequests_Save_triple:
  "tx_triple (on_graph G) (FriendRequests_Save uid (NewFriendRequest r a))
     (\<lambda>_. on_graph (\<lambda>g'. \<exists>g. G g \<and> g' = g\<lparr>gr_requests := insert (r, a) (gr_requests g)\<rparr>)) (\<lambda>e t. infra e)"
  unfolding FriendRequests_Save_def sql_CreateFriendRequest_def NewFriendRequest_def
  by (rule triple_exec) (auto simp: on_abs_def request_exists add_request_row split: if_splits)

lemma Friendships_Save_triple:
  "tx_triple (on_graph G) (Friendships_Save uid (NewFriendship a b))
     (\<lambda>_. on_graph (\<lambda>g'. \<exists>g. G g \<and> a \<noteq> b \<and> {a, b} \<notin> gr_friends g \<and>
        g' = g\<lparr>gr_friends := insert {a, b} (gr_friends g)\<rparr>)) (\<lambda>e t. infra e)"
  unfolding Friendships_Save_def sql_CreateFriendship_def NewFriendship_def OrderPair_eq Let_def
  by (rule triple_exec) (auto simp: on_abs_def friendship_exists add_friendship_row min_less_max split: if_splits)

lemma Blocks_Save_triple:
  "tx_triple (on_graph G) (Blocks_Save uid (NewBlock a b))
     (\<lambda>_. on_graph (\<lambda>g'. \<exists>g. G g \<and> g' = g\<lparr>gr_blocks := insert (a, b) (gr_blocks g)\<rparr>)) (\<lambda>e t. infra e)"
  unfolding Blocks_Save_def sql_BlockPlayer_def NewBlock_def
  by (rule triple_exec) (auto simp: on_abs_def block_exists add_block_row insert_absorb split: if_splits)

lemma Blocks_Delete_triple:
  "tx_triple (on_graph G) (Blocks_Delete a b)
     (\<lambda>_. on_graph (\<lambda>g'. \<exists>g. G g \<and> g' = g\<lparr>gr_blocks := gr_blocks g - {(a, b)}\<rparr>)) (\<lambda>e t. infra e)"
  unfolding Blocks_Delete_def sql_UnblockPlayer_def
  by (rule triple_exec) (auto simp: on_abs_def delete_block_rows)

lemma exists_triples:
  "tx_triple (on_graph G) (Blocks_IsBlocked a b)
     (\<lambda>x. on_graph (\<lambda>g. G g \<and> x = ((a, b) \<in> gr_blocks g \<or> (b, a) \<in> gr_blocks g))) (\<lambda>e t. infra e)"
  "tx_triple (on_graph G) (Friendships_Exists a b)
     (\<lambda>x. on_graph (\<lambda>g. G g \<and> x = ({a, b} \<in> gr_friends g))) (\<lambda>e t. infra e)"
  "tx_triple (on_graph G) (FriendRequests_Exists a b)
     (\<lambda>x. on_graph (\<lambda>g. G g \<and> x = ((a, b) \<in> gr_requests g))) (\<lambda>e t. infra e)"
  unfolding social_repo_defs sql_BlockExistsEitherWay_def sql_FriendshipExists_def
    sql_FriendRequestExists_def OrderPair_eq Let_def prod.case
  by (rule triple_query; auto simp: on_abs_def block_exists [symmetric] list_ex_iff request_exists [symmetric]
      friendship_exists [symmetric])+

section \<open>Refinement of the usecase\<close>

lemmas social_triples = exists_triples FriendRequests_Delete_triple Friendships_Delete_triple
  FriendRequests_Save_triple Friendships_Save_triple Blocks_Save_triple Blocks_Delete_triple

lemma send_request_work_triple:
  assumes "me \<noteq> a"
  shows "tx_triple (on_graph (\<lambda>g. g = g0)) (send_request_work uid me a)
     (\<lambda>x. on_graph (\<lambda>g. Spec_SendFriendRequest me a g0 = (Inr x, g)))
     (\<lambda>e t. infra e \<or> Spec_SendFriendRequest me a g0 = (Inl e, g0))"
  unfolding send_request_work_def
  by ((rule triple_step, rule social_triples) | rule triple_if
    | (rule triple_fail triple_return, (use assms in \<open>auto simp: on_abs_def
        Spec_SendFriendRequest_def Spec_DeleteRequest_def split: if_splits\<close>)[1])
    | (auto simp: on_abs_def)[1])+

lemma accept_work_triple:
  "tx_triple (on_graph (\<lambda>g. g = g0)) (tx_bind (FriendRequests_Delete r me)
           (\<lambda>_. Friendships_Save uid (NewFriendship r me)))
     (\<lambda>x. on_graph (\<lambda>g. Spec_AcceptFriendRequest me r g0 = (Inr x, g)))
     (\<lambda>e t. infra e \<or> Spec_AcceptFriendRequest me r g0 = (Inl e, g0))"
  by (rule triple_step, rule social_triples, rule triple_tail, rule social_triples)
    (auto simp: on_abs_def Spec_AcceptFriendRequest_def Spec_DeleteRequest_def split: if_splits)

lemma delete_request_triple:
  "tx_triple (on_graph (\<lambda>g. g = g0)) (FriendRequests_Delete r a)
     (\<lambda>x. on_graph (\<lambda>g. Spec_DeleteRequest r a g0 = (Inr x, g)))
     (\<lambda>e t. infra e \<or> Spec_DeleteRequest r a g0 = (Inl e, g0))"
  by (rule triple_tail, rule social_triples) (auto simp: on_abs_def Spec_DeleteRequest_def split: if_splits)

lemma remove_friend_triple:
  "tx_triple (on_graph (\<lambda>g. g = g0)) (Friendships_Delete me f)
     (\<lambda>x. on_graph (\<lambda>g. Spec_RemoveFriend me f g0 = (Inr x, g)))
     (\<lambda>e t. infra e \<or> Spec_RemoveFriend me f g0 = (Inl e, g0))"
  by (rule triple_tail, rule social_triples) (auto simp: on_abs_def Spec_RemoveFriend_def split: if_splits)

lemma infra_not_domain: "infra e \<Longrightarrow> \<not> errors_Is e (SocialE x)"
  by (induction e) auto

lemma ignoring_delete_request:
  "tx_triple (on_graph G) (ignoring (SocialE ErrRequestNotFound) (FriendRequests_Delete r a))
     (\<lambda>_. on_graph (\<lambda>g'. \<exists>g. G g \<and> g' = g\<lparr>gr_requests := gr_requests g - {(r, a)}\<rparr>)) (\<lambda>e t. infra e)"
  by (rule triple_ignoring, rule social_triples)
    (auto simp: on_abs_def Spec_DeleteRequest_def split: if_splits dest: infra_not_domain)

lemma ignoring_delete_friendship:
  "tx_triple (on_graph G) (ignoring (SocialE ErrNotFriends) (Friendships_Delete a b))
     (\<lambda>_. on_graph (\<lambda>g'. \<exists>g. G g \<and> g' = g\<lparr>gr_friends := gr_friends g - {{a, b}}\<rparr>)) (\<lambda>e t. infra e)"
  by (rule triple_ignoring, rule social_triples)
    (auto simp: on_abs_def Spec_RemoveFriend_def split: if_splits dest: infra_not_domain)

lemma block_work_triple:
  assumes "me \<noteq> a"
  shows "tx_triple (on_graph (\<lambda>g. g = g0)) (block_work uid me a)
     (\<lambda>x. on_graph (\<lambda>g. Spec_BlockPlayer me a g0 = (Inr x, g)))
     (\<lambda>e t. infra e \<or> Spec_BlockPlayer me a g0 = (Inl e, g0))"
  unfolding block_work_def
  by ((rule triple_step, rule Blocks_Save_triple ignoring_delete_friendship ignoring_delete_request)
    | (rule triple_return, (use assms in \<open>auto simp: on_abs_def Spec_BlockPlayer_def Diff_two\<close>)[1]))+ auto

lemma SendFriendRequest_refines:
  "refines social_wf abs_graph (SendFriendRequest uid me a) (Spec_SendFriendRequest me a)"
  unfolding SendFriendRequest_def
  by (auto intro!: refines_RW send_request_work_triple refines_fail simp: Spec_SendFriendRequest_def)

lemma AcceptFriendRequest_refines:
  "refines social_wf abs_graph (AcceptFriendRequest uid me r) (Spec_AcceptFriendRequest me r)"
  unfolding AcceptFriendRequest_def by (rule refines_RW accept_work_triple)+

lemma DeclineFriendRequest_refines:
  "refines social_wf abs_graph (DeclineFriendRequest me r) (Spec_DeleteRequest r me)"
  unfolding DeclineFriendRequest_def by (rule refines_RW delete_request_triple)+

lemma CancelFriendRequest_refines:
  "refines social_wf abs_graph (CancelFriendRequest me a) (Spec_DeleteRequest me a)"
  unfolding CancelFriendRequest_def by (rule refines_RW delete_request_triple)+

lemma RemoveFriend_refines:
  "refines social_wf abs_graph (RemoveFriend me f) (Spec_RemoveFriend me f)"
  unfolding RemoveFriend_def by (rule refines_RW remove_friend_triple)+

lemma BlockPlayer_refines:
  "refines social_wf abs_graph (BlockPlayer uid me a) (Spec_BlockPlayer me a)"
  unfolding BlockPlayer_def
  by (auto intro!: refines_RW block_work_triple refines_fail simp: Spec_BlockPlayer_def)

lemma UnblockPlayer_refines:
  "refines social_wf abs_graph (UnblockPlayer me a) (Spec_UnblockPlayer me a)"
  unfolding UnblockPlayer_def
  by (rule refines_RW, rule triple_tail, rule social_triples) (auto simp: on_abs_def Spec_UnblockPlayer_def)

lemmas social_specs = Spec_SendFriendRequest_def Spec_AcceptFriendRequest_def Spec_DeleteRequest_def
  Spec_RemoveFriend_def Spec_BlockPlayer_def Spec_UnblockPlayer_def

lemma graph_okD:
  assumes "graph_ok g"
  shows "(a, b) \<in> gr_requests g \<Longrightarrow> a \<noteq> b" "(a, b) \<in> gr_requests g \<Longrightarrow> (b, a) \<notin> gr_requests g"
    "(a, b) \<in> gr_requests g \<Longrightarrow> {a, b} \<notin> gr_friends g"
    "(a, b) \<in> gr_blocks g \<Longrightarrow> a \<noteq> b" "(a, b) \<in> gr_blocks g \<Longrightarrow> {a, b} \<notin> gr_friends g"
    "(a, b) \<in> gr_blocks g \<Longrightarrow> (a, b) \<notin> gr_requests g" "(a, b) \<in> gr_blocks g \<Longrightarrow> (b, a) \<notin> gr_requests g"
    "f \<in> gr_friends g \<Longrightarrow> \<exists>a b. a \<noteq> b \<and> f = {a, b}"
  using assms unfolding graph_ok_def by blast+

lemma Spec_AcceptFriendRequest_ok:
  assumes "graph_ok g" and "Spec_AcceptFriendRequest me a g = (r, g')"
  shows "graph_ok g'"
proof -
  note ok = graph_okD [OF assms(1)]
  consider "g' = g" | (accept) "(a, me) \<in> gr_requests g"
      "g' = g\<lparr>gr_requests := gr_requests g - {(a, me)}, gr_friends := insert {a, me} (gr_friends g)\<rparr>"
    using assms(2) by (auto simp: Spec_AcceptFriendRequest_def split: if_splits)
  then show ?thesis
  proof cases
    case accept
    then show ?thesis
      unfolding graph_ok_def using ok by (auto simp: doubleton_eq_iff)
  qed (use assms in simp)
qed

lemma graph_ok_request:
  assumes "graph_ok g" and "(a, me) \<notin> gr_requests g" "(me, a) \<notin> gr_blocks g" "(a, me) \<notin> gr_blocks g"
    "me \<noteq> a" "{me, a} \<notin> gr_friends g"
  shows "graph_ok (g\<lparr>gr_requests := insert (me, a) (gr_requests g)\<rparr>)"
proof -
  have "\<forall>x y. (x, y) \<in> insert (me, a) (gr_requests g) \<longrightarrow>
      x \<noteq> y \<and> (y, x) \<notin> insert (me, a) (gr_requests g) \<and> {x, y} \<notin> gr_friends g"
    using graph_okD(1-3) [OF assms(1)] assms(2-) by blast
  moreover have "\<forall>x y. (x, y) \<in> gr_blocks g \<longrightarrow> x \<noteq> y \<and> {x, y} \<notin> gr_friends g \<and>
      (x, y) \<notin> insert (me, a) (gr_requests g) \<and> (y, x) \<notin> insert (me, a) (gr_requests g)"
    using graph_okD(4-7) [OF assms(1)] assms(2-) by blast
  ultimately show ?thesis using graph_okD(8) [OF assms(1)] by (simp add: graph_ok_def)
qed

lemma Spec_SendFriendRequest_ok:
  assumes "graph_ok g" and "Spec_SendFriendRequest me a g = (r, g')"
  shows "graph_ok g'"
proof (cases "(a, me) \<in> gr_requests g")
  case True
  then have "g' = g \<or> Spec_AcceptFriendRequest me a g = (Inr (), g')"
    using assms(2) insert_commute [of a me "{}"]
    by (simp add: Spec_SendFriendRequest_def Spec_AcceptFriendRequest_def split: if_splits)
  then show ?thesis using assms(1) Spec_AcceptFriendRequest_ok by blast
next
  case False
  then have "g' = g \<or> g' = g\<lparr>gr_requests := insert (me, a) (gr_requests g)\<rparr> \<and> (me, a) \<notin> gr_blocks g \<and>
      (a, me) \<notin> gr_blocks g \<and> me \<noteq> a \<and> {me, a} \<notin> gr_friends g"
    using assms(2) by (simp add: Spec_SendFriendRequest_def split: if_splits)
  then show ?thesis using assms(1) graph_ok_request [OF assms(1) False] by blast
qed

lemma graph_ok_shrink:
  assumes "graph_ok g" and "gr_requests g' \<subseteq> gr_requests g" "gr_friends g' \<subseteq> gr_friends g" "gr_blocks g' \<subseteq> gr_blocks g"
  shows "graph_ok g'"
proof -
  note sub = subsetD [OF assms(2)] subsetD [OF assms(3)] subsetD [OF assms(4)]
  show ?thesis
    unfolding graph_ok_def
    by (intro conjI allI ballI impI) (metis graph_okD [OF assms(1)] sub)+
qed

lemma Spec_shrinking_ok:
  "graph_ok g \<Longrightarrow> Spec_DeleteRequest me a g = (r, g') \<Longrightarrow> graph_ok g'"
  "graph_ok g \<Longrightarrow> Spec_RemoveFriend me a g = (r, g') \<Longrightarrow> graph_ok g'"
  "graph_ok g \<Longrightarrow> Spec_UnblockPlayer me a g = (r, g') \<Longrightarrow> graph_ok g'"
  by (erule graph_ok_shrink; auto simp: Spec_DeleteRequest_def Spec_RemoveFriend_def
      Spec_UnblockPlayer_def split: if_splits)+

lemma Spec_BlockPlayer_ok:
  assumes "graph_ok g" and "Spec_BlockPlayer me a g = (r, g')"
  shows "graph_ok g'"
proof (cases "me = a")
  case False
  then have g': "g' = g\<lparr>gr_friends := gr_friends g - {{me, a}}, gr_requests := gr_requests g - {(me, a), (a, me)},
              gr_blocks := insert (me, a) (gr_blocks g)\<rparr>"
    using assms(2) by (simp add: Spec_BlockPlayer_def)
  show ?thesis
    unfolding graph_ok_def g' using False graph_okD [OF assms(1)] by (auto simp: doubleton_eq_iff)
qed (use assms in \<open>simp add: Spec_BlockPlayer_def\<close>)

section \<open>Calls in sequence\<close>

datatype social_call =
    CallSend uuid uuid uuid | CallAccept uuid uuid uuid | CallDecline uuid uuid | CallCancel uuid uuid
  | CallRemove uuid uuid | CallBlock uuid uuid uuid | CallUnblock uuid uuid
  | CallListFriends uuid | CallListIncoming uuid | CallListOutgoing uuid | CallListBlocked uuid

fun social_step :: "social_call \<Rightarrow> db \<Rightarrow> db" where
  "social_step (CallSend uid me a) s = snd (SendFriendRequest uid me a s)"
| "social_step (CallAccept uid me r) s = snd (AcceptFriendRequest uid me r s)"
| "social_step (CallDecline me r) s = snd (DeclineFriendRequest me r s)"
| "social_step (CallCancel me a) s = snd (CancelFriendRequest me a s)"
| "social_step (CallRemove me f) s = snd (RemoveFriend me f s)"
| "social_step (CallBlock uid me a) s = snd (BlockPlayer uid me a s)"
| "social_step (CallUnblock me a) s = snd (UnblockPlayer me a s)"
| "social_step (CallListFriends me) s = snd (ListFriends me s)"
| "social_step (CallListIncoming me) s = snd (ListIncomingRequests me s)"
| "social_step (CallListOutgoing me) s = snd (ListOutgoingRequests me s)"
| "social_step (CallListBlocked me) s = snd (ListBlocked me s)"

lemma social_inv_on_abs: "social_inv t \<longleftrightarrow> on_abs social_wf abs_graph graph_ok t"
  by (simp add: social_inv_def on_abs_def)

lemma preserves_social_inv:
  assumes "refines social_wf abs_graph m spec" and "\<And>g r g'. graph_ok g \<Longrightarrow> spec g = (r, g') \<Longrightarrow> graph_ok g'"
  shows "social_inv (db_tables s) \<Longrightarrow> social_inv (db_tables (snd (m s)))"
  using preserves_snd [OF refines_preserves [OF assms]] by (simp add: social_inv_on_abs)

lemma social_step_inv:
  assumes "social_inv (db_tables s)"
  shows "social_inv (db_tables (social_step c s))"
proof (cases c)
  case (CallSend uid me a)
  then show ?thesis using preserves_social_inv [OF SendFriendRequest_refines Spec_SendFriendRequest_ok assms] by simp
next
  case (CallAccept uid me r)
  then show ?thesis using preserves_social_inv [OF AcceptFriendRequest_refines Spec_AcceptFriendRequest_ok assms] by simp
next
  case (CallDecline me r)
  then show ?thesis using preserves_social_inv [OF DeclineFriendRequest_refines Spec_shrinking_ok(1) assms] by simp
next
  case (CallCancel me a)
  then show ?thesis using preserves_social_inv [OF CancelFriendRequest_refines Spec_shrinking_ok(1) assms] by simp
next
  case (CallRemove me f)
  then show ?thesis using preserves_social_inv [OF RemoveFriend_refines Spec_shrinking_ok(2) assms] by simp
next
  case (CallBlock uid me a)
  then show ?thesis using preserves_social_inv [OF BlockPlayer_refines Spec_BlockPlayer_ok assms] by simp
next
  case (CallUnblock me a)
  then show ?thesis using preserves_social_inv [OF UnblockPlayer_refines Spec_shrinking_ok(3) assms] by simp
qed (use assms preserves_snd [OF preserves_RO_query, of social_inv] in
    \<open>simp_all add: ListFriends_def ListIncomingRequests_def ListOutgoingRequests_def ListBlocked_def
      social_repo_defs sql_ListFriends_def sql_ListIncomingRequests_def sql_ListOutgoingRequests_def sql_ListBlocked_def\<close>)

lemma has_block_either: "list_ex (\<lambda>row. is_block a b row \<or> is_block b a row) (player_blocks t) \<longleftrightarrow>
   (a, b) \<in> gr_blocks (abs_graph t) \<or> (b, a) \<in> gr_blocks (abs_graph t)"
  unfolding block_exists [symmetric] by (auto simp: list_ex_iff)

lemma send_request_work_clean:
  assumes "live False s" "social_wf (db_tables s)" "has_player (db_tables s) me" "has_player (db_tables s) a"
    and "uid \<notin> fr_id ` set (friend_requests (db_tables s))" "uid \<notin> f_id ` set (friendships (db_tables s))"
    and "me \<noteq> a"
  shows "clean (send_request_work uid me a) s"
  using assms
  by (auto simp: clean_def tx_eval send_request_work_def social_repo_defs social_sql_defs no_match_iff
      NewFriendRequest_def NewFriendship_def OrderPair_eq has_block_either friendship_exists request_exists
      min_less_max min_def max_def split: if_split)

lemma SendFriendRequest_clean:
  assumes "quiet s" and "social_wf (db_tables s)" and "me \<noteq> a"
    and "has_player (db_tables s) me" and "has_player (db_tables s) a"
    and "uid \<notin> fr_id ` set (friend_requests (db_tables s))"
    and "uid \<notin> f_id ` set (friendships (db_tables s))"
  shows "(fst (outcome (SendFriendRequest uid me a) s), abs_graph (snd (outcome (SendFriendRequest uid me a) s)))
    = Spec_SendFriendRequest me a (abs_graph (db_tables s))"
proof -
  have "clean (send_request_work uid me a) (begin_tx False s)"
    using send_request_work_clean [of "begin_tx False s" me a uid] assms by simp
  then show ?thesis
    using refines_clean [of social_wf abs_graph "send_request_work uid me a" "Spec_SendFriendRequest me a" s]
      SendFriendRequest_refines [of uid me a] assms(1-3) by (simp add: SendFriendRequest_def)
qed

lemma send_request_work_blocked:
  "live False s \<Longrightarrow> (me, a) \<in> gr_blocks (abs_graph (db_tables s)) \<or> (a, me) \<in> gr_blocks (abs_graph (db_tables s)) \<Longrightarrow>
   send_request_work uid me a s = (Inl (SocialE ErrBlocked), s)"
  by (auto simp: send_request_work_def Blocks_IsBlocked_def sql_BlockExistsEitherWay_def tx_eval has_block_either)

lemma block_work_clean:
  assumes "live False s" "social_wf (db_tables s)" "has_player (db_tables s) me" "has_player (db_tables s) a"
    and "uid \<notin> b_id ` set (player_blocks (db_tables s))" and "me \<noteq> a"
  shows "clean (block_work uid me a) s"
  using assms
  by (auto simp: clean_def tx_eval block_work_def ignoring_def social_repo_defs social_sql_defs no_match_iff
      NewBlock_def OrderPair_eq split: if_split)

definition friend_rows :: "tables \<Rightarrow> uuid \<Rightarrow> Friend list" where
  "friend_rows t me = concat (map (\<lambda>f.
     join_player t (if f_player_low f = me then f_player_high f else f_player_low f)
       (\<lambda>p. \<lparr>Friend_PlayerID = p_id p, Friend_Nickname = p_nickname p, Since = f_created_at f\<rparr>))
     (filter (\<lambda>f. f_player_low f = me \<or> f_player_high f = me) (friendships t)))"

lemma friend_rows_ids:
  assumes "social_wf t"
  shows "map Friend_PlayerID (friend_rows t me) =
    map (\<lambda>f. if f_player_low f = me then f_player_high f else f_player_low f)
      (filter (\<lambda>f. f_player_low f = me \<or> f_player_high f = me) (friendships t))"
  unfolding friend_rows_def
  by (rule map_concat_join) (use assms in \<open>auto intro!: join_player_ids simp: social_wf_def\<close>)

lemma friend_rows_set:
  assumes "social_wf t"
  shows "Friend_PlayerID ` set (friend_rows t me) = {b. {me, b} \<in> gr_friends (abs_graph t)}"
proof -
  have "Friend_PlayerID ` set (friend_rows t me) = set (map Friend_PlayerID (friend_rows t me))" by simp
  also have "\<dots> = {b. {me, b} \<in> gr_friends (abs_graph t)}"
    unfolding friend_rows_ids [OF assms] by (auto simp: abs_graph_def doubleton_eq_iff image_iff)
  finally show ?thesis .
qed

lemma friend_rows_distinct:
  assumes "social_wf t"
  shows "distinct (map Friend_PlayerID (friend_rows t me))"
proof -
  have "distinct (map (\<lambda>f. (f_player_low f, f_player_high f)) (friendships t))"
    using assms by (simp add: social_wf_def)
  moreover have "f \<in> set (friendships t) \<Longrightarrow> f_player_low f < f_player_high f" for f
    using assms by (simp add: social_wf_def)
  ultimately show ?thesis
    unfolding friend_rows_ids [OF assms] by (auto simp: distinct_map inj_on_def) (metis less_asym')+
qed

lemma social_inv_sample: "a \<noteq> b \<Longrightarrow> social_inv (db_tables (sample_db [a, b]))"
  by (simp add: sample_simps social_inv_def social_wf_def graph_ok_def abs_graph_def)

section \<open>Properties\<close>

text \<open>
  \<open>OrderPair\<close>, a loop over sixteen bytes, returns the smaller and the larger of the two ids in
  the order of their unsigned values, the order PostgreSQL compares the columns in.
\<close>

theorem OrderPair_min_max:
  "OrderPair a b = (min a b, max a b) \<and> OrderPair b a = OrderPair a b"
  by (simp add: OrderPair_eq min.commute max.commute)

text \<open>
  C1. Whatever sequence of social calls runs, with whatever ids and store faults, the friend graph
  keeps its rules: requests are between distinct players, never mutual and never between friends;
  friendships are stored once, in canonical order; a block excludes a friendship and a request in
  either direction; every row names existing players.
\<close>

theorem social_inv_reachable:
  assumes "social_inv (db_tables s)"
  shows "social_inv (db_tables (fold social_step calls s))"
  using assms by (induction calls arbitrary: s) (simp_all add: social_step_inv)

theorem social_inv_reachable_witness:
  "social_inv (db_tables (sample_db [1, 2])) \<and>
   social_inv (db_tables (fold social_step [CallSend 7 1 2, CallBlock 8 2 1, CallSend 9 1 2] (sample_db [1, 2])))"
  using social_inv_reachable [of "sample_db [1, 2]" "[CallSend 7 1 2, CallBlock 8 2 1, CallSend 9 1 2]"]
  by (simp add: social_inv_sample)

text \<open>
  Under any faults, \<open>SendFriendRequest\<close> returns exactly what the rules of the graph say and
  changes the graph accordingly, or reports an error of the store; then the graph is the old one,
  or, when the acknowledgement of the commit was lost, the one the call leads to. Nothing in
  between is ever left behind.
\<close>

theorem SendFriendRequest_outcome:
  assumes "social_wf (db_tables s)" and "outcome (SendFriendRequest uid me a) s = (r, t)"
  shows "social_wf t \<and> ((r, abs_graph t) = Spec_SendFriendRequest me a (abs_graph (db_tables s)) \<or>
    (\<exists>e. r = Inl e \<and> infra e \<and> (abs_graph t = abs_graph (db_tables s) \<or>
       (\<exists>x. Spec_SendFriendRequest me a (abs_graph (db_tables s)) = (Inr x, abs_graph t)))))"
  using refines_outcome [OF SendFriendRequest_refines assms] .

theorem SendFriendRequest_outcome_witness:
  "social_wf (snd (outcome (SendFriendRequest 7 1 2) (sample_db [1, 2])))"
  using SendFriendRequest_outcome [of "sample_db [1, 2]" 7 1 2] social_inv_sample
  by (simp add: social_inv_def) (metis prod.collapse)

text \<open>
  Without faults, between existing players and with a fresh row id, the call never fails in the
  store: its result and the graph after it are those of the abstract operation, on every branch.
\<close>

theorem SendFriendRequest_exact:
  assumes "quiet s" and "social_wf (db_tables s)"
    and "has_player (db_tables s) me" and "has_player (db_tables s) a"
    and "uid \<notin> fr_id ` set (friend_requests (db_tables s))"
    and "uid \<notin> f_id ` set (friendships (db_tables s))"
  shows "(fst (outcome (SendFriendRequest uid me a) s), abs_graph (snd (outcome (SendFriendRequest uid me a) s)))
    = Spec_SendFriendRequest me a (abs_graph (db_tables s))"
proof (cases "me = a")
  case True
  then show ?thesis by (simp add: SendFriendRequest_def outcome_fail Spec_SendFriendRequest_def)
next
  case False
  then show ?thesis using SendFriendRequest_clean [OF assms(1,2) False assms(3-6)] by simp
qed

theorem SendFriendRequest_exact_witness:
  "fst (outcome (SendFriendRequest 7 1 2) (sample_db [1, 2])) = Inr False"
  using SendFriendRequest_exact [of "sample_db [1, 2]" 1 2 7] social_inv_sample [of 1 2]
  by (simp add: social_inv_def sample_simps abs_graph_def Spec_SendFriendRequest_def has_player_def)

text \<open>
  Two players who ask each other become friends: the second request, whichever side sends it
  first, is accepted at once, and no request is left pending between them.
\<close>

theorem mutual_requests_make_friends:
  assumes "quiet s" and "social_inv (db_tables s)" and "me \<noteq> a"
    and "has_player (db_tables s) me" and "has_player (db_tables s) a"
    and "(a, me) \<in> gr_requests (abs_graph (db_tables s))"
    and "uid \<notin> fr_id ` set (friend_requests (db_tables s))"
    and "uid \<notin> f_id ` set (friendships (db_tables s))"
  shows "\<exists>t. outcome (SendFriendRequest uid me a) s = (Inr True, t) \<and>
     {me, a} \<in> gr_friends (abs_graph t) \<and>
     (me, a) \<notin> gr_requests (abs_graph t) \<and> (a, me) \<notin> gr_requests (abs_graph t)"
proof -
  let ?g = "abs_graph (db_tables s)"
  have ok: "graph_ok ?g" and wf: "social_wf (db_tables s)" using assms(2) by (simp_all add: social_inv_def)
  have "{me, a} \<notin> gr_friends ?g" "(me, a) \<notin> gr_blocks ?g" "(a, me) \<notin> gr_blocks ?g" "(me, a) \<notin> gr_requests ?g"
    using graph_okD(3) [OF ok assms(6)] graph_okD(2) [OF ok assms(6)] graph_okD(6) [OF ok, of a me]
      graph_okD(7) [OF ok, of me a] assms(6) by (auto simp: insert_commute)
  then have spec: "Spec_SendFriendRequest me a ?g = (Inr True,
      ?g\<lparr>gr_requests := gr_requests ?g - {(a, me)}, gr_friends := insert {me, a} (gr_friends ?g)\<rparr>)"
    using assms(3,6) by (simp add: Spec_SendFriendRequest_def)
  have "(fst (outcome (SendFriendRequest uid me a) s), abs_graph (snd (outcome (SendFriendRequest uid me a) s)))
      = Spec_SendFriendRequest me a ?g"
    by (rule SendFriendRequest_clean) (fact assms wf)+
  then show ?thesis
    using spec \<open>(me, a) \<notin> gr_requests ?g\<close>
    by (cases "outcome (SendFriendRequest uid me a) s") simp
qed

definition pending_db :: db where
  "pending_db = (sample_db [1, 2])\<lparr>db_tables := (db_tables (sample_db [1, 2]))\<lparr>friend_requests :=
     [\<lparr>fr_id = 7, fr_requester_id = 2, fr_addressee_id = 1, fr_created_at = 0\<rparr>]\<rparr>\<rparr>"

theorem mutual_requests_make_friends_witness:
  "\<exists>t. outcome (SendFriendRequest 8 1 2) pending_db = (Inr True, t) \<and> {1, 2} \<in> gr_friends (abs_graph t)"
  using mutual_requests_make_friends [of pending_db 1 2 8]
  by (auto simp: pending_db_def sample_simps social_inv_def social_wf_def graph_ok_def abs_graph_def has_player_def)

text \<open>
  C2. A block that was reported as done, whatever faults the store had, has severed the two: no
  friendship and no request between them is left, and from then on a friend request in either
  direction is refused as blocked and changes nothing.
\<close>

theorem BlockPlayer_severs:
  assumes "social_wf (db_tables s)" and "outcome (BlockPlayer uid me a) s = (Inr (), t)"
    and "quiet s'" and "db_tables s' = t"
  shows "{me, a} \<notin> gr_friends (abs_graph t) \<and> (me, a) \<notin> gr_requests (abs_graph t) \<and>
    (a, me) \<notin> gr_requests (abs_graph t) \<and>
    outcome (SendFriendRequest uid' me a) s' = (Inl (SocialE ErrBlocked), t) \<and>
    outcome (SendFriendRequest uid' a me) s' = (Inl (SocialE ErrBlocked), t)"
proof -
  have spec: "social_wf t" "(Inr (), abs_graph t) = Spec_BlockPlayer me a (abs_graph (db_tables s))"
    using refines_outcome [OF BlockPlayer_refines assms(1,2)] by auto
  then have ne: "me \<noteq> a" and blocked: "(me, a) \<in> gr_blocks (abs_graph t)"
    by (auto simp: Spec_BlockPlayer_def split: if_splits)
  have "outcome (SendFriendRequest uid' x y) s' = (Inl (SocialE ErrBlocked), t)"
    if "(x, y) = (me, a) \<or> (x, y) = (a, me)" for x y
    using that ne blocked assms(3,4) send_request_work_blocked [of "begin_tx False s'" x y uid']
      outcome_run_error [of s' "send_request_work uid' x y" False _ "begin_tx False s'"]
    by (auto simp: SendFriendRequest_def RW_def)
  then show ?thesis using spec ne by (auto simp: Spec_BlockPlayer_def split: if_splits)
qed

theorem BlockPlayer_severs_witness:
  "outcome (SendFriendRequest 9 2 1)
     ((sample_db [])\<lparr>db_tables := snd (outcome (BlockPlayer 8 1 2) pending_db)\<rparr>)
   = (Inl (SocialE ErrBlocked), snd (outcome (BlockPlayer 8 1 2) pending_db))"
proof -
  have "outcome (BlockPlayer 8 1 2) pending_db = (Inr (), snd (outcome (BlockPlayer 8 1 2) pending_db))"
    by code_simp
  then show ?thesis
    using BlockPlayer_severs [of pending_db 8 1 2 "snd (outcome (BlockPlayer 8 1 2) pending_db)"
        "(sample_db [])\<lparr>db_tables := snd (outcome (BlockPlayer 8 1 2) pending_db)\<rparr>" 9]
    by (simp add: pending_db_def sample_simps social_wf_def has_player_def)
qed

text \<open>
  \<open>ListFriends\<close> returns each friend of the caller exactly once and nobody else, newest
  friendship first, and changes nothing.
\<close>

theorem ListFriends_exact:
  assumes "quiet s" and "social_wf (db_tables s)"
  shows "\<exists>fs. outcome (ListFriends me) s = (Inr fs, db_tables s) \<and>
     Friend_PlayerID ` set fs = {b. {me, b} \<in> gr_friends (abs_graph (db_tables s))} \<and>
     distinct (map Friend_PlayerID fs) \<and> sorted_wrt (\<lambda>x y. Since x \<ge> Since y) fs"
proof -
  have "outcome (ListFriends me) s = (Inr (newest_first Since (friend_rows (db_tables s) me)), db_tables s)"
    unfolding ListFriends_def Friendships_ListFriends_def sql_ListFriends_def friend_rows_def
    by (rule RO_query_outcome [OF assms(1)])
  then show ?thesis
    using friend_rows_set [OF assms(2)] friend_rows_distinct [OF assms(2)] newest_first_sorted by simp
qed

theorem ListFriends_exact_witness:
  "\<exists>fs. outcome (ListFriends 1) (sample_db [1, 2]) = (Inr fs, db_tables (sample_db [1, 2]))"
  using ListFriends_exact [of "sample_db [1, 2]" 1] social_inv_sample [of 1 2]
  by (auto simp: social_inv_def sample_simps)

end
