(* ===== verification/Go_Float.thy ===== *)
theory Go_Float
  imports Prelude Complex_Main
begin

text \<open>
  Go's \<open>float64\<close>: IEEE 754 binary64 with round to nearest, ties to even. A finite value is the
  rational it denotes (the two zeros are one value, which no comparison tells apart). The operations
  are those the matcher uses: addition, subtraction, multiplication, absolute value and comparison,
  and \<open>Duration.Seconds\<close>. A product that is then added is rounded first, as on amd64.
\<close>

datatype float64 = NaN | PInf | NInf | Fin rat

fun bitlen :: "nat \<Rightarrow> nat" where
  "bitlen n = (if n = 0 then 0 else Suc (bitlen (n div 2)))"

declare bitlen.simps [simp del]

definition pow2 :: "int \<Rightarrow> rat" where
  "pow2 k = (if k \<ge> 0 then 2 ^ nat k else 1 / 2 ^ nat (- k))"

text \<open>The exponent of the leading binary digit of a positive rational.\<close>

definition lead_exp :: "rat \<Rightarrow> int" where
  "lead_exp q = (let (n, d) = quotient_of q; e = int (bitlen (nat n)) - int (bitlen (nat d)) in
     if pow2 e \<le> q then e else e - 1)"

definition round_half_even :: "rat \<Rightarrow> int" where
  "round_half_even q = (let f = \<lfloor>q\<rfloor>; r = q - of_int f in
     if r < 1 / 2 then f else if r > 1 / 2 then f + 1 else if even f then f else f + 1)"

text \<open>
  Rounding a magnitude: 53 significant digits, no digit below \<open>2^-1074\<close>; a result that reaches
  \<open>2^1024\<close> is an infinity.
\<close>

definition round_mag :: "rat \<Rightarrow> rat option" where
  "round_mag q = (if q = 0 then Some 0 else
     let u = max (lead_exp q - 52) (- 1074);
         v = of_int (round_half_even (q / pow2 u)) * pow2 u
     in if v \<ge> pow2 1024 then None else Some v)"

definition round64 :: "rat \<Rightarrow> float64" where
  "round64 q = (case round_mag \<bar>q\<bar> of
     None \<Rightarrow> if q > 0 then PInf else NInf
   | Some v \<Rightarrow> if q < 0 then Fin (- v) else Fin v)"

fun fneg :: "float64 \<Rightarrow> float64" where
  "fneg NaN = NaN" | "fneg PInf = NInf" | "fneg NInf = PInf" | "fneg (Fin q) = Fin (- q)"

fun fadd :: "float64 \<Rightarrow> float64 \<Rightarrow> float64" where
  "fadd NaN y = NaN"
| "fadd x NaN = NaN"
| "fadd PInf NInf = NaN"
| "fadd NInf PInf = NaN"
| "fadd PInf y = PInf"
| "fadd x PInf = PInf"
| "fadd NInf y = NInf"
| "fadd x NInf = NInf"
| "fadd (Fin a) (Fin b) = round64 (a + b)"

definition fsub :: "float64 \<Rightarrow> float64 \<Rightarrow> float64" where
  "fsub x y = fadd x (fneg y)"

definition inf_of_sign :: "rat \<Rightarrow> float64" where
  "inf_of_sign q = (if q > 0 then PInf else if q < 0 then NInf else NaN)"

fun fmul :: "float64 \<Rightarrow> float64 \<Rightarrow> float64" where
  "fmul NaN y = NaN"
| "fmul x NaN = NaN"
| "fmul (Fin a) (Fin b) = round64 (a * b)"
| "fmul PInf (Fin b) = inf_of_sign b"
| "fmul NInf (Fin b) = inf_of_sign (- b)"
| "fmul (Fin a) PInf = inf_of_sign a"
| "fmul (Fin a) NInf = inf_of_sign (- a)"
| "fmul PInf PInf = PInf" | "fmul NInf NInf = PInf" | "fmul PInf NInf = NInf" | "fmul NInf PInf = NInf"

fun fabs :: "float64 \<Rightarrow> float64" where
  "fabs NaN = NaN" | "fabs PInf = PInf" | "fabs NInf = PInf" | "fabs (Fin q) = Fin \<bar>q\<bar>"

text \<open>\<open>x > y\<close>: false whenever one side is not a number.\<close>

fun fgt :: "float64 \<Rightarrow> float64 \<Rightarrow> bool" where
  "fgt NaN y = False"
| "fgt x NaN = False"
| "fgt PInf y = (y \<noteq> PInf)"
| "fgt x NInf = (x \<noteq> NInf)"
| "fgt x PInf = False"
| "fgt NInf y = False"
| "fgt (Fin a) (Fin b) = (a > b)"

definition feq0 :: "float64 \<Rightarrow> bool" where
  "feq0 x = (x = Fin 0)"

text \<open>
  \<open>Duration.Seconds\<close>: whole seconds and the rest over a billion, added. The duration's quotient and
  remainder truncate toward zero, and both are far below \<open>2^53\<close>.
\<close>

definition trunc_div :: "int \<Rightarrow> int \<Rightarrow> int" where
  "trunc_div a b = (if a \<ge> 0 then a div b else - ((- a) div b))"

definition Seconds :: "duration \<Rightarrow> float64" where
  "Seconds d = (let sec = trunc_div d Second; nsec = d - sec * Second in
     fadd (Fin (of_int sec)) (round64 (of_int nsec / 1000000000)))"

lemma fneg_round64: "fneg (round64 q) = round64 (- q)"
proof (cases "q = 0")
  case True
  then show ?thesis by (simp add: round64_def round_mag_def)
next
  case False
  then show ?thesis by (auto simp: round64_def split: option.split)
qed

lemma round_mag_nonneg: "q \<ge> 0 \<Longrightarrow> round_mag q = Some v \<Longrightarrow> v \<ge> 0"
proof -
  assume q: "q \<ge> 0" and v: "round_mag q = Some v"
  have p: "pow2 u > 0" for u by (simp add: pow2_def)
  have "round_half_even (q / pow2 u) \<ge> 0" for u
    using q p [of u] by (auto simp: round_half_even_def Let_def)
  then show "v \<ge> 0"
    using v p by (auto simp: round_mag_def Let_def less_imp_le split: if_splits)
qed

text \<open>The gap between two ratings does not depend on which one is subtracted.\<close>

lemma fabs_round64_minus: "fabs (round64 (- q)) = fabs (round64 q)"
  by (cases "round64 q") (auto simp: fneg_round64 [symmetric])

lemma fabs_fsub_commute: "fabs (fsub x y) = fabs (fsub y x)"
proof (cases x; cases y)
  fix a b assume "x = Fin a" "y = Fin b"
  then show ?thesis using fabs_round64_minus [of "b - a"] by (simp add: fsub_def)
qed (auto simp: fsub_def)

end
