(* ===== verification/Matcher.thy ===== *)
theory Matcher
  imports Go_Strings Go_Float "HOL-Library.AList"
begin

text \<open>
  The matchmaking rules: \<open>internal/domain/match/ticket.go\<close> and \<open>matcher.go\<close>.

  \<open>UUID.String\<close> belongs to a package outside the repository and is the argument \<open>str\<close>. Iterating a Go
  map visits its entries in an unspecified order: \<open>ord\<close> is the order of one run, a permutation of the
  entries. The lemmas show what a selected group is made of, that it does not depend on \<open>ord\<close>, and
  when one is found.
\<close>

section \<open>Tickets\<close>

record Ticket =
  Ticket_ID :: uuid
  Ticket_PlayerID :: uuid
  GameMode :: string
  Rating :: "float64 option"
  Region :: "string option"
  PartyMembers :: "uuid list"
  Attributes :: "(string \<times> string) list"
  EnqueuedAt :: go_time

definition NewTicket :: "uuid \<Rightarrow> uuid \<Rightarrow> string \<Rightarrow> go_time \<Rightarrow> go_error + Ticket" where
  "NewTicket uid playerID gameMode now =
     (if playerID = uuid_Nil then Inl (MatchE ErrTicketNoPlayer)
      else if gameMode = '''' then Inl (MatchE ErrTicketNoGameMode)
      else Inr \<lparr>Ticket_ID = uid, Ticket_PlayerID = playerID, GameMode = gameMode, Rating = None,
        Region = None, PartyMembers = [], Attributes = [], EnqueuedAt = now\<rparr>)"

definition IsParty :: "Ticket \<Rightarrow> bool" where
  "IsParty t \<longleftrightarrow> length (PartyMembers t) \<ge> 2"

definition PartyKey :: "(uuid \<Rightarrow> string) \<Rightarrow> Ticket \<Rightarrow> string" where
  "PartyKey str t = (if \<not> IsParty t then ''''
     else join_with (CHR '','') (sort_by (<) (map str (PartyMembers t))))"

definition NormalizeParty ::
    "(uuid \<Rightarrow> string) \<Rightarrow> (uuid list \<Rightarrow> uuid list) \<Rightarrow> uuid \<Rightarrow> uuid list \<Rightarrow> uuid list" where
  "NormalizeParty str ord self members = (let set' = remdups (self # members) in
     if length set' \<le> 1 then [] else sort_by (\<lambda>x y. str x < str y) (ord set'))"

definition CompatibleWith :: "Ticket \<Rightarrow> Ticket \<Rightarrow> float64 \<Rightarrow> bool \<Rightarrow> bool" where
  "CompatibleWith t other ratingWindow ignoreRegion =
     (if \<not> ignoreRegion \<and> Region t \<noteq> None \<and> Region other \<noteq> None \<and> Region t \<noteq> Region other then False
      else case (Rating t, Rating other) of
        (Some a, Some b) \<Rightarrow> \<not> fgt (fabs (fsub a b)) ratingWindow
      | _ \<Rightarrow> True)"

section \<open>The matcher\<close>

record MatchingPolicy =
  BaseRatingWindow :: float64
  RatingWindowGrowthPerSec :: float64
  RegionRelaxAfter :: duration

definition DefaultMatchingPolicy :: MatchingPolicy where
  "DefaultMatchingPolicy = \<lparr>BaseRatingWindow = Fin 100, RatingWindowGrowthPerSec = Fin 50,
     RegionRelaxAfter = 15 * Second\<rparr>"

definition withDefaults :: "MatchingPolicy \<Rightarrow> MatchingPolicy" where
  "withDefaults p = (let d = DefaultMatchingPolicy;
     p1 = (if feq0 (BaseRatingWindow p) then p\<lparr>BaseRatingWindow := BaseRatingWindow d\<rparr> else p);
     p2 = (if feq0 (RatingWindowGrowthPerSec p1)
           then p1\<lparr>RatingWindowGrowthPerSec := RatingWindowGrowthPerSec d\<rparr> else p1)
     in if RegionRelaxAfter p2 = 0 then p2\<lparr>RegionRelaxAfter := RegionRelaxAfter d\<rparr> else p2)"

record Matcher =
  policy :: MatchingPolicy
  playersPerMatch :: int

definition NewMatcher :: "int \<Rightarrow> MatchingPolicy \<Rightarrow> Matcher" where
  "NewMatcher n p = \<lparr>policy = withDefaults p, playersPerMatch = (if n < 1 then 2 else n)\<rparr>"

definition PlayersPerMatch :: "Matcher \<Rightarrow> int" where
  "PlayersPerMatch m = playersPerMatch m"

record matchUnit =
  tickets :: "Ticket list"
  seedAt :: go_time

definition unit_size :: "matchUnit \<Rightarrow> nat" where
  "unit_size u = length (tickets u)"

text \<open>\<open>anchor\<close>: \<open>u.tickets[0]\<close>, replaced by every strictly earlier ticket on the way.\<close>

definition anchor :: "matchUnit \<Rightarrow> Ticket" where
  "anchor u = fold (\<lambda>t a. if EnqueuedAt t < EnqueuedAt a then t else a) (tl (tickets u)) (hd (tickets u))"

text \<open>
  \<open>buildUnits\<close>. The first loop keeps the solo units, the rosters by party key and, per key, the oldest
  ticket of each player; the second turns each complete roster into a unit.
\<close>

type_synonym unit_acc =
  "matchUnit list \<times> (string \<times> uuid list) list \<times> (string \<Rightarrow> uuid \<Rightarrow> Ticket option)"

definition units_step :: "(uuid \<Rightarrow> string) \<Rightarrow> Ticket \<Rightarrow> unit_acc \<Rightarrow> unit_acc" where
  "units_step str t acc = (case acc of (units, rosters, byKeyPlayer) \<Rightarrow>
     if \<not> IsParty t then (units @ [\<lparr>tickets = [t], seedAt = EnqueuedAt t\<rparr>], rosters, byKeyPlayer)
     else let key = PartyKey str t; members = byKeyPlayer key in
       (units, AList.update key (PartyMembers t) rosters,
        if (case members (Ticket_PlayerID t) of None \<Rightarrow> True | Some cur \<Rightarrow> EnqueuedAt t < EnqueuedAt cur)
        then byKeyPlayer(key := members(Ticket_PlayerID t \<mapsto> t)) else byKeyPlayer))"

fun collect_party ::
    "(uuid \<Rightarrow> Ticket option) \<Rightarrow> uuid list \<Rightarrow> Ticket list \<Rightarrow> go_time \<Rightarrow> matchUnit option" where
  "collect_party members [] ts seed = Some \<lparr>tickets = ts, seedAt = seed\<rparr>"
| "collect_party members (uid # roster) ts seed = (case members uid of
     None \<Rightarrow> None
   | Some tk \<Rightarrow> collect_party members roster (ts @ [tk])
       (if time_IsZero seed \<or> EnqueuedAt tk < seed then EnqueuedAt tk else seed))"

definition party_units ::
    "(string \<Rightarrow> uuid \<Rightarrow> Ticket option) \<Rightarrow> (string \<times> uuid list) list \<Rightarrow> matchUnit list" where
  "party_units byKeyPlayer rosters =
     List.map_filter (\<lambda>(key, roster). collect_party (byKeyPlayer key) roster [] 0) rosters"

definition unit_less :: "(uuid \<Rightarrow> string) \<Rightarrow> matchUnit \<Rightarrow> matchUnit \<Rightarrow> bool" where
  "unit_less str u v =
     (if seedAt u \<noteq> seedAt v then seedAt u < seedAt v
      else str (Ticket_ID (hd (tickets u))) < str (Ticket_ID (hd (tickets v))))"

type_synonym roster_order = "(string \<times> uuid list) list \<Rightarrow> (string \<times> uuid list) list"

definition buildUnits :: "(uuid \<Rightarrow> string) \<Rightarrow> roster_order \<Rightarrow> Ticket list \<Rightarrow> matchUnit list" where
  "buildUnits str ord pending =
     (let (units, rosters, byKeyPlayer) = fold (units_step str) pending ([], [], \<lambda>_ _. None)
      in sort_by (unit_less str) (units @ party_units byKeyPlayer (ord rosters)))"

definition unitCompatibleWith :: "matchUnit \<Rightarrow> Ticket \<Rightarrow> float64 \<Rightarrow> bool \<Rightarrow> bool" where
  "unitCompatibleWith u a window ignoreRegion =
     list_all (\<lambda>t. CompatibleWith a t window ignoreRegion) (tickets u)"

definition window_at :: "Matcher \<Rightarrow> go_time \<Rightarrow> Ticket \<Rightarrow> float64" where
  "window_at m now a = fadd (BaseRatingWindow (policy m))
     (fmul (RatingWindowGrowthPerSec (policy m)) (Seconds (time_Sub now (EnqueuedAt a))))"

definition ignore_region_at :: "Matcher \<Rightarrow> go_time \<Rightarrow> Ticket \<Rightarrow> bool" where
  "ignore_region_at m now a \<longleftrightarrow> time_Sub now (EnqueuedAt a) \<ge> RegionRelaxAfter (policy m)"

text \<open>The loop that fills the group, over the units with their indices.\<close>

fun fill_group ::
    "int \<Rightarrow> (matchUnit \<Rightarrow> bool) \<Rightarrow> nat \<Rightarrow> (nat \<times> matchUnit) list \<Rightarrow> Ticket list \<Rightarrow> Ticket list" where
  "fill_group n fits seedIdx [] grp = grp"
| "fill_group n fits seedIdx ((j, u) # rest) grp =
     (if j = seedIdx then fill_group n fits seedIdx rest grp
      else if int (length grp) = n then grp
      else if int (length grp) + int (unit_size u) > n then fill_group n fits seedIdx rest grp
      else if \<not> fits u then fill_group n fits seedIdx rest grp
      else fill_group n fits seedIdx rest (grp @ tickets u))"

definition groupFromSeed :: "Matcher \<Rightarrow> go_time \<Rightarrow> matchUnit list \<Rightarrow> nat \<Rightarrow> Ticket list option" where
  "groupFromSeed m now units seedIdx = (let seed = units ! seedIdx in
     if int (unit_size seed) > playersPerMatch m then None
     else let a = anchor seed;
              grp = fill_group (playersPerMatch m)
                (\<lambda>u. unitCompatibleWith u a (window_at m now a) (ignore_region_at m now a))
                seedIdx (enumerate 0 units) (tickets seed)
          in if int (length grp) \<noteq> playersPerMatch m then None else Some grp)"

fun first_group :: "(nat \<Rightarrow> Ticket list option) \<Rightarrow> nat list \<Rightarrow> Ticket list option" where
  "first_group f [] = None"
| "first_group f (i # is) = (case f i of Some g \<Rightarrow> Some g | None \<Rightarrow> first_group f is)"

definition SelectGroup ::
    "(uuid \<Rightarrow> string) \<Rightarrow> roster_order \<Rightarrow> Matcher \<Rightarrow> go_time \<Rightarrow> Ticket list \<Rightarrow> Ticket list option" where
  "SelectGroup str ord m now pending = (let units = buildUnits str ord pending in
     first_group (groupFromSeed m now units) [0 ..< length units])"

section \<open>What the units are made of\<close>

text \<open>What the matcher relies on of \<open>UUID.String\<close>: different ids print differently, and the text is
  neither empty nor contains the separator of a party key.\<close>

definition uuid_text :: "(uuid \<Rightarrow> string) \<Rightarrow> bool" where
  "uuid_text str \<longleftrightarrow> inj str \<and> (\<forall>u. str u \<noteq> [] \<and> CHR '','' \<notin> set (str u))"

definition pool_ok :: "Ticket list \<Rightarrow> bool" where
  "pool_ok pending \<longleftrightarrow> distinct (map Ticket_ID pending) \<and> (\<forall>t \<in> set pending. distinct (PartyMembers t))"

definition solo_unit :: "Ticket \<Rightarrow> matchUnit" where
  "solo_unit t = \<lparr>tickets = [t], seedAt = EnqueuedAt t\<rparr>"

definition acc_inv :: "(uuid \<Rightarrow> string) \<Rightarrow> Ticket list \<Rightarrow> unit_acc \<Rightarrow> bool" where
  "acc_inv str seen acc \<longleftrightarrow> (case acc of (units, rosters, byKeyPlayer) \<Rightarrow>
     units = map solo_unit (filter (\<lambda>t. \<not> IsParty t) seen) \<and>
     distinct (map fst rosters) \<and>
     (\<forall>key roster. (key, roster) \<in> set rosters \<longrightarrow>
        (\<exists>t \<in> set seen. IsParty t \<and> PartyKey str t = key \<and> PartyMembers t = roster)) \<and>
     (\<forall>key p t. byKeyPlayer key p = Some t \<longrightarrow>
        t \<in> set seen \<and> IsParty t \<and> PartyKey str t = key \<and> Ticket_PlayerID t = p))"

lemma acc_inv_step:
  assumes "acc_inv str seen acc"
  shows "acc_inv str (seen @ [t]) (units_step str t acc)"
proof -
  obtain us rs bk where acc: "acc = (us, rs, bk)" by (cases acc) auto
  show ?thesis
  proof (cases "IsParty t")
    case False
    then show ?thesis using assms by (auto simp: acc acc_inv_def units_step_def solo_unit_def)
  next
    case True
    have "set (AList.update (PartyKey str t) (PartyMembers t) rs) \<subseteq>
        insert (PartyKey str t, PartyMembers t) (set rs)"
      by (induction rs) auto
    then have "(\<forall>key roster. (key, roster) \<in> set (AList.update (PartyKey str t) (PartyMembers t) rs) \<longrightarrow>
        (\<exists>u \<in> set (seen @ [t]). IsParty u \<and> PartyKey str u = key \<and> PartyMembers u = roster))"
      using assms True by (fastforce simp: acc acc_inv_def)
    moreover have "distinct (map fst (AList.update (PartyKey str t) (PartyMembers t) rs))"
      using assms by (simp add: acc acc_inv_def distinct_update)
    ultimately show ?thesis
      using assms True by (auto simp: acc acc_inv_def units_step_def Let_def split: option.splits)
  qed
qed

lemma acc_inv_fold:
  "acc_inv str seen acc \<Longrightarrow> acc_inv str (seen @ pending) (fold (units_step str) pending acc)"
proof (induction pending arbitrary: seen acc)
  case (Cons t pending)
  then show ?case using Cons.IH [OF acc_inv_step [OF Cons.prems, of t]] by simp
qed simp

lemma acc_inv_all: "acc_inv str pending (fold (units_step str) pending ([], [], \<lambda>_ _. None))"
  using acc_inv_fold [of str "[]" "([], [], \<lambda>_ _. None)" pending] by (simp add: acc_inv_def)

lemma collect_party_tickets:
  "collect_party members roster ts seed = Some u \<Longrightarrow>
   (\<forall>p \<in> set roster. members p \<noteq> None) \<and> tickets u = ts @ map (\<lambda>p. the (members p)) roster"
  by (induction roster arbitrary: ts seed) (auto split: option.splits)

text \<open>A unit is one solo ticket, or one ticket per member of a roster, all of the same party.\<close>

definition party_unit :: "(uuid \<Rightarrow> string) \<Rightarrow> Ticket list \<Rightarrow> string \<Rightarrow> matchUnit \<Rightarrow> bool" where
  "party_unit str pending key u \<longleftrightarrow>
     (\<exists>t0 \<in> set pending. IsParty t0 \<and> PartyKey str t0 = key \<and> map Ticket_PlayerID (tickets u) = PartyMembers t0) \<and>
     (\<forall>t \<in> set (tickets u). t \<in> set pending \<and> IsParty t \<and> PartyKey str t = key)"

lemma collect_party_unit:
  assumes inv: "acc_inv str pending (us, rs, bk)" and mem: "(key, roster) \<in> set rs"
    and col: "collect_party (bk key) roster [] 0 = Some u"
  shows "party_unit str pending key u"
proof -
  have some: "\<exists>t. bk key p = Some t \<and> t \<in> set pending \<and> IsParty t \<and> PartyKey str t = key \<and> Ticket_PlayerID t = p"
    if "p \<in> set roster" for p
    using that inv collect_party_tickets [OF col] by (fastforce simp: acc_inv_def)
  have ts: "tickets u = map (\<lambda>p. the (bk key p)) roster" using collect_party_tickets [OF col] by simp
  have "map Ticket_PlayerID (tickets u) = roster"
    unfolding ts map_map using some by (intro map_idI) fastforce
  moreover have "\<forall>t \<in> set (tickets u). t \<in> set pending \<and> IsParty t \<and> PartyKey str t = key"
    unfolding ts using some by fastforce
  moreover obtain t0 where "t0 \<in> set pending" "IsParty t0" "PartyKey str t0 = key" "PartyMembers t0 = roster"
    using inv mem by (auto simp: acc_inv_def)
  ultimately show ?thesis by (auto simp: party_unit_def)
qed

lemma buildUnits_cases:
  assumes ord: "\<And>rs. mset (ord rs) = mset rs"
  obtains us rs bk where "acc_inv str pending (us, rs, bk)"
    "buildUnits str ord pending = sort_by (unit_less str) (us @ party_units bk (ord rs))"
  using that acc_inv_all [of str pending]
  by (cases "fold (units_step str) pending ([], [], \<lambda>_ _. None)") (auto simp: buildUnits_def)

lemma in_party_units:
  "u \<in> set (party_units bk rs) \<longleftrightarrow> (\<exists>key roster. (key, roster) \<in> set rs \<and> collect_party (bk key) roster [] 0 = Some u)"
  by (auto simp: party_units_def map_filter_def image_iff split: prod.splits) fastforce+

lemma buildUnits_member:
  assumes ord: "\<And>rs. mset (ord rs) = mset rs" and u: "u \<in> set (buildUnits str ord pending)"
  shows "(\<exists>t \<in> set pending. \<not> IsParty t \<and> u = solo_unit t) \<or> (\<exists>key. party_unit str pending key u)"
proof -
  obtain us rs bk where inv: "acc_inv str pending (us, rs, bk)"
    and b: "buildUnits str ord pending = sort_by (unit_less str) (us @ party_units bk (ord rs))"
    using buildUnits_cases [OF ord] by blast
  from u have "u \<in> set us \<or> u \<in> set (party_units bk rs)"
    by (auto simp: b in_party_units set_ord [OF ord])
  then consider "u \<in> set us" | key roster where "(key, roster) \<in> set rs" "collect_party (bk key) roster [] 0 = Some u"
    by (auto simp: in_party_units)
  then show ?thesis
  proof cases
    case 1
    then show ?thesis using inv by (auto simp: acc_inv_def)
  next
    case 2
    then show ?thesis using collect_party_unit [OF inv] by blast
  qed
qed

lemma unit_tickets_pending:
  assumes "\<And>rs. mset (ord rs) = mset rs" and "u \<in> set (buildUnits str ord pending)"
  shows "tickets u \<noteq> [] \<and> set (tickets u) \<subseteq> set pending"
  using buildUnits_member [OF assms] by (auto simp: solo_unit_def party_unit_def IsParty_def)

section \<open>No ticket is in two units\<close>

lemma distinct_party_tickets:
  assumes pool: "pool_ok pending" and u: "party_unit str pending key u"
  shows "distinct (tickets u)"
  using assms distinct_map_inj [of Ticket_PlayerID "tickets u"] by (auto simp: pool_ok_def party_unit_def)

lemma distinct_unit_tickets:
  assumes ord: "\<And>rs. mset (ord rs) = mset rs" and pool: "pool_ok pending"
  shows "distinct (concat (map tickets (buildUnits str ord pending)))"
proof -
  obtain us rs bk where inv: "acc_inv str pending (us, rs, bk)"
    and b: "buildUnits str ord pending = sort_by (unit_less str) (us @ party_units bk (ord rs))"
    using buildUnits_cases [OF ord] by blast
  let ?g = "\<lambda>x. case collect_party (bk (fst x)) (snd x) [] 0 of None \<Rightarrow> [] | Some u \<Rightarrow> tickets u"
  have pu: "party_unit str pending key u"
    if "(key, roster) \<in> set (ord rs)" "collect_party (bk key) roster [] 0 = Some u" for key roster u
    using that collect_party_unit [OF inv] by (simp add: set_ord [OF ord])
  have "distinct (map fst rs)" using inv by (simp add: acc_inv_def)
  moreover have "mset (map fst (ord rs)) = mset (map fst rs)" using ord [of rs] by simp
  ultimately have "distinct (map fst (ord rs))" by (metis mset_eq_imp_distinct_iff)
  then have "distinct (concat (map ?g (ord rs)))"
  proof (rule distinct_concat_map [where tag = "PartyKey str"])
    fix x assume "x \<in> set (ord rs)"
    then show "distinct (?g x)"
      using pu [of "fst x" "snd x"] distinct_party_tickets [OF pool, of str "fst x"]
      by (simp add: case_prod_beta split: option.split)
  next
    fix x t assume "x \<in> set (ord rs)" "t \<in> set (?g x)"
    then show "PartyKey str t = fst x"
      using pu [of "fst x" "snd x"]
      by (cases "collect_party (bk (fst x)) (snd x) [] 0") (auto simp: party_unit_def case_prod_beta)
  qed
  then have party: "distinct (concat (map tickets (party_units bk (ord rs))))"
    by (simp add: party_units_def concat_map_filter case_prod_beta)
  have solo_eq: "concat (map tickets us) = filter (\<lambda>t. \<not> IsParty t) pending"
  proof -
    have "concat (map tickets (map solo_unit xs)) = xs" for xs by (induction xs) (simp_all add: solo_unit_def)
    then show ?thesis using inv by (simp add: acc_inv_def)
  qed
  have "t \<in> set (concat (map tickets (party_units bk (ord rs)))) \<Longrightarrow> IsParty t" for t
    using pu by (auto simp: in_party_units party_unit_def)
  then have "distinct (concat (map tickets (us @ party_units bk (ord rs))))"
    using party pool distinct_map_inj [of Ticket_ID pending] by (auto simp: solo_eq pool_ok_def)
  moreover have "mset (concat (map tickets (buildUnits str ord pending))) =
      mset (concat (map tickets (us @ party_units bk (ord rs))))"
    unfolding b by (rule mset_concat_perm) simp
  ultimately show ?thesis by (metis mset_eq_imp_distinct_iff)
qed

section \<open>Filling a group\<close>

definition filled_by :: "(matchUnit \<Rightarrow> bool) \<Rightarrow> nat \<Rightarrow> (nat \<times> matchUnit) list \<Rightarrow> Ticket list \<Rightarrow> Ticket list \<Rightarrow> bool" where
  "filled_by fits i xs grp res \<longleftrightarrow> (\<exists>ys. subseq ys xs \<and> (\<forall>y \<in> set ys. fst y \<noteq> i \<and> fits (snd y)) \<and>
     res = grp @ concat (map (\<lambda>y. tickets (snd y)) ys))"

lemma filled_by_Nil: "filled_by fits i xs grp grp"
  unfolding filled_by_def by (rule exI [of _ "[]"]) simp

lemma filled_by_skip: "filled_by fits i xs grp res \<Longrightarrow> filled_by fits i (x # xs) grp res"
  unfolding filled_by_def by (metis list_emb_Cons)

lemma filled_by_add:
  assumes "filled_by fits i xs (grp @ tickets u) res" and "j \<noteq> i" and "fits u"
  shows "filled_by fits i ((j, u) # xs) grp res"
proof -
  obtain ys where "subseq ys xs" "\<forall>y \<in> set ys. fst y \<noteq> i \<and> fits (snd y)"
    "res = (grp @ tickets u) @ concat (map (\<lambda>y. tickets (snd y)) ys)"
    using assms(1) unfolding filled_by_def by blast
  then show ?thesis unfolding filled_by_def using assms(2,3) by (intro exI [of _ "(j, u) # ys"]) simp
qed

lemma fill_group_spec: "filled_by fits i xs grp (fill_group n fits i xs grp)"
proof (induction xs arbitrary: grp)
  case (Cons x xs)
  obtain j u where x: "x = (j, u)" by fastforce
  show ?case
    using Cons.IH [of grp] Cons.IH [of "grp @ tickets u"]
    by (simp add: x filled_by_skip filled_by_add filled_by_Nil)
qed (simp add: filled_by_Nil)

lemma first_group_Some: "first_group f is = Some g \<Longrightarrow> \<exists>i \<in> set is. f i = Some g"
  by (induction "is") (auto split: option.splits)

lemma first_group_None: "first_group f is = None \<longleftrightarrow> (\<forall>i \<in> set is. f i = None)"
  by (induction "is") (auto split: option.splits)

section \<open>What a group is made of\<close>

text \<open>
  The units that make up a selected group: the seed and others of the pool, no unit twice, every
  other unit compatible with the seed's anchor at the width its wait gives.
\<close>

lemma groupFromSeed_units:
  assumes "groupFromSeed m now units i = Some grp" and i: "i < length units"
  obtains vs where "grp = concat (map tickets (units ! i # vs))" "mset (units ! i # vs) \<subseteq># mset units"
    "\<forall>u \<in> set vs. unitCompatibleWith u (anchor (units ! i)) (window_at m now (anchor (units ! i)))
       (ignore_region_at m now (anchor (units ! i)))"
    "int (length grp) = playersPerMatch m"
proof -
  let ?a = "anchor (units ! i)"
  let ?fits = "\<lambda>u. unitCompatibleWith u ?a (window_at m now ?a) (ignore_region_at m now ?a)"
  have grp: "grp = fill_group (playersPerMatch m) ?fits i (enumerate 0 units) (tickets (units ! i))"
    and len: "int (length grp) = playersPerMatch m"
    using assms(1) by (auto simp: groupFromSeed_def Let_def split: if_splits)
  obtain ys where ys: "subseq ys (enumerate 0 units)" "\<forall>y \<in> set ys. fst y \<noteq> i \<and> ?fits (snd y)"
    and g: "grp = tickets (units ! i) @ concat (map (\<lambda>y. tickets (snd y)) ys)"
    using fill_group_spec [of ?fits i "enumerate 0 units" "tickets (units ! i)" "playersPerMatch m"]
    unfolding filled_by_def grp by blast
  have "distinct ys" using ys(1) by (metis distinct_enumerate subseq_distinct)
  moreover have "(i, units ! i) \<in> set (enumerate 0 units)" using i by (simp add: in_set_enumerate_eq)
  moreover have "set ys \<subseteq> set (enumerate 0 units)" using ys(1) by (rule subseq_set)
  ultimately have "mset ((i, units ! i) # ys) \<subseteq># mset (enumerate 0 units)"
    using ys(2) by (intro distinct_subseteq_mset) auto
  then have "image_mset snd (mset ((i, units ! i) # ys)) \<subseteq># image_mset snd (mset (enumerate 0 units))"
    by (rule image_mset_subseteq_mono)
  then have "mset (units ! i # map snd ys) \<subseteq># mset units" by (simp flip: mset_map)
  then show ?thesis
    using that [of "map snd ys"] ys(2) g len by (auto simp: case_prod_beta comp_def)
qed

lemma SelectGroup_units:
  assumes "SelectGroup str ord m now pending = Some grp"
  obtains i vs where "i < length (buildUnits str ord pending)"
    "grp = concat (map tickets (buildUnits str ord pending ! i # vs))"
    "mset (buildUnits str ord pending ! i # vs) \<subseteq># mset (buildUnits str ord pending)"
    "\<forall>u \<in> set vs. unitCompatibleWith u (anchor (buildUnits str ord pending ! i))
       (window_at m now (anchor (buildUnits str ord pending ! i)))
       (ignore_region_at m now (anchor (buildUnits str ord pending ! i)))"
    "int (length grp) = playersPerMatch m"
proof -
  obtain i where i: "i < length (buildUnits str ord pending)"
    and g: "groupFromSeed m now (buildUnits str ord pending) i = Some grp"
    using first_group_Some [OF assms [unfolded SelectGroup_def Let_def]] by auto
  show ?thesis by (rule groupFromSeed_units [OF g i]) (rule that [OF i])
qed

lemma group_subset_pending:
  assumes ord: "\<And>rs. mset (ord rs) = mset rs" and sel: "SelectGroup str ord m now pending = Some grp"
  shows "set grp \<subseteq> set pending \<and> int (length grp) = playersPerMatch m"
proof -
  let ?us = "buildUnits str ord pending"
  obtain i vs where vs: "grp = concat (map tickets (?us ! i # vs))" "mset (?us ! i # vs) \<subseteq># mset ?us"
    "int (length grp) = playersPerMatch m"
    by (rule SelectGroup_units [OF sel])
  have "mset grp \<subseteq># mset (concat (map tickets ?us))"
    using mset_subset_concat [OF vs(2)] vs(1) by simp
  then show ?thesis
    using unit_tickets_pending [OF ord] vs(3) by (fastforce dest: set_mset_mono)
qed

lemma group_distinct_pending:
  assumes ord: "\<And>rs. mset (ord rs) = mset rs" and pool: "pool_ok pending"
    and sel: "SelectGroup str ord m now pending = Some grp"
  shows "distinct grp \<and> set grp \<subseteq> set pending \<and> int (length grp) = playersPerMatch m"
proof -
  let ?us = "buildUnits str ord pending"
  obtain i vs where vs: "grp = concat (map tickets (?us ! i # vs))" "mset (?us ! i # vs) \<subseteq># mset ?us"
    by (rule SelectGroup_units [OF sel])
  have "mset grp \<subseteq># mset (concat (map tickets ?us))"
    using mset_subset_concat [OF vs(2)] vs(1) by simp
  then have "distinct grp"
    using distinct_unit_tickets [OF ord pool] by (rule distinct_subset_mset)
  then show ?thesis using group_subset_pending [OF ord sel] by simp
qed

section \<open>Party keys\<close>

lemma PartyKey_members:
  assumes "uuid_text str" and "IsParty t" "IsParty t'" and "PartyKey str t = PartyKey str t'"
  shows "set (PartyMembers t) = set (PartyMembers t')"
proof -
  have "sort_by (<) (map str (PartyMembers t)) = sort_by (<) (map str (PartyMembers t'))"
    by (rule join_with_inject [of _ "CHR '',''"]) (use assms in \<open>auto simp: uuid_text_def PartyKey_def\<close>)
  then have "str ` set (PartyMembers t) = str ` set (PartyMembers t')"
    by (metis list.set_map set_sort_by)
  then show ?thesis using assms(1) by (simp add: uuid_text_def inj_image_eq_iff)
qed

lemma group_party_whole:
  assumes uuids: "uuid_text str" and ord: "\<And>rs. mset (ord rs) = mset rs"
    and sel: "SelectGroup str ord m now pending = Some grp"
    and t: "t \<in> set grp" "IsParty t"
  shows "\<forall>p \<in> set (PartyMembers t). \<exists>t' \<in> set grp. Ticket_PlayerID t' = p \<and> IsParty t' \<and> PartyKey str t' = PartyKey str t"
proof -
  let ?us = "buildUnits str ord pending"
  obtain i vs where vs: "grp = concat (map tickets (?us ! i # vs))" "mset (?us ! i # vs) \<subseteq># mset ?us"
    by (rule SelectGroup_units [OF sel])
  then obtain u where u: "u \<in> set (?us ! i # vs)" "t \<in> set (tickets u)" using t(1) by auto
  have mem: "u \<in> set ?us" using u(1) set_mset_mono [OF vs(2)] by auto
  obtain key where pu: "party_unit str pending key u"
    using buildUnits_member [OF ord mem] u(2) t(2) by (auto simp: solo_unit_def)
  then obtain t0 where t0: "IsParty t0" "PartyKey str t0 = PartyKey str t"
    "map Ticket_PlayerID (tickets u) = PartyMembers t0"
    using u(2) by (auto simp: party_unit_def)
  then have "set (PartyMembers t) = Ticket_PlayerID ` set (tickets u)"
    using PartyKey_members [OF uuids t0(1) t(2) t0(2)] by (metis list.set_map)
  moreover have "set (tickets u) \<subseteq> set grp" using u(1) vs(1) by auto
  ultimately show ?thesis using pu u(2) by (fastforce simp: party_unit_def)
qed

lemma anchor_in: "tickets u \<noteq> [] \<Longrightarrow> anchor u \<in> set (tickets u)"
proof -
  have "fold (\<lambda>t a. if EnqueuedAt t < EnqueuedAt a then t else a) ts a \<in> insert a (set ts)" for ts a
  proof (induction ts arbitrary: a)
    case (Cons t ts)
    then show ?case using Cons.IH [of t] Cons.IH [of a] by auto
  qed simp
  then show "tickets u \<noteq> [] \<Longrightarrow> anchor u \<in> set (tickets u)"
    by (cases "tickets u") (auto simp: anchor_def)
qed

lemma group_compatible:
  assumes ord: "\<And>rs. mset (ord rs) = mset rs"
    and sel: "SelectGroup str ord m now pending = Some grp"
  shows "\<exists>a \<in> set grp. \<forall>t \<in> set grp.
     CompatibleWith a t (window_at m now a) (ignore_region_at m now a) \<or>
     t = a \<or> (IsParty a \<and> IsParty t \<and> PartyKey str t = PartyKey str a)"
proof -
  let ?us = "buildUnits str ord pending"
  obtain i vs where vs: "i < length ?us" "grp = concat (map tickets (?us ! i # vs))"
    and comp: "\<forall>u \<in> set vs. unitCompatibleWith u (anchor (?us ! i))
       (window_at m now (anchor (?us ! i))) (ignore_region_at m now (anchor (?us ! i)))"
    by (rule SelectGroup_units [OF sel])
  have mem: "?us ! i \<in> set ?us" using vs(1) by simp
  have a: "anchor (?us ! i) \<in> set (tickets (?us ! i))"
    using anchor_in unit_tickets_pending [OF ord mem] by blast
  have "t = anchor (?us ! i) \<or> (IsParty (anchor (?us ! i)) \<and> IsParty t \<and> PartyKey str t = PartyKey str (anchor (?us ! i)))"
    if "t \<in> set (tickets (?us ! i))" for t
    using buildUnits_member [OF ord mem] a that by (auto simp: solo_unit_def party_unit_def)
  then show ?thesis
    using a comp vs(2) by (intro bexI [of _ "anchor (?us ! i)"]) (auto simp: unitCompatibleWith_def list_all_iff)
qed

section \<open>The order of map iteration does not matter\<close>

lemma strict_weak_unit_less: "strict_weak (unit_less str)"
  unfolding strict_weak_def unit_less_def by (auto split: if_splits)

lemma buildUnits_order:
  assumes ord: "\<And>rs. mset (ord rs) = mset rs" and ord': "\<And>rs. mset (ord' rs) = mset rs"
    and uuids: "uuid_text str" and pool: "pool_ok pending"
  shows "buildUnits str ord pending = buildUnits str ord' pending"
proof -
  obtain us rs bk where f: "fold (units_step str) pending ([], [], \<lambda>_ _. None) = (us, rs, bk)"
    by (metis prod_cases3)
  let ?xs = "us @ party_units bk (ord rs)" and ?ys = "us @ party_units bk (ord' rs)"
  have "mset (party_units bk (ord rs)) = mset (party_units bk (ord' rs))"
    using ord [of rs] ord' [of rs] by (simp add: party_units_def map_filter_def mset_filter)
  then have perm: "mset ?xs = mset ?ys" by simp
  have b: "buildUnits str ord pending = sort_by (unit_less str) ?xs" by (simp add: buildUnits_def f)
  have "mset (concat (map tickets (buildUnits str ord pending))) = mset (concat (map tickets ?xs))"
    unfolding b by (rule mset_concat_perm) simp
  then have dist: "distinct (concat (map tickets ?xs))"
    using distinct_unit_tickets [OF ord pool, of str] by (metis mset_eq_imp_distinct_iff)
  have mem: "u \<in> set ?xs \<Longrightarrow> tickets u \<noteq> [] \<and> set (tickets u) \<subseteq> set pending" for u
    using unit_tickets_pending [OF ord, of u str pending] by (simp add: b)
  have "sort_by (unit_less str) ?xs = sort_by (unit_less str) ?ys"
  proof (rule sort_by_perm [OF perm strict_weak_unit_less])
    show "distinct ?xs"
      by (rule distinct_concat_units [OF dist]) (use mem in blast)
    fix u v assume uv: "u \<in> set ?xs" "v \<in> set ?xs" "u \<noteq> v"
    then have ne: "hd (tickets u) \<noteq> hd (tickets v)"
      using concat_units_hd [OF dist uv] mem by blast
    have "hd (tickets u) \<in> set pending" "hd (tickets v) \<in> set pending"
      using mem uv(1,2) by (auto simp: subset_iff)
    then have "Ticket_ID (hd (tickets u)) \<noteq> Ticket_ID (hd (tickets v))"
      using ne pool distinct_map_unique [of Ticket_ID pending] by (auto simp: pool_ok_def)
    then have "str (Ticket_ID (hd (tickets u))) \<noteq> str (Ticket_ID (hd (tickets v)))"
      using uuids by (auto simp: uuid_text_def inj_def)
    then show "unit_less str u v \<or> unit_less str v u" by (auto simp: unit_less_def)
  qed
  then show ?thesis by (simp add: buildUnits_def f)
qed

section \<open>Two-player queues\<close>

lemma fill_group_pair:
  assumes "\<forall>x \<in> set xs. length (tickets (snd x)) = 1" and "length grp = 1"
  shows "length (fill_group 2 fits i xs grp) = 2 \<longleftrightarrow> (\<exists>x \<in> set xs. fst x \<noteq> i \<and> fits (snd x))"
  using assms
proof (induction xs)
  case (Cons x xs)
  obtain j u where x: "x = (j, u)" by fastforce
  have full: "fill_group 2 fits i ys g = g" if "length g = 2" "\<forall>y \<in> set ys. length (tickets (snd y)) = 1" for ys g
    using that by (induction ys) auto
  show ?case
    using Cons full [of "grp @ tickets u" xs] by (auto simp: x unit_size_def)
qed simp

lemma solo_units:
  assumes "\<forall>t \<in> set pending. \<not> IsParty t"
  shows "buildUnits str ord pending = sort_by (unit_less str) (map solo_unit pending @ party_units (\<lambda>_ _. None) (ord []))"
proof -
  have "fold (units_step str) pending (us, [], \<lambda>_ _. None) = (us @ map solo_unit pending, [], \<lambda>_ _. None)" for us
    using assms by (induction pending arbitrary: us) (simp_all add: units_step_def solo_unit_def)
  from this [of "[]"] show ?thesis by (simp add: buildUnits_def)
qed

lemma solo_units_set:
  assumes "\<And>rs. mset (ord rs) = mset rs" and "\<forall>t \<in> set pending. \<not> IsParty t"
  shows "set (buildUnits str ord pending) = solo_unit ` set pending"
  using assms(1) [of "[]"] by (simp add: solo_units [OF assms(2)] party_units_def map_filter_def)

lemma anchor_solo [simp]: "anchor (solo_unit t) = t"
  by (simp add: anchor_def solo_unit_def)

lemma groupFromSeed_pair:
  assumes "\<forall>u \<in> set units. length (tickets u) = 1" and "i < length units" and "playersPerMatch m = 2"
  shows "groupFromSeed m now units i = None \<longleftrightarrow>
    (\<forall>j < length units. j \<noteq> i \<longrightarrow> \<not> unitCompatibleWith (units ! j) (anchor (units ! i))
        (window_at m now (anchor (units ! i))) (ignore_region_at m now (anchor (units ! i))))"
proof -
  let ?a = "anchor (units ! i)"
  let ?fits = "\<lambda>u. unitCompatibleWith u ?a (window_at m now ?a) (ignore_region_at m now ?a)"
  have one: "length (tickets (units ! i)) = 1" using assms(1,2) by simp
  have "\<forall>x \<in> set (enumerate 0 units). length (tickets (snd x)) = 1"
    using assms(1) by (auto simp: in_set_enumerate_eq)
  note pair = fill_group_pair [OF this one, of ?fits i]
  have "(\<exists>x \<in> set (enumerate 0 units). fst x \<noteq> i \<and> ?fits (snd x)) \<longleftrightarrow>
      (\<exists>j < length units. j \<noteq> i \<and> ?fits (units ! j))"
    unfolding Bex_def by (auto simp: in_set_enumerate_eq)
  with pair show ?thesis
    using one assms(3) by (simp add: groupFromSeed_def Let_def unit_size_def) blast
qed

lemma SelectGroup_pair_None:
  assumes ord: "\<And>rs. mset (ord rs) = mset rs" and pool: "pool_ok pending"
    and solo: "\<forall>t \<in> set pending. \<not> IsParty t" and two: "playersPerMatch m = 2"
  shows "SelectGroup str ord m now pending = None \<longleftrightarrow>
    (\<forall>a \<in> set pending. \<forall>b \<in> set pending. a \<noteq> b \<longrightarrow>
       \<not> CompatibleWith a b (window_at m now a) (ignore_region_at m now a))"
proof -
  let ?us = "buildUnits str ord pending"
  have set: "set ?us = solo_unit ` set pending" by (rule solo_units_set [OF ord solo])
  have one: "\<forall>u \<in> set ?us. length (tickets u) = 1" by (auto simp: set solo_unit_def)
  have dist: "distinct ?us"
    using distinct_concat_units [OF distinct_unit_tickets [OF ord pool, of str]] unit_tickets_pending [OF ord] by blast
  have inj: "solo_unit a = solo_unit b \<longleftrightarrow> a = b" for a b by (auto simp: solo_unit_def)
  have compat: "unitCompatibleWith (solo_unit b) a w r = CompatibleWith a b w r" for a b w r
    by (simp add: unitCompatibleWith_def solo_unit_def)
  have "SelectGroup str ord m now pending = None \<longleftrightarrow> (\<forall>i < length ?us. groupFromSeed m now ?us i = None)"
    by (auto simp: SelectGroup_def Let_def first_group_None)
  also have "\<dots> \<longleftrightarrow> (\<forall>i < length ?us. \<forall>j < length ?us. j \<noteq> i \<longrightarrow>
      \<not> unitCompatibleWith (?us ! j) (anchor (?us ! i)) (window_at m now (anchor (?us ! i)))
        (ignore_region_at m now (anchor (?us ! i))))"
    using groupFromSeed_pair [OF one _ two] by blast
  also have "\<dots> \<longleftrightarrow> (\<forall>u \<in> set ?us. \<forall>v \<in> set ?us. v \<noteq> u \<longrightarrow>
      \<not> unitCompatibleWith v (anchor u) (window_at m now (anchor u)) (ignore_region_at m now (anchor u)))"
    by (rule all_pairs_nth [OF dist])
  also have "\<dots> \<longleftrightarrow> (\<forall>a \<in> set pending. \<forall>b \<in> set pending. a \<noteq> b \<longrightarrow>
       \<not> CompatibleWith a b (window_at m now a) (ignore_region_at m now a))"
    unfolding set by (auto simp: compat inj)
  finally show ?thesis .
qed

section \<open>Oldest first\<close>

lemma first_group_first:
  "first_group f [0 ..< n] = Some g \<Longrightarrow> \<exists>i < n. f i = Some g \<and> (\<forall>j < i. f j = None)"
proof (induction n)
  case (Suc n)
  have snoc: "first_group f (xs @ [y]) = (case first_group f xs of Some g \<Rightarrow> Some g | None \<Rightarrow> f y)" for xs y
    by (induction xs) (auto split: option.splits)
  show ?case
  proof (cases "first_group f [0 ..< n]")
    case None
    then have "\<forall>j < n. f j = None" by (simp add: first_group_None)
    then show ?thesis using Suc.prems None by (auto simp: snoc intro: exI [of _ n])
  next
    case (Some h)
    then have "first_group f [0 ..< n] = Some g" using Suc.prems by (simp add: snoc)
    then show ?thesis using Suc.IH less_Suc_eq by blast
  qed
qed simp

lemma buildUnits_sorted: "sorted_wrt (\<lambda>u v. seedAt u \<le> seedAt v) (buildUnits str ord pending)"
proof -
  obtain us rs bk where f: "fold (units_step str) pending ([], [], \<lambda>_ _. None) = (us, rs, bk)"
    by (metis prod_cases3)
  have "sorted_wrt (\<lambda>u v. \<not> unit_less str v u) (buildUnits str ord pending)"
    by (simp add: buildUnits_def f sorted_sort_by strict_weak_unit_less)
  then show ?thesis by (rule sorted_wrt_mono_rel [rotated]) (auto simp: unit_less_def split: if_splits)
qed

section \<open>Rosters\<close>

lemma strict_weak_str: "strict_weak (\<lambda>x y. (str x :: string) < str y)"
  by (auto simp: strict_weak_def)

lemma NormalizeParty_set_eq:
  assumes "uuid_text str" and ord: "\<And>us. mset (ord us) = mset us" and ord': "\<And>us. mset (ord' us) = mset us"
    and "insert self (set members) = insert self' (set members')"
  shows "NormalizeParty str ord self members = NormalizeParty str ord' self' members'"
proof -
  let ?x = "remdups (self # members)" and ?y = "remdups (self' # members')"
  have s: "set ?x = set ?y" using assms(4) by (simp only: set_remdups list.set)
  then have len: "length ?x = length ?y" by (metis distinct_card distinct_remdups)
  have "mset ?x = mset ?y" using s by (metis distinct_remdups set_eq_iff_mset_eq_distinct)
  then have "mset (ord ?x) = mset (ord' ?y)" by (simp only: ord ord')
  moreover have "distinct (ord ?x)" using ord [of ?x] by (metis distinct_remdups mset_eq_imp_distinct_iff)
  moreover have "str x < str y \<or> str y < str x" if "x \<noteq> y" for x y
    using that assms(1) by (metis injD linorder_neq_iff uuid_text_def)
  ultimately have "sort_by (\<lambda>x y. str x < str y) (ord ?x) = sort_by (\<lambda>x y. str x < str y) (ord' ?y)"
    by (intro sort_by_perm strict_weak_str)
  then show ?thesis using len by (simp only: NormalizeParty_def Let_def)
qed

section \<open>Properties\<close>

text \<open>A printing of ids that has the properties \<open>uuid_text\<close> names, for concrete instances.\<close>

lemma uuid_text_unary_str: "uuid_text unary_str"
  by (auto simp: uuid_text_def unary_str_def inj_def word_unat_eq_iff)

definition sample_ticket :: "uuid \<Rightarrow> uuid \<Rightarrow> uuid list \<Rightarrow> go_time \<Rightarrow> Ticket" where
  "sample_ticket i p party t = \<lparr>Ticket_ID = i, Ticket_PlayerID = p, GameMode = ''rps'', Rating = None,
     Region = None, PartyMembers = party, Attributes = [], EnqueuedAt = t\<rparr>"

definition sample_pool :: "Ticket list" where
  "sample_pool = [sample_ticket 1 1 [] 5, sample_ticket 2 2 [2, 3] 6, sample_ticket 3 3 [2, 3] 7,
     sample_ticket 4 4 [] 8]"

definition sample_matcher :: Matcher where
  "sample_matcher = NewMatcher 2 DefaultMatchingPolicy"


lemmas sample_match_simps = sample_pool_def sample_ticket_def sample_matcher_def units_step_def IsParty_def
  party_units_def map_filter_def PartyKey_def unary_str_def sort_by_def buildUnits_def SelectGroup_def
  groupFromSeed_def unit_size_def anchor_def unitCompatibleWith_def CompatibleWith_def unit_less_def
  NewMatcher_def enumerate_simps time_IsZero_def


lemma sample_select:
  "SelectGroup unary_str (\<lambda>x. x) sample_matcher 10 sample_pool =
     Some [sample_ticket 1 1 [] 5, sample_ticket 4 4 [] 8]"
  by (simp add: sample_match_simps Let_def)

lemma sample_select_party:
  "SelectGroup unary_str (\<lambda>x. x) sample_matcher 10 (tl sample_pool) =
     Some [sample_ticket 2 2 [2, 3] 6, sample_ticket 3 3 [2, 3] 7]"
  by (simp add: sample_match_simps Let_def)

lemma sample_pool_ok: "pool_ok sample_pool" "pool_ok (tl sample_pool)"
  by (simp_all add: pool_ok_def sample_pool_def sample_ticket_def)

text \<open>
  C3. A selected group has exactly the number of players of a match, holds only pending tickets and
  holds no ticket twice.
\<close>

theorem SelectGroup_wellformed:
  assumes "\<And>rs. mset (ord rs) = mset rs" and "pool_ok pending"
    and "SelectGroup str ord m now pending = Some grp"
  shows "int (length grp) = playersPerMatch m \<and> set grp \<subseteq> set pending \<and> distinct (map Ticket_ID grp)"
  using group_distinct_pending [OF assms] assms(2)
  by (auto simp: distinct_map pool_ok_def intro: inj_on_subset)

theorem SelectGroup_wellformed_witness:
  "int (length [sample_ticket 1 1 [] 5, sample_ticket 4 4 [] 8]) = playersPerMatch sample_matcher"
  using SelectGroup_wellformed [OF _ sample_pool_ok(1) sample_select] by simp

text \<open>
  C4. Parties are placed whole: when one ticket of a party is in the group, so is a ticket of the
  same party for every member of its roster.
\<close>

theorem SelectGroup_parties_whole:
  assumes "uuid_text str" and "\<And>rs. mset (ord rs) = mset rs"
    and "SelectGroup str ord m now pending = Some grp" and "t \<in> set grp" and "IsParty t"
  shows "\<forall>p \<in> set (PartyMembers t). \<exists>t' \<in> set grp.
    Ticket_PlayerID t' = p \<and> IsParty t' \<and> PartyKey str t' = PartyKey str t"
  using group_party_whole [OF assms] .

theorem SelectGroup_parties_whole_witness:
  "(\<exists>t'. t' \<in> {sample_ticket 2 2 [2, 3] 6, sample_ticket 3 3 [2, 3] 7} \<and> Ticket_PlayerID t' = 2)
   \<and> (\<exists>t'. t' \<in> {sample_ticket 2 2 [2, 3] 6, sample_ticket 3 3 [2, 3] 7} \<and> Ticket_PlayerID t' = 3)"
proof -
  let ?t = "sample_ticket 2 2 [2, 3] 6"
  have "\<forall>p \<in> set (PartyMembers ?t). \<exists>t' \<in> set [?t, sample_ticket 3 3 [2, 3] 7].
      Ticket_PlayerID t' = p \<and> IsParty t' \<and> PartyKey unary_str t' = PartyKey unary_str ?t"
    by (rule SelectGroup_parties_whole [OF uuid_text_unary_str _ sample_select_party])
       (simp_all add: IsParty_def sample_ticket_def)
  moreover have "2 \<in> set (PartyMembers ?t)" "3 \<in> set (PartyMembers ?t)" by (simp_all add: sample_ticket_def)
  ultimately show ?thesis by (metis list.set(1) list.set(2))
qed

text \<open>
  Every ticket of the group is within the rating window and the region rule of one of its
  tickets, the anchor, at the tier the anchor's wait gives it; only the anchor itself and the other
  members of its own party are exempt.
\<close>

theorem SelectGroup_compatible:
  assumes "\<And>rs. mset (ord rs) = mset rs" and "SelectGroup str ord m now pending = Some grp"
  shows "\<exists>a \<in> set grp. \<forall>t \<in> set grp.
     CompatibleWith a t (window_at m now a) (ignore_region_at m now a) \<or>
     t = a \<or> (IsParty a \<and> IsParty t \<and> PartyKey str t = PartyKey str a)"
  using group_compatible [OF assms] .

theorem SelectGroup_compatible_witness:
  "\<exists>a \<in> {sample_ticket 1 1 [] 5, sample_ticket 4 4 [] 8}. \<forall>t \<in> {sample_ticket 1 1 [] 5, sample_ticket 4 4 [] 8}.
     CompatibleWith a t (window_at sample_matcher 10 a) (ignore_region_at sample_matcher 10 a) \<or> t = a \<or> IsParty a"
  using SelectGroup_compatible [OF _ sample_select] by auto

text \<open>
  C5. The selection does not depend on the order in which Go's runtime iterates the map of party
  rosters: two runs over the same pool select the same group.
\<close>

theorem SelectGroup_deterministic:
  assumes "\<And>rs. mset (ord rs) = mset rs" and "\<And>rs. mset (ord' rs) = mset rs"
    and "uuid_text str" and "pool_ok pending"
  shows "SelectGroup str ord m now pending = SelectGroup str ord' m now pending"
  using buildUnits_order [OF assms] by (simp add: SelectGroup_def)

theorem SelectGroup_deterministic_witness:
  "SelectGroup unary_str rev sample_matcher 10 sample_pool = Some [sample_ticket 1 1 [] 5, sample_ticket 4 4 [] 8]"
  using SelectGroup_deterministic [of rev "\<lambda>x. x" unary_str sample_pool sample_matcher 10]
  by (simp add: uuid_text_unary_str sample_pool_ok sample_select)

text \<open>
  C6. In a queue of solo players for two-player matches, no group is found exactly when no two
  pending tickets are compatible at the tier of either of them: an outlier never blocks a pair.
\<close>

theorem SelectGroup_finds_every_pair:
  assumes "\<And>rs. mset (ord rs) = mset rs" and "pool_ok pending"
    and "\<forall>t \<in> set pending. \<not> IsParty t" and "playersPerMatch m = 2"
  shows "SelectGroup str ord m now pending = None \<longleftrightarrow>
    (\<forall>a \<in> set pending. \<forall>b \<in> set pending. a \<noteq> b \<longrightarrow>
       \<not> CompatibleWith a b (window_at m now a) (ignore_region_at m now a))"
  using SelectGroup_pair_None [OF assms] .

theorem SelectGroup_finds_every_pair_witness:
  "SelectGroup unary_str (\<lambda>x. x) sample_matcher 10 [sample_ticket 1 1 [] 5, sample_ticket 2 2 [] 6] \<noteq> None"
  using SelectGroup_finds_every_pair
    [of "\<lambda>x. x" "[sample_ticket 1 1 [] 5, sample_ticket 2 2 [] 6]" sample_matcher unary_str 10]
  by (simp add: pool_ok_def IsParty_def sample_ticket_def sample_matcher_def NewMatcher_def CompatibleWith_def)

text \<open>
  Seeds are tried oldest first: the group is the one formed around the first unit, in order of
  waiting, around which a group can be formed at all.
\<close>

theorem SelectGroup_oldest_first:
  assumes "SelectGroup str ord m now pending = Some grp"
  shows "\<exists>i < length (buildUnits str ord pending).
    groupFromSeed m now (buildUnits str ord pending) i = Some grp \<and>
    (\<forall>j < i. groupFromSeed m now (buildUnits str ord pending) j = None) \<and>
    (\<forall>j < length (buildUnits str ord pending). i \<le> j \<longrightarrow>
       seedAt (buildUnits str ord pending ! i) \<le> seedAt (buildUnits str ord pending ! j))"
proof -
  obtain i where i: "i < length (buildUnits str ord pending)"
    "groupFromSeed m now (buildUnits str ord pending) i = Some grp"
    "\<forall>j < i. groupFromSeed m now (buildUnits str ord pending) j = None"
    using first_group_first [OF assms [unfolded SelectGroup_def Let_def]] by blast
  moreover have "seedAt (buildUnits str ord pending ! i) \<le> seedAt (buildUnits str ord pending ! j)"
    if "j < length (buildUnits str ord pending)" "i \<le> j" for j
    using that buildUnits_sorted [of str ord pending] i(1)
    by (cases "i = j") (auto simp: sorted_wrt_iff_nth_less)
  ultimately show ?thesis by blast
qed

theorem SelectGroup_oldest_first_witness:
  "\<exists>i < length (buildUnits unary_str (\<lambda>x. x) sample_pool).
    groupFromSeed sample_matcher 10 (buildUnits unary_str (\<lambda>x. x) sample_pool) i =
      Some [sample_ticket 1 1 [] 5, sample_ticket 4 4 [] 8]"
  using SelectGroup_oldest_first [OF sample_select] by blast

text \<open>
  The roster of a party is canonical: whoever of the members submits, whomever they list, in
  whatever order and with whatever repetitions, the same set of players gives the same roster, and
  so the same party key.
\<close>

theorem NormalizeParty_canonical:
  assumes "uuid_text str" and "\<And>us. mset (ord us) = mset us" and "\<And>us. mset (ord' us) = mset us"
    and "insert self (set members) = insert self' (set members')"
  shows "NormalizeParty str ord self members = NormalizeParty str ord' self' members'"
  using NormalizeParty_set_eq [OF assms] .

theorem NormalizeParty_canonical_witness:
  "NormalizeParty unary_str (\<lambda>x. x) 2 [3, 3] = NormalizeParty unary_str rev 3 [2, 3]"
  using NormalizeParty_canonical [OF uuid_text_unary_str, of "\<lambda>x. x" rev 2 "[3, 3]" 3 "[2, 3]"] by auto

end
