(* ===== verification/Match_Queue.thy ===== *)
theory Match_Queue
  imports Matcher
begin

text \<open>
  The ticket queue of a single gateway, \<open>internal/infra/matchqueue/inmem.go\<close>, with the events of
  \<open>internal/domain/match/event.go\<close> and the interface \<open>match.Queue\<close> of
  \<open>internal/domain/match/repository.go\<close>.

  Every method holds the queue's mutex from its first to its last access, so a call is one step and
  an interleaving of goroutines is a sequence of calls; the goroutine \<open>Subscribe\<close> leaves behind runs
  \<open>detach\<close>, a call of its own. Channels are cells of a heap with a buffer and a closed flag: sending
  on a closed channel and closing one twice panic, which sets \<open>q_panic\<close>, and the lemmas show that no
  sequence of calls gets there. The map of tickets is a list of entries in insertion order; \<open>ord\<close> is
  the order of a run's map iteration.
\<close>

section \<open>Events, channels and the queue\<close>

record Assignment =
  Assignment_MatchID :: uuid
  Endpoint :: string
  SessionToken :: string
  ExpiresAt :: go_time

datatype Event =
    EventQueued go_time "32 word"
  | EventMatched Assignment
  | EventFailed string string

record chan =
  buf :: "Event list"
  is_closed :: bool

record ticketEntry =
  entry_ticket :: Ticket
  latest :: Event
  finished :: bool
  claimed :: bool

record InMem =
  q_tickets :: "(uuid \<times> ticketEntry) list"
  q_subscribers :: "uuid \<Rightarrow> nat list"
  q_heap :: "chan list"
  q_panic :: bool

definition NewInMem :: InMem where
  "NewInMem = \<lparr>q_tickets = [], q_subscribers = (\<lambda>_. []), q_heap = [], q_panic = False\<rparr>"

definition chan_cap :: nat where
  "chan_cap = 4"

text \<open>
  \<open>select { case ch <- event: default: }\<close>: a full buffer drops the event, a closed channel panics.
\<close>

definition try_send :: "nat \<Rightarrow> Event \<Rightarrow> InMem \<Rightarrow> InMem" where
  "try_send c ev q = (let ch = q_heap q ! c in
     if is_closed ch then q\<lparr>q_panic := True\<rparr>
     else if length (buf ch) < chan_cap then q\<lparr>q_heap := (q_heap q)[c := ch\<lparr>buf := buf ch @ [ev]\<rparr>]\<rparr>
     else q)"

definition close_chan :: "nat \<Rightarrow> InMem \<Rightarrow> InMem" where
  "close_chan c q = (let ch = q_heap q ! c in
     if is_closed ch then q\<lparr>q_panic := True\<rparr>
     else q\<lparr>q_heap := (q_heap q)[c := ch\<lparr>is_closed := True\<rparr>]\<rparr>)"

section \<open>The methods\<close>

definition is_pending :: "string \<Rightarrow> ticketEntry \<Rightarrow> bool" where
  "is_pending mode e \<longleftrightarrow> \<not> finished e \<and> \<not> claimed e \<and> GameMode (entry_ticket e) = mode"

definition countPendingLocked :: "string \<Rightarrow> InMem \<Rightarrow> 32 word" where
  "countPendingLocked mode q = of_nat (length (filter (\<lambda>(i, e). is_pending mode e) (q_tickets q)))"

definition Enqueue :: "Ticket \<Rightarrow> InMem \<Rightarrow> InMem" where
  "Enqueue t q = (case map_of (q_tickets q) (Ticket_ID t) of
     Some e \<Rightarrow> q
   | None \<Rightarrow> let depth = countPendingLocked (GameMode t) q + 1 in
       q\<lparr>q_tickets := q_tickets q @ [(Ticket_ID t, \<lparr>entry_ticket = t,
           latest = EventQueued (EnqueuedAt t) depth, finished = False, claimed = False\<rparr>)]\<rparr>)"

definition isTerminal :: "Event \<Rightarrow> bool" where
  "isTerminal e = (case e of EventMatched a \<Rightarrow> True | EventFailed r m \<Rightarrow> True | EventQueued t d \<Rightarrow> False)"

definition publishLocked :: "uuid \<Rightarrow> Event \<Rightarrow> InMem \<Rightarrow> InMem" where
  "publishLocked tid ev q =
     (let q1 = q\<lparr>q_tickets := AList.map_entry tid (\<lambda>e. e\<lparr>latest := ev\<rparr>) (q_tickets q)\<rparr>;
          terminal = isTerminal ev;
          q2 = fold (\<lambda>c q. let q' = try_send c ev q in if terminal then close_chan c q' else q')
                 (q_subscribers q1 tid) q1
      in if terminal then
           q2\<lparr>q_tickets := AList.map_entry tid (\<lambda>e. e\<lparr>finished := True\<rparr>) (q_tickets q2),
              q_subscribers := (q_subscribers q2)(tid := [])\<rparr>
         else q2)"

definition Cancel :: "uuid \<Rightarrow> InMem \<Rightarrow> go_error option \<times> InMem" where
  "Cancel tid q = (case map_of (q_tickets q) tid of
     None \<Rightarrow> (Some (MatchE ErrTicketNotFound), q)
   | Some e \<Rightarrow> if finished e then (None, q)
       else (None, publishLocked tid (EventFailed ''cancelled'' ''ticket was cancelled by the client'') q))"

text \<open>\<open>Subscribe\<close> returns the new channel. The first send goes to an empty buffer and never waits.\<close>

definition Subscribe :: "uuid \<Rightarrow> InMem \<Rightarrow> (go_error + nat) \<times> InMem" where
  "Subscribe tid q = (case map_of (q_tickets q) tid of
     None \<Rightarrow> (Inl (MatchE ErrTicketNotFound), q)
   | Some e \<Rightarrow>
       let c = length (q_heap q);
           q1 = q\<lparr>q_heap := q_heap q @ [\<lparr>buf = [latest e], is_closed = False\<rparr>]\<rparr>
       in if finished e then (Inr c, close_chan c q1)
          else (Inr c, q1\<lparr>q_subscribers := (q_subscribers q1)(tid := q_subscribers q1 tid @ [c])\<rparr>))"

definition detach :: "uuid \<Rightarrow> nat \<Rightarrow> InMem \<Rightarrow> InMem" where
  "detach tid c q = (let subs = q_subscribers q tid in
     if c \<in> set subs then
       close_chan c (q\<lparr>q_subscribers := (q_subscribers q)(tid := remove1 c subs)\<rparr>)
     else q)"

text \<open>
  \<open>sortByEnqueuedAt\<close>: the inner loop moves element \<open>j\<close> towards the front while its predecessor was
  enqueued after it.
\<close>

fun sift :: "nat \<Rightarrow> Ticket list \<Rightarrow> Ticket list" where
  "sift 0 ts = ts"
| "sift (Suc j) ts =
     (if EnqueuedAt (ts ! j) > EnqueuedAt (ts ! Suc j)
      then sift j (ts[j := ts ! Suc j, Suc j := ts ! j]) else ts)"

definition sortByEnqueuedAt :: "Ticket list \<Rightarrow> Ticket list" where
  "sortByEnqueuedAt ts = fold sift [1 ..< length ts] ts"

type_synonym entry_order = "(uuid \<times> ticketEntry) list \<Rightarrow> (uuid \<times> ticketEntry) list"

definition Pending :: "entry_order \<Rightarrow> string \<Rightarrow> InMem \<Rightarrow> Ticket list" where
  "Pending ord mode q = sortByEnqueuedAt
     (map (\<lambda>(i, e). entry_ticket e) (filter (\<lambda>(i, e). is_pending mode e) (ord (q_tickets q))))"

definition claimable :: "InMem \<Rightarrow> uuid \<Rightarrow> bool" where
  "claimable q tid = (case map_of (q_tickets q) tid of
     None \<Rightarrow> False | Some e \<Rightarrow> \<not> finished e \<and> \<not> claimed e)"

definition Claim :: "uuid list \<Rightarrow> InMem \<Rightarrow> bool \<times> InMem" where
  "Claim ids q =
     (if \<not> list_all (claimable q) ids then (False, q)
      else (True, q\<lparr>q_tickets := fold (\<lambda>i. AList.map_entry i (\<lambda>e. e\<lparr>claimed := True\<rparr>)) ids (q_tickets q)\<rparr>))"

definition Publish :: "uuid \<Rightarrow> Event \<Rightarrow> InMem \<Rightarrow> go_error option \<times> InMem" where
  "Publish tid ev q = (case map_of (q_tickets q) tid of
     None \<Rightarrow> (Some (MatchE ErrTicketNotFound), q)
   | Some e \<Rightarrow> (None, publishLocked tid ev q))"

definition Depth :: "string \<Rightarrow> InMem \<Rightarrow> 32 word" where
  "Depth mode q = countPendingLocked mode q"

text \<open>The receiving end of a channel: the handler's \<open>range\<close> loop takes the oldest buffered event.\<close>

definition receive :: "nat \<Rightarrow> InMem \<Rightarrow> InMem" where
  "receive c q = (if c < length (q_heap q)
     then q\<lparr>q_heap := (q_heap q)[c := (q_heap q ! c)\<lparr>buf := tl (buf (q_heap q ! c))\<rparr>]\<rparr> else q)"

section \<open>The invariant\<close>

definition queue_inv :: "InMem \<Rightarrow> bool" where
  "queue_inv q \<longleftrightarrow> \<not> q_panic q \<and> distinct (map fst (q_tickets q)) \<and>
     (\<forall>i e. map_of (q_tickets q) i = Some e \<longrightarrow> Ticket_ID (entry_ticket e) = i) \<and>
     (\<forall>i e. map_of (q_tickets q) i = Some e \<and> finished e \<longrightarrow> q_subscribers q i = []) \<and>
     (\<forall>i. distinct (q_subscribers q i)) \<and>
     (\<forall>i j. i \<noteq> j \<longrightarrow> set (q_subscribers q i) \<inter> set (q_subscribers q j) = {}) \<and>
     (\<forall>i. \<forall>c \<in> set (q_subscribers q i). c < length (q_heap q) \<and> \<not> is_closed (q_heap q ! c))"

lemma map_of_map_entry': "map_of (AList.map_entry k f al) i = (if i = k then map_option f (map_of al k) else map_of al i)"
  by (induction al) auto

lemma fst_map_entry [simp]: "map fst (AList.map_entry k f al) = map fst al"
  by (induction al) auto

text \<open>Delivering an event to distinct open channels.\<close>

definition delivered :: "Event \<Rightarrow> chan \<Rightarrow> chan" where
  "delivered ev ch = (let ch' = (if length (buf ch) < chan_cap then ch\<lparr>buf := buf ch @ [ev]\<rparr> else ch)
     in if isTerminal ev then ch'\<lparr>is_closed := True\<rparr> else ch')"

definition deliver_all :: "Event \<Rightarrow> nat list \<Rightarrow> chan list \<Rightarrow> chan list" where
  "deliver_all ev cs h = map (\<lambda>(c, ch). if c \<in> set cs then delivered ev ch else ch) (enumerate 0 h)"

lemma length_deliver_all [simp]: "length (deliver_all ev cs h) = length h"
  by (simp add: deliver_all_def)

lemma nth_deliver_all: "c < length h \<Longrightarrow> deliver_all ev cs h ! c = (if c \<in> set cs then delivered ev (h ! c) else h ! c)"
  by (simp add: deliver_all_def nth_enumerate_eq)

definition send_one :: "Event \<Rightarrow> nat \<Rightarrow> InMem \<Rightarrow> InMem" where
  "send_one ev c q = (let q' = try_send c ev q in if isTerminal ev then close_chan c q' else q')"

lemma send_one_eq:
  assumes "c < length (q_heap q)" and "\<not> is_closed (q_heap q ! c)"
  shows "send_one ev c q = q\<lparr>q_heap := (q_heap q)[c := delivered ev (q_heap q ! c)]\<rparr>"
  using assms by (auto simp: send_one_def try_send_def close_chan_def delivered_def Let_def)

lemma send_all_eq:
  assumes "distinct cs" and "\<forall>c \<in> set cs. c < length (q_heap q) \<and> \<not> is_closed (q_heap q ! c)"
  shows "fold (send_one ev) cs q = q\<lparr>q_heap := deliver_all ev cs (q_heap q)\<rparr>"
  using assms
proof (induction cs arbitrary: q)
  case Nil
  have "deliver_all ev [] (q_heap q) = q_heap q" by (intro nth_equalityI) (simp_all add: nth_deliver_all)
  then show ?case by simp
next
  case (Cons c cs)
  let ?q = "q\<lparr>q_heap := (q_heap q)[c := delivered ev (q_heap q ! c)]\<rparr>"
  have "fold (send_one ev) (c # cs) q = fold (send_one ev) cs ?q"
    using Cons.prems(2) send_one_eq [of c q ev] by simp
  also have "\<dots> = ?q\<lparr>q_heap := deliver_all ev cs (q_heap ?q)\<rparr>"
    using Cons.prems by (intro Cons.IH) (auto simp: nth_list_update)
  also have "deliver_all ev cs (q_heap ?q) = deliver_all ev (c # cs) (q_heap q)"
    using Cons.prems by (intro nth_equalityI) (auto simp: nth_deliver_all nth_list_update)
  finally show ?case by simp
qed

lemma publishLocked_eq:
  assumes "queue_inv q"
  shows "publishLocked tid ev q = q\<lparr>
     q_tickets := AList.map_entry tid (\<lambda>e. e\<lparr>latest := ev, finished := finished e \<or> isTerminal ev\<rparr>) (q_tickets q),
     q_heap := deliver_all ev (q_subscribers q tid) (q_heap q),
     q_subscribers := (if isTerminal ev then (q_subscribers q)(tid := []) else q_subscribers q)\<rparr>"
proof -
  let ?q1 = "q\<lparr>q_tickets := AList.map_entry tid (\<lambda>e. e\<lparr>latest := ev\<rparr>) (q_tickets q)\<rparr>"
  have f: "(\<lambda>c q. let q' = try_send c ev q in if isTerminal ev then close_chan c q' else q') = send_one ev"
    by (simp add: send_one_def fun_eq_iff)
  have s: "fold (send_one ev) (q_subscribers q tid) ?q1 = ?q1\<lparr>q_heap := deliver_all ev (q_subscribers q tid) (q_heap q)\<rparr>"
    using assms send_all_eq [of "q_subscribers q tid" ?q1 ev] by (simp add: queue_inv_def)
  have me: "AList.map_entry tid (\<lambda>e. e\<lparr>finished := True\<rparr>) (AList.map_entry tid (\<lambda>e. e\<lparr>latest := ev\<rparr>) al) =
     AList.map_entry tid (\<lambda>e. e\<lparr>latest := ev, finished := True\<rparr>) al" for al
    by (induction al) auto
  show ?thesis
    unfolding publishLocked_def Let_def f [unfolded Let_def] by (simp add: s me)
qed

section \<open>Every call keeps it\<close>

lemma queue_invD:
  assumes "queue_inv q"
  shows "\<not> q_panic q" "distinct (map fst (q_tickets q))"
    "map_of (q_tickets q) i = Some e \<Longrightarrow> Ticket_ID (entry_ticket e) = i"
    "map_of (q_tickets q) i = Some e \<Longrightarrow> finished e \<Longrightarrow> q_subscribers q i = []"
    "distinct (q_subscribers q i)"
    "i \<noteq> j \<Longrightarrow> c \<in> set (q_subscribers q i) \<Longrightarrow> c \<notin> set (q_subscribers q j)"
    "c \<in> set (q_subscribers q i) \<Longrightarrow> c < length (q_heap q) \<and> \<not> is_closed (q_heap q ! c)"
  using assms unfolding queue_inv_def by blast+

lemma queue_inv_New: "queue_inv NewInMem"
  by (simp add: queue_inv_def NewInMem_def)

lemma queue_inv_publishLocked:
  assumes "queue_inv q"
  shows "queue_inv (publishLocked tid ev q)"
proof -
  note inv = queue_invD [OF assms]
  have open': "\<not> is_closed (deliver_all ev (q_subscribers q tid) (q_heap q) ! c)"
    if "c \<in> set (q_subscribers q i)" "isTerminal ev \<longrightarrow> i \<noteq> tid" for c i
    using that inv(6) [of i tid c] inv(7) [of c i] by (auto simp: nth_deliver_all delivered_def Let_def)
  have tick: "Ticket_ID (entry_ticket e) = i \<and> (finished e \<longrightarrow> (i = tid \<and> isTerminal ev) \<or> q_subscribers q i = [])"
    if "map_of (AList.map_entry tid (\<lambda>e. e\<lparr>latest := ev, finished := finished e \<or> isTerminal ev\<rparr>) (q_tickets q)) i = Some e" for i e
    using that inv(3,4) by (fastforce simp: map_of_map_entry' split: if_splits)
  show ?thesis
    unfolding publishLocked_eq [OF assms] queue_inv_def
    using inv(1,2,5,6,7) open' tick by (cases "isTerminal ev") (simp_all add: disjoint_iff, blast+)
qed
lemma queue_inv_Enqueue:
  assumes "queue_inv q"
  shows "queue_inv (Enqueue t q)"
proof (cases "map_of (q_tickets q) (Ticket_ID t)")
  case None
  note inv = queue_invD [OF assms]
  have "Ticket_ID t \<notin> fst ` set (q_tickets q)" using None by (simp add: map_of_eq_None_iff)
  then show ?thesis
    using inv None unfolding queue_inv_def
    by (auto simp: Enqueue_def Let_def map_add_Some_iff)
qed (use assms in \<open>simp add: Enqueue_def\<close>)

lemma queue_inv_Cancel: "queue_inv q \<Longrightarrow> queue_inv (snd (Cancel tid q))"
  by (simp add: Cancel_def queue_inv_publishLocked split: option.split)

lemma queue_inv_Publish: "queue_inv q \<Longrightarrow> queue_inv (snd (Publish tid ev q))"
  by (simp add: Publish_def queue_inv_publishLocked split: option.split)

lemma queue_inv_Subscribe:
  assumes "queue_inv q"
  shows "queue_inv (snd (Subscribe tid q))"
proof (cases "map_of (q_tickets q) tid")
  case (Some e)
  note inv = queue_invD [OF assms]
  have old: "c \<in> set (q_subscribers q i) \<Longrightarrow> c < length (q_heap q)" for c i using inv(7) by blast
  show ?thesis
  proof (cases "finished e")
    case True
    then have "snd (Subscribe tid q) = q\<lparr>q_heap := q_heap q @ [\<lparr>buf = [latest e], is_closed = True\<rparr>]\<rparr>"
      by (simp add: Subscribe_def Some Let_def close_chan_def)
    then show ?thesis
      using inv old unfolding queue_inv_def by (auto simp: nth_append less_Suc_eq)
  next
    case False
    then have sub: "snd (Subscribe tid q) = q\<lparr>q_heap := q_heap q @ [\<lparr>buf = [latest e], is_closed = False\<rparr>],
        q_subscribers := (q_subscribers q)(tid := q_subscribers q tid @ [length (q_heap q)])\<rparr>"
      by (simp add: Subscribe_def Some Let_def)
    have fresh: "length (q_heap q) \<notin> set (q_subscribers q i)" for i using old by blast
    have fin: "q_subscribers q i = [] \<and> i \<noteq> tid" if "map_of (q_tickets q) i = Some e'" "finished e'" for i e'
      using that inv(4) Some False by auto
    show ?thesis
      using inv(1,2,3,5,6,7) fresh fin old unfolding sub queue_inv_def
      by (auto simp: nth_append disjoint_iff less_Suc_eq)
  qed
qed (use assms in \<open>simp add: Subscribe_def\<close>)

lemma queue_inv_detach:
  assumes "queue_inv q"
  shows "queue_inv (detach tid c q)"
proof (cases "c \<in> set (q_subscribers q tid)")
  case True
  note inv = queue_invD [OF assms]
  have "detach tid c q = q\<lparr>q_heap := (q_heap q)[c := (q_heap q ! c)\<lparr>is_closed := True\<rparr>],
      q_subscribers := (q_subscribers q)(tid := remove1 c (q_subscribers q tid))\<rparr>"
    using True inv(7) [OF True] by (simp add: detach_def close_chan_def Let_def)
  moreover have "set (remove1 c (q_subscribers q tid)) = set (q_subscribers q tid) - {c}"
    using inv(5) by (rule set_remove1_eq)
  ultimately show ?thesis
    using inv True unfolding queue_inv_def
    by (auto simp: nth_list_update disjoint_iff notin_set_remove1)
qed (use assms in \<open>simp add: detach_def\<close>)

definition mark_claimed :: "uuid list \<Rightarrow> (uuid \<times> ticketEntry) list \<Rightarrow> (uuid \<times> ticketEntry) list" where
  "mark_claimed ids al = fold (\<lambda>i. AList.map_entry i (\<lambda>e. e\<lparr>claimed := True\<rparr>)) ids al"

lemma map_of_mark_claimed:
  "map_of (mark_claimed ids al) i =
     (case map_of al i of None \<Rightarrow> None | Some e \<Rightarrow> Some (if i \<in> set ids then e\<lparr>claimed := True\<rparr> else e))"
  unfolding mark_claimed_def
  by (induction ids arbitrary: al) (auto simp: map_of_map_entry' split: option.splits)

lemma fst_mark_claimed [simp]: "map fst (mark_claimed ids al) = map fst al"
  unfolding mark_claimed_def by (induction ids arbitrary: al) simp_all

lemma Claim_eq:
  "Claim ids q = (if list_all (claimable q) ids then (True, q\<lparr>q_tickets := mark_claimed ids (q_tickets q)\<rparr>) else (False, q))"
  by (simp add: Claim_def mark_claimed_def)

lemma queue_inv_Claim:
  assumes "queue_inv q"
  shows "queue_inv (snd (Claim ids q))"
proof -
  note inv = queue_invD [OF assms]
  have "\<exists>e'. map_of (q_tickets q) i = Some e' \<and> entry_ticket e' = entry_ticket e \<and> finished e' = finished e"
    if "map_of (mark_claimed ids (q_tickets q)) i = Some e" for i e
    using that by (auto simp: map_of_mark_claimed split: option.splits if_splits)
  then have "\<forall>i e. map_of (mark_claimed ids (q_tickets q)) i = Some e \<longrightarrow> Ticket_ID (entry_ticket e) = i"
    and "\<forall>i e. map_of (mark_claimed ids (q_tickets q)) i = Some e \<and> finished e \<longrightarrow> q_subscribers q i = []"
    using inv(3,4) by metis+
  then have "queue_inv (q\<lparr>q_tickets := mark_claimed ids (q_tickets q)\<rparr>)"
    using assms by (simp add: queue_inv_def)
  then show ?thesis using assms by (simp add: Claim_eq)
qed

lemma queue_inv_receive: "queue_inv q \<Longrightarrow> queue_inv (receive c q)"
  unfolding queue_inv_def receive_def by (auto simp: nth_list_update)


section \<open>Sequences of calls\<close>

datatype queue_call =
    QEnqueue Ticket | QCancel uuid | QSubscribe uuid | QDetach uuid nat | QClaim "uuid list"
  | QPublish uuid Event | QReceive nat

fun queue_step :: "queue_call \<Rightarrow> InMem \<Rightarrow> InMem" where
  "queue_step (QEnqueue t) q = Enqueue t q"
| "queue_step (QCancel i) q = snd (Cancel i q)"
| "queue_step (QSubscribe i) q = snd (Subscribe i q)"
| "queue_step (QDetach i c) q = detach i c q"
| "queue_step (QClaim ids) q = snd (Claim ids q)"
| "queue_step (QPublish i ev) q = snd (Publish i ev q)"
| "queue_step (QReceive c) q = receive c q"

lemma queue_inv_step: "queue_inv q \<Longrightarrow> queue_inv (queue_step c q)"
  by (cases c) (simp_all add: queue_inv_Enqueue queue_inv_Cancel queue_inv_Subscribe queue_inv_detach
      queue_inv_Claim queue_inv_Publish queue_inv_receive)

lemma queue_inv_steps: "queue_inv q \<Longrightarrow> queue_inv (fold queue_step calls q)"
  by (induction calls arbitrary: q) (simp_all add: queue_inv_step)

text \<open>The ticket ids of the successful claims of a run, in order.\<close>

fun successful_claims :: "queue_call list \<Rightarrow> InMem \<Rightarrow> uuid list list" where
  "successful_claims [] q = []"
| "successful_claims (c # cs) q =
     (case c of QClaim ids \<Rightarrow> if fst (Claim ids q) then [ids] else [] | _ \<Rightarrow> [])
       @ successful_claims cs (queue_step c q)"

definition taken :: "InMem \<Rightarrow> uuid \<Rightarrow> bool" where
  "taken q i \<longleftrightarrow> (\<exists>e. map_of (q_tickets q) i = Some e \<and> claimed e)"

lemma taken_publishLocked: "queue_inv q \<Longrightarrow> taken (publishLocked tid ev q) i = taken q i"
  by (auto simp: taken_def publishLocked_eq map_of_map_entry')

lemma taken_step:
  assumes "queue_inv q" and "taken q i"
  shows "taken (queue_step c q) i"
proof (cases c)
  case (QEnqueue t)
  then show ?thesis using assms(2) by (auto simp: Enqueue_def taken_def Let_def map_add_Some_iff split: option.split)
next
  case (QClaim ids)
  then show ?thesis using assms(2) by (auto simp: Claim_eq taken_def map_of_mark_claimed)
next
  case (QCancel j)
  then show ?thesis using assms by (simp add: Cancel_def taken_publishLocked split: option.split)
next
  case (QPublish j ev)
  then show ?thesis using assms by (simp add: Publish_def taken_publishLocked split: option.split)
qed (use assms(2) in \<open>auto simp: Subscribe_def detach_def close_chan_def receive_def Let_def taken_def
      split: option.split\<close>)

lemma taken_steps: "queue_inv q \<Longrightarrow> taken q i \<Longrightarrow> taken (fold queue_step calls q) i"
  by (induction calls arbitrary: q) (simp_all add: queue_inv_step taken_step)

lemma Claim_takes:
  "fst (Claim ids q) \<Longrightarrow> i \<in> set ids \<Longrightarrow> \<not> taken q i \<and> taken (snd (Claim ids q)) i"
  by (auto simp: Claim_eq list_all_iff claimable_def taken_def map_of_mark_claimed split: if_splits option.splits)

lemma later_claims_untaken:
  "queue_inv q \<Longrightarrow> taken q i \<Longrightarrow> ids \<in> set (successful_claims calls q) \<Longrightarrow> i \<notin> set ids"
proof (induction calls arbitrary: q)
  case (Cons c cs)
  have "taken (queue_step c q) i" "queue_inv (queue_step c q)"
    using Cons.prems taken_step queue_inv_step by blast+
  then show ?case
    using Cons Claim_takes [of _ q i] by (auto split: queue_call.splits if_splits)
qed simp

lemma claims_disjoint:
  "queue_inv q \<Longrightarrow> sorted_wrt (\<lambda>a b. set a \<inter> set b = {}) (successful_claims calls q)"
proof (induction calls arbitrary: q)
  case (Cons c cs)
  have tail: "sorted_wrt (\<lambda>a b. set a \<inter> set b = {}) (successful_claims cs (queue_step c q))"
    using Cons queue_inv_step by blast
  show ?case
  proof (cases "\<exists>ids. c = QClaim ids \<and> fst (Claim ids q)")
    case True
    then obtain ids where c: "c = QClaim ids" "fst (Claim ids q)" by blast
    have "set ids \<inter> set b = {}" if "b \<in> set (successful_claims cs (queue_step c q))" for b
      using that later_claims_untaken [OF queue_inv_step [OF Cons.prems, of c]] Claim_takes [OF c(2)] c(1)
      by auto
    then show ?thesis using tail c by simp
  next
    case False
    then show ?thesis using tail by (auto split: queue_call.splits)
  qed
qed simp
section \<open>The insertion sort\<close>

lemma split_two: "Suc j < length ts \<Longrightarrow> ts = take j ts @ ts ! j # ts ! Suc j # drop (Suc (Suc j)) ts"
  by (metis Cons_nth_drop_Suc Suc_lessD append_take_drop_id)

lemma swap_two:
  assumes "Suc j < length ts"
  shows "ts[j := ts ! Suc j, Suc j := ts ! j] = take j ts @ ts ! Suc j # ts ! j # drop (Suc (Suc j)) ts"
  using assms by (intro nth_equalityI) (auto simp: nth_append nth_list_update nth_Cons' min_def numeral_2_eq_2 Suc_diff_Suc)

lemma sift_length [simp]: "length (sift j ts) = length ts"
  by (induction j ts rule: sift.induct) simp_all

lemma sift_stable:
  "j < length ts \<Longrightarrow> mset (sift j ts) = mset ts \<and>
     filter (\<lambda>t. EnqueuedAt t = k) (sift j ts) = filter (\<lambda>t. EnqueuedAt t = k) ts"
proof (induction j ts rule: sift.induct)
  case (2 j ts)
  let ?ts = "ts[j := ts ! Suc j, Suc j := ts ! j]"
  show ?case
  proof (cases "EnqueuedAt (ts ! j) > EnqueuedAt (ts ! Suc j)")
    case True
    have "mset ?ts = mset ts" "filter (\<lambda>t. EnqueuedAt t = k) ?ts = filter (\<lambda>t. EnqueuedAt t = k) ts"
      using True swap_two [OF "2.prems"] arg_cong [OF split_two [OF "2.prems"], of mset]
        arg_cong [OF split_two [OF "2.prems"], of "filter (\<lambda>t. EnqueuedAt t = k)"]
      by auto
    then show ?thesis using "2.IH" [OF True] "2.prems" True by simp
  qed simp
qed simp

lemma sift_beyond: "j < i \<Longrightarrow> sift j ts ! i = ts ! i"
  by (induction j ts rule: sift.induct) auto

lemma sift_take: "j < length ts \<Longrightarrow> set (take (Suc j) (sift j ts)) = set (take (Suc j) ts)"
proof -
  assume j: "j < length ts"
  have d: "drop (Suc j) (sift j ts) = drop (Suc j) ts"
    by (intro nth_equalityI) (auto simp: sift_beyond)
  have "mset (take (Suc j) (sift j ts)) + mset (drop (Suc j) (sift j ts)) =
     mset (take (Suc j) ts) + mset (drop (Suc j) ts)"
    using sift_stable [OF j] by (metis append_take_drop_id mset_append)
  then show ?thesis using d by (metis add_right_cancel set_mset_mset)
qed

lemma sift_sorted:
  "j < length ts \<Longrightarrow> sorted (map EnqueuedAt (take j ts)) \<Longrightarrow> sorted (map EnqueuedAt (take (Suc j) (sift j ts)))"
proof (induction j ts rule: sift.induct)
  case (1 ts)
  then show ?case by (cases ts) auto
next
  case (2 j ts)
  let ?ts = "ts[j := ts ! Suc j, Suc j := ts ! j]"
  have le: "EnqueuedAt t \<le> EnqueuedAt (ts ! j)" if "t \<in> set (take (Suc j) ts)" for t
    using "2.prems" that by (auto simp: in_set_conv_nth sorted_iff_nth_mono)
  show ?case
  proof (cases "EnqueuedAt (ts ! j) > EnqueuedAt (ts ! Suc j)")
    case True
    have "sorted (map EnqueuedAt (take j ?ts))"
      using "2.prems" by (simp add: take_Suc_conv_app_nth sorted_append)
    then have s: "sorted (map EnqueuedAt (take (Suc j) (sift j ?ts)))"
      using "2.IH" [OF True] "2.prems" by simp
    have last: "sift j ?ts ! Suc j = ts ! j" using "2.prems" by (simp add: sift_beyond)
    have "EnqueuedAt t \<le> EnqueuedAt (ts ! j)" if "t \<in> set (take (Suc j) (sift j ?ts))" for t
    proof -
      have "t \<in> set (take (Suc j) ?ts)" using that "2.prems" by (simp add: sift_take)
      then have "t \<in> set (take (Suc j) ts) \<or> t = ts ! Suc j"
        using "2.prems" by (auto simp: take_Suc_conv_app_nth)
      then show ?thesis using le True by auto
    qed
    then show ?thesis
      using s True "2.prems" last by (simp add: take_Suc_conv_app_nth [of "Suc j"] sorted_append)
  next
    case False
    then show ?thesis
      using "2.prems" le by (simp add: take_Suc_conv_app_nth [of "Suc j"] sorted_append)
        (metis linorder_not_less order_trans)
  qed
qed

lemma fold_sift:
  "k \<le> length ts \<Longrightarrow> mset (fold sift [1 ..< k] ts) = mset ts \<and>
    filter (\<lambda>t. EnqueuedAt t = x) (fold sift [1 ..< k] ts) = filter (\<lambda>t. EnqueuedAt t = x) ts \<and>
    length (fold sift [1 ..< k] ts) = length ts \<and>
    sorted (map EnqueuedAt (take k (fold sift [1 ..< k] ts)))"
proof (induction k)
  case (Suc k)
  show ?case
  proof (cases "k = 0")
    case True
    then show ?thesis using Suc.prems by (cases ts) auto
  next
    case False
    let ?us = "fold sift [1 ..< k] ts"
    have "fold sift [1 ..< Suc k] ts = sift k ?us" using False by simp
    then show ?thesis
      using Suc sift_stable [of k ?us x] sift_sorted [of k ?us] by simp
  qed
qed simp

lemma sortByEnqueuedAt_sort_key: "sortByEnqueuedAt ts = sort_key EnqueuedAt ts"
proof (rule properties_for_sort_key [symmetric])
  show "mset (sortByEnqueuedAt ts) = mset ts"
    using fold_sift [of "length ts" ts] by (simp add: sortByEnqueuedAt_def)
  show "filter (\<lambda>x. EnqueuedAt k = EnqueuedAt x) (sortByEnqueuedAt ts) = filter (\<lambda>x. EnqueuedAt k = EnqueuedAt x) ts" for k
    using fold_sift [of "length ts" ts "EnqueuedAt k"] by (simp add: sortByEnqueuedAt_def eq_commute)
  show "sorted (map EnqueuedAt (sortByEnqueuedAt ts))"
    using fold_sift [of "length ts" ts] by (metis order_refl sortByEnqueuedAt_def take_all)
qed

section \<open>Pending tickets\<close>

definition waiting :: "InMem \<Rightarrow> string \<Rightarrow> uuid set" where
  "waiting q mode = {i. \<exists>e. map_of (q_tickets q) i = Some e \<and> is_pending mode e}"

lemma finite_waiting [simp]: "finite (waiting q mode)"
  by (rule finite_subset [OF _ finite_dom_map_of [of "q_tickets q"]]) (auto simp: waiting_def)

lemma mset_Pending:
  assumes "\<And>es. mset (ord es) = mset es"
  shows "mset (Pending ord mode q) = mset (map (\<lambda>(i, e). entry_ticket e) (filter (\<lambda>(i, e). is_pending mode e) (q_tickets q)))"
  using assms by (simp add: Pending_def sortByEnqueuedAt_sort_key mset_filter)

lemma entry_ids:
  assumes "queue_inv q"
  shows "map Ticket_ID (map (\<lambda>(i, e). entry_ticket e) (filter P (q_tickets q))) = map fst (filter P (q_tickets q))"
  using queue_invD(2,3) [OF assms] by (auto simp: map_eq_conv)

lemma Pending_ids:
  assumes ord: "\<And>es. mset (ord es) = mset es" and inv: "queue_inv q"
  shows "distinct (map Ticket_ID (Pending ord mode q)) \<and> Ticket_ID ` set (Pending ord mode q) = waiting q mode"
proof -
  let ?es = "filter (\<lambda>(i, e). is_pending mode e) (q_tickets q)"
  have ids: "mset (map Ticket_ID (Pending ord mode q)) = mset (map fst ?es)"
    unfolding entry_ids [OF inv, symmetric] mset_map [of Ticket_ID] mset_Pending [OF ord] ..
  have d: "distinct (map fst ?es)" using queue_invD(2) [OF inv] by (rule distinct_map_filterI)
  then have "distinct (map Ticket_ID (Pending ord mode q))" using ids by (metis mset_eq_imp_distinct_iff)
  moreover have "Ticket_ID ` set (Pending ord mode q) = fst ` set ?es"
    using ids by (metis list.set_map set_mset_mset)
  moreover have "fst ` set ?es = waiting q mode"
    using queue_invD(2) [OF inv] by (force simp: waiting_def image_iff)
  ultimately show ?thesis by simp
qed

lemma Pending_length:
  "(\<And>es. mset (ord es) = mset es) \<Longrightarrow> of_nat (length (Pending ord mode q)) = Depth mode q"
  unfolding Depth_def countPendingLocked_def
  using arg_cong [OF mset_Pending, of ord size mode q] by (simp only: size_mset length_map)

lemma waiting_publishLocked: "queue_inv q \<Longrightarrow> waiting (publishLocked tid ev q) mode \<subseteq> waiting q mode"
  by (auto simp: waiting_def publishLocked_eq map_of_map_entry' is_pending_def split: if_splits)

lemma waiting_Publish: "queue_inv q \<Longrightarrow> waiting (snd (Publish tid ev q)) mode \<subseteq> waiting q mode"
  using waiting_publishLocked by (auto simp: Publish_def split: option.split)

lemma waiting_Claim:
  "fst (Claim ids q) \<Longrightarrow> waiting (snd (Claim ids q)) mode = waiting q mode - set ids"
  by (auto simp: Claim_eq waiting_def map_of_mark_claimed is_pending_def split: if_splits option.splits)

lemma Claim_waiting: "set ids \<subseteq> waiting q mode \<Longrightarrow> fst (Claim ids q)"
  by (force simp: Claim_eq list_all_iff claimable_def waiting_def is_pending_def split: option.splits)

section \<open>Delivery of the terminal event\<close>

definition room_inv :: "InMem \<Rightarrow> bool" where
  "room_inv q \<longleftrightarrow> (\<forall>i. \<forall>c \<in> set (q_subscribers q i). length (buf (q_heap q ! c)) \<le> 1)"

definition only_terminal :: "queue_call \<Rightarrow> bool" where
  "only_terminal c = (case c of QPublish i ev \<Rightarrow> isTerminal ev | _ \<Rightarrow> True)"

lemma room_publishLocked:
  assumes "queue_inv q" "room_inv q" "isTerminal ev"
  shows "room_inv (publishLocked tid ev q)"
  using assms(2,3) queue_invD(6,7) [OF assms(1)]
  by (auto simp: room_inv_def publishLocked_eq [OF assms(1)] nth_deliver_all)

lemma room_step:
  assumes "queue_inv q" "room_inv q" "only_terminal c"
  shows "room_inv (queue_step c q)"
proof (cases c)
  case (QEnqueue t)
  then show ?thesis using assms by (simp add: Enqueue_def Let_def room_inv_def split: option.split)
next
  case (QCancel i)
  then show ?thesis using assms room_publishLocked [of q] by (simp add: Cancel_def isTerminal_def split: option.split)
next
  case (QPublish i ev)
  then show ?thesis using assms room_publishLocked [of q ev] by (simp add: Publish_def only_terminal_def split: option.split)
next
  case (QSubscribe i)
  then show ?thesis
    using assms(2) queue_invD(7) [OF assms(1)]
    by (auto simp: Subscribe_def room_inv_def Let_def close_chan_def nth_append split: option.splits if_splits)
next
  case (QDetach i c)
  then show ?thesis
    using assms(2) queue_invD(5,7) [OF assms(1)]
    by (auto simp: detach_def room_inv_def Let_def close_chan_def nth_list_update split: if_splits dest: notin_set_remove1)
next
  case (QClaim ids)
  then show ?thesis using assms(2) by (simp add: Claim_eq room_inv_def)
next
  case (QReceive c)
  then show ?thesis using assms(2) by (auto simp: receive_def room_inv_def nth_list_update)
qed

lemma room_steps:
  "queue_inv q \<Longrightarrow> room_inv q \<Longrightarrow> list_all only_terminal calls \<Longrightarrow> room_inv (fold queue_step calls q)"
  by (induction calls arbitrary: q) (simp_all add: queue_inv_step room_step)

section \<open>The interface\<close>

text \<open>
  \<open>match.Queue\<close> as a value: the methods of one implementation. \<open>InMem_ops\<close> is the in-memory queue.
\<close>

record 'q queue_ops =
  op_Enqueue :: "Ticket \<Rightarrow> 'q \<Rightarrow> go_error option \<times> 'q"
  op_Cancel :: "uuid \<Rightarrow> 'q \<Rightarrow> go_error option \<times> 'q"
  op_Subscribe :: "uuid \<Rightarrow> 'q \<Rightarrow> (go_error + nat) \<times> 'q"
  op_Pending :: "string \<Rightarrow> 'q \<Rightarrow> (go_error + Ticket list) \<times> 'q"
  op_Claim :: "string \<Rightarrow> uuid list \<Rightarrow> 'q \<Rightarrow> (go_error + bool) \<times> 'q"
  op_Publish :: "uuid \<Rightarrow> Event \<Rightarrow> 'q \<Rightarrow> go_error option \<times> 'q"
  op_Depth :: "string \<Rightarrow> 'q \<Rightarrow> (go_error + 32 word) \<times> 'q"

definition InMem_ops :: "entry_order \<Rightarrow> InMem queue_ops" where
  "InMem_ops ord = \<lparr>
     op_Enqueue = (\<lambda>t q. (None, Enqueue t q)),
     op_Cancel = Cancel,
     op_Subscribe = Subscribe,
     op_Pending = (\<lambda>mode q. (Inr (Pending ord mode q), q)),
     op_Claim = (\<lambda>mode ids q. case Claim ids q of (b, q') \<Rightarrow> (Inr b, q')),
     op_Publish = Publish,
     op_Depth = (\<lambda>mode q. (Inr (Depth mode q), q))\<rparr>"

text \<open>
  What the matchmaker relies on while no new ticket arrives. \<open>wait q mode\<close> are the ids that wait in
  the queue; no operation makes a ticket wait that did not, and tickets may stop waiting on their own,
  claimed by another matchmaker or cancelled. Reading returns tickets that waited, none twice. After a
  successful claim none of its tickets waits; a claim is only refused when one of them no longer does.
  Each operation may also report an error of the queue's store.
\<close>

locale match_queue =
  fixes ops :: "'q queue_ops" and ok :: "'q \<Rightarrow> bool" and wait :: "'q \<Rightarrow> string \<Rightarrow> uuid set"
  assumes finite_wait: "ok q \<Longrightarrow> finite (wait q mode)"
    and pending: "ok q \<Longrightarrow> op_Pending ops mode q = (r, q') \<Longrightarrow> ok q' \<and> (\<forall>m. wait q' m \<subseteq> wait q m) \<and>
      (\<forall>ts. r = Inr ts \<longrightarrow> distinct (map Ticket_ID ts) \<and> Ticket_ID ` set ts \<subseteq> wait q mode)"
    and claim: "ok q \<Longrightarrow> op_Claim ops mode ids q = (b, q') \<Longrightarrow> ok q' \<and> (\<forall>m. wait q' m \<subseteq> wait q m) \<and>
      (b = Inr True \<longrightarrow> wait q' mode \<inter> set ids = {}) \<and> (b = Inr False \<longrightarrow> \<not> set ids \<subseteq> wait q' mode)"
    and publish: "ok q \<Longrightarrow> op_Publish ops tid ev q = (err, q') \<Longrightarrow> ok q' \<and> (\<forall>m. wait q' m \<subseteq> wait q m)"
begin

lemma pending_length:
  assumes "ok q" and "op_Pending ops mode q = (Inr ts, q')"
  shows "length ts \<le> card (wait q mode)"
  using pending [OF assms] by (metis card_mono distinct_card finite_wait [OF assms(1)] length_map list.set_map)

text \<open>Reading and then claiming takes a ticket away, whether the claim succeeds or was lost.\<close>

lemma claim_shrinks:
  assumes "ok q" and "ok q1" and "wait q1 mode \<subseteq> wait q mode"
    and "op_Claim ops mode ids q1 = (Inr b, q')" and "set ids \<subseteq> wait q mode" and "ids \<noteq> []"
  shows "card (wait q' mode) < card (wait q mode)"
proof -
  have "wait q' mode \<subseteq> wait q mode" "b \<longrightarrow> wait q' mode \<inter> set ids = {}" "\<not> b \<longrightarrow> \<not> set ids \<subseteq> wait q' mode"
    using claim [OF assms(2,4)] assms(3) by auto
  then have "wait q' mode \<subset> wait q mode" using assms(5,6) by (cases ids; cases b) auto
  then show ?thesis using finite_wait [OF assms(1)] by (rule psubset_card_mono [rotated])
qed

end

lemma match_queue_InMem:
  assumes ord: "\<And>es. mset (ord es) = mset es"
  shows "match_queue (InMem_ops ord) queue_inv waiting"
proof
  fix q :: InMem and mode ids tid ev
  assume inv: "queue_inv q"
  show "finite (waiting q mode)" by simp
  show "queue_inv q' \<and> (\<forall>m. waiting q' m \<subseteq> waiting q m) \<and>
      (\<forall>ts. r = Inr ts \<longrightarrow> distinct (map Ticket_ID ts) \<and> Ticket_ID ` set ts \<subseteq> waiting q mode)"
    if "op_Pending (InMem_ops ord) mode q = (r, q')" for r q'
    using that inv Pending_ids [OF ord inv] by (auto simp: InMem_ops_def)
  show "queue_inv q' \<and> (\<forall>m. waiting q' m \<subseteq> waiting q m) \<and>
      (r = Inr True \<longrightarrow> waiting q' mode \<inter> set ids = {}) \<and> (r = Inr False \<longrightarrow> \<not> set ids \<subseteq> waiting q' mode)"
    if c: "op_Claim (InMem_ops ord) mode ids q = (r, q')" for r q'
  proof -
    have r: "r = Inr (fst (Claim ids q))" "q' = snd (Claim ids q)"
      using c by (auto simp: InMem_ops_def split: prod.splits)
    show ?thesis
      using queue_inv_Claim [OF inv, of ids] waiting_Claim [of ids q] Claim_eq [of ids q] Claim_waiting [of ids q mode]
      unfolding r by (cases "fst (Claim ids q)") (auto split: if_splits)
  qed
  show "queue_inv q' \<and> (\<forall>m. waiting q' m \<subseteq> waiting q m)"
    if "op_Publish (InMem_ops ord) tid ev q = (r, q')" for r q'
    using that queue_inv_Publish [OF inv, of tid ev] waiting_Publish [OF inv, of tid ev]
    by (simp add: InMem_ops_def)
qed

interpretation inmem: match_queue "InMem_ops (\<lambda>es. es)" queue_inv waiting
  by (rule match_queue_InMem) simp

section \<open>Properties\<close>

text \<open>
  No sequence of calls makes the queue panic: it never sends on a closed channel and never closes
  one twice, however subscriptions, detachments, claims, cancellations and publications interleave.
\<close>

theorem queue_never_panics: "\<not> q_panic (fold queue_step calls NewInMem)"
  using queue_invD(1) [OF queue_inv_steps [OF queue_inv_New]] .

text \<open>
  C7. Claims are exclusive: in every run from an empty queue, the ticket sets of the successful claims
  are pairwise disjoint, so a ticket is paired into at most one match.
\<close>

theorem claims_exclusive:
  "sorted_wrt (\<lambda>a b. set a \<inter> set b = {}) (successful_claims calls NewInMem)"
  using claims_disjoint [OF queue_inv_New] .

text \<open>
  A claim is all or nothing: it succeeds exactly when every ticket still waits; then it takes
  exactly these out of the pending pool, and otherwise the queue is unchanged.
\<close>

theorem Claim_all_or_nothing:
  "fst (Claim ids q) = list_all (claimable q) ids \<and>
   (if fst (Claim ids q) then \<forall>mode. waiting (snd (Claim ids q)) mode = waiting q mode - set ids
    else snd (Claim ids q) = q)"
  using waiting_Claim [of ids q] by (auto simp: Claim_eq)

text \<open>
  The in-place insertion sort of the queue is the stable sort by the time of enqueueing.
\<close>

theorem sortByEnqueuedAt_stable: "sortByEnqueuedAt ts = sort_key EnqueuedAt ts"
  by (rule sortByEnqueuedAt_sort_key)

text \<open>
  \<open>Pending\<close> returns every waiting ticket of the mode exactly once, oldest first, whatever the
  order of map iteration; its length, as an \<open>int32\<close>, is \<open>Depth\<close>.
\<close>

theorem Pending_exact:
  assumes "\<And>es. mset (ord es) = mset es" and "queue_inv q"
  shows "distinct (map Ticket_ID (Pending ord mode q)) \<and>
    Ticket_ID ` set (Pending ord mode q) = waiting q mode \<and>
    sorted (map EnqueuedAt (Pending ord mode q)) \<and>
    of_nat (length (Pending ord mode q)) = Depth mode q"
  using Pending_ids [OF assms] Pending_length [OF assms(1)]
  by (simp add: Pending_def sortByEnqueuedAt_sort_key)

theorem Pending_exact_witness:
  "Ticket_ID ` set (Pending rev ''rps'' (Enqueue (sample_ticket 1 1 [] 5) NewInMem)) = {1}"
  using Pending_exact [of rev "Enqueue (sample_ticket 1 1 [] 5) NewInMem" "''rps''"]
    queue_inv_Enqueue [OF queue_inv_New, of "sample_ticket 1 1 [] 5"]
  by (simp add: waiting_def Enqueue_def NewInMem_def sample_ticket_def is_pending_def Let_def)

text \<open>
  A terminal event reaches every subscriber: in any run whose publications are terminal events,
  as the matchmaker's all are, publishing one appends it to the buffer of every channel subscribed to
  the ticket, which is never full, and closes the channel.
\<close>

theorem terminal_event_delivered:
  assumes "list_all only_terminal calls" and "isTerminal ev"
    and "q = fold queue_step calls NewInMem" and "c \<in> set (q_subscribers q tid)"
    and "map_of (q_tickets q) tid \<noteq> None"
  shows "q_heap (snd (Publish tid ev q)) ! c = \<lparr>buf = buf (q_heap q ! c) @ [ev], is_closed = True\<rparr>"
proof -
  have inv: "queue_inv q" using assms(3) queue_inv_steps [OF queue_inv_New] by simp
  have "room_inv q"
    using assms(1,3) room_steps [OF queue_inv_New] by (simp add: room_inv_def NewInMem_def)
  then have "length (buf (q_heap q ! c)) < chan_cap"
    using assms(4) by (force simp: room_inv_def chan_cap_def)
  then show ?thesis
    using assms(2,4,5) queue_invD(7) [OF inv assms(4)] publishLocked_eq [OF inv, of tid ev]
    by (auto simp: Publish_def nth_deliver_all delivered_def)
qed

theorem terminal_event_delivered_witness:
  "q_heap (snd (Publish 1 (EventFailed ''a'' ''b'') (fold queue_step [QEnqueue (sample_ticket 1 1 [] 5), QSubscribe 1] NewInMem))) ! 0
   = \<lparr>buf = [EventQueued 5 1, EventFailed ''a'' ''b''], is_closed = True\<rparr>"
  using terminal_event_delivered [of "[QEnqueue (sample_ticket 1 1 [] 5), QSubscribe 1]" "EventFailed ''a'' ''b''" _ 0 1]
  by (simp add: only_terminal_def isTerminal_def NewInMem_def Enqueue_def Subscribe_def Let_def
      sample_ticket_def countPendingLocked_def)

end
