(* ===== verification/Matchmaker.thy ===== *)
theory Matchmaker
  imports Match_Queue Connect
begin

text \<open>
  The matchmaker worker (\<open>internal/usecase/match/matchmaker.go\<close>), the MatchService usecase
  (\<open>internal/usecase/match/match.go\<close>) and its handlers (\<open>internal/presentation/gateway/match\<close>), with
  the single-process assignment store (\<open>internal/infra/assignmentstore/inmem.go\<close>).

  The queue and the assignment store are values of their interfaces, as in the code. The allocator
  and the session signer are arguments; the allocator has a state of its own, so that it may answer
  differently each time. \<open>world\<close> is what a tick reads and writes: the two stores, the allocator, the
  readings of the clock and the metrics. The loop of \<open>processMode\<close> takes fuel; the lemmas show that one
  more than the number of waiting tickets is always enough.
\<close>

section \<open>Assignment stores\<close>

record 's store_ops =
  op_Put :: "uuid \<Rightarrow> Assignment \<Rightarrow> duration \<Rightarrow> 's \<Rightarrow> go_error option \<times> 's"
  op_Get :: "uuid \<Rightarrow> 's \<Rightarrow> (go_error + Assignment option) \<times> 's"

record inMemEntry =
  ie_assignment :: Assignment
  ie_expiresAt :: go_time

text \<open>The entries, and the instant \<open>time.Now()\<close> returns.\<close>

record AssignmentInMem =
  as_entries :: "(uuid \<times> inMemEntry) list"
  as_now :: go_time

definition Store_Put :: "uuid \<Rightarrow> Assignment \<Rightarrow> duration \<Rightarrow> AssignmentInMem \<Rightarrow> go_error option \<times> AssignmentInMem" where
  "Store_Put p a ttl s = (None, s\<lparr>as_entries :=
     AList.update p \<lparr>ie_assignment = a, ie_expiresAt = as_now s + ttl\<rparr> (as_entries s)\<rparr>)"

definition Store_Get :: "uuid \<Rightarrow> AssignmentInMem \<Rightarrow> (go_error + Assignment option) \<times> AssignmentInMem" where
  "Store_Get p s = (case map_of (as_entries s) p of
     None \<Rightarrow> (Inr None, s)
   | Some e \<Rightarrow> if as_now s > ie_expiresAt e
       then (Inr None, s\<lparr>as_entries := AList.delete p (as_entries s)\<rparr>)
       else (Inr (Some (ie_assignment e)), s))"

definition Store_ops :: "AssignmentInMem store_ops" where
  "Store_ops = \<lparr>op_Put = Store_Put, op_Get = Store_Get\<rparr>"

definition noop_Put :: "uuid \<Rightarrow> Assignment \<Rightarrow> duration \<Rightarrow> 's \<Rightarrow> go_error option \<times> 's" where
  "noop_Put p a ttl s = (None, s)"

definition noop_Get :: "uuid \<Rightarrow> 's \<Rightarrow> (go_error + Assignment option) \<times> 's" where
  "noop_Get p s = (Inr None, s)"

definition noopAssignmentStore :: "'s store_ops" where
  "noopAssignmentStore = \<lparr>op_Put = noop_Put, op_Get = noop_Get\<rparr>"

section \<open>The worker\<close>

record RoomAllocation =
  ra_MatchID :: uuid
  ra_Endpoint :: string

record ('q, 's, 'a) Matchmaker =
  mm_queue :: "'q queue_ops"
  mm_allocator :: "string \<Rightarrow> nat \<Rightarrow> 'a \<Rightarrow> (go_error + RoomAllocation) \<times> 'a"
  mm_signer :: "uuid \<Rightarrow> string \<Rightarrow> string list \<Rightarrow> go_time \<Rightarrow> duration \<Rightarrow> go_error + string"
  mm_assignments :: "'s store_ops"
  mm_matcher :: Matcher
  mm_interval :: duration
  mm_sessionTokenTTL :: duration
  mm_candidateModes :: "string list"
  mm_str :: "uuid \<Rightarrow> string"
  mm_ord :: roster_order
  mm_errText :: "go_error \<Rightarrow> string"

record 's Config =
  cfg_Interval :: duration
  cfg_SessionTokenTTL :: duration
  cfg_PlayersPerMatch :: int
  cfg_GameModes :: "string list"
  cfg_BaseRatingWindow :: float64
  cfg_RatingWindowGrowthPerSec :: float64
  cfg_RegionRelaxAfter :: duration
  cfg_Assignments :: "'s store_ops option"

definition NewMatchmaker ::
    "'q queue_ops \<Rightarrow> (string \<Rightarrow> nat \<Rightarrow> 'a \<Rightarrow> (go_error + RoomAllocation) \<times> 'a) \<Rightarrow>
     (uuid \<Rightarrow> string \<Rightarrow> string list \<Rightarrow> go_time \<Rightarrow> duration \<Rightarrow> go_error + string) \<Rightarrow> 's Config \<Rightarrow>
     (uuid \<Rightarrow> string) \<Rightarrow> roster_order \<Rightarrow> (go_error \<Rightarrow> string) \<Rightarrow> ('q, 's, 'a) Matchmaker" where
  "NewMatchmaker queue allocator signer cfg str ord errText =
     (let players = (if cfg_PlayersPerMatch cfg = 0 then 2 else cfg_PlayersPerMatch cfg);
          interval = (if cfg_Interval cfg = 0 then 200 * Millisecond else cfg_Interval cfg);
          store = (case cfg_Assignments cfg of None \<Rightarrow> noopAssignmentStore | Some st \<Rightarrow> st)
      in \<lparr>mm_queue = queue, mm_allocator = allocator, mm_signer = signer, mm_assignments = store,
          mm_matcher = NewMatcher players \<lparr>BaseRatingWindow = cfg_BaseRatingWindow cfg,
            RatingWindowGrowthPerSec = cfg_RatingWindowGrowthPerSec cfg,
            RegionRelaxAfter = cfg_RegionRelaxAfter cfg\<rparr>,
          mm_interval = interval, mm_sessionTokenTTL = cfg_SessionTokenTTL cfg,
          mm_candidateModes = cfg_GameModes cfg, mm_str = str, mm_ord = ord, mm_errText = errText\<rparr>)"

record ('q, 's, 'a) world =
  w_queue :: 'q
  w_store :: 's
  w_alloc :: 'a
  w_clock :: "nat \<Rightarrow> go_time"
  w_reads :: nat
  w_depths :: "(string \<times> nat) list"
  w_allocated :: nat

definition clock_Now :: "('q, 's, 'a) world \<Rightarrow> go_time \<times> ('q, 's, 'a) world" where
  "clock_Now w = (w_clock w (w_reads w), w\<lparr>w_reads := w_reads w + 1\<rparr>)"

definition publish_in :: "('q, 's, 'a) Matchmaker \<Rightarrow> uuid \<Rightarrow> Event \<Rightarrow> ('q, 's, 'a) world \<Rightarrow> ('q, 's, 'a) world" where
  "publish_in m tid ev w = w\<lparr>w_queue := snd (op_Publish (mm_queue m) tid ev (w_queue w))\<rparr>"

text \<open>The body of the loop over the tickets of a claimed group that has a room.\<close>

definition settle_ticket ::
    "('q, 's, 'a) Matchmaker \<Rightarrow> RoomAllocation \<Rightarrow> string list \<Rightarrow> go_time \<Rightarrow> go_time \<Rightarrow> Ticket \<Rightarrow>
     ('q, 's, 'a) world \<times> nat \<Rightarrow> ('q, 's, 'a) world \<times> nat" where
  "settle_ticket m allocation matchPlayers now expiresAt t wp = (case wp of (w, paired) \<Rightarrow>
     case mm_signer m (Ticket_PlayerID t) (mm_str m (ra_MatchID allocation)) matchPlayers now (mm_sessionTokenTTL m) of
       Inl e \<Rightarrow> (publish_in m (Ticket_ID t) (EventFailed ''internal'' ''failed to issue session token'') w, paired)
     | Inr sessionToken \<Rightarrow>
         let assignment = \<lparr>Assignment_MatchID = ra_MatchID allocation, Endpoint = ra_Endpoint allocation,
               SessionToken = sessionToken, ExpiresAt = expiresAt\<rparr>
         in case op_Put (mm_assignments m) (Ticket_PlayerID t) assignment (mm_sessionTokenTTL m) (w_store w) of
              (Some e, st) \<Rightarrow>
                (publish_in m (Ticket_ID t) (EventFailed ''internal'' ''failed to record assignment'') (w\<lparr>w_store := st\<rparr>), paired)
            | (None, st) \<Rightarrow>
                (publish_in m (Ticket_ID t) (EventMatched assignment) (w\<lparr>w_store := st\<rparr>), paired + 1))"

definition pair ::
    "('q, 's, 'a) Matchmaker \<Rightarrow> string \<Rightarrow> Ticket list \<Rightarrow> ('q, 's, 'a) world \<Rightarrow> go_error option \<times> ('q, 's, 'a) world" where
  "pair m mode ts w =
     (case op_Claim (mm_queue m) mode (map Ticket_ID ts) (w_queue w) of
        (Inl e, q) \<Rightarrow> (Some e, w\<lparr>w_queue := q\<rparr>)
      | (Inr False, q) \<Rightarrow> (None, w\<lparr>w_queue := q\<rparr>)
      | (Inr True, q) \<Rightarrow>
          (case mm_allocator m mode (length ts) (w_alloc w) of
             (Inl e, al) \<Rightarrow>
               (Some e, fold (\<lambda>t. publish_in m (Ticket_ID t) (EventFailed ''allocator_failed'' (mm_errText m e))) ts
                  (w\<lparr>w_queue := q, w_alloc := al\<rparr>))
           | (Inr allocation, al) \<Rightarrow>
               let (now, w1) = clock_Now (w\<lparr>w_queue := q, w_alloc := al\<rparr>);
                   expiresAt = now + mm_sessionTokenTTL m;
                   matchPlayers = map (\<lambda>t. mm_str m (Ticket_PlayerID t)) ts;
                   (w2, paired) = fold (settle_ticket m allocation matchPlayers now expiresAt) ts (w1, 0)
               in (None, if paired = length ts then w2\<lparr>w_allocated := w_allocated w2 + 1\<rparr> else w2)))"

text \<open>The loop of \<open>processMode\<close>; \<open>None\<close> when the fuel is used up.\<close>

fun process_loop ::
    "nat \<Rightarrow> ('q, 's, 'a) Matchmaker \<Rightarrow> string \<Rightarrow> go_time \<Rightarrow> ('q, 's, 'a) world \<Rightarrow>
     (go_error option \<times> ('q, 's, 'a) world) option" where
  "process_loop 0 m mode now w = None"
| "process_loop (Suc n) m mode now w =
     (case op_Pending (mm_queue m) mode (w_queue w) of
        (Inl e, q) \<Rightarrow> Some (Some e, w\<lparr>w_queue := q\<rparr>)
      | (Inr pending, q) \<Rightarrow>
          let w1 = w\<lparr>w_queue := q, w_depths := w_depths w @ [(mode, length pending)]\<rparr> in
          if int (length pending) < PlayersPerMatch (mm_matcher m) then Some (None, w1)
          else (case SelectGroup (mm_str m) (mm_ord m) (mm_matcher m) now pending of
                  None \<Rightarrow> Some (None, w1)
                | Some grp \<Rightarrow>
                    (case pair m mode grp w1 of
                       (Some e, w2) \<Rightarrow> Some (Some e, w2)
                     | (None, w2) \<Rightarrow> process_loop n m mode now w2)))"

definition processMode ::
    "nat \<Rightarrow> ('q, 's, 'a) Matchmaker \<Rightarrow> string \<Rightarrow> ('q, 's, 'a) world \<Rightarrow> (go_error option \<times> ('q, 's, 'a) world) option" where
  "processMode fuel m mode w = (case clock_Now w of (now, w1) \<Rightarrow> process_loop fuel m mode now w1)"

text \<open>\<open>tick\<close>: an error of one mode is logged and the next mode is processed.\<close>

fun tick_modes :: "nat \<Rightarrow> ('q, 's, 'a) Matchmaker \<Rightarrow> string list \<Rightarrow> ('q, 's, 'a) world \<Rightarrow> ('q, 's, 'a) world option" where
  "tick_modes fuel m [] w = Some w"
| "tick_modes fuel m (mode # modes) w =
     (case processMode fuel m mode w of None \<Rightarrow> None | Some (err, w') \<Rightarrow> tick_modes fuel m modes w')"

definition tick :: "nat \<Rightarrow> ('q, 's, 'a) Matchmaker \<Rightarrow> ('q, 's, 'a) world \<Rightarrow> ('q, 's, 'a) world option" where
  "tick fuel m w = tick_modes fuel m (mm_candidateModes m) w"

section \<open>The usecase\<close>

record TicketInput =
  in_PlayerID :: uuid
  in_GameMode :: string
  in_Rating :: "float64 option"
  in_Region :: "string option"
  in_PartyMembers :: "uuid list"
  in_Attributes :: "(string \<times> string) list"

record ('q, 's) MatchUsecase =
  mu_queue :: "'q queue_ops"
  mu_assignments :: "'s store_ops"
  mu_maxPartySize :: int

definition NewMatchUsecase :: "'q queue_ops \<Rightarrow> 's store_ops option \<Rightarrow> int \<Rightarrow> ('q, 's) MatchUsecase" where
  "NewMatchUsecase queue assignments maxPartySize =
     \<lparr>mu_queue = queue, mu_assignments = (case assignments of None \<Rightarrow> noopAssignmentStore | Some st \<Rightarrow> st),
      mu_maxPartySize = maxPartySize\<rparr>"

text \<open>\<open>uid\<close> is the id \<open>uuid.New()\<close> draws and \<open>now\<close> the request's instant.\<close>

definition CreateTicket ::
    "('q, 's) MatchUsecase \<Rightarrow> (uuid \<Rightarrow> string) \<Rightarrow> (uuid list \<Rightarrow> uuid list) \<Rightarrow> uuid \<Rightarrow> go_time \<Rightarrow> TicketInput \<Rightarrow>
     'q \<Rightarrow> (go_error + uuid) \<times> 'q" where
  "CreateTicket u str ord uid now inp q =
     (case NewTicket uid (in_PlayerID inp) (in_GameMode inp) now of
        Inl e \<Rightarrow> (Inl e, q)
      | Inr t \<Rightarrow>
          let roster = NormalizeParty str ord (in_PlayerID inp) (in_PartyMembers inp) in
          if mu_maxPartySize u > 0 \<and> int (length roster) > mu_maxPartySize u then (Inl (MatchE ErrPartyTooLarge), q)
          else case op_Enqueue (mu_queue u) (t\<lparr>Rating := in_Rating inp, Region := in_Region inp,
                      PartyMembers := roster, Attributes := in_Attributes inp\<rparr>) q of
                 (Some e, q') \<Rightarrow> (Inl e, q')
               | (None, q') \<Rightarrow> (Inr (Ticket_ID t), q'))"

definition WatchTicket :: "('q, 's) MatchUsecase \<Rightarrow> uuid \<Rightarrow> 'q \<Rightarrow> (go_error + nat) \<times> 'q" where
  "WatchTicket u tid q = op_Subscribe (mu_queue u) tid q"

definition CancelTicket :: "('q, 's) MatchUsecase \<Rightarrow> uuid \<Rightarrow> 'q \<Rightarrow> go_error option \<times> 'q" where
  "CancelTicket u tid q = op_Cancel (mu_queue u) tid q"

definition GetCurrentMatch :: "('q, 's) MatchUsecase \<Rightarrow> uuid \<Rightarrow> 's \<Rightarrow> (go_error + Assignment option) \<times> 's" where
  "GetCurrentMatch u p s = op_Get (mu_assignments u) p s"

section \<open>Handlers\<close>

definition match_toConnectError :: "go_error \<Rightarrow> connect_error" where
  "match_toConnectError err =
     (if errors_Is err (MatchE ErrTicketNotFound) then (CodeNotFound, err)
      else if errors_Is err (MatchE ErrPartyTooLarge) then (CodeInvalidArgument, err)
      else (CodeInternal, err))"

fun parse_all :: "(string \<Rightarrow> uuid option) \<Rightarrow> string list \<Rightarrow> uuid list option" where
  "parse_all parse [] = Some []"
| "parse_all parse (x # xs) = (case parse x of None \<Rightarrow> None
     | Some u \<Rightarrow> map_option (\<lambda>us. u # us) (parse_all parse xs))"

definition parsePartyMembers :: "(string \<Rightarrow> uuid option) \<Rightarrow> string list \<Rightarrow> go_error + uuid list" where
  "parsePartyMembers parse ids = (case parse_all parse ids of
     None \<Rightarrow> Inl (ErrorString ''invalid party_member id'') | Some us \<Rightarrow> Inr us)"

record CreateTicketRequest =
  rq_GameMode :: string
  rq_Rating :: "float64 option"
  rq_Region :: "string option"
  rq_PartyMembers :: "string list"
  rq_Attributes :: "(string \<times> string) list"

definition Handler_CreateTicket ::
    "('q, 's) MatchUsecase \<Rightarrow> (uuid \<Rightarrow> string) \<Rightarrow> (string \<Rightarrow> uuid option) \<Rightarrow> (uuid list \<Rightarrow> uuid list) \<Rightarrow> uuid \<Rightarrow>
     go_time \<Rightarrow> ctx \<Rightarrow> CreateTicketRequest \<Rightarrow> 'q \<Rightarrow> string response \<times> 'q" where
  "Handler_CreateTicket u str parse ord uid now c rq q =
     or_return (requireAuth c) q (\<lambda>playerID.
     if rq_GameMode rq = '''' then (Inl (CodeInvalidArgument, ErrorString ''game_mode is required''), q)
     else case parsePartyMembers parse (rq_PartyMembers rq) of
       Inl e \<Rightarrow> (Inl (CodeInvalidArgument, e), q)
     | Inr partyMembers \<Rightarrow>
         respond match_toConnectError str
           (CreateTicket u str ord uid now \<lparr>in_PlayerID = playerID, in_GameMode = rq_GameMode rq,
              in_Rating = rq_Rating rq, in_Region = rq_Region rq, in_PartyMembers = partyMembers,
              in_Attributes = rq_Attributes rq\<rparr> q))"

datatype WatchTicketResponse =
    WatchQueued go_time "32 word" | WatchMatched string string go_time | WatchFailed string string

definition toWatchResponse :: "Event \<Rightarrow> WatchTicketResponse" where
  "toWatchResponse ev = (case ev of
     EventQueued t d \<Rightarrow> WatchQueued t d
   | EventMatched a \<Rightarrow> WatchMatched (Endpoint a) (SessionToken a) (ExpiresAt a)
   | EventFailed r msg \<Rightarrow> WatchFailed r msg)"

text \<open>
  \<open>WatchTicket\<close>: the subscription, and the loop over the events the channel yields until it is closed
  or the stream refuses one.
\<close>

definition parseTicketID :: "(string \<Rightarrow> uuid option) \<Rightarrow> string \<Rightarrow> uuid response" where
  "parseTicketID parse raw = (case parse raw of
     None \<Rightarrow> Inl (CodeInvalidArgument, ErrorString ''invalid ticket_id'') | Some u \<Rightarrow> Inr u)"

definition Handler_WatchTicket ::
    "('q, 's) MatchUsecase \<Rightarrow> (string \<Rightarrow> uuid option) \<Rightarrow> ctx \<Rightarrow> string \<Rightarrow> 'q \<Rightarrow> nat response \<times> 'q" where
  "Handler_WatchTicket u parse c raw q =
     or_return (requireAuth c) q (\<lambda>_.
     or_return (parseTicketID parse raw) q (\<lambda>tid.
     respond match_toConnectError (\<lambda>ch. ch) (WatchTicket u tid q)))"

fun watch_loop :: "(WatchTicketResponse \<Rightarrow> 'o \<Rightarrow> go_error option \<times> 'o) \<Rightarrow> Event list \<Rightarrow> 'o \<Rightarrow> go_error option \<times> 'o" where
  "watch_loop send [] out = (None, out)"
| "watch_loop send (ev # evs) out = (case send (toWatchResponse ev) out of
     (Some e, out') \<Rightarrow> (Some e, out') | (None, out') \<Rightarrow> watch_loop send evs out')"

definition Handler_CancelTicket ::
    "('q, 's) MatchUsecase \<Rightarrow> (string \<Rightarrow> uuid option) \<Rightarrow> ctx \<Rightarrow> string \<Rightarrow> 'q \<Rightarrow> unit response \<times> 'q" where
  "Handler_CancelTicket u parse c raw q =
     or_return (requireAuth c) q (\<lambda>_.
     or_return (parseTicketID parse raw) q (\<lambda>tid.
     (case CancelTicket u tid q of
        (Some e, q') \<Rightarrow> (Inl (match_toConnectError e), q') | (None, q') \<Rightarrow> (Inr (), q'))))"

record CurrentMatchPb =
  cm_MatchId :: string
  cm_Endpoint :: string
  cm_SessionToken :: string
  cm_ExpiresAt :: go_time

definition toCurrentMatchPb :: "(uuid \<Rightarrow> string) \<Rightarrow> Assignment \<Rightarrow> CurrentMatchPb" where
  "toCurrentMatchPb str a = \<lparr>cm_MatchId = str (Assignment_MatchID a), cm_Endpoint = Endpoint a,
     cm_SessionToken = SessionToken a, cm_ExpiresAt = ExpiresAt a\<rparr>"

definition Handler_GetCurrentMatch ::
    "('q, 's) MatchUsecase \<Rightarrow> (uuid \<Rightarrow> string) \<Rightarrow> ctx \<Rightarrow> 's \<Rightarrow> CurrentMatchPb option response \<times> 's" where
  "Handler_GetCurrentMatch u str c s =
     or_return (requireAuth c) s (\<lambda>playerID.
     respond match_toConnectError (map_option (toCurrentMatchPb str)) (GetCurrentMatch u playerID s))"

section \<open>Termination of a tick\<close>

context match_queue
begin

definition shrinks :: "'q \<Rightarrow> 'q \<Rightarrow> bool" where
  "shrinks q q' \<longleftrightarrow> ok q' \<and> (\<forall>md. wait q' md \<subseteq> wait q md)"

lemma shrinks_trans: "shrinks q q' \<Longrightarrow> shrinks q' q'' \<Longrightarrow> shrinks q q''"
  unfolding shrinks_def by blast

lemma shrinks_publish_in:
  assumes "mm_queue m = ops" and "ok (w_queue w)"
  shows "shrinks (w_queue w) (w_queue (publish_in m tid ev w))"
  using publish [OF assms(2), of tid ev] assms(1)
  by (cases "op_Publish ops tid ev (w_queue w)") (auto simp: shrinks_def publish_in_def)

lemma shrinks_publish_fold:
  assumes "mm_queue m = ops" and "ok (w_queue w)"
  shows "shrinks (w_queue w) (w_queue (fold (\<lambda>t. publish_in m (f t) (g t)) ts w))"
  using assms(2)
proof (induction ts arbitrary: w)
  case (Cons t ts)
  have s: "shrinks (w_queue w) (w_queue (publish_in m (f t) (g t) w))"
    using shrinks_publish_in [OF assms(1) Cons.prems] .
  then have "ok (w_queue (publish_in m (f t) (g t) w))" by (simp add: shrinks_def)
  from shrinks_trans [OF s Cons.IH [OF this]] show ?case by simp
qed (simp add: shrinks_def)

lemma shrinks_settle:
  assumes "mm_queue m = ops" and "ok (w_queue w)"
  shows "shrinks (w_queue w) (w_queue (fst (settle_ticket m al ps now ex t (w, n))))"
  using shrinks_publish_in [OF assms] shrinks_publish_in [OF assms(1), of "w\<lparr>w_store := _\<rparr>"] assms(2)
  by (auto simp: settle_ticket_def Let_def split: sum.split prod.split option.split)

lemma shrinks_settle_fold:
  assumes "mm_queue m = ops" and "ok (w_queue (fst wn))"
  shows "shrinks (w_queue (fst wn)) (w_queue (fst (fold (settle_ticket m al ps now ex) ts wn)))"
  using assms(2)
proof (induction ts arbitrary: wn)
  case (Cons t ts)
  have s: "shrinks (w_queue (fst wn)) (w_queue (fst (settle_ticket m al ps now ex t wn)))"
    using shrinks_settle [OF assms(1), of "fst wn" al ps now ex t "snd wn"] Cons.prems by simp
  then have "ok (w_queue (fst (settle_ticket m al ps now ex t wn)))" by (simp add: shrinks_def)
  from shrinks_trans [OF s Cons.IH [OF this]] show ?case by simp
qed (simp add: shrinks_def)

lemma pair_shrinks:
  assumes mq: "mm_queue m = ops" and okq0: "ok q0" and okw: "ok (w_queue w)" and le: "wait (w_queue w) mode \<subseteq> wait q0 mode"
    and sub: "Ticket_ID ` set ts \<subseteq> wait q0 mode" and ne: "ts \<noteq> []"
    and pair: "pair m mode ts w = (None, w')"
  shows "ok (w_queue w') \<and> card (wait (w_queue w') mode) < card (wait q0 mode)"
proof -
  obtain r q where c: "op_Claim ops mode (map Ticket_ID ts) (w_queue w) = (r, q)" by fastforce
  then obtain b where r: "r = Inr b" using pair mq by (cases r) (auto simp: pair_def)
  have okq: "ok q" using claim [OF okw c] by simp
  have lt: "card (wait q mode) < card (wait q0 mode)"
    using claim_shrinks [OF okq0 okw le, of "map Ticket_ID ts" b q] c r sub ne by simp
  show ?thesis
  proof (cases b)
    case False
    then show ?thesis using pair c r mq okq lt by (auto simp: pair_def)
  next
    case True
    then obtain a al where al: "mm_allocator m mode (length ts) (w_alloc w) = (Inr a, al)"
      using pair c r mq by (cases "mm_allocator m mode (length ts) (w_alloc w)") (auto simp: pair_def split: sum.splits)
    obtain now w1 where cl: "clock_Now (w\<lparr>w_queue := q, w_alloc := al\<rparr>) = (now, w1)" by fastforce
    have w1: "w_queue w1 = q" using cl by (auto simp: clock_Now_def)
    obtain w2 n where f: "fold (settle_ticket m a (map (\<lambda>t. mm_str m (Ticket_PlayerID t)) ts) now
        (now + mm_sessionTokenTTL m)) ts (w1, 0) = (w2, n)" by fastforce
    have "shrinks q (w_queue w2)"
      using shrinks_settle_fold [OF mq, of "(w1, 0)" a _ now _ ts] f w1 okq by (metis fst_conv)
    moreover have "w_queue w' = w_queue w2"
      using pair c r True mq al cl f by (auto simp: pair_def Let_def split: if_splits)
    ultimately have "ok (w_queue w')" "wait (w_queue w') mode \<subseteq> wait q mode" by (simp_all add: shrinks_def)
    then show ?thesis using lt finite_wait [OF okq, of mode] by (meson card_mono le_less_trans)
  qed
qed

lemma process_loop_terminates:
  assumes mq: "mm_queue m = ops" and ord: "\<And>rs. mset (mm_ord m rs) = mset rs"
    and n: "playersPerMatch (mm_matcher m) \<ge> 1"
    and "ok (w_queue w)" and "card (wait (w_queue w) mode) < fuel"
  shows "\<exists>r w'. process_loop fuel m mode now w = Some (r, w')"
  using assms(4,5)
proof (induction fuel arbitrary: w)
  case (Suc fuel)
  obtain p q where p: "op_Pending ops mode (w_queue w) = (p, q)" by fastforce
  show ?case
  proof (cases p)
    case (Inl e)
    then show ?thesis using p mq by simp
  next
    case (Inr pending')
    let ?w1 = "w\<lparr>w_queue := q, w_depths := w_depths w @ [(mode, length pending')]\<rparr>"
    have q: "ok q" "wait q mode \<subseteq> wait (w_queue w) mode" and ids: "Ticket_ID ` set pending' \<subseteq> wait (w_queue w) mode"
      using pending [OF Suc.prems(1) p] Inr by auto
    show ?thesis
    proof (cases "SelectGroup (mm_str m) (mm_ord m) (mm_matcher m) now pending'")
      case None
      then show ?thesis using p mq Inr by (simp add: Let_def)
    next
      case (Some grp)
      have g: "set grp \<subseteq> set pending'" "grp \<noteq> []"
        using group_subset_pending [OF ord Some] n by auto
      obtain r w2 where pr: "pair m mode grp ?w1 = (r, w2)" by fastforce
      show ?thesis
      proof (cases r)
        case None
        then have "ok (w_queue w2) \<and> card (wait (w_queue w2) mode) < card (wait (w_queue w) mode)"
          using pair_shrinks [OF mq Suc.prems(1), of ?w1 mode grp w2] pr q g ids by auto
        then have "\<exists>r w'. process_loop fuel m mode now w2 = Some (r, w')"
          using Suc.IH [of w2] Suc.prems(2) by simp
        then show ?thesis using p mq Inr Some pr None by (simp add: Let_def)
      qed (use p mq Inr Some pr in \<open>simp add: Let_def\<close>)
    qed
  qed
qed simp

end

section \<open>No claimed ticket is left hanging\<close>

definition entry_of :: "InMem \<Rightarrow> uuid \<Rightarrow> ticketEntry option" where
  "entry_of q i = map_of (q_tickets q) i"

text \<open>The last event of a ticket that has reached its end.\<close>

definition final_event :: "InMem \<Rightarrow> uuid \<Rightarrow> Event \<Rightarrow> bool" where
  "final_event q i ev \<longleftrightarrow> (\<exists>e. entry_of q i = Some e \<and> finished e \<and> latest e = ev)"

lemma Publish_final:
  assumes "queue_inv q" and "entry_of q i \<noteq> None" and "isTerminal ev"
  shows "queue_inv (snd (Publish i ev q)) \<and> final_event (snd (Publish i ev q)) i ev \<and>
    (\<forall>j. j \<noteq> i \<longrightarrow> entry_of (snd (Publish i ev q)) j = entry_of q j)"
proof -
  obtain e where e: "map_of (q_tickets q) i = Some e" using assms(2) by (auto simp: entry_of_def)
  have "q_tickets (snd (Publish i ev q)) = AList.map_entry i (\<lambda>e. e\<lparr>latest := ev, finished := True\<rparr>) (q_tickets q)"
    using e assms(3) by (simp add: Publish_def publishLocked_eq [OF assms(1)])
  then show ?thesis
    using e queue_inv_Publish [OF assms(1)] by (simp add: final_event_def entry_of_def map_of_map_entry')
qed

lemma publish_in_InMem:
  assumes "mm_queue m = InMem_ops ord"
  shows "w_queue (publish_in m i ev w) = snd (Publish i ev (w_queue w))" "w_store (publish_in m i ev w) = w_store w"
  using assms by (simp_all add: publish_in_def InMem_ops_def)

lemma publish_fold_final:
  assumes mq: "mm_queue m = InMem_ops ord"
    and "v' = fold (\<lambda>t. publish_in m (Ticket_ID t) (EventFailed x y)) us v" and "queue_inv (w_queue v)"
    and "\<forall>t \<in> set us. entry_of (w_queue v) (Ticket_ID t) \<noteq> None"
  shows "queue_inv (w_queue v') \<and> w_store v' = w_store v \<and>
    (\<forall>i. entry_of (w_queue v) i \<noteq> None \<longrightarrow> entry_of (w_queue v') i \<noteq> None) \<and>
    (\<forall>i. i \<in> Ticket_ID ` set us \<or> final_event (w_queue v) i (EventFailed x y) \<longrightarrow>
       final_event (w_queue v') i (EventFailed x y))"
  using assms(2-4)
proof (induction us arbitrary: v)
  case (Cons t us)
  let ?v = "publish_in m (Ticket_ID t) (EventFailed x y) v"
  have P: "queue_inv (w_queue ?v)" "final_event (w_queue ?v) (Ticket_ID t) (EventFailed x y)"
    "\<And>j. j \<noteq> Ticket_ID t \<Longrightarrow> entry_of (w_queue ?v) j = entry_of (w_queue v) j"
    using Publish_final [OF Cons.prems(2), of "Ticket_ID t" "EventFailed x y"] Cons.prems(3)
    by (simp_all add: publish_in_InMem [OF mq] isTerminal_def)
  have keep: "entry_of (w_queue v) i \<noteq> None \<Longrightarrow> entry_of (w_queue ?v) i \<noteq> None" for i
    using P(2,3) by (cases "i = Ticket_ID t") (auto simp: final_event_def)
  have fin: "final_event (w_queue v) i (EventFailed x y) \<Longrightarrow> final_event (w_queue ?v) i (EventFailed x y)" for i
    using P(2,3) by (cases "i = Ticket_ID t") (auto simp: final_event_def)
  have ent: "\<forall>u \<in> set us. entry_of (w_queue ?v) (Ticket_ID u) \<noteq> None" using keep Cons.prems(3) by simp
  have rest: "v' = fold (\<lambda>t. publish_in m (Ticket_ID t) (EventFailed x y)) us ?v" using Cons.prems(1) by simp
  show ?case
    using Cons.IH [OF rest P(1) ent] keep fin P(2) publish_in_InMem(2) [OF mq, of "Ticket_ID t" _ v] by auto
qed simp

text \<open>
  What becomes of a ticket of a group that has a room, from the signer's answer alone: the assignment, or the signer's error. The
  event says which, and of an assignment the store keeps it for the player until the deadline. The outcome
  is the same for two tickets of one player, so the second changes nothing.
\<close>

definition ticket_outcome ::
    "('q, 's, 'a) Matchmaker \<Rightarrow> RoomAllocation \<Rightarrow> string list \<Rightarrow> go_time \<Rightarrow> Ticket \<Rightarrow> go_error + Assignment" where
  "ticket_outcome m al ps now t =
     map_sum (\<lambda>e. e) (\<lambda>tok. \<lparr>Assignment_MatchID = ra_MatchID al, Endpoint = ra_Endpoint al, SessionToken = tok,
         ExpiresAt = now + mm_sessionTokenTTL m\<rparr>)
       (mm_signer m (Ticket_PlayerID t) (mm_str m (ra_MatchID al)) ps now (mm_sessionTokenTTL m))"

definition told_outcome :: "(go_error + Assignment) \<Rightarrow> InMem \<Rightarrow> Ticket \<Rightarrow> bool" where
  "told_outcome out q t = final_event q (Ticket_ID t)
     (case out of Inl e \<Rightarrow> EventFailed ''internal'' ''failed to issue session token'' | Inr a \<Rightarrow> EventMatched a)"

definition kept_outcome :: "(go_error + Assignment) \<Rightarrow> go_time \<Rightarrow> AssignmentInMem \<Rightarrow> Ticket \<Rightarrow> bool" where
  "kept_outcome out deadline st t = (case out of Inl e \<Rightarrow> True
   | Inr a \<Rightarrow> map_of (as_entries st) (Ticket_PlayerID t) = Some \<lparr>ie_assignment = a, ie_expiresAt = deadline\<rparr>)"

lemma ticket_outcome_player:
  "Ticket_PlayerID u = Ticket_PlayerID t \<Longrightarrow> ticket_outcome m al ps now u = ticket_outcome m al ps now t"
  by (simp add: ticket_outcome_def)

lemma settle_ticket_InMem:
  assumes mq: "mm_queue m = InMem_ops ord" and ms: "mm_assignments m = Store_ops"
    and inv: "queue_inv (w_queue w)" and ent: "entry_of (w_queue w) (Ticket_ID t) \<noteq> None"
    and r: "settle_ticket m al ps now (now + mm_sessionTokenTTL m) t (w, n) = (w', n')"
    and dl: "deadline = as_now (w_store w) + mm_sessionTokenTTL m"
  shows "queue_inv (w_queue w') \<and> as_now (w_store w') = as_now (w_store w) \<and>
    told_outcome (ticket_outcome m al ps now t) (w_queue w') t \<and>
    (\<forall>j. j \<noteq> Ticket_ID t \<longrightarrow> entry_of (w_queue w') j = entry_of (w_queue w) j) \<and>
    (\<forall>u. Ticket_PlayerID u = Ticket_PlayerID t \<or> kept_outcome (ticket_outcome m al ps now u) deadline (w_store w) u \<longrightarrow>
       kept_outcome (ticket_outcome m al ps now u) deadline (w_store w') u)"
proof -
  note P = Publish_final [OF inv ent]
  show ?thesis
  proof (cases "mm_signer m (Ticket_PlayerID t) (mm_str m (ra_MatchID al)) ps now (mm_sessionTokenTTL m)")
    case (Inl e)
    let ?ev = "EventFailed ''internal'' ''failed to issue session token''"
    have w': "w' = publish_in m (Ticket_ID t) ?ev w" using r Inl by (simp add: settle_ticket_def)
    show ?thesis
      using P [of ?ev] unfolding w' publish_in_InMem [OF mq]
      by (auto simp: isTerminal_def told_outcome_def kept_outcome_def ticket_outcome_def Inl)
  next
    case (Inr tok)
    let ?a = "\<lparr>Assignment_MatchID = ra_MatchID al, Endpoint = ra_Endpoint al, SessionToken = tok,
      ExpiresAt = now + mm_sessionTokenTTL m\<rparr>"
    let ?st = "snd (Store_Put (Ticket_PlayerID t) ?a (mm_sessionTokenTTL m) (w_store w))"
    have out: "ticket_outcome m al ps now t = Inr ?a" by (simp add: ticket_outcome_def Inr)
    have w': "w' = publish_in m (Ticket_ID t) (EventMatched ?a) (w\<lparr>w_store := ?st\<rparr>)"
      using r Inr ms by (simp add: settle_ticket_def Store_ops_def Store_Put_def Let_def)
    have kept: "kept_outcome (ticket_outcome m al ps now u) deadline ?st u"
      if "Ticket_PlayerID u = Ticket_PlayerID t \<or> kept_outcome (ticket_outcome m al ps now u) deadline (w_store w) u" for u
    proof (cases "Ticket_PlayerID u = Ticket_PlayerID t")
      case True
      then show ?thesis
        by (simp add: ticket_outcome_player [OF True] out kept_outcome_def Store_Put_def update_conv dl)
    next
      case False
      then show ?thesis using that by (simp add: kept_outcome_def Store_Put_def update_conv split: sum.splits)
    qed
    show ?thesis
      using P [of "EventMatched ?a"] kept unfolding w' publish_in_InMem [OF mq]
      by (simp add: isTerminal_def told_outcome_def out) (simp add: Store_Put_def)
  qed
qed

lemma settle_fold_InMem:
  assumes mq: "mm_queue m = InMem_ops ord" and ms: "mm_assignments m = Store_ops"
    and "queue_inv (w_queue w)" and "\<forall>t \<in> set ts. entry_of (w_queue w) (Ticket_ID t) \<noteq> None"
    and "distinct (map Ticket_ID ts)"
    and "fold (settle_ticket m al ps now (now + mm_sessionTokenTTL m)) ts (w, n) = (w', n')"
    and "deadline = as_now (w_store w) + mm_sessionTokenTTL m"
  shows "as_now (w_store w') = as_now (w_store w) \<and>
    (\<forall>t \<in> set ts. told_outcome (ticket_outcome m al ps now t) (w_queue w') t) \<and>
    (\<forall>u. u \<in> set ts \<or> kept_outcome (ticket_outcome m al ps now u) deadline (w_store w) u \<longrightarrow>
       kept_outcome (ticket_outcome m al ps now u) deadline (w_store w') u) \<and>
    (\<forall>j. j \<notin> Ticket_ID ` set ts \<longrightarrow> entry_of (w_queue w') j = entry_of (w_queue w) j)"
  using assms(3-7)
proof (induction ts arbitrary: w n)
  case (Cons t ts)
  obtain w1 n1 where s: "settle_ticket m al ps now (now + mm_sessionTokenTTL m) t (w, n) = (w1, n1)" by fastforce
  have ent1: "entry_of (w_queue w) (Ticket_ID t) \<noteq> None" using Cons.prems(2) by simp
  note one = settle_ticket_InMem [OF mq ms Cons.prems(1) ent1 s Cons.prems(5)]
  have rest: "fold (settle_ticket m al ps now (now + mm_sessionTokenTTL m)) ts (w1, n1) = (w', n')" using Cons.prems(4) s by simp
  have fresh: "Ticket_ID t \<notin> Ticket_ID ` set ts" "distinct (map Ticket_ID ts)" using Cons.prems(3) by simp_all
  have ent: "entry_of (w_queue w1) (Ticket_ID u) \<noteq> None" if "u \<in> set ts" for u
  proof -
    have "Ticket_ID u \<noteq> Ticket_ID t" using fresh(1) that by (metis imageI)
    then show ?thesis using one Cons.prems(2) that by simp
  qed
  have dl: "deadline = as_now (w_store w1) + mm_sessionTokenTTL m" using one Cons.prems(5) by simp
  note IH = Cons.IH [OF conjunct1 [OF one] ballI [OF ent] fresh(2) rest dl]
  have "told_outcome (ticket_outcome m al ps now t) (w_queue w') t"
    using IH one fresh(1) by (simp add: told_outcome_def final_event_def)
  then show ?case using IH one by auto
qed simp

lemma entry_Claim:
  "fst (Claim ids q) \<Longrightarrow> i \<in> set ids \<Longrightarrow> entry_of (snd (Claim ids q)) i \<noteq> None"
  by (auto simp: Claim_eq list_all_iff claimable_def entry_of_def map_of_mark_claimed split: option.splits if_splits)

lemma card_waiting_le: "card (waiting q mode) \<le> length (q_tickets q)"
proof -
  have "waiting q mode \<subseteq> fst ` set (q_tickets q)"
    by (auto simp: waiting_def dest!: map_of_SomeD intro: rev_image_eqI)
  then have "card (waiting q mode) \<le> card (fst ` set (q_tickets q))" by (intro card_mono) auto
  also have "\<dots> \<le> length (q_tickets q)" by (metis card_length length_map list.set_map)
  finally show ?thesis .
qed

section \<open>Properties\<close>

definition sample_maker :: "(InMem, AssignmentInMem, unit) Matchmaker" where
  "sample_maker = \<lparr>mm_queue = InMem_ops (\<lambda>es. es),
     mm_allocator = (\<lambda>mode n a. (Inr \<lparr>ra_MatchID = 9, ra_Endpoint = ''h:1''\<rparr>, a)),
     mm_signer = (\<lambda>p mid ps now ttl. Inr ''tok''), mm_assignments = Store_ops, mm_matcher = sample_matcher,
     mm_interval = 200 * Millisecond, mm_sessionTokenTTL = Second, mm_candidateModes = [''rps''],
     mm_str = unary_str, mm_ord = (\<lambda>rs. rs), mm_errText = (\<lambda>e. ''failed'')\<rparr>"

definition sample_world :: "(InMem, AssignmentInMem, unit) world" where
  "sample_world = \<lparr>
     w_queue = fold queue_step [QEnqueue (sample_ticket 1 1 [] 5), QEnqueue (sample_ticket 2 2 [] 6)] NewInMem,
     w_store = \<lparr>as_entries = [], as_now = 20\<rparr>, w_alloc = (), w_clock = (\<lambda>n. 20), w_reads = 0, w_depths = [],
     w_allocated = 0\<rparr>"

lemma sample_world_inv: "queue_inv (w_queue sample_world)"
  unfolding sample_world_def by (simp only: world.simps queue_inv_steps [OF queue_inv_New])

text \<open>
  A pass over a mode always ends on the in-memory queue: fuel beyond the number of waiting tickets
  is enough, because every round either stops or takes a whole group out of the pool. The allocator,
  the signer and the store may fail in any way.
\<close>

theorem processMode_terminates:
  assumes "mm_queue m = InMem_ops (\<lambda>es. es)" and "\<And>rs. mset (mm_ord m rs) = mset rs"
    and "playersPerMatch (mm_matcher m) \<ge> 1" and "queue_inv (w_queue w)"
    and "card (waiting (w_queue w) mode) < fuel"
  shows "\<exists>r w'. processMode fuel m mode w = Some (r, w')"
  using inmem.process_loop_terminates [OF assms(1-3), of "snd (clock_Now w)" mode fuel "fst (clock_Now w)"] assms(4,5)
  by (simp add: processMode_def clock_Now_def)

theorem processMode_terminates_witness:
  "\<exists>r w'. processMode 3 sample_maker ''rps'' sample_world = Some (r, w')"
proof (rule processMode_terminates)
  show "card (waiting (w_queue sample_world) ''rps'') < 3"
    using card_waiting_le [of "w_queue sample_world" "''rps''"]
    by (simp add: sample_world_def NewInMem_def Enqueue_def Let_def sample_ticket_def)
qed (simp_all add: sample_maker_def sample_matcher_def NewMatcher_def sample_world_inv)

text \<open>
  A group whose room cannot be allocated is failed as a whole: every ticket of it ends with the
  failure, none stays claimed and silent, and the assignment store is untouched.
\<close>

theorem pair_allocation_failure:
  assumes "mm_queue m = InMem_ops ord" and "queue_inv (w_queue w)"
    and "fst (Claim (map Ticket_ID ts) (w_queue w))"
    and "mm_allocator m mode (length ts) (w_alloc w) = (Inl e, s')"
    and "pair m mode ts w = (r, w')" and "t \<in> set ts"
  shows "r = Some e \<and> w_store w' = w_store w \<and>
    final_event (w_queue w') (Ticket_ID t) (EventFailed ''allocator_failed'' (mm_errText m e))"
proof -
  let ?ev = "EventFailed ''allocator_failed'' (mm_errText m e)"
  let ?q = "snd (Claim (map Ticket_ID ts) (w_queue w))"
  have c: "op_Claim (mm_queue m) mode (map Ticket_ID ts) (w_queue w) = (Inr True, ?q)"
    using assms(1,3) by (simp add: InMem_ops_def case_prod_beta)
  have w': "r = Some e" "w' = fold (\<lambda>t. publish_in m (Ticket_ID t) ?ev) ts (w\<lparr>w_queue := ?q, w_alloc := s'\<rparr>)"
    using assms(4,5) c by (auto simp: pair_def)
  have "queue_inv (w_queue v') \<and> w_store v' = w_store v \<and> (\<forall>i. entry_of (w_queue v) i \<noteq> None \<longrightarrow> entry_of (w_queue v') i \<noteq> None) \<and>
      (\<forall>i. i \<in> Ticket_ID ` set us \<or> final_event (w_queue v) i ?ev \<longrightarrow> final_event (w_queue v') i ?ev)"
    if "v' = fold (\<lambda>t. publish_in m (Ticket_ID t) ?ev) us v" "queue_inv (w_queue v)"
      "\<forall>t \<in> set us. entry_of (w_queue v) (Ticket_ID t) \<noteq> None" for us v v'
    using that by (rule publish_fold_final [OF assms(1)])
  from this [OF w'(2)] show ?thesis
    using assms(6) w'(1) entry_Claim [OF assms(3)] queue_inv_Claim [OF assms(2)] by simp
qed

theorem pair_allocation_failure_witness:
  "\<exists>w'. pair (sample_maker\<lparr>mm_allocator := (\<lambda>mode n a. (Inl (ErrorString ''none''), a))\<rparr>) ''rps''
      [sample_ticket 1 1 [] 5] sample_world = (Some (ErrorString ''none''), w') \<and>
    final_event (w_queue w') 1 (EventFailed ''allocator_failed'' ''failed'')"
proof -
  let ?m = "sample_maker\<lparr>mm_allocator := (\<lambda>mode n a. (Inl (ErrorString ''none''), a))\<rparr>"
  obtain r w' where p: "pair ?m ''rps'' [sample_ticket 1 1 [] 5] sample_world = (r, w')" by fastforce
  have "r = Some (ErrorString ''none'') \<and> w_store w' = w_store sample_world \<and>
      final_event (w_queue w') (Ticket_ID (sample_ticket 1 1 [] 5)) (EventFailed ''allocator_failed'' (mm_errText ?m (ErrorString ''none'')))"
    by (rule pair_allocation_failure [OF _ sample_world_inv _ _ p])
      (simp_all add: sample_maker_def Claim_def sample_world_def claimable_def NewInMem_def Enqueue_def Let_def sample_ticket_def)
  then show ?thesis using p by (simp add: sample_maker_def sample_ticket_def)
qed

text \<open>
  C8. No claimed ticket is left hanging, and a player who is told of a match can recover it. When the room cannot be
  allocated, every ticket of the claimed group ends with that failure, the caller gets the error and no assignment is stored.
  Otherwise each ticket ends with exactly one of two events, decided by the signer: the match with the allocated room's id
  and endpoint, the player's own token and the expiry, and then, unless the lifetime is negative, \<open>GetCurrentMatch\<close> finds this
  very assignment, also when the group has two tickets of one player; or, when the signer refuses the token, the failure
  to issue it. The group's ticket ids are distinct, as those of a selected group are, and queue and store
  are the in-memory ones.
\<close>

theorem pair_settles_every_ticket:
  assumes "mm_queue m = InMem_ops ord" and "mm_assignments m = Store_ops"
    and "queue_inv (w_queue w)" and "distinct (map Ticket_ID ts)"
    and "fst (Claim (map Ticket_ID ts) (w_queue w))"
    and "pair m mode ts w = (r, w')" and "t \<in> set ts"
  shows "case fst (mm_allocator m mode (length ts) (w_alloc w)) of
      Inl e \<Rightarrow> r = Some e \<and> w_store w' = w_store w \<and>
        final_event (w_queue w') (Ticket_ID t) (EventFailed ''allocator_failed'' (mm_errText m e))
    | Inr al \<Rightarrow> r = None \<and>
       (case mm_signer m (Ticket_PlayerID t) (mm_str m (ra_MatchID al)) (map (\<lambda>t. mm_str m (Ticket_PlayerID t)) ts)
            (w_clock w (w_reads w)) (mm_sessionTokenTTL m) of
          Inl e \<Rightarrow> final_event (w_queue w') (Ticket_ID t) (EventFailed ''internal'' ''failed to issue session token'')
        | Inr tok \<Rightarrow>
           (let a = \<lparr>Assignment_MatchID = ra_MatchID al, Endpoint = ra_Endpoint al, SessionToken = tok,
                  ExpiresAt = w_clock w (w_reads w) + mm_sessionTokenTTL m\<rparr>
            in final_event (w_queue w') (Ticket_ID t) (EventMatched a) \<and>
              (0 \<le> mm_sessionTokenTTL m \<longrightarrow> fst (Store_Get (Ticket_PlayerID t) (w_store w')) = Inr (Some a))))"
proof (cases "fst (mm_allocator m mode (length ts) (w_alloc w))")
  case (Inl e)
  then obtain s' where "mm_allocator m mode (length ts) (w_alloc w) = (Inl e, s')" by (metis prod.collapse)
  then show ?thesis using pair_allocation_failure [OF assms(1,3,5) _ assms(6,7)] by (simp add: Inl)
next
  case (Inr al)
  then obtain s' where al: "mm_allocator m mode (length ts) (w_alloc w) = (Inr al, s')" by (metis prod.collapse)
  let ?q = "snd (Claim (map Ticket_ID ts) (w_queue w))"
  let ?ps = "map (\<lambda>t. mm_str m (Ticket_PlayerID t)) ts" and ?now = "w_clock w (w_reads w)"
  let ?w = "w\<lparr>w_queue := ?q, w_alloc := s', w_reads := w_reads w + 1\<rparr>"
  let ?out = "ticket_outcome m al ?ps ?now t" and ?dl = "as_now (w_store w) + mm_sessionTokenTTL m"
  have c: "op_Claim (mm_queue m) mode (map Ticket_ID ts) (w_queue w) = (Inr True, ?q)"
    using assms(1,5) by (simp add: InMem_ops_def case_prod_beta)
  obtain w2 n where f: "fold (settle_ticket m al ?ps ?now (?now + mm_sessionTokenTTL m)) ts (?w, 0) = (w2, n)" by fastforce
  have w': "w_queue w' = w_queue w2" "w_store w' = w_store w2" "r = None"
    using assms(6) al c f by (auto simp: pair_def Let_def clock_Now_def split: if_splits)
  have "as_now (w_store w2) = as_now (w_store w) \<and> told_outcome ?out (w_queue w2) t \<and> kept_outcome ?out ?dl (w_store w2) t"
    using settle_fold_InMem [OF assms(1,2) _ _ assms(4) f refl] entry_Claim [OF assms(5)]
      queue_inv_Claim [OF assms(3)] assms(7) by simp
  then show ?thesis
    by (auto simp: Inr w' told_outcome_def kept_outcome_def ticket_outcome_def Store_Get_def Let_def split: sum.split)
qed

theorem pair_settles_every_ticket_witness:
  "\<exists>w'. w' = snd (pair sample_maker ''rps'' [sample_ticket 1 1 [] 5, sample_ticket 2 2 [] 6] sample_world) \<and>
    final_event (w_queue w') 2 (EventMatched \<lparr>Assignment_MatchID = 9, Endpoint = ''h:1'', SessionToken = ''tok'',
      ExpiresAt = 20 + Second\<rparr>) \<and>
    fst (Store_Get 2 (w_store w')) = Inr (Some \<lparr>Assignment_MatchID = 9, Endpoint = ''h:1'', SessionToken = ''tok'',
      ExpiresAt = 20 + Second\<rparr>)"
  using pair_settles_every_ticket [of sample_maker "\<lambda>es. es" sample_world
      "[sample_ticket 1 1 [] 5, sample_ticket 2 2 [] 6]" "''rps''"
      "fst (pair sample_maker ''rps'' [sample_ticket 1 1 [] 5, sample_ticket 2 2 [] 6] sample_world)"
      "snd (pair sample_maker ''rps'' [sample_ticket 1 1 [] 5, sample_ticket 2 2 [] 6] sample_world)"
      "sample_ticket 2 2 [] 6"] sample_world_inv
  by (auto simp: sample_maker_def Second_def sample_ticket_def Claim_def sample_world_def claimable_def
      NewInMem_def Enqueue_def Let_def)

end
