(* ===== verification/Valkey.thy ===== *)
theory Valkey
  imports Go_Float "HOL-Library.AList"
begin

text \<open>
  Valkey, the server the replicas of the gateway share, as the program uses it through the client
  library: commands, their replies, and code that sends one command after another.

  \<^item> \<open>command\<close> has the commands the program builds and \<open>reply\<close> what \<open>client.Do\<close> gives back; \<open>reply_Error\<close>,
    \<open>ToInt64\<close> and the others are the accessors the code chains to it.
  \<^item> \<open>'a vk\<close> is Go code that talks to the server: it has returned, or it sends a command and goes on
    with the reply. \<open>run_vk\<close> runs it on a client, and a step relation can interleave several.
  \<^item> The client is an argument, a function on the server's state. What the program relies on is the
    locale \<open>valkey_server\<close>: every command is served atomically and does what its documentation says
    (\<open>vk_effect\<close>, over the keys the server holds), or it is reported as failed, and then it may or may
    not have taken effect. Before each command the rest of the world may have acted: \<open>rely\<close> says what
    it may do, at least letting keys with a time to live expire.
  \<^item> The Lua scripts the program has the server run are translated here (\<open>run_script\<close>).
\<close>

section \<open>Values and commands\<close>

type_synonym fields = "(string \<times> string) list"
type_synonym stream = "(nat \<times> fields) list"

datatype vk_value = StrV string | ZsetV "(string \<times> float64) list" | StreamV stream

text \<open>
  The keys, each with its value and the time to live in milliseconds it was given last, and the
  largest stream id given so far. Only the order of stream ids matters to the program.
\<close>

record keyspace =
  ks_data :: "string \<Rightarrow> (vk_value \<times> int option) option"
  ks_last :: nat

datatype zadd_flag = ZSET | ZGT | ZLT
datatype stream_from = From0 | FromNew | After nat
datatype vk_script = claimScript | renewScript | releaseScript

datatype command =
    SET string string int
  | SETNX string string int
  | GET string
  | EXISTS string
  | EXPIRE string int
  | ZADD string zadd_flag "(float64 \<times> string) list"
  | ZREM string string
  | ZCARD string
  | ZRANGE string
  | ZRANK string string
  | ZREVRANK string string
  | XADD string "nat option" fields
  | XREAD nat string stream_from
  | EVAL vk_script string "string list"

datatype reply =
    NilR | OKR | IntR int | BulkR string | ArrayR "string list"
  | StreamR "(string \<times> stream) list" | ErrR go_error

section \<open>What the commands do\<close>

definition zset_at :: "keyspace \<Rightarrow> string \<Rightarrow> (string \<times> float64) list" where
  "zset_at ks k = (case ks_data ks k of Some (ZsetV z, _) \<Rightarrow> z | _ \<Rightarrow> [])"

definition stream_at :: "keyspace \<Rightarrow> string \<Rightarrow> stream" where
  "stream_at ks k = (case ks_data ks k of Some (StreamV s, _) \<Rightarrow> s | _ \<Rightarrow> [])"

definition str_at :: "keyspace \<Rightarrow> string \<Rightarrow> string option" where
  "str_at ks k = (case ks_data ks k of Some (StrV s, _) \<Rightarrow> Some s | _ \<Rightarrow> None)"

definition ttl_at :: "keyspace \<Rightarrow> string \<Rightarrow> int option" where
  "ttl_at ks k = (case ks_data ks k of Some (_, t) \<Rightarrow> t | None \<Rightarrow> None)"

definition put_key :: "string \<Rightarrow> vk_value \<Rightarrow> int option \<Rightarrow> keyspace \<Rightarrow> keyspace" where
  "put_key k x t ks = ks\<lparr>ks_data := (ks_data ks)(k \<mapsto> (x, t))\<rparr>"

definition drop_key :: "string \<Rightarrow> keyspace \<Rightarrow> keyspace" where
  "drop_key k ks = ks\<lparr>ks_data := (ks_data ks)(k := None)\<rparr>"

text \<open>A sorted set that becomes empty is removed with its key.\<close>

definition put_zset :: "string \<Rightarrow> (string \<times> float64) list \<Rightarrow> keyspace \<Rightarrow> keyspace" where
  "put_zset k z ks = (if z = [] then drop_key k ks else put_key k (ZsetV z) (ttl_at ks k) ks)"

text \<open>Members by score, ties by the bytes of the member.\<close>

definition zset_less :: "string \<times> float64 \<Rightarrow> string \<times> float64 \<Rightarrow> bool" where
  "zset_less a b \<longleftrightarrow> fgt (snd b) (snd a) \<or> (snd a = snd b \<and> fst a < fst b)"

definition zset_members :: "(string \<times> float64) list \<Rightarrow> string list" where
  "zset_members z = map fst (sort_by zset_less z)"

fun index_of :: "'a \<Rightarrow> 'a list \<Rightarrow> nat option" where
  "index_of x [] = None"
| "index_of x (y # ys) = (if x = y then Some 0 else map_option Suc (index_of x ys))"

definition rank_reply :: "string \<Rightarrow> string list \<Rightarrow> reply" where
  "rank_reply m ms = (case index_of m ms of None \<Rightarrow> NilR | Some i \<Rightarrow> IntR (int i))"

text \<open>\<open>GT\<close> and \<open>LT\<close> only replace a score by a greater or a smaller one; new members are added.\<close>

definition zadd_one :: "zadd_flag \<Rightarrow> float64 \<times> string \<Rightarrow> (string \<times> float64) list \<Rightarrow> (string \<times> float64) list" where
  "zadd_one flag sm z = (case sm of (s, m) \<Rightarrow> case map_of z m of
     None \<Rightarrow> z @ [(m, s)]
   | Some old \<Rightarrow>
       if flag = ZGT \<and> \<not> fgt s old \<or> flag = ZLT \<and> \<not> fgt old s then z else AList.update m s z)"

definition zadd_all :: "zadd_flag \<Rightarrow> (float64 \<times> string) list \<Rightarrow> (string \<times> float64) list \<Rightarrow> (string \<times> float64) list" where
  "zadd_all flag sms z = fold (zadd_one flag) sms z"

text \<open>
  What the server is free to choose: the id a stream entry gets, how many old entries an approximate
  \<open>MAXLEN\<close> trims, and the last id at the moment a blocking read for new entries began to wait.
\<close>

record vk_choice =
  ch_id :: nat
  ch_trim :: nat
  ch_since :: nat

definition choice_ok :: "vk_choice \<Rightarrow> keyspace \<Rightarrow> keyspace \<Rightarrow> bool" where
  "choice_ok ch before ks \<longleftrightarrow> ks_last ks < ch_id ch \<and> ks_last before \<le> ch_since ch \<and> ch_since ch \<le> ks_last ks"

definition wrong_type :: go_error where
  "wrong_type = ErrorString ''WRONGTYPE Operation against a key holding the wrong kind of value''"

definition is_zset :: "keyspace \<Rightarrow> string \<Rightarrow> bool" where
  "is_zset ks k = (case ks_data ks k of None \<Rightarrow> True | Some (ZsetV _, _) \<Rightarrow> True | _ \<Rightarrow> False)"

definition is_stream :: "keyspace \<Rightarrow> string \<Rightarrow> bool" where
  "is_stream ks k = (case ks_data ks k of None \<Rightarrow> True | Some (StreamV _, _) \<Rightarrow> True | _ \<Rightarrow> False)"

definition is_str :: "keyspace \<Rightarrow> string \<Rightarrow> bool" where
  "is_str ks k = (case ks_data ks k of None \<Rightarrow> True | Some (StrV _, _) \<Rightarrow> True | _ \<Rightarrow> False)"

text \<open>
  The three scripts, run atomically. \<open>ZSCORE\<close> of an absent member is \<open>false\<close>, and so is \<open>GET\<close> of an
  absent key, which equals no argument.
\<close>

fun zrem_all :: "string list \<Rightarrow> (string \<times> float64) list \<Rightarrow> (string \<times> float64) list" where
  "zrem_all [] z = z"
| "zrem_all (a # as) z = zrem_all as (AList.delete a z)"

definition run_claim :: "string \<Rightarrow> string list \<Rightarrow> keyspace \<Rightarrow> reply \<times> keyspace" where
  "run_claim k argv ks =
     (if list_ex (\<lambda>a. map_of (zset_at ks k) a = None) argv then (IntR 0, ks)
      else (IntR 1, if argv = [] then ks else put_zset k (zrem_all argv (zset_at ks k)) ks))"

fun show_nat :: "nat \<Rightarrow> string" where
  "show_nat n = (if n < 10 then [char_of (48 + n)] else show_nat (n div 10) @ [char_of (48 + n mod 10)])"

declare show_nat.simps [simp del]

definition show_int :: "int \<Rightarrow> string" where
  "show_int i = (if i < 0 then CHR ''-'' # show_nat (nat (- i)) else show_nat (nat i))"

definition is_digit :: "char \<Rightarrow> bool" where
  "is_digit c \<longleftrightarrow> (48 :: nat) \<le> of_char c \<and> of_char c \<le> (57 :: nat)"

definition parse_nat :: "string \<Rightarrow> nat option" where
  "parse_nat s = (if s \<noteq> [] \<and> list_all is_digit s then Some (foldl (\<lambda>n c. 10 * n + (of_char c - 48)) 0 s) else None)"

text \<open>\<open>EXPIRE\<close> and \<open>PEXPIRE\<close>: a time to live that is not positive removes the key at once.\<close>

definition expire_key :: "string \<Rightarrow> int \<Rightarrow> keyspace \<Rightarrow> reply \<times> keyspace" where
  "expire_key k ttl ks = (case ks_data ks k of
     None \<Rightarrow> (IntR 0, ks)
   | Some (x, _) \<Rightarrow> (IntR 1, if ttl \<le> 0 then drop_key k ks else put_key k x (Some ttl) ks))"

definition run_renew :: "string \<Rightarrow> string list \<Rightarrow> keyspace \<Rightarrow> reply \<times> keyspace" where
  "run_renew k argv ks =
     (if str_at ks k = Some (argv ! 0)
      then (case parse_nat (argv ! 1) of
              None \<Rightarrow> (ErrR (ErrorString ''ERR value is not an integer or out of range''), ks)
            | Some ttl \<Rightarrow> expire_key k (int ttl) ks)
      else (IntR 0, ks))"

definition run_release :: "string \<Rightarrow> string list \<Rightarrow> keyspace \<Rightarrow> reply \<times> keyspace" where
  "run_release k argv ks = (if str_at ks k = Some (argv ! 0) then (IntR 1, drop_key k ks) else (IntR 0, ks))"

definition run_script :: "vk_script \<Rightarrow> string \<Rightarrow> string list \<Rightarrow> keyspace \<Rightarrow> reply \<times> keyspace" where
  "run_script scr k argv ks = (case scr of
     claimScript \<Rightarrow> if is_zset ks k \<or> argv = [] then run_claim k argv ks else (ErrR wrong_type, ks)
   | renewScript \<Rightarrow> if is_str ks k then run_renew k argv ks else (ErrR wrong_type, ks)
   | releaseScript \<Rightarrow> if is_str ks k then run_release k argv ks else (ErrR wrong_type, ks))"

definition set_key :: "string \<Rightarrow> string \<Rightarrow> int \<Rightarrow> keyspace \<Rightarrow> reply \<times> keyspace" where
  "set_key k x ttl ks = (if ttl \<le> 0 then (ErrR (ErrorString ''ERR invalid expire time in 'set' command''), ks)
     else (OKR, put_key k (StrV x) (Some ttl) ks))"

definition entries_after :: "nat \<Rightarrow> stream \<Rightarrow> stream" where
  "entries_after n s = filter (\<lambda>e. n < fst e) s"

definition read_stream :: "vk_choice \<Rightarrow> nat \<Rightarrow> string \<Rightarrow> stream_from \<Rightarrow> keyspace \<Rightarrow> reply" where
  "read_stream ch cnt k from ks =
     (let s = stream_at ks k;
          new = take cnt (case from of From0 \<Rightarrow> s | FromNew \<Rightarrow> entries_after (ch_since ch) s | After n \<Rightarrow> entries_after n s)
      in if new = [] then NilR else StreamR [(k, new)])"

definition append_stream :: "vk_choice \<Rightarrow> string \<Rightarrow> nat option \<Rightarrow> fields \<Rightarrow> keyspace \<Rightarrow> keyspace" where
  "append_stream ch k maxlen fs ks =
     (let s = stream_at ks k @ [(ch_id ch, fs)];
          cut = (case maxlen of None \<Rightarrow> 0 | Some m \<Rightarrow> min (ch_trim ch) (length s - m))
      in (put_key k (StreamV (drop cut s)) (ttl_at ks k) ks)\<lparr>ks_last := ch_id ch\<rparr>)"

fun vk_effect :: "vk_choice \<Rightarrow> command \<Rightarrow> keyspace \<Rightarrow> reply \<times> keyspace" where
  "vk_effect ch (SET k x ttl) ks = set_key k x ttl ks"
| "vk_effect ch (SETNX k x ttl) ks = (if ks_data ks k = None then set_key k x ttl ks else (NilR, ks))"
| "vk_effect ch (GET k) ks = (case ks_data ks k of None \<Rightarrow> (NilR, ks)
     | Some (StrV x, _) \<Rightarrow> (BulkR x, ks) | _ \<Rightarrow> (ErrR wrong_type, ks))"
| "vk_effect ch (EXISTS k) ks = (IntR (if ks_data ks k = None then 0 else 1), ks)"
| "vk_effect ch (EXPIRE k secs) ks = expire_key k (1000 * secs) ks"
| "vk_effect ch (ZADD k flag sms) ks = (if \<not> is_zset ks k then (ErrR wrong_type, ks)
     else (IntR (int (length (zadd_all flag sms (zset_at ks k))) - int (length (zset_at ks k))),
       put_zset k (zadd_all flag sms (zset_at ks k)) ks))"
| "vk_effect ch (ZREM k m) ks = (if \<not> is_zset ks k then (ErrR wrong_type, ks)
     else (IntR (if map_of (zset_at ks k) m = None then 0 else 1),
       if map_of (zset_at ks k) m = None then ks else put_zset k (AList.delete m (zset_at ks k)) ks))"
| "vk_effect ch (ZCARD k) ks = (if \<not> is_zset ks k then ErrR wrong_type else IntR (int (length (zset_at ks k))), ks)"
| "vk_effect ch (ZRANGE k) ks = (if \<not> is_zset ks k then ErrR wrong_type else ArrayR (zset_members (zset_at ks k)), ks)"
| "vk_effect ch (ZRANK k m) ks = (if \<not> is_zset ks k then ErrR wrong_type
     else rank_reply m (zset_members (zset_at ks k)), ks)"
| "vk_effect ch (ZREVRANK k m) ks = (if \<not> is_zset ks k then ErrR wrong_type
     else rank_reply m (rev (zset_members (zset_at ks k))), ks)"
| "vk_effect ch (XADD k maxlen fs) ks = (if \<not> is_stream ks k then (ErrR wrong_type, ks)
     else (BulkR (show_nat (ch_id ch)), append_stream ch k maxlen fs ks))"
| "vk_effect ch (XREAD cnt k from) ks = (if \<not> is_stream ks k then ErrR wrong_type
     else read_stream ch cnt k from ks, ks)"
| "vk_effect ch (EVAL scr k argv) ks = run_script scr k argv ks"

section \<open>The client library\<close>

definition valkey_Nil :: go_error where
  "valkey_Nil = ErrorString ''valkey nil message''"

definition IsValkeyNil :: "go_error \<Rightarrow> bool" where
  "IsValkeyNil e \<longleftrightarrow> e = valkey_Nil"

definition unexpected_reply :: go_error where
  "unexpected_reply = ErrorString ''valkey: unexpected message type''"

definition reply_Error :: "reply \<Rightarrow> go_error option" where
  "reply_Error r = (case r of NilR \<Rightarrow> Some valkey_Nil | ErrR e \<Rightarrow> Some e | _ \<Rightarrow> None)"

definition ToInt64 :: "reply \<Rightarrow> go_error + int" where
  "ToInt64 r = (case r of IntR i \<Rightarrow> Inr i | NilR \<Rightarrow> Inl valkey_Nil | ErrR e \<Rightarrow> Inl e | _ \<Rightarrow> Inl unexpected_reply)"

definition ToString :: "reply \<Rightarrow> go_error + string" where
  "ToString r = (case r of BulkR s \<Rightarrow> Inr s | NilR \<Rightarrow> Inl valkey_Nil | ErrR e \<Rightarrow> Inl e | _ \<Rightarrow> Inl unexpected_reply)"

definition AsStrSlice :: "reply \<Rightarrow> go_error + string list" where
  "AsStrSlice r = (case r of ArrayR ss \<Rightarrow> Inr ss | NilR \<Rightarrow> Inl valkey_Nil | ErrR e \<Rightarrow> Inl e | _ \<Rightarrow> Inl unexpected_reply)"

definition AsXRead :: "reply \<Rightarrow> go_error + (string \<times> stream) list" where
  "AsXRead r = (case r of StreamR ss \<Rightarrow> Inr ss | NilR \<Rightarrow> Inl valkey_Nil | ErrR e \<Rightarrow> Inl e | _ \<Rightarrow> Inl unexpected_reply)"

lemmas accessor_defs = reply_Error_def ToInt64_def ToString_def AsStrSlice_def AsXRead_def

section \<open>Code that talks to the server\<close>

datatype 'a vk = Ret 'a | Do command "reply \<Rightarrow> 'a vk"

primrec vk_bind :: "'a vk \<Rightarrow> ('a \<Rightarrow> 'b vk) \<Rightarrow> 'b vk" where
  "vk_bind (Ret x) f = f x"
| "vk_bind (Do c k) f = Do c (\<lambda>r. vk_bind (k r) f)"

type_synonym 'v vk_client = "command \<Rightarrow> 'v \<Rightarrow> reply \<times> 'v"

primrec run_vk :: "'v vk_client \<Rightarrow> 'a vk \<Rightarrow> 'v \<Rightarrow> 'a \<times> 'v" where
  "run_vk client (Ret x) v = (x, v)"
| "run_vk client (Do c k) v = (case client c v of (r, v') \<Rightarrow> run_vk client (k r) v')"

lemma run_vk_bind: "run_vk client (vk_bind p f) v = (case run_vk client p v of (x, v') \<Rightarrow> run_vk client (f x) v')"
  by (induction p arbitrary: v) (auto split: prod.split)

lemma vk_bind_assoc: "vk_bind (vk_bind p f) g = vk_bind p (\<lambda>x. vk_bind (f x) g)"
  by (induction p) auto

section \<open>What the program relies on\<close>

text \<open>
  \<open>served ch c ks r ks'\<close>: the server holds \<open>ks\<close> when it serves \<open>c\<close>, the reply is \<open>r\<close> and it holds \<open>ks'\<close>
  afterwards. A failure the client reports, a lost connection among them, leaves open whether the
  command took effect.
\<close>

definition served :: "vk_choice \<Rightarrow> command \<Rightarrow> keyspace \<Rightarrow> reply \<Rightarrow> keyspace \<Rightarrow> bool" where
  "served ch c ks r ks' \<longleftrightarrow> (r, ks') = vk_effect ch c ks \<or>
     (\<exists>e. r = ErrR e \<and> \<not> IsValkeyNil e \<and> (ks' = ks \<or> ks' = snd (vk_effect ch c ks)))"

locale valkey_server =
  fixes client :: "'v vk_client" and obs :: "'v \<Rightarrow> keyspace" and rely :: "keyspace \<Rightarrow> keyspace \<Rightarrow> bool"
  assumes serves: "client c v = (r, v') \<Longrightarrow>
    \<exists>ks ch. rely (obs v) ks \<and> choice_ok ch (obs v) ks \<and> served ch c ks r (obs v')"

text \<open>Keys with a time to live may be gone.\<close>

definition expires :: "keyspace \<Rightarrow> keyspace \<Rightarrow> bool" where
  "expires ks ks' \<longleftrightarrow> ks_last ks' = ks_last ks \<and>
     (\<forall>k. ks_data ks' k = ks_data ks k \<or> (ks_data ks' k = None \<and> ttl_at ks k \<noteq> None))"

lemma expires_refl [simp]: "expires ks ks"
  by (simp add: expires_def)

text \<open>
  A server for one client, with a script of the failures its commands meet: \<open>Refused\<close> before taking
  effect, \<open>ReplyLost\<close> after. It meets the contract for every \<open>rely\<close> that allows nothing to happen.
\<close>

datatype vk_fault = Fine | Refused | ReplyLost

definition conn_error :: go_error where
  "conn_error = ErrorString ''connection reset by peer''"

definition calm_choice :: "keyspace \<Rightarrow> vk_choice" where
  "calm_choice ks = \<lparr>ch_id = Suc (ks_last ks), ch_trim = 0, ch_since = ks_last ks\<rparr>"

fun sim_client :: "(keyspace \<times> vk_fault list) vk_client" where
  "sim_client c (ks, []) = (case vk_effect (calm_choice ks) c ks of (r, ks') \<Rightarrow> (r, (ks', [])))"
| "sim_client c (ks, Fine # fs) = (case vk_effect (calm_choice ks) c ks of (r, ks') \<Rightarrow> (r, (ks', fs)))"
| "sim_client c (ks, Refused # fs) = (ErrR conn_error, (ks, fs))"
| "sim_client c (ks, ReplyLost # fs) = (ErrR conn_error, (snd (vk_effect (calm_choice ks) c ks), fs))"

definition empty_keyspace :: keyspace where
  "empty_keyspace = \<lparr>ks_data = (\<lambda>_. None), ks_last = 0\<rparr>"

lemma sim_server:
  assumes "\<And>ks. rely ks ks"
  shows "valkey_server sim_client fst rely"
proof
  fix c :: command and v v' :: "keyspace \<times> vk_fault list" and r
  assume c: "sim_client c v = (r, v')"
  have ch: "choice_ok (calm_choice (fst v)) (fst v) (fst v)" by (simp add: choice_ok_def calm_choice_def)
  have "\<not> IsValkeyNil conn_error" by (simp add: IsValkeyNil_def conn_error_def valkey_Nil_def)
  then have "served (calm_choice (fst v)) c (fst v) r (fst v')"
    using c by (cases "(c, v)" rule: sim_client.cases) (auto simp: served_def split: prod.splits)
  then show "\<exists>ks ch. rely (fst v) ks \<and> choice_ok ch (fst v) ks \<and> served ch c ks r (fst v')"
    using ch assms by blast
qed

interpretation sim: valkey_server sim_client fst expires
  by (rule sim_server) simp

end
