(* ===== verification/Valkey_Queue.thy ===== *)
theory Valkey_Queue
  imports Valkey Matchmaker
begin

text \<open>
  The ticket queue that the replicas of the gateway share, \<open>internal/infra/matchqueue/valkey.go\<close>. Each
  method is code that sends commands to the server; the synchronous part of \<open>Subscribe\<close> and the
  goroutine it leaves behind are two definitions.

  The JSON codec, \<open>UUID.String\<close> and \<open>uuid.Parse\<close> are arguments. The lemmas show that claims are exclusive
  however the commands of any number of replicas interleave, that the queue meets the contract the
  matchmaker relies on while rival replicas take tickets, and what a subscriber receives.
\<close>

section \<open>Serialization\<close>

record ticketDTO =
  td_ID :: string
  td_PlayerID :: string
  td_GameMode :: string
  td_Rating :: "float64 option"
  td_Region :: "string option"
  td_PartyMembers :: "string list"
  td_Attributes :: "(string \<times> string) list"
  td_EnqueuedAt :: go_time

record matchDTO =
  md_MatchID :: string
  md_Endpoint :: string
  md_SessionToken :: string
  md_ExpiresAt :: go_time

record eventDTO =
  ed_Type :: string
  ed_QueuedAt :: go_time
  ed_QueueDepth :: "32 word"
  ed_Match :: "matchDTO option"
  ed_Reason :: string
  ed_Message :: string

record 'd json_codec =
  json_Marshal :: "'d \<Rightarrow> go_error + string"
  json_Unmarshal :: "string \<Rightarrow> go_error + 'd"

record vq_env =
  vq_str :: "uuid \<Rightarrow> string"
  vq_parse :: "string \<Rightarrow> go_error + uuid"
  vq_tickets :: "ticketDTO json_codec"
  vq_events :: "eventDTO json_codec"
  vq_ttl :: duration

definition NewValkeyQueue ::
    "(uuid \<Rightarrow> string) \<Rightarrow> (string \<Rightarrow> go_error + uuid) \<Rightarrow> ticketDTO json_codec \<Rightarrow> eventDTO json_codec \<Rightarrow> vq_env" where
  "NewValkeyQueue str parse tj ej = \<lparr>vq_str = str, vq_parse = parse, vq_tickets = tj, vq_events = ej,
     vq_ttl = 3600 * Second\<rparr>"

definition ticketKey :: "vq_env \<Rightarrow> uuid \<Rightarrow> string" where
  "ticketKey E tid = ''vfx:mq:ticket:'' @ vq_str E tid"

definition eventKey :: "vq_env \<Rightarrow> uuid \<Rightarrow> string" where
  "eventKey E tid = ''vfx:mq:event:'' @ vq_str E tid"

definition streamKey :: "vq_env \<Rightarrow> uuid \<Rightarrow> string" where
  "streamKey E tid = ''vfx:mq:stream:'' @ vq_str E tid"

definition pendingKey :: "string \<Rightarrow> string" where
  "pendingKey gameMode = ''vfx:mq:pending:'' @ gameMode"

text \<open>\<open>int64(d.Seconds())\<close>: the conversion drops the fraction.\<close>

definition whole_seconds :: "duration \<Rightarrow> int" where
  "whole_seconds d = (case Seconds d of Fin q \<Rightarrow> if q \<ge> 0 then \<lfloor>q\<rfloor> else - \<lfloor>- q\<rfloor> | _ \<Rightarrow> minInt64)"

definition ttlSeconds :: "vq_env \<Rightarrow> int" where
  "ttlSeconds E = whole_seconds (vq_ttl E)"

definition marshalTicket :: "vq_env \<Rightarrow> Ticket \<Rightarrow> go_error + string" where
  "marshalTicket E t = json_Marshal (vq_tickets E) \<lparr>td_ID = vq_str E (Ticket_ID t), td_PlayerID = vq_str E (Ticket_PlayerID t),
     td_GameMode = GameMode t, td_Rating = Rating t, td_Region = Region t,
     td_PartyMembers = map (vq_str E) (PartyMembers t), td_Attributes = Attributes t, td_EnqueuedAt = EnqueuedAt t\<rparr>"

fun parse_members :: "vq_env \<Rightarrow> string list \<Rightarrow> go_error + uuid list" where
  "parse_members E [] = Inr []"
| "parse_members E (p # ps) = (case vq_parse E p of Inl e \<Rightarrow> Inl e
     | Inr u \<Rightarrow> (case parse_members E ps of Inl e \<Rightarrow> Inl e | Inr us \<Rightarrow> Inr (u # us)))"

definition unmarshalTicket :: "vq_env \<Rightarrow> string \<Rightarrow> go_error + Ticket" where
  "unmarshalTicket E raw = (case json_Unmarshal (vq_tickets E) raw of
     Inl e \<Rightarrow> Inl e
   | Inr dto \<Rightarrow> (case vq_parse E (td_ID dto) of
       Inl e \<Rightarrow> Inl e
     | Inr tid \<Rightarrow> (case vq_parse E (td_PlayerID dto) of
         Inl e \<Rightarrow> Inl e
       | Inr playerID \<Rightarrow> (case parse_members E (td_PartyMembers dto) of
           Inl e \<Rightarrow> Inl e
         | Inr members \<Rightarrow> Inr \<lparr>Ticket_ID = tid, Ticket_PlayerID = playerID, GameMode = td_GameMode dto,
             Rating = td_Rating dto, Region = td_Region dto, PartyMembers = members,
             Attributes = td_Attributes dto, EnqueuedAt = td_EnqueuedAt dto\<rparr>))))"

definition zero_event :: eventDTO where
  "zero_event = \<lparr>ed_Type = [], ed_QueuedAt = 0, ed_QueueDepth = 0, ed_Match = None, ed_Reason = [], ed_Message = []\<rparr>"

fun event_dto :: "vq_env \<Rightarrow> Event \<Rightarrow> eventDTO" where
  "event_dto E (EventQueued queuedAt depth) = zero_event\<lparr>ed_Type := ''queued'', ed_QueuedAt := queuedAt, ed_QueueDepth := depth\<rparr>"
| "event_dto E (EventMatched a) = zero_event\<lparr>ed_Type := ''matched'', ed_Match := Some
     \<lparr>md_MatchID = vq_str E (Assignment_MatchID a), md_Endpoint = Endpoint a, md_SessionToken = SessionToken a, md_ExpiresAt = ExpiresAt a\<rparr>\<rparr>"
| "event_dto E (EventFailed reason msg) = zero_event\<lparr>ed_Type := ''failed'', ed_Reason := reason, ed_Message := msg\<rparr>"

definition marshalEvent :: "vq_env \<Rightarrow> Event \<Rightarrow> go_error + string" where
  "marshalEvent E ev = json_Marshal (vq_events E) (event_dto E ev)"

text \<open>
  A matched event without its match makes the code dereference a nil pointer, which panics; nothing
  the queue writes looks like that.
\<close>

definition nil_dereference :: go_error where
  "nil_dereference = ErrorString ''runtime error: invalid memory address or nil pointer dereference''"

definition unmarshalEvent :: "vq_env \<Rightarrow> string \<Rightarrow> go_error + Event" where
  "unmarshalEvent E raw = (case json_Unmarshal (vq_events E) raw of
     Inl e \<Rightarrow> Inl e
   | Inr dto \<Rightarrow>
       if ed_Type dto = ''queued'' then Inr (EventQueued (ed_QueuedAt dto) (ed_QueueDepth dto))
       else if ed_Type dto = ''matched'' then
         (case ed_Match dto of None \<Rightarrow> Inl nil_dereference
          | Some m \<Rightarrow> (case vq_parse E (md_MatchID m) of Inl e \<Rightarrow> Inl e
             | Inr matchID \<Rightarrow> Inr (EventMatched \<lparr>Assignment_MatchID = matchID, Endpoint = md_Endpoint m,
                 SessionToken = md_SessionToken m, ExpiresAt = md_ExpiresAt m\<rparr>)))
       else if ed_Type dto = ''failed'' then Inr (EventFailed (ed_Reason dto) (ed_Message dto))
       else Inl (ErrorString (''matchqueue: unknown event type '' @ ed_Type dto)))"

definition isTerminalEvent :: "Event \<Rightarrow> bool" where
  "isTerminalEvent ev = (case ev of EventMatched _ \<Rightarrow> True | EventFailed _ _ \<Rightarrow> True | EventQueued _ _ \<Rightarrow> False)"

section \<open>The queue's methods\<close>

text \<open>One step that may fail, and the rest when it did not.\<close>

definition and_then :: "go_error option vk \<Rightarrow> go_error option vk \<Rightarrow> go_error option vk" where
  "and_then p q = vk_bind p (\<lambda>err. case err of Some e \<Rightarrow> Ret (Some e) | None \<Rightarrow> q)"

definition do_err :: "string \<Rightarrow> command \<Rightarrow> go_error option vk" where
  "do_err msg c = Do c (\<lambda>r. Ret (map_option (Wrap msg) (reply_Error r)))"

definition setEvent :: "vq_env \<Rightarrow> uuid \<Rightarrow> Event \<Rightarrow> go_error option vk" where
  "setEvent E tid ev = (case marshalEvent E ev of
     Inl e \<Rightarrow> Ret (Some e)
   | Inr raw \<Rightarrow> do_err ''matchqueue: set event'' (SET (eventKey E tid) raw (1000 * ttlSeconds E)))"

definition xaddEvent :: "vq_env \<Rightarrow> uuid \<Rightarrow> Event \<Rightarrow> go_error option vk" where
  "xaddEvent E tid ev = (case marshalEvent E ev of
     Inl e \<Rightarrow> Ret (Some e)
   | Inr raw \<Rightarrow>
       and_then (do_err ''matchqueue: xadd'' (XADD (streamKey E tid) None [(''event'', raw)]))
         (do_err ''matchqueue: stream expire'' (EXPIRE (streamKey E tid) (ttlSeconds E))))"

definition latestEvent :: "vq_env \<Rightarrow> uuid \<Rightarrow> (go_error + Event option) vk" where
  "latestEvent E tid = Do (GET (eventKey E tid)) (\<lambda>r. Ret (case ToString r of
     Inl e \<Rightarrow> if IsValkeyNil e then Inr None else Inl (Wrap ''matchqueue: get event'' e)
   | Inr raw \<Rightarrow> (case unmarshalEvent E raw of Inl e \<Rightarrow> Inl e | Inr ev \<Rightarrow> Inr (Some ev))))"

definition getTicket :: "vq_env \<Rightarrow> uuid \<Rightarrow> (go_error + Ticket) vk" where
  "getTicket E tid = Do (GET (ticketKey E tid)) (\<lambda>r. Ret (case ToString r of
     Inl e \<Rightarrow> if IsValkeyNil e then Inl (MatchE ErrTicketNotFound) else Inl (Wrap ''matchqueue: get ticket'' e)
   | Inr raw \<Rightarrow> unmarshalTicket E raw))"

text \<open>\<open>Time.UnixNano\<close>, an \<open>int64\<close>; \<open>time.Time\<close> counts from the year 1.\<close>

definition UnixNano :: "go_time \<Rightarrow> int" where
  "UnixNano t = (t - 62135596800 * Second + 2 ^ 63) mod 2 ^ 64 - 2 ^ 63"

definition enqueue_score :: "Ticket \<Rightarrow> float64" where
  "enqueue_score t = round64 (of_int (UnixNano (EnqueuedAt t)))"

definition Valkey_Enqueue :: "vq_env \<Rightarrow> Ticket \<Rightarrow> go_error option vk" where
  "Valkey_Enqueue E t = (case marshalTicket E t of
     Inl e \<Rightarrow> Ret (Some (Wrap ''matchqueue: marshal ticket'' e))
   | Inr raw \<Rightarrow>
       Do (SETNX (ticketKey E (Ticket_ID t)) raw (1000 * ttlSeconds E)) (\<lambda>res. case reply_Error res of
         Some setErr \<Rightarrow> Ret (if IsValkeyNil setErr then None else Some (Wrap ''matchqueue: set ticket'' setErr))
       | None \<Rightarrow>
           Do (ZCARD (pendingKey (GameMode t))) (\<lambda>r. case ToInt64 r of
             Inl e \<Rightarrow> Ret (Some (Wrap ''matchqueue: zcard'' e))
           | Inr depth \<Rightarrow>
               let queued = EventQueued (EnqueuedAt t) (of_int depth + 1) in
               and_then (setEvent E (Ticket_ID t) queued)
               (and_then (xaddEvent E (Ticket_ID t) queued)
               (do_err ''matchqueue: zadd pending''
                  (ZADD (pendingKey (GameMode t)) ZSET [(enqueue_score t, vq_str E (Ticket_ID t))]))))))"

definition publish_event :: "vq_env \<Rightarrow> Ticket \<Rightarrow> Event \<Rightarrow> go_error option vk" where
  "publish_event E t ev =
     and_then (setEvent E (Ticket_ID t) ev)
     (and_then
        (if isTerminalEvent ev
         then do_err ''matchqueue: zrem pending'' (ZREM (pendingKey (GameMode t)) (vq_str E (Ticket_ID t)))
         else Ret None)
     (xaddEvent E (Ticket_ID t) ev))"

definition Valkey_Cancel :: "vq_env \<Rightarrow> uuid \<Rightarrow> go_error option vk" where
  "Valkey_Cancel E tid = vk_bind (getTicket E tid) (\<lambda>tr. case tr of
     Inl e \<Rightarrow> Ret (Some e)
   | Inr t \<Rightarrow> vk_bind (latestEvent E tid) (\<lambda>lr. case lr of
       Inl e \<Rightarrow> Ret (Some e)
     | Inr last_event \<Rightarrow>
         if (case last_event of Some ev \<Rightarrow> isTerminalEvent ev | None \<Rightarrow> False) then Ret None
         else publish_event E t (EventFailed ''cancelled'' ''ticket was cancelled by the client'')))"

definition Valkey_Publish :: "vq_env \<Rightarrow> uuid \<Rightarrow> Event \<Rightarrow> go_error option vk" where
  "Valkey_Publish E tid ev = vk_bind (getTicket E tid) (\<lambda>tr. case tr of
     Inl e \<Rightarrow> Ret (Some e) | Inr t \<Rightarrow> publish_event E t ev)"

fun pending_loop :: "vq_env \<Rightarrow> string list \<Rightarrow> Ticket list \<Rightarrow> (go_error + Ticket list) vk" where
  "pending_loop E [] out = Ret (Inr out)"
| "pending_loop E (idStr # ids) out = (case vq_parse E idStr of
     Inl e \<Rightarrow> pending_loop E ids out
   | Inr tid \<Rightarrow> vk_bind (getTicket E tid) (\<lambda>tr. case tr of
       Inl e \<Rightarrow> pending_loop E ids out
     | Inr t \<Rightarrow> pending_loop E ids (out @ [t])))"

definition Valkey_Pending :: "vq_env \<Rightarrow> string \<Rightarrow> (go_error + Ticket list) vk" where
  "Valkey_Pending E gameMode = Do (ZRANGE (pendingKey gameMode)) (\<lambda>r. case AsStrSlice r of
     Inl e \<Rightarrow> Ret (Inl (Wrap ''matchqueue: zrange pending'' e))
   | Inr ids \<Rightarrow> pending_loop E ids [])"

definition Valkey_Claim :: "vq_env \<Rightarrow> string \<Rightarrow> uuid list \<Rightarrow> (go_error + bool) vk" where
  "Valkey_Claim E gameMode ids = Do (EVAL claimScript (pendingKey gameMode) (map (vq_str E) ids)) (\<lambda>r. Ret (case ToInt64 r of
     Inl e \<Rightarrow> Inl (Wrap ''matchqueue: claim eval'' e)
   | Inr res \<Rightarrow> Inr (res = 1)))"

definition Valkey_Depth :: "vq_env \<Rightarrow> string \<Rightarrow> (go_error + 32 word) vk" where
  "Valkey_Depth E gameMode = Do (ZCARD (pendingKey gameMode)) (\<lambda>r. Ret (case ToInt64 r of
     Inl e \<Rightarrow> Inl (Wrap ''matchqueue: zcard'' e)
   | Inr depth \<Rightarrow> Inr (of_int depth)))"

definition Valkey_Subscribe :: "vq_env \<Rightarrow> uuid \<Rightarrow> go_error option vk" where
  "Valkey_Subscribe E tid = vk_bind (getTicket E tid) (\<lambda>tr. Ret (case tr of Inl e \<Rightarrow> Some e | Inr _ \<Rightarrow> None))"

text \<open>
  The goroutine of a subscription, with the events it sends on the channel. The context ends before
  read \<open>reads + 1\<close> or while send \<open>sends + 1\<close> waits, whichever comes first. \<open>forward\<close> is the loop over the
  entries of one read: what it sends, the id it has reached, and whether the goroutine ends.
\<close>

fun forward :: "vq_env \<Rightarrow> nat \<Rightarrow> stream \<Rightarrow> stream_from \<Rightarrow> Event list \<times> stream_from \<times> bool" where
  "forward E sends [] lastID = ([], lastID, False)"
| "forward E sends ((n, fs) # entries) lastID =
     (case unmarshalEvent E (case map_of fs ''event'' of Some raw \<Rightarrow> raw | None \<Rightarrow> []) of
        Inl e \<Rightarrow> if e = nil_dereference then ([], After n, True) else forward E sends entries (After n)
      | Inr ev \<Rightarrow>
          (case sends of
             0 \<Rightarrow> ([], After n, True)
           | Suc left \<Rightarrow>
               if isTerminalEvent ev then ([ev], After n, True)
               else (case forward E left entries (After n) of (evs, reached, stop) \<Rightarrow> (ev # evs, reached, stop))))"

fun subscriber :: "vq_env \<Rightarrow> uuid \<Rightarrow> nat \<Rightarrow> nat \<Rightarrow> stream_from \<Rightarrow> Event list vk" where
  "subscriber E tid 0 sends lastID = Ret []"
| "subscriber E tid (Suc reads) sends lastID =
     Do (XREAD 64 (streamKey E tid) lastID) (\<lambda>r. case AsXRead r of
       Inl e \<Rightarrow> if IsValkeyNil e then subscriber E tid reads sends lastID else Ret []
     | Inr streams \<Rightarrow>
         (case forward E sends (case map_of streams (streamKey E tid) of Some s \<Rightarrow> s | None \<Rightarrow> []) lastID of
            (evs, reached, stop) \<Rightarrow> if stop then Ret evs
              else vk_bind (subscriber E tid reads (sends - length evs) reached) (\<lambda>more. Ret (evs @ more))))"


section \<open>Replicas at work\<close>

text \<open>
  Any number of goroutines of any number of replicas call the queue. A step starts a call, sends the
  next command of a call in progress, or lets a finished call answer. \<open>vs_created\<close> records the ticket
  keys whose \<open>SET NX\<close> succeeded.
\<close>

datatype vq_call =
    CEnqueue Ticket | CCancel uuid | CSubscribe uuid | CReceive uuid nat nat | CPending string
  | CClaim string "uuid list" | CPublish uuid Event | CDepth string

datatype vq_answer =
    ADone "go_error option" | AEvents "Event list" | ATickets "go_error + Ticket list"
  | AClaimed "go_error + bool" | ADepth "go_error + 32 word"

definition vk_map :: "('a \<Rightarrow> 'b) \<Rightarrow> 'a vk \<Rightarrow> 'b vk" where
  "vk_map f p = vk_bind p (\<lambda>x. Ret (f x))"

fun vq_code :: "vq_env \<Rightarrow> vq_call \<Rightarrow> vq_answer vk" where
  "vq_code E (CEnqueue t) = vk_map ADone (Valkey_Enqueue E t)"
| "vq_code E (CCancel tid) = vk_map ADone (Valkey_Cancel E tid)"
| "vq_code E (CSubscribe tid) = vk_map ADone (Valkey_Subscribe E tid)"
| "vq_code E (CReceive tid reads sends) = vk_map AEvents (subscriber E tid reads sends From0)"
| "vq_code E (CPending mode) = vk_map ATickets (Valkey_Pending E mode)"
| "vq_code E (CClaim mode ids) = vk_map AClaimed (Valkey_Claim E mode ids)"
| "vq_code E (CPublish tid ev) = vk_map ADone (Valkey_Publish E tid ev)"
| "vq_code E (CDepth mode) = vk_map ADepth (Valkey_Depth E mode)"

record 'v vq_sys =
  vs_server :: 'v
  vs_running :: "nat \<Rightarrow> (vq_call \<times> vq_answer vk) option"
  vs_answers :: "(vq_call \<times> vq_answer) list"
  vs_created :: "string list"

definition created_by :: "command \<Rightarrow> reply \<Rightarrow> string list" where
  "created_by c r = (case c of SETNX k _ _ \<Rightarrow> if reply_Error r = None then [k] else [] | _ \<Rightarrow> [])"

definition start_vq :: "'v \<Rightarrow> 'v vq_sys" where
  "start_vq v = \<lparr>vs_server = v, vs_running = (\<lambda>_. None), vs_answers = [], vs_created = []\<rparr>"

inductive vq_step :: "'v vk_client \<Rightarrow> vq_env \<Rightarrow> 'v vq_sys \<Rightarrow> 'v vq_sys \<Rightarrow> bool" for client E where
  start: "vs_running s i = None \<Longrightarrow> vq_step client E s (s\<lparr>vs_running := (vs_running s)(i \<mapsto> (call, vq_code E call))\<rparr>)"
| send: "vs_running s i = Some (call, Do c k) \<Longrightarrow> client c (vs_server s) = (r, v) \<Longrightarrow>
    vq_step client E s (s\<lparr>vs_server := v, vs_running := (vs_running s)(i \<mapsto> (call, k r)),
      vs_created := vs_created s @ created_by c r\<rparr>)"
| answer: "vs_running s i = Some (call, Ret a) \<Longrightarrow>
    vq_step client E s (s\<lparr>vs_running := (vs_running s)(i := None), vs_answers := vs_answers s @ [(call, a)]\<rparr>)"

fun won :: "vq_call \<times> vq_answer \<Rightarrow> uuid list" where
  "won (CClaim mode ids, AClaimed (Inr True)) = ids"
| "won _ = []"

subsection \<open>What a call may still send\<close>

definition adds :: "string \<Rightarrow> command \<Rightarrow> bool" where
  "adds m c = (case c of ZADD _ _ sms \<Rightarrow> m \<in> snd ` set sms | _ \<Rightarrow> False)"

definition creates :: "string \<Rightarrow> command \<Rightarrow> reply \<Rightarrow> bool" where
  "creates m c r \<longleftrightarrow> ''vfx:mq:ticket:'' @ m \<in> set (created_by c r)"

text \<open>\<open>armed m p\<close>: the code may add \<open>m\<close> to a sorted set without creating the ticket's key first.\<close>

primrec armed :: "string \<Rightarrow> 'a vk \<Rightarrow> bool" where
  "armed m (Ret x) = False"
| "armed m (Do c k) = (adds m c \<or> (\<exists>r. \<not> creates m c r \<and> armed m (k r)))"

definition is_pendingKey :: "string \<Rightarrow> bool" where
  "is_pendingKey k \<longleftrightarrow> (\<exists>mode. k = pendingKey mode)"

definition spares_pending :: "command \<Rightarrow> bool" where
  "spares_pending c = (case c of SET k _ _ \<Rightarrow> \<not> is_pendingKey k | SETNX k _ _ \<Rightarrow> \<not> is_pendingKey k
     | XADD k _ _ \<Rightarrow> \<not> is_pendingKey k | EXPIRE k _ \<Rightarrow> \<not> is_pendingKey k
     | EVAL scr k _ \<Rightarrow> scr = claimScript | _ \<Rightarrow> True)"

text \<open>The code adds a member at most once, and otherwise leaves the pending sets alone or shrinks them.\<close>

primrec orderly :: "'a vk \<Rightarrow> bool" where
  "orderly (Ret x) = True"
| "orderly (Do c k) = (spares_pending c \<and> (\<forall>r. orderly (k r) \<and> (\<forall>m. adds m c \<longrightarrow> \<not> armed m (k r))))"

primrec adds_nothing :: "'a vk \<Rightarrow> bool" where
  "adds_nothing (Ret x) = True"
| "adds_nothing (Do c k) = (spares_pending c \<and> (\<forall>m. \<not> adds m c) \<and> (\<forall>r. adds_nothing (k r)))"

lemma adds_nothing_bind: "adds_nothing p \<Longrightarrow> (\<And>x. adds_nothing (f x)) \<Longrightarrow> adds_nothing (vk_bind p f)"
  by (induction p) auto

lemma adds_nothing_armed: "adds_nothing p \<Longrightarrow> \<not> armed m p"
  by (induction p) auto

lemma adds_nothing_orderly: "adds_nothing p \<Longrightarrow> orderly p"
  by (induction p) auto

lemma adds_nothing_map [simp]: "adds_nothing (vk_map f p) = adds_nothing p"
  by (induction p) (auto simp: vk_map_def)

lemma armed_map [simp]: "armed m (vk_map f p) = armed m p"
  by (induction p) (auto simp: vk_map_def)

lemma orderly_map [simp]: "orderly (vk_map f p) = orderly p"
proof (induction p)
  case (Do c k)
  have "armed m (vk_bind (k r) (\<lambda>x. Ret (f x))) = armed m (k r)" for m r
    using armed_map [of m f "k r"] by (simp add: vk_map_def)
  then show ?case using Do by (simp add: vk_map_def)
qed (simp add: vk_map_def)

lemma armed_bind: "\<not> armed m p \<Longrightarrow> (\<And>x. \<not> armed m (f x)) \<Longrightarrow> \<not> armed m (vk_bind p f)"
  by (induction p) auto

lemma armed_bind_first: "adds_nothing p \<Longrightarrow> (\<And>x. orderly (f x)) \<Longrightarrow> orderly (vk_bind p f)"
  by (induction p) auto

lemma keys_apart [simp]:
  "\<not> is_pendingKey (ticketKey E tid)" "\<not> is_pendingKey (eventKey E tid)" "\<not> is_pendingKey (streamKey E tid)"
  by (simp_all add: is_pendingKey_def ticketKey_def eventKey_def streamKey_def pendingKey_def)

lemmas calm_defs = and_then_def do_err_def spares_pending_def adds_def

lemma calm_parts [simp]:
  "adds_nothing (setEvent E tid ev)" "adds_nothing (xaddEvent E tid ev)"
  "adds_nothing (getTicket E tid)" "adds_nothing (latestEvent E tid)"
  by (auto simp: setEvent_def xaddEvent_def getTicket_def latestEvent_def calm_defs split: sum.split option.split)

lemma calm_publish [simp]: "adds_nothing (publish_event E t ev)"
  by (auto simp: publish_event_def calm_defs intro!: adds_nothing_bind split: option.split)

lemma calm_pending [simp]: "adds_nothing (pending_loop E ids out)"
  by (induction ids arbitrary: out) (auto intro!: adds_nothing_bind split: sum.split)

lemma calm_subscriber [simp]: "adds_nothing (subscriber E tid reads sends from)"
  by (induction reads arbitrary: sends "from")
     (auto simp: calm_defs intro!: adds_nothing_bind split: sum.split prod.split)

lemma calm_calls: "(\<nexists>t. call = CEnqueue t) \<Longrightarrow> adds_nothing (vq_code E call)"
  by (cases call)
     (auto simp: Valkey_Cancel_def Valkey_Publish_def Valkey_Pending_def Valkey_Claim_def Valkey_Depth_def Valkey_Subscribe_def
        calm_defs intro!: adds_nothing_bind split: sum.split option.split)

lemma armed_parts [simp]: "\<not> armed m (setEvent E tid ev)" "\<not> armed m (xaddEvent E tid ev)"
  by (simp_all add: adds_nothing_armed)

definition enqueue_tail :: "vq_env \<Rightarrow> Ticket \<Rightarrow> Event \<Rightarrow> go_error option vk" where
  "enqueue_tail E t queued = and_then (setEvent E (Ticket_ID t) queued) (and_then (xaddEvent E (Ticket_ID t) queued)
    (do_err ''matchqueue: zadd pending'' (ZADD (pendingKey (GameMode t)) ZSET [(enqueue_score t, vq_str E (Ticket_ID t))])))"

lemma orderly_and_then: "adds_nothing p \<Longrightarrow> orderly q \<Longrightarrow> orderly (and_then p q)"
  unfolding and_then_def by (rule armed_bind_first) (auto split: option.split)

lemma unarmed_and_then: "\<not> armed m p \<Longrightarrow> \<not> armed m q \<Longrightarrow> \<not> armed m (and_then p q)"
  unfolding and_then_def by (rule armed_bind) (auto split: option.split_asm)

lemma enqueue_tail_orderly: "orderly (enqueue_tail E t queued)"
  unfolding enqueue_tail_def
  by (intro orderly_and_then calm_parts) (simp add: do_err_def spares_pending_def)

lemma enqueue_tail_armed: "m \<noteq> vq_str E (Ticket_ID t) \<Longrightarrow> \<not> armed m (enqueue_tail E t queued)"
  unfolding enqueue_tail_def
  by (intro unarmed_and_then armed_parts) (simp add: do_err_def adds_def)

lemma Enqueue_orderly: "orderly (Valkey_Enqueue E t)"
  using enqueue_tail_orderly [of E t]
  by (auto simp: Valkey_Enqueue_def Let_def enqueue_tail_def [symmetric] spares_pending_def adds_def split: sum.split option.split)

lemma Enqueue_unarmed: "\<not> armed m (Valkey_Enqueue E t)"
proof (cases "m = vq_str E (Ticket_ID t)")
  case True
  then show ?thesis
    by (auto simp: Valkey_Enqueue_def Let_def adds_def creates_def created_by_def ticketKey_def
        split: sum.split option.split)
next
  case False
  then show ?thesis using enqueue_tail_armed [OF False]
    by (auto simp: Valkey_Enqueue_def Let_def enqueue_tail_def [symmetric] adds_def split: sum.split option.split)
qed


subsection \<open>The pending sets\<close>

definition in_pending :: "keyspace \<Rightarrow> string \<Rightarrow> string \<Rightarrow> bool" where
  "in_pending ks m mode \<longleftrightarrow> map_of (zset_at ks (pendingKey mode)) m \<noteq> None"

lemma zset_at_simps [simp]:
  "zset_at (put_zset k z ks) k' = (if k' = k then z else zset_at ks k')"
  "zset_at (drop_key k ks) k' = (if k' = k then [] else zset_at ks k')"
  "k' \<noteq> k \<Longrightarrow> zset_at (put_key k x t ks) k' = zset_at ks k'"
  "zset_at (ks\<lparr>ks_last := n\<rparr>) k' = zset_at ks k'"
  by (auto simp: zset_at_def put_zset_def put_key_def drop_key_def)

lemma zset_at_expire [simp]: "k' \<noteq> k \<Longrightarrow> zset_at (snd (expire_key k ttl ks)) k' = zset_at ks k'"
  by (auto simp: expire_key_def split: option.split)

lemma zset_at_set [simp]: "k' \<noteq> k \<Longrightarrow> zset_at (snd (set_key k x ttl ks)) k' = zset_at ks k'"
  by (auto simp: set_key_def)

lemma zadd_all_members: "map_of (zadd_all flag sms z) m \<noteq> None \<longleftrightarrow> map_of z m \<noteq> None \<or> m \<in> snd ` set sms"
proof (induction sms arbitrary: z)
  case (Cons sm sms)
  have "map_of (zadd_one flag sm z) m \<noteq> None \<longleftrightarrow> map_of z m \<noteq> None \<or> m = snd sm"
    by (cases sm) (auto simp: zadd_one_def update_conv' map_add_def split: option.split)
  then show ?case using Cons [of "zadd_one flag sm z"] by (auto simp: zadd_all_def)
qed (simp add: zadd_all_def)

lemma map_of_zrem_all: "map_of (zrem_all as z) m = (if m \<in> set as then None else map_of z m)"
  by (induction as arbitrary: z) (auto simp: delete_conv')

lemma pendingKey_inj [simp]: "pendingKey a = pendingKey b \<longleftrightarrow> a = b"
  by (simp add: pendingKey_def)

lemma effect_pending:
  assumes "spares_pending c" "in_pending (snd (vk_effect ch c ks)) m mode"
  shows "in_pending ks m mode \<or> (adds m c \<and> (\<exists>flag sms. c = ZADD (pendingKey mode) flag sms))"
proof (cases c)
  case (ZADD k flag sms)
  then show ?thesis using assms(2)
    by (auto simp: in_pending_def adds_def zadd_all_members [unfolded not_None_eq] split: if_splits)
next
  case (ZREM k x)
  then show ?thesis using assms(2) by (auto simp: in_pending_def delete_conv' split: if_splits)
next
  case (EVAL scr k argv)
  then show ?thesis using assms
    by (auto simp: in_pending_def spares_pending_def run_script_def run_claim_def map_of_zrem_all split: if_splits)
next
  case (XADD k n fs)
  then have "pendingKey mode \<noteq> k" using assms(1) by (auto simp: spares_pending_def is_pendingKey_def)
  then show ?thesis using assms(2) XADD by (auto simp: in_pending_def append_stream_def Let_def split: if_splits)
next
  case (SET k x t)
  then have "pendingKey mode \<noteq> k" using assms(1) by (auto simp: spares_pending_def is_pendingKey_def)
  then show ?thesis using assms(2) SET by (simp add: in_pending_def)
next
  case (EXPIRE k t)
  then have "pendingKey mode \<noteq> k" using assms(1) by (auto simp: spares_pending_def is_pendingKey_def)
  then show ?thesis using assms(2) EXPIRE by (simp add: in_pending_def)
next
  case (SETNX k x t)
  then have "pendingKey mode \<noteq> k" using assms(1) by (auto simp: spares_pending_def is_pendingKey_def)
  then show ?thesis using assms(2) SETNX by (auto simp: in_pending_def split: if_splits)
qed (use assms in \<open>auto simp: in_pending_def spares_pending_def is_pendingKey_def split: option.splits prod.splits vk_value.splits\<close>)

lemma claim_takes:
  assumes "vk_effect ch (EVAL claimScript (pendingKey mode) argv) ks = (IntR 1, ks')" "m \<in> set argv"
  shows "in_pending ks m mode" "\<not> in_pending ks' m mode"
  using assms
  by (auto simp: run_script_def run_claim_def in_pending_def map_of_zrem_all list_ex_iff split: if_splits)

lemma expires_zset: "expires ks ks' \<Longrightarrow> zset_at ks' k = zset_at ks k \<or> zset_at ks' k = []"
  unfolding expires_def zset_at_def by (metis option.simps(4))

lemma expires_pending: "expires ks ks' \<Longrightarrow> in_pending ks' m mode \<Longrightarrow> in_pending ks m mode"
  using expires_zset [of ks ks' "pendingKey mode"] by (auto simp: in_pending_def)

context valkey_server
begin

lemma client_pending:
  assumes "rely \<le> expires" "client c v = (r, v')" "spares_pending c" "in_pending (obs v') m mode"
  shows "in_pending (obs v) m mode \<or> (adds m c \<and> (\<exists>flag sms. c = ZADD (pendingKey mode) flag sms))"
proof -
  obtain ks ch where s: "rely (obs v) ks" "served ch c ks r (obs v')" using serves [OF assms(2)] by blast
  then have e: "expires (obs v) ks" using assms(1) by auto
  have "in_pending ks m mode \<or> in_pending (snd (vk_effect ch c ks)) m mode"
    using s(2) assms(4) by (auto simp: served_def) (metis snd_conv)
  then show ?thesis using effect_pending [OF assms(3)] expires_pending [OF e] by blast
qed

lemma client_claim:
  assumes "rely \<le> expires" "client (EVAL claimScript (pendingKey mode) argv) v = (IntR 1, v')" "m \<in> set argv"
  shows "in_pending (obs v) m mode" "\<not> in_pending (obs v') m mode"
proof -
  obtain ks ch where s: "rely (obs v) ks" "served ch (EVAL claimScript (pendingKey mode) argv) ks (IntR 1) (obs v')"
    using serves [OF assms(2)] by blast
  then have "vk_effect ch (EVAL claimScript (pendingKey mode) argv) ks = (IntR 1, obs v')" by (simp add: served_def)
  then show "in_pending (obs v) m mode" "\<not> in_pending (obs v') m mode"
    using claim_takes [OF _ assms(3)] expires_pending s(1) assms(1) by blast+
qed

end

subsection \<open>Every ticket has at most one holder\<close>

datatype holder = Adding nat | Waiting string | Winning nat | Won nat

definition held_by :: "vq_env \<Rightarrow> keyspace \<Rightarrow> 'v vq_sys \<Rightarrow> string \<Rightarrow> holder \<Rightarrow> bool" where
  "held_by E ks s m h = (case h of
     Adding i \<Rightarrow> (\<exists>call p. vs_running s i = Some (call, p) \<and> armed m p)
   | Waiting mode \<Rightarrow> in_pending ks m mode
   | Winning i \<Rightarrow> (\<exists>call a. vs_running s i = Some (call, Ret a) \<and> m \<in> vq_str E ` set (won (call, a)))
   | Won n \<Rightarrow> n < length (vs_answers s) \<and> m \<in> vq_str E ` set (won (vs_answers s ! n)))"

text \<open>What the call in progress is: code of its kind that is orderly, and for a claim, not yet run or answered.\<close>

definition in_progress :: "vq_env \<Rightarrow> vq_call \<Rightarrow> vq_answer vk \<Rightarrow> bool" where
  "in_progress E call p \<longleftrightarrow> orderly p \<and> (\<forall>mode ids. call = CClaim mode ids \<longrightarrow> p = vq_code E call \<or> (\<exists>a. p = Ret a))"

definition sole :: "(holder \<Rightarrow> bool) \<Rightarrow> bool" where
  "sole H \<longleftrightarrow> (\<forall>h h'. H h \<longrightarrow> H h' \<longrightarrow> h = h')"

lemma sole_le: "sole H \<Longrightarrow> (\<And>h. H' h \<Longrightarrow> H h) \<Longrightarrow> sole H'"
  unfolding sole_def by blast

lemma sole_single: "(\<And>h. H h \<Longrightarrow> h = x) \<Longrightarrow> sole H"
  unfolding sole_def by blast

definition vq_inv :: "('v \<Rightarrow> keyspace) \<Rightarrow> vq_env \<Rightarrow> 'v vq_sys \<Rightarrow> bool" where
  "vq_inv obs E s \<longleftrightarrow> (\<forall>i call p. vs_running s i = Some (call, p) \<longrightarrow> in_progress E call p) \<and>
     (\<forall>m. sole (held_by E (obs (vs_server s)) s m) \<and>
          (\<forall>h. held_by E (obs (vs_server s)) s m h \<longrightarrow> ''vfx:mq:ticket:'' @ m \<in> set (vs_created s)))"

lemma vq_code_in_progress: "in_progress E call (vq_code E call)" "\<not> armed m (vq_code E call)"
proof -
  have "orderly (vq_code E call) \<and> \<not> armed m (vq_code E call)"
  proof (cases "\<exists>t. call = CEnqueue t")
    case True
    then show ?thesis using Enqueue_orderly Enqueue_unarmed by auto
  next
    case False
    then show ?thesis using calm_calls adds_nothing_orderly adds_nothing_armed by blast
  qed
  then show "in_progress E call (vq_code E call)" "\<not> armed m (vq_code E call)" by (simp_all add: in_progress_def)
qed

lemma in_progress_send: "in_progress E call (Do c k) \<Longrightarrow> in_progress E call (k r)"
  by (auto simp: in_progress_def vk_map_def Valkey_Claim_def)


lemma wonE:
  assumes "m \<in> f ` set (won (call, a))"
  obtains mode ids where "call = CClaim mode ids" "a = AClaimed (Inr True)" "m \<in> f ` set ids"
  using assms by (cases "(call, a)" rule: won.cases) auto

context valkey_server
begin

text \<open>How one command of one call changes who holds a ticket.\<close>

lemma held_after_send:
  fixes s :: "'v vq_sys" and m
  assumes "rely \<le> expires" "vs_running s i = Some (call, Do c k)" "in_progress E call (Do c k)"
    and "client c (vs_server s) = (r, v)"
    and s': "s' = s\<lparr>vs_server := v, vs_running := (vs_running s)(i \<mapsto> (call, k r)), vs_created := vs_created s @ created_by c r\<rparr>"
  defines "H \<equiv> held_by E (obs (vs_server s)) s m" and "H' \<equiv> held_by E (obs v) s' m"
  shows "(\<forall>h. H' h \<longrightarrow> H h) \<or> (creates m c r \<and> (\<forall>h. H' h \<longrightarrow> H h \<or> h = Adding i)) \<or>
    (H (Adding i) \<and> (\<exists>mode. \<forall>h. H' h \<longrightarrow> h \<noteq> Adding i \<and> (H h \<or> h = Waiting mode))) \<or>
    (\<exists>mode. H (Waiting mode) \<and> (\<forall>h. H' h \<longrightarrow> h \<noteq> Waiting mode \<and> (H h \<or> h = Winning i)))"
proof -
  have pend: "in_pending (obs (vs_server s)) m mode \<or> (adds m c \<and> (\<exists>flag sms. c = ZADD (pendingKey mode) flag sms))"
    if "in_pending (obs v) m mode" for mode
    using client_pending [OF assms(1,4) _ that] assms(3) by (simp add: in_progress_def)
  show ?thesis
  proof (cases "\<exists>a. k r = Ret a \<and> m \<in> vq_str E ` set (won (call, a))")
    case True
    then obtain a where a: "k r = Ret a" and w: "m \<in> vq_str E ` set (won (call, a))" by blast
    from w obtain mode ids where cl: "call = CClaim mode ids" "a = AClaimed (Inr True)" and m: "m \<in> vq_str E ` set ids"
      by (rule wonE)
    have "Do c k = vq_code E (CClaim mode ids)"
      using assms(3) cl by (auto simp: in_progress_def)
    then have c: "c = EVAL claimScript (pendingKey mode) (map (vq_str E) ids)" and "r = IntR 1"
      using a cl(2) by (auto simp: vk_map_def Valkey_Claim_def ToInt64_def split: reply.splits)
    then have "in_pending (obs (vs_server s)) m mode" "\<not> in_pending (obs v) m mode"
      using client_claim [OF assms(1)] assms(4) m by auto
    moreover have "H h \<or> h = Winning i" if "H' h" for h
      using that pend c a by (cases h) (auto simp: H_def H'_def s' held_by_def adds_def split: if_splits)
    ultimately show ?thesis by (auto simp: H_def H'_def held_by_def)
  next
    case lost: False
    show ?thesis
    proof (cases "adds m c")
      case True
      then obtain key flag sms where c: "c = ZADD key flag sms" by (auto simp: adds_def split: command.splits)
      have "\<not> armed m (k r)" using assms(3) True by (simp add: in_progress_def)
      then have na: "\<not> H' (Adding i)" by (simp add: H'_def s' held_by_def)
      have "H (Adding i)" using assms(2) True by (simp add: H_def held_by_def)
      moreover have "H h \<or> h = Waiting (SOME mode. key = pendingKey mode)" if "H' h" for h
      proof (cases h)
        case (Waiting mode)
        then show ?thesis using that pend [of mode] c
          by (auto simp: H_def H'_def s' held_by_def)
      next
        case (Adding j)
        then show ?thesis using that na by (cases "j = i") (auto simp: H_def H'_def s' held_by_def)
      next
        case (Winning j)
        then show ?thesis using that lost by (cases "j = i") (auto simp: H_def H'_def s' held_by_def)
      qed (use that in \<open>auto simp: H_def H'_def s' held_by_def\<close>)
      ultimately show ?thesis using na by metis
    next
      case False
      then have le: "H h \<or> h = Adding i \<and> armed m (k r)" if "H' h" for h
        using that pend lost by (cases h) (auto simp: H_def H'_def s' held_by_def split: if_splits)
      show ?thesis
      proof (cases "creates m c r")
        case True
        then show ?thesis using le by blast
      next
        case False
        then have "H (Adding i)" if "armed m (k r)"
          using that assms(2) by (auto simp: H_def held_by_def)
        then show ?thesis using le by blast
      qed
    qed
  qed
qed

lemma vq_inv_send:
  fixes s :: "'v vq_sys"
  assumes "rely \<le> expires" "vq_inv obs E s" "vs_running s i = Some (call, Do c k)" "client c (vs_server s) = (r, v)"
    and s': "s' = s\<lparr>vs_server := v, vs_running := (vs_running s)(i \<mapsto> (call, k r)), vs_created := vs_created s @ created_by c r\<rparr>"
    and "distinct (vs_created s')"
  shows "vq_inv obs E s'"
proof -
  have pr: "in_progress E call (Do c k)" using assms(2,3) by (auto simp: vq_inv_def)
  have run: "in_progress E call' p" if "vs_running s' j = Some (call', p)" for j call' p
    using that assms(2) in_progress_send [OF pr, of r] by (auto simp: vq_inv_def s' split: if_splits)
  have "sole (held_by E (obs v) s' m) \<and> (\<forall>h. held_by E (obs v) s' m h \<longrightarrow> ''vfx:mq:ticket:'' @ m \<in> set (vs_created s'))" for m
  proof -
    let ?H = "held_by E (obs (vs_server s)) s m" and ?H' = "held_by E (obs v) s' m" and ?key = "''vfx:mq:ticket:'' @ m"
    have one: "sole ?H" and made: "\<And>h. ?H h \<Longrightarrow> ?key \<in> set (vs_created s)" using assms(2) by (auto simp: vq_inv_def)
    have fresh: "\<not> ?H h" if "creates m c r" for h
      using that made assms(6) by (auto simp: creates_def s')
    have keeps: "set (vs_created s) \<subseteq> set (vs_created s')" by (auto simp: s')
    consider (less) "\<forall>h. ?H' h \<longrightarrow> ?H h" | (create) "creates m c r" "\<forall>h. ?H' h \<longrightarrow> ?H h \<or> h = Adding i"
      | (add) mode where "?H (Adding i)" "\<forall>h. ?H' h \<longrightarrow> h \<noteq> Adding i \<and> (?H h \<or> h = Waiting mode)"
      | (take) mode where "?H (Waiting mode)" "\<forall>h. ?H' h \<longrightarrow> h \<noteq> Waiting mode \<and> (?H h \<or> h = Winning i)"
      using held_after_send [OF assms(1,3) pr assms(4) s', of m] by blast
    then show ?thesis
    proof cases
      case less
      then show ?thesis using sole_le [OF one, of ?H'] made keeps by blast
    next
      case create
      then show ?thesis using fresh sole_single [of ?H' "Adding i"] by (auto simp: creates_def s')
    next
      case add
      then have "h = Waiting mode" if "?H' h" for h using that one unfolding sole_def by blast
      then show ?thesis using sole_single [of ?H' "Waiting mode"] made [OF add(1)] keeps by blast
    next
      case take
      then have "h = Winning i" if "?H' h" for h using that one unfolding sole_def by blast
      then show ?thesis using sole_single [of ?H' "Winning i"] made [OF take(1)] keeps by blast
    qed
  qed
  then show ?thesis using run by (simp add: vq_inv_def s')
qed

lemma vq_inv_start:
  fixes s :: "'v vq_sys"
  assumes "vq_inv obs E s" "vs_running s i = None"
  shows "vq_inv obs E (s\<lparr>vs_running := (vs_running s)(i \<mapsto> (call, vq_code E call))\<rparr>)" (is "vq_inv _ _ ?s")
proof -
  have "m \<notin> vq_str E ` set (won (call, a))" if "vq_code E call = Ret a" for m a
    using that by (auto simp: vk_map_def Valkey_Claim_def elim!: wonE)
  then have less: "held_by E ks s m h" if "held_by E ks ?s m h" for ks m h
    using that vq_code_in_progress(2) [of m E call] by (cases h) (fastforce simp: held_by_def split: if_splits)+
  show ?thesis unfolding vq_inv_def
  proof (intro conjI allI impI)
    show "in_progress E call' p" if "vs_running ?s j = Some (call', p)" for j call' p
      using that assms(1) vq_code_in_progress(1) [of E call] by (auto simp: vq_inv_def split: if_splits)
    show "sole (held_by E (obs (vs_server ?s)) ?s m)" for m
      by (rule sole_le [where H = "held_by E (obs (vs_server s)) s m"]) (use assms(1) less in \<open>auto simp: vq_inv_def\<close>)
    show "''vfx:mq:ticket:'' @ m \<in> set (vs_created ?s)" if "held_by E (obs (vs_server ?s)) ?s m h" for m h
      using assms(1) less [OF that] by (auto simp: vq_inv_def)
  qed
qed

lemma vq_inv_answer:
  fixes s :: "'v vq_sys"
  assumes "vq_inv obs E s" "vs_running s i = Some (call, Ret a)"
  shows "vq_inv obs E (s\<lparr>vs_running := (vs_running s)(i := None), vs_answers := vs_answers s @ [(call, a)]\<rparr>)" (is "vq_inv _ _ ?s")
proof -
  let ?n = "Won (length (vs_answers s))"
  have less: "held_by E ks s m h \<or> (h = ?n \<and> held_by E ks s m (Winning i))" if "held_by E ks ?s m h" for ks m h
    using that assms(2) by (cases h) (auto simp: held_by_def nth_append split: if_splits)
  have gone: "\<not> held_by E ks ?s m (Winning i)" "\<not> held_by E ks s m ?n" for ks m by (simp_all add: held_by_def)
  show ?thesis unfolding vq_inv_def
  proof (intro conjI allI impI)
    show "in_progress E call' p" if "vs_running ?s j = Some (call', p)" for j call' p
      using that assms(1) by (auto simp: vq_inv_def split: if_splits)
    show "''vfx:mq:ticket:'' @ m \<in> set (vs_created ?s)" if "held_by E (obs (vs_server ?s)) ?s m h" for m h
      using assms(1) less [OF that] by (auto simp: vq_inv_def)
    show "sole (held_by E (obs (vs_server ?s)) ?s m)" for m
    proof -
      have "sole (held_by E (obs (vs_server s)) s m)" using assms(1) by (simp add: vq_inv_def)
      then show ?thesis using less [of "obs (vs_server s)" m] gone [of "obs (vs_server s)" m] unfolding sole_def by (simp; metis)
    qed
  qed
qed

lemma created_mono: "(vq_step client E)\<^sup>*\<^sup>* s s' \<Longrightarrow> \<exists>xs. vs_created s' = vs_created s @ xs"
proof (induction rule: rtranclp_induct)
  case (step s' s'')
  then show ?case by (auto elim!: vq_step.cases)
qed simp

lemma vq_inv_steps:
  fixes s :: "'v vq_sys"
  assumes "rely \<le> expires" "(vq_step client E)\<^sup>*\<^sup>* s s'" "vq_inv obs E s" "distinct (vs_created s')"
  shows "vq_inv obs E s'"
  using assms(2,4)
proof (induction rule: rtranclp_induct)
  case (step s' s'')
  have "distinct (vs_created s')" using step(4) created_mono [of E s' s''] step(2) by fastforce
  then have "vq_inv obs E s'" using step(3) by simp
  then show ?case
    using vq_inv_start vq_inv_answer vq_inv_send [OF assms(1)] step(4) by (cases rule: vq_step.cases [OF step(2)]) auto
qed (use assms(3) in simp)

end


lemma vq_inv_init:
  assumes "\<forall>mode. zset_at (obs v) (pendingKey mode) = []"
  shows "vq_inv obs E (start_vq v)"
proof -
  have "\<not> held_by E (obs v) (start_vq v) m h" for m h
    using assms by (cases h) (auto simp: held_by_def start_vq_def in_pending_def)
  then show ?thesis by (simp add: vq_inv_def sole_def start_vq_def)
qed

text \<open>A schedule of steps, run.\<close>

datatype vq_move = Begin nat vq_call | Advance nat

fun vq_run :: "'v vk_client \<Rightarrow> vq_env \<Rightarrow> vq_move list \<Rightarrow> 'v vq_sys \<Rightarrow> 'v vq_sys" where
  "vq_run client E [] s = s"
| "vq_run client E (Begin i call # mvs) s = vq_run client E mvs (case vs_running s i of
     None \<Rightarrow> s\<lparr>vs_running := (vs_running s)(i \<mapsto> (call, vq_code E call))\<rparr> | Some _ \<Rightarrow> s)"
| "vq_run client E (Advance i # mvs) s = vq_run client E mvs (case vs_running s i of
     None \<Rightarrow> s
   | Some (call, Ret a) \<Rightarrow> s\<lparr>vs_running := (vs_running s)(i := None), vs_answers := vs_answers s @ [(call, a)]\<rparr>
   | Some (call, Do c k) \<Rightarrow> (case client c (vs_server s) of (r, v) \<Rightarrow>
       s\<lparr>vs_server := v, vs_running := (vs_running s)(i \<mapsto> (call, k r)), vs_created := vs_created s @ created_by c r\<rparr>))"

lemma vq_run_steps: "(vq_step client E)\<^sup>*\<^sup>* s (vq_run client E mvs s)"
proof (induction mvs arbitrary: s rule: list.induct)
  case (Cons mv mvs)
  have "(vq_step client E)\<^sup>*\<^sup>* s (vq_run client E [mv] s)"
    by (cases mv) (auto intro!: r_into_rtranclp vq_step.intros split: option.split prod.split vk.split)
  moreover have "vq_run client E (mv # mvs) s = vq_run client E mvs (vq_run client E [mv] s)" by (cases mv) auto
  ultimately show ?case using Cons [of "vq_run client E [mv] s"] by (metis rtranclp_trans)
qed simp

definition sample_vq :: vq_env where
  "sample_vq = (NewValkeyQueue (\<lambda>u. if u = 1 then ''t1'' else ''t2'') (\<lambda>s. if s = ''t1'' then Inr 1 else Inr 2)
     \<lparr>json_Marshal = (\<lambda>_. Inr ''{}''), json_Unmarshal = (\<lambda>_. Inl wrong_type)\<rparr>
     \<lparr>json_Marshal = (\<lambda>_. Inr ''{}''), json_Unmarshal = (\<lambda>_. Inl wrong_type)\<rparr>)\<lparr>vq_ttl := Second\<rparr>"

definition sample_schedule :: "vq_move list" where
  "sample_schedule = Begin 0 (CEnqueue (sample_ticket 1 1 [] 62135596800000000005)) # replicate 7 (Advance 0) @
     [Begin 1 (CClaim ''rps'' [1]), Begin 2 (CClaim ''rps'' [1]), Advance 2, Advance 1, Advance 1, Advance 2]"

definition sample_race :: "(keyspace \<times> vk_fault list) vq_sys" where
  "sample_race = vq_run sim_client sample_vq sample_schedule (start_vq (empty_keyspace, []))"

section \<open>Properties\<close>

text \<open>
  C33. Claims are exclusive across replicas. Any number of goroutines of any number of gateways call the
  shared queue and their commands interleave in any way, commands fail with or without having taken
  effect, and keys expire: as long as no ticket key was created twice, which \<open>SET NX\<close> ensures until
  the key expires an hour later, no two calls of \<open>Claim\<close> that returned true share a ticket.
\<close>

theorem valkey_claims_exclusive:
  assumes "valkey_server client obs expires" and "\<forall>mode. zset_at (obs v) (pendingKey mode) = []"
    and "(vq_step client E)\<^sup>*\<^sup>* (start_vq v) s" and "distinct (vs_created s)"
  shows "sorted_wrt (\<lambda>a b. set (won a) \<inter> set (won b) = {}) (vs_answers s)"
proof -
  have inv: "vq_inv obs E s"
    using valkey_server.vq_inv_steps [OF assms(1) order_refl assms(3) vq_inv_init [of obs v, OF assms(2)] assms(4)] .
  have same: "i = j" if "t \<in> set (won (vs_answers s ! i))" "t \<in> set (won (vs_answers s ! j))"
      "i < length (vs_answers s)" "j < length (vs_answers s)" for t i j
  proof -
    let ?H = "held_by E (obs (vs_server s)) s (vq_str E t)"
    have "?H (Won i)" "?H (Won j)" using that by (auto simp: held_by_def)
    then show ?thesis using inv unfolding vq_inv_def sole_def by blast
  qed
  have "set (won (vs_answers s ! i)) \<inter> set (won (vs_answers s ! j)) = {}" if "i < j" "j < length (vs_answers s)" for i j
    using same [of _ i j] that by auto
  then show ?thesis by (simp add: sorted_wrt_iff_nth_less)
qed

lemmas vq_eval = Valkey_Enqueue_def and_then_def do_err_def setEvent_def xaddEvent_def marshalEvent_def marshalTicket_def
  ticketKey_def eventKey_def streamKey_def pendingKey_def accessor_defs set_key_def put_key_def expire_key_def is_zset_def is_stream_def
  append_stream_def put_zset_def zset_at_def stream_at_def ttl_at_def empty_keyspace_def calm_choice_def zadd_all_def zadd_one_def
  Valkey_Claim_def run_script_def run_claim_def drop_key_def Let_def

lemma sample_vq_simps [simp]:
  "vq_str sample_vq 1 = ''t1''" "vq_parse sample_vq ''t1'' = Inr 1"
  "json_Marshal (vq_tickets sample_vq) d = Inr ''{}''" "json_Marshal (vq_events sample_vq) e = Inr ''{}''"
  by (simp_all add: sample_vq_def NewValkeyQueue_def)

lemma sample_vq_numbers [simp]:
  "ttlSeconds sample_vq = 1" "enqueue_score (sample_ticket 1 1 [] 62135596800000000005) = Fin 5"
  by code_simp+

lemma sample_ticket_simps [simp]: "Ticket_ID (sample_ticket a b c d) = a" "GameMode (sample_ticket a b c d) = ''rps''"
  by (simp_all add: sample_ticket_def)

lemma sample_race_eval:
  "vs_answers sample_race = [(CEnqueue (sample_ticket 1 1 [] 62135596800000000005), ADone None),
     (CClaim ''rps'' [1], AClaimed (Inr False)), (CClaim ''rps'' [1], AClaimed (Inr True))]"
  "vs_created sample_race = [''vfx:mq:ticket:t1'']"
  by (simp_all add: sample_race_def sample_schedule_def start_vq_def vk_map_def created_by_def numeral_eq_Suc vq_eval)

theorem valkey_claims_exclusive_witness:
  "sorted_wrt (\<lambda>a b. set (won a) \<inter> set (won b) = {}) (vs_answers sample_race) \<and> map won (vs_answers sample_race) = [[], [], [1]]"
proof -
  have "sorted_wrt (\<lambda>a b. set (won a) \<inter> set (won b) = {}) (vs_answers sample_race)"
  proof (rule valkey_claims_exclusive [where v = "(empty_keyspace, [])"])
    show "valkey_server sim_client fst expires" by (rule sim.valkey_server_axioms)
    show "(vq_step sim_client sample_vq)\<^sup>*\<^sup>* (start_vq (empty_keyspace, [])) sample_race"
      unfolding sample_race_def by (rule vq_run_steps)
    show "distinct (vs_created sample_race)" by (simp add: sample_race_eval)
  qed (simp add: zset_at_def empty_keyspace_def)
  then show ?thesis by (simp add: sample_race_eval)
qed

end
