(* ===== verification/Valkey_Contract.thy ===== *)
theory Valkey_Contract
  imports Valkey_Queue
begin

text \<open>
  What the shared queue promises its callers. The operations of \<open>internal/infra/matchqueue/valkey.go\<close>, run
  one after another by a gateway whose rivals act in between, meet the contract \<open>match_queue\<close> the
  matchmaker was verified against, and a subscription delivers the events of its ticket's stream.
\<close>


section \<open>The contract of the matchmaker\<close>

text \<open>
  \<open>match.Queue\<close> on the shared server, the calls run one after another. The channel of a subscription is
  fed by a goroutine of its own (\<open>subscriber\<close>) and has no number in the queue.
\<close>

definition Valkey_ops :: "'v vk_client \<Rightarrow> vq_env \<Rightarrow> 'v queue_ops" where
  "Valkey_ops client E = \<lparr>
     op_Enqueue = (\<lambda>t. run_vk client (Valkey_Enqueue E t)),
     op_Cancel = (\<lambda>tid. run_vk client (Valkey_Cancel E tid)),
     op_Subscribe = (\<lambda>tid. run_vk client (vk_map (\<lambda>err. case err of Some e \<Rightarrow> Inl e | None \<Rightarrow> Inr 0) (Valkey_Subscribe E tid))),
     op_Pending = (\<lambda>mode. run_vk client (Valkey_Pending E mode)),
     op_Claim = (\<lambda>mode ids. run_vk client (Valkey_Claim E mode ids)),
     op_Publish = (\<lambda>tid ev. run_vk client (Valkey_Publish E tid ev)),
     op_Depth = (\<lambda>mode. run_vk client (Valkey_Depth E mode))\<rparr>"

text \<open>
  What other replicas may do while a matchmaker works and no ticket is enqueued: claim, cancel and
  publish. Pending sets lose members and ticket keys disappear, nothing else happens to either.
\<close>

definition rivals :: "vq_env \<Rightarrow> keyspace \<Rightarrow> keyspace \<Rightarrow> bool" where
  "rivals E ks ks' \<longleftrightarrow>
     (\<forall>mode m. in_pending ks' m mode \<longrightarrow> in_pending ks m mode) \<and>
     (\<forall>mode. distinct (map fst (zset_at ks (pendingKey mode))) \<longrightarrow> distinct (map fst (zset_at ks' (pendingKey mode)))) \<and>
     (\<forall>tid. ks_data ks' (ticketKey E tid) = ks_data ks (ticketKey E tid) \<or> ks_data ks' (ticketKey E tid) = None)"

lemma rivals_refl [simp]: "rivals E ks ks"
  by (simp add: rivals_def)

lemma rivals_trans: "rivals E ks ks' \<Longrightarrow> rivals E ks' ks'' \<Longrightarrow> rivals E ks ks''"
  unfolding rivals_def by metis

definition ticket_at :: "vq_env \<Rightarrow> keyspace \<Rightarrow> uuid \<Rightarrow> Ticket option" where
  "ticket_at E ks tid = (case str_at ks (ticketKey E tid) of None \<Rightarrow> None
     | Some raw \<Rightarrow> (case unmarshalTicket E raw of Inl _ \<Rightarrow> None | Inr t \<Rightarrow> Some t))"

definition vq_waiting :: "vq_env \<Rightarrow> keyspace \<Rightarrow> string \<Rightarrow> uuid set" where
  "vq_waiting E ks mode = {tid. in_pending ks (vq_str E tid) mode \<and> ticket_at E ks tid \<noteq> None}"

definition vq_ok :: "vq_env \<Rightarrow> keyspace \<Rightarrow> bool" where
  "vq_ok E ks \<longleftrightarrow> (\<forall>mode. distinct (map fst (zset_at ks (pendingKey mode))) \<and>
      (\<forall>m. in_pending ks m mode \<longrightarrow> m \<in> range (vq_str E))) \<and>
     (\<forall>tid t. ticket_at E ks tid = Some t \<longrightarrow> Ticket_ID t = tid)"

lemma ticket_at_rivals: "rivals E ks ks' \<Longrightarrow> ticket_at E ks' tid = ticket_at E ks tid \<or> ticket_at E ks' tid = None"
  unfolding rivals_def ticket_at_def str_at_def by (metis (no_types, lifting) option.simps(4))

lemma vq_ok_rivals: "rivals E ks ks' \<Longrightarrow> vq_ok E ks \<Longrightarrow> vq_ok E ks'"
  using ticket_at_rivals [of E ks ks'] unfolding vq_ok_def rivals_def by (metis option.discI)

lemma vq_waiting_rivals: "rivals E ks ks' \<Longrightarrow> vq_waiting E ks' mode \<subseteq> vq_waiting E ks mode"
  using ticket_at_rivals [of E ks ks'] unfolding vq_waiting_def by (auto simp: rivals_def) (metis option.discI)

text \<open>The commands a rival sends: they add to no pending set and leave ticket keys alone.\<close>

definition is_ticketKey :: "string \<Rightarrow> bool" where
  "is_ticketKey k \<longleftrightarrow> take 14 k = ''vfx:mq:ticket:''"

fun writes_key :: "command \<Rightarrow> string option" where
  "writes_key (SET k _ _) = Some k" | "writes_key (SETNX k _ _) = Some k" | "writes_key (EXPIRE k _) = Some k"
| "writes_key (ZADD k _ _) = Some k" | "writes_key (ZREM k _) = Some k" | "writes_key (XADD k _ _) = Some k"
| "writes_key (EVAL _ k _) = Some k" | "writes_key _ = None"

definition rival_command :: "command \<Rightarrow> bool" where
  "rival_command c \<longleftrightarrow> spares_pending c \<and> (\<forall>m. \<not> adds m c) \<and> (\<forall>k. writes_key c = Some k \<longrightarrow> \<not> is_ticketKey k)"

lemma effect_other_keys: "writes_key c \<noteq> Some k \<Longrightarrow> ks_data (snd (vk_effect ch c ks)) k = ks_data ks k"
  by (cases c) (auto simp: set_key_def put_key_def expire_key_def put_zset_def drop_key_def append_stream_def Let_def
      run_script_def run_claim_def run_renew_def run_release_def split: option.split vk_value.split vk_script.split prod.split if_splits)

lemma keys_fst_delete: "distinct (map fst z) \<Longrightarrow> distinct (map fst (AList.delete m z))"
  by (simp add: distinct_delete)

lemma distinct_zrem_all: "distinct (map fst z) \<Longrightarrow> distinct (map fst (zrem_all as z))"
  by (induction as arbitrary: z) (simp_all add: distinct_delete)

lemma effect_distinct:
  assumes "spares_pending c" "\<And>m. \<not> adds m c" "distinct (map fst (zset_at ks (pendingKey mode)))"
  shows "distinct (map fst (zset_at (snd (vk_effect ch c ks)) (pendingKey mode)))"
proof (cases "writes_key c = Some (pendingKey mode)")
  case False
  then show ?thesis using assms(3) effect_other_keys [OF False, of ch ks] by (simp add: zset_at_def)
next
  case True
  have "sms = []" if "c = ZADD k flag sms" for k flag sms
    using that assms(2) by (cases sms) (auto simp: adds_def)
  with True show ?thesis using assms(1,3)
    by (cases c) (auto simp: spares_pending_def is_pendingKey_def zadd_all_def run_script_def run_claim_def
        distinct_delete distinct_zrem_all split: if_splits)
qed

lemma ticketKey_is [simp]: "is_ticketKey (ticketKey E tid)"
  by (simp add: is_ticketKey_def ticketKey_def)

lemma effect_rivals:
  assumes "rival_command c"
  shows "rivals E ks (snd (vk_effect ch c ks))"
proof -
  have c: "spares_pending c" "\<And>m. \<not> adds m c" "\<And>tid. writes_key c \<noteq> Some (ticketKey E tid)"
    using assms ticketKey_is [of E] unfolding rival_command_def by blast+
  show ?thesis unfolding rivals_def
    using effect_pending [OF c(1)] c(2) effect_distinct [OF c(1,2)] effect_other_keys [OF c(3)] by blast
qed

primrec rival_code :: "'a vk \<Rightarrow> bool" where
  "rival_code (Ret x) = True"
| "rival_code (Do c k) = (rival_command c \<and> (\<forall>r. rival_code (k r)))"

lemma rival_bind: "rival_code p \<Longrightarrow> (\<And>x. rival_code (f x)) \<Longrightarrow> rival_code (vk_bind p f)"
  by (induction p) auto

lemma rival_parts [simp]:
  "rival_code (setEvent E tid ev)" "rival_code (xaddEvent E tid ev)"
  "rival_code (getTicket E tid)"
  by (auto simp: setEvent_def xaddEvent_def getTicket_def calm_defs rival_command_def is_ticketKey_def eventKey_def streamKey_def
      is_pendingKey_def pendingKey_def split: sum.split option.split)

lemma rival_publish: "rival_code (Valkey_Publish E tid ev)"
  by (auto simp: Valkey_Publish_def publish_event_def calm_defs rival_command_def is_ticketKey_def pendingKey_def
      intro!: rival_bind split: sum.split option.split)


lemma in_pending_iff: "in_pending ks m mode \<longleftrightarrow> m \<in> fst ` set (zset_at ks (pendingKey mode))"
  unfolding in_pending_def map_of_eq_None_iff by simp

locale shared_queue = valkey_server client obs "rivals E"
  for client :: "'v vk_client" and obs :: "'v \<Rightarrow> keyspace" and E :: vq_env +
  assumes parse_str: "vq_parse E (vq_str E u) = Inr u"
begin

lemma client_rivals:
  assumes "rival_command c" "client c v = (r, v')"
  shows "rivals E (obs v) (obs v')"
proof -
  obtain ks ch where s: "rivals E (obs v) ks" "served ch c ks r (obs v')" using serves [OF assms(2)] by blast
  have "rivals E ks (obs v')"
    using s(2) effect_rivals [OF assms(1), of E ks ch] by (auto simp: served_def) (metis snd_conv)
  with s(1) show ?thesis by (rule rivals_trans)
qed

lemma run_rivals: "rival_code p \<Longrightarrow> run_vk client p v = (x, v') \<Longrightarrow> rivals E (obs v) (obs v')"
proof (induction p arbitrary: v)
  case (Do c k)
  obtain r v1 where c: "client c v = (r, v1)" by fastforce
  have "rivals E (obs v) (obs v1)" using client_rivals [OF _ c] Do.prems(1) by simp
  moreover have "rivals E (obs v1) (obs v')" using Do.IH [of "k r" v1] Do.prems c by auto
  ultimately show ?case by (rule rivals_trans)
qed simp

lemma str_eq [simp]: "vq_str E u = vq_str E u' \<longleftrightarrow> u = u'"
  by (metis Inr_inject parse_str)

lemma finite_vq_waiting: "finite (vq_waiting E ks mode)"
proof -
  have "vq_str E ` vq_waiting E ks mode \<subseteq> fst ` set (zset_at ks (pendingKey mode))"
    by (auto simp: vq_waiting_def in_pending_iff)
  then have "finite (vq_str E ` vq_waiting E ks mode)" by (rule finite_subset) simp
  then show ?thesis by (rule finite_imageD) (simp add: inj_on_def)
qed

text \<open>A ticket that is read was there before, whatever happened in between.\<close>

lemma getTicket_at:
  assumes "run_vk client (getTicket E tid) v = (Inr t, v')" and "rivals E ks0 (obs v)"
  shows "ticket_at E ks0 tid = Some t" and "rivals E ks0 (obs v')"
proof -
  obtain r where c: "client (GET (ticketKey E tid)) v = (r, v')" and t: "(case ToString r of
      Inl e \<Rightarrow> if IsValkeyNil e then Inl (MatchE ErrTicketNotFound) else Inl (Wrap ''matchqueue: get ticket'' e)
    | Inr raw \<Rightarrow> unmarshalTicket E raw) = Inr t"
    using assms(1) by (auto simp: getTicket_def split: prod.splits)
  then obtain raw where r: "r = BulkR raw" "unmarshalTicket E raw = Inr t"
    by (auto simp: ToString_def split: reply.splits sum.splits if_splits)
  obtain ks ch where s: "rivals E (obs v) ks" "served ch (GET (ticketKey E tid)) ks r (obs v')" using serves [OF c] by blast
  then have at: "ticket_at E ks tid = Some t"
    using r by (auto simp: served_def ticket_at_def str_at_def split: option.splits prod.splits vk_value.splits)
  show "ticket_at E ks0 tid = Some t"
    using ticket_at_rivals [OF rivals_trans [OF assms(2) s(1)], of tid] at by simp
  show "rivals E ks0 (obs v')"
    using rivals_trans [OF assms(2) run_rivals [OF _ assms(1)]] by simp
qed

lemma pending_loop_reads:
  assumes "run_vk client (pending_loop E ms out) v = (r, v')" "rivals E ks0 (obs v)" "vq_ok E ks0"
    and "\<forall>m \<in> set ms. in_pending ks0 m mode" "distinct (map (vq_str E \<circ> Ticket_ID) out @ ms)"
    and "Ticket_ID ` set out \<subseteq> vq_waiting E ks0 mode"
  shows "\<exists>ts. r = Inr ts \<and> distinct (map Ticket_ID ts) \<and> Ticket_ID ` set ts \<subseteq> vq_waiting E ks0 mode \<and> rivals E ks0 (obs v')"
  using assms(1,2,4-)
proof (induction ms arbitrary: out v)
  case Nil
  then show ?case by (auto simp: distinct_map comp_def inj_on_def)
next
  case (Cons m ms)
  obtain tid where m: "m = vq_str E tid" using assms(3) Cons.prems(3) by (auto simp: vq_ok_def)
  obtain tr v1 where g: "run_vk client (getTicket E tid) v = (tr, v1)" by fastforce
  have riv: "rivals E ks0 (obs v1)" using rivals_trans [OF Cons.prems(2) run_rivals [OF _ g]] by simp
  show ?case
  proof (cases tr)
    case (Inl e)
    then show ?thesis using Cons.IH [OF _ riv] Cons.prems g by (auto simp: m parse_str run_vk_bind)
  next
    case (Inr t)
    have at: "ticket_at E ks0 tid = Some t" using getTicket_at [OF _ Cons.prems(2)] g Inr by blast
    then have tid: "Ticket_ID t = tid" using assms(3) by (auto simp: vq_ok_def)
    have "tid \<in> vq_waiting E ks0 mode" using at Cons.prems(3) by (simp add: vq_waiting_def m)
    then show ?thesis using Cons.IH [of "out @ [t]" v1, OF _ riv] Cons.prems g Inr
      by (auto simp: m parse_str run_vk_bind tid)
  qed
qed

lemma Pending_reads:
  assumes "run_vk client (Valkey_Pending E mode) v = (r, v')" "vq_ok E (obs v)"
  shows "rivals E (obs v) (obs v') \<and>
    (\<forall>ts. r = Inr ts \<longrightarrow> distinct (map Ticket_ID ts) \<and> Ticket_ID ` set ts \<subseteq> vq_waiting E (obs v) mode)"
proof -
  obtain q v1 where c: "client (ZRANGE (pendingKey mode)) v = (q, v1)" by fastforce
  have riv: "rivals E (obs v) (obs v1)" using client_rivals [OF _ c] by (simp add: rival_command_def calm_defs)
  show ?thesis
  proof (cases "AsStrSlice q")
    case (Inl e)
    then show ?thesis using assms(1) c riv by (auto simp: Valkey_Pending_def)
  next
    case (Inr ms)
    then have q: "q = ArrayR ms" by (auto simp: AsStrSlice_def split: reply.splits)
    obtain ks ch where s: "rivals E (obs v) ks" "served ch (ZRANGE (pendingKey mode)) ks q (obs v1)" using serves [OF c] by blast
    then have ms: "ms = zset_members (zset_at ks (pendingKey mode))" using q by (auto simp: served_def split: if_splits)
    have ok: "vq_ok E ks" using vq_ok_rivals [OF s(1) assms(2)] .
    have mset: "mset ms = mset (map fst (zset_at ks (pendingKey mode)))"
      unfolding ms zset_members_def by (simp add: mset_sort_by)
    have d: "distinct ms" using ok mset by (metis mset_eq_imp_distinct_iff vq_ok_def)
    have "\<forall>m \<in> set ms. in_pending ks m mode"
      using mset_eq_setD [OF mset] by (simp add: in_pending_iff)
    then have "\<forall>m \<in> set ms. in_pending (obs v) m mode" using s(1) by (auto simp: rivals_def)
    then show ?thesis
      using pending_loop_reads [of ms "[]" v1 r v' "obs v" mode] assms c Inr riv d by (auto simp: Valkey_Pending_def)
  qed
qed

lemma shared_Claim_takes:
  assumes "run_vk client (Valkey_Claim E mode ids) v = (b, v')"
  shows "rivals E (obs v) (obs v')" and "b = Inr True \<Longrightarrow> vq_waiting E (obs v') mode \<inter> set ids = {}"
    and "b = Inr False \<Longrightarrow> \<not> set ids \<subseteq> vq_waiting E (obs v') mode"
proof -
  let ?c = "EVAL claimScript (pendingKey mode) (map (vq_str E) ids)"
  obtain r where c: "client ?c v = (r, v')" and b: "b = (case ToInt64 r of Inl e \<Rightarrow> Inl (Wrap ''matchqueue: claim eval'' e) | Inr res \<Rightarrow> Inr (res = 1))"
    using assms by (auto simp: Valkey_Claim_def split: prod.splits)
  have "rival_command ?c" by (simp add: rival_command_def calm_defs is_ticketKey_def pendingKey_def)
  then show "rivals E (obs v) (obs v')" using client_rivals c by blast
  obtain ks ch where s: "served ch ?c ks r (obs v')" using serves [OF c] by blast
  show "vq_waiting E (obs v') mode \<inter> set ids = {}" if "b = Inr True"
  proof -
    have "r = IntR 1" using b that by (auto simp: ToInt64_def split: reply.splits)
    then have "vk_effect ch ?c ks = (IntR 1, obs v')" using s by (simp add: served_def)
    then show ?thesis using claim_takes(2) [of ch mode "map (vq_str E) ids" ks "obs v'"] by (auto simp: vq_waiting_def)
  qed
  show "\<not> set ids \<subseteq> vq_waiting E (obs v') mode" if f: "b = Inr False"
  proof -
    obtain n where "r = IntR n" "n \<noteq> 1" using b f by (auto simp: ToInt64_def split: reply.splits)
    then have "(IntR n, obs v') = vk_effect ch ?c ks" "n \<noteq> 1" using s by (simp_all add: served_def)
    then have "obs v' = ks" "\<exists>a \<in> set ids. map_of (zset_at ks (pendingKey mode)) (vq_str E a) = None"
      by (auto simp: run_script_def run_claim_def list_ex_iff split: if_splits)
    then show ?thesis by (auto simp: vq_waiting_def in_pending_def)
  qed
qed

end

sublocale shared_queue \<subseteq> match_queue "Valkey_ops client E" "\<lambda>v. vq_ok E (obs v)" "\<lambda>v. vq_waiting E (obs v)"
proof
  fix q mode ids tid ev
  assume ok: "vq_ok E (obs q)"
  note keep = vq_ok_rivals [OF _ ok] vq_waiting_rivals
  show "finite (vq_waiting E (obs q) mode)" by (rule finite_vq_waiting)
  show "vq_ok E (obs q') \<and> (\<forall>m. vq_waiting E (obs q') m \<subseteq> vq_waiting E (obs q) m) \<and>
      (\<forall>ts. r = Inr ts \<longrightarrow> distinct (map Ticket_ID ts) \<and> Ticket_ID ` set ts \<subseteq> vq_waiting E (obs q) mode)"
    if "op_Pending (Valkey_ops client E) mode q = (r, q')" for r q'
    using Pending_reads [OF _ ok, of mode r q'] that keep by (simp add: Valkey_ops_def)
  show "vq_ok E (obs q') \<and> (\<forall>m. vq_waiting E (obs q') m \<subseteq> vq_waiting E (obs q) m) \<and>
      (b = Inr True \<longrightarrow> vq_waiting E (obs q') mode \<inter> set ids = {}) \<and> (b = Inr False \<longrightarrow> \<not> set ids \<subseteq> vq_waiting E (obs q') mode)"
    if "op_Claim (Valkey_ops client E) mode ids q = (b, q')" for b q'
    using shared_Claim_takes [of mode ids q b q'] that keep by (simp add: Valkey_ops_def)
  show "vq_ok E (obs q') \<and> (\<forall>m. vq_waiting E (obs q') m \<subseteq> vq_waiting E (obs q) m)"
    if "op_Publish (Valkey_ops client E) tid ev q = (err, q')" for err q'
    using run_rivals [OF rival_publish [of E tid ev], of q err q'] that keep by (simp add: Valkey_ops_def)
qed


context shared_queue
begin

lemmas shared_loop_terminates = process_loop_terminates

end

text \<open>An instance: a server without rivals, ids spelt in unary and tickets that carry only their id.\<close>

definition unary_tickets :: "ticketDTO json_codec" where
  "unary_tickets = \<lparr>json_Marshal = (\<lambda>d. Inr (td_ID d)), json_Unmarshal = (\<lambda>raw. Inr \<lparr>td_ID = raw, td_PlayerID = raw,
     td_GameMode = ''rps'', td_Rating = None, td_Region = None, td_PartyMembers = [], td_Attributes = [], td_EnqueuedAt = 0\<rparr>)\<rparr>"

definition unary_events :: "eventDTO json_codec" where
  "unary_events = \<lparr>json_Marshal = (\<lambda>d. Inr (ed_Type d)), json_Unmarshal = (\<lambda>raw. Inr (zero_event\<lparr>ed_Type := raw\<rparr>))\<rparr>"

definition unary_parse :: "string \<Rightarrow> go_error + uuid" where
  "unary_parse s = (if s = [] then Inl (ErrorString ''invalid UUID length: 0'') else Inr (of_nat (length s - 1)))"

definition unary_vq :: vq_env where
  "unary_vq = NewValkeyQueue unary_str unary_parse unary_tickets unary_events"

lemma unary_vq_simps [simp]:
  "vq_str unary_vq = unary_str" "vq_parse unary_vq (unary_str u) = Inr u"
  "json_Unmarshal (vq_events unary_vq) raw = Inr (zero_event\<lparr>ed_Type := raw\<rparr>)"
  by (simp_all add: unary_vq_def NewValkeyQueue_def unary_parse_def unary_str_def unary_events_def)

lemma unary_str_inj [simp]: "unary_str u = unary_str u' \<longleftrightarrow> u = u'"
  by (metis Inr_inject unary_vq_simps(2))

interpretation unary: shared_queue sim_client fst unary_vq
  by (intro shared_queue.intro shared_queue_axioms.intro sim_server) simp_all

definition shared_ks :: keyspace where
  "shared_ks = put_zset (pendingKey ''rps'') [(unary_str 1, Fin 5), (unary_str 2, Fin 6)]
     (put_key (ticketKey unary_vq 1) (StrV (unary_str 1)) (Some 1000)
     (put_key (ticketKey unary_vq 2) (StrV (unary_str 2)) (Some 1000) empty_keyspace))"

definition shared_maker :: "(keyspace \<times> vk_fault list, AssignmentInMem, unit) Matchmaker" where
  "shared_maker = \<lparr>mm_queue = Valkey_ops sim_client unary_vq, mm_allocator = mm_allocator sample_maker, mm_signer = mm_signer sample_maker,
     mm_assignments = Store_ops, mm_matcher = sample_matcher, mm_interval = 0, mm_sessionTokenTTL = Second,
     mm_candidateModes = [''rps''], mm_str = unary_str, mm_ord = (\<lambda>rs. rs), mm_errText = (\<lambda>e. ''failed'')\<rparr>"

definition shared_world :: "(keyspace \<times> vk_fault list, AssignmentInMem, unit) world" where
  "shared_world = \<lparr>w_queue = (shared_ks, [Fine, Fine, Refused, ReplyLost]), w_store = \<lparr>as_entries = [], as_now = 20\<rparr>, w_alloc = (),
     w_clock = (\<lambda>n. 20), w_reads = 0, w_depths = [], w_allocated = 0\<rparr>"

lemma pendingKey_not_ticketKey [simp]: "pendingKey mode \<noteq> ticketKey E tid" "ticketKey E tid \<noteq> pendingKey mode"
  by (simp_all add: pendingKey_def ticketKey_def)

lemma shared_ks_zset: "zset_at shared_ks (pendingKey mode) = (if mode = ''rps'' then [(unary_str 1, Fin 5), (unary_str 2, Fin 6)] else [])"
  by (simp add: shared_ks_def) (simp add: zset_at_def empty_keyspace_def)

lemma ticket_at_shared: "ticket_at unary_vq shared_ks tid = Some t \<Longrightarrow> Ticket_ID t = tid"
  by (auto simp: ticket_at_def str_at_def shared_ks_def put_zset_def put_key_def empty_keyspace_def ticketKey_def pendingKey_def
      unmarshalTicket_def unary_vq_def NewValkeyQueue_def unary_tickets_def unary_parse_def split: if_splits)
     (simp_all add: unary_str_def)

lemma shared_ks_ok: "vq_ok unary_vq shared_ks"
  unfolding vq_ok_def using ticket_at_shared by (auto simp: shared_ks_zset in_pending_iff split: if_splits)

lemma shared_ks_waiting: "card (vq_waiting unary_vq shared_ks ''rps'') < 3"
proof -
  have "vq_waiting unary_vq shared_ks ''rps'' \<subseteq> {1, 2}" by (auto simp: vq_waiting_def in_pending_iff shared_ks_zset)
  from card_mono [OF _ this] show ?thesis by simp
qed

text \<open>
  C34. A pass of the matchmaker over a mode of the shared queue always ends: while rival replicas claim,
  cancel and publish between any two of its commands, keys expire and commands fail, fuel beyond the
  number of waiting tickets is enough, because a round that does not stop has taken a ticket out of
  the pool or has lost one to a rival.
\<close>

theorem shared_matchmaker_terminates:
  assumes "valkey_server client obs (rivals E)" and "\<And>u. vq_parse E (vq_str E u) = Inr u"
    and "mm_queue m = Valkey_ops client E" and "\<And>rs. mset (mm_ord m rs) = mset rs" and "playersPerMatch (mm_matcher m) \<ge> 1"
    and "vq_ok E (obs (w_queue w))" and "card (vq_waiting E (obs (w_queue w)) mode) < fuel"
  shows "\<exists>r w'. processMode fuel m mode w = Some (r, w')"
proof -
  have q: "shared_queue client obs E" using assms(1,2) by (simp add: shared_queue_def shared_queue_axioms_def)
  show ?thesis
    using shared_queue.shared_loop_terminates [OF q assms(3-5), of "snd (clock_Now w)" mode fuel "fst (clock_Now w)"] assms(6,7)
    by (simp add: processMode_def clock_Now_def)
qed

theorem shared_matchmaker_terminates_witness:
  "\<exists>r w'. processMode 3 shared_maker ''rps'' shared_world = Some (r, w')"
proof (rule shared_matchmaker_terminates [where E = unary_vq and obs = fst and client = sim_client])
  show "valkey_server sim_client fst (rivals unary_vq)" by (rule unary.valkey_server_axioms)
qed (simp_all add: shared_maker_def shared_world_def sample_matcher_def NewMatcher_def shared_ks_ok shared_ks_waiting)

text \<open>
  A retried \<open>Enqueue\<close> may lose its ticket: when the first attempt set the ticket key and then failed, the
  retry takes the key for a finished enqueue and reports success, and the ticket is in no pending set.
\<close>

lemma enqueue_retry_loses_ticket:
  assumes "marshalTicket E t = Inr raw" "ttlSeconds E > 0" "ks_data ks (ticketKey E (Ticket_ID t)) = None"
  shows "\<exists>err ks'. run_vk sim_client (Valkey_Enqueue E t) (ks, [Fine, Refused]) = (Some err, (ks', [])) \<and>
    run_vk sim_client (Valkey_Enqueue E t) (ks', []) = (None, (ks', [])) \<and>
    (\<forall>mode. zset_at ks' (pendingKey mode) = zset_at ks (pendingKey mode))"
  using assms
  by (simp add: Valkey_Enqueue_def set_key_def reply_Error_def ToInt64_def IsValkeyNil_def) (simp add: put_key_def)


section \<open>What a subscriber receives\<close>

text \<open>
  While a subscription lasts, others append to the ticket's stream, with increasing ids. \<open>decoded\<close> are the
  events a stream stands for: entries that do not decode are skipped, and nothing follows a terminal
  event.
\<close>

definition stream_ok :: "string \<Rightarrow> keyspace \<Rightarrow> bool" where
  "stream_ok k ks \<longleftrightarrow> is_stream ks k \<and> sorted_wrt (<) (map fst (stream_at ks k))"

definition grows :: "string \<Rightarrow> keyspace \<Rightarrow> keyspace \<Rightarrow> bool" where
  "grows k ks ks' \<longleftrightarrow> (stream_ok k ks \<longrightarrow> stream_ok k ks') \<and> prefix (stream_at ks k) (stream_at ks' k)"

lemma grows_refl [simp]: "grows k ks ks"
  by (simp add: grows_def)

fun decoded :: "vq_env \<Rightarrow> stream \<Rightarrow> Event list" where
  "decoded E [] = []"
| "decoded E ((n, fs) # entries) =
     (case unmarshalEvent E (case map_of fs ''event'' of Some raw \<Rightarrow> raw | None \<Rightarrow> []) of
        Inl e \<Rightarrow> if e = nil_dereference then [] else decoded E entries
      | Inr ev \<Rightarrow> if isTerminalEvent ev then [ev] else ev # decoded E entries)"

definition settled :: "vq_env \<Rightarrow> stream \<Rightarrow> bool" where
  "settled E s \<longleftrightarrow> decoded E s \<noteq> [] \<and> isTerminalEvent (last (decoded E s))"

definition position :: "stream \<Rightarrow> stream_from" where
  "position c = (if c = [] then From0 else After (fst (last c)))"

text \<open>\<open>open_after E c\<close>: the events of \<open>c\<close> do not end the stream.\<close>

definition open_after :: "vq_env \<Rightarrow> stream \<Rightarrow> bool" where
  "open_after E c \<longleftrightarrow> (\<forall>rest. decoded E (c @ rest) = decoded E c @ decoded E rest)"

lemma forward_sends:
  "forward E sends entries (position c) = (evs, reached, stop) \<Longrightarrow>
     evs = take sends (decoded E entries) \<and>
     (stop \<longrightarrow> (\<forall>rest. prefix evs (decoded E (entries @ rest))) \<and> (\<forall>rest. length (decoded E (entries @ rest)) \<le> sends \<longrightarrow> evs = decoded E (entries @ rest))) \<and>
     (\<not> stop \<longrightarrow> reached = position (c @ entries) \<and> open_after E entries \<and> length (decoded E entries) \<le> sends \<and> \<not> settled E entries)"
proof (induction entries arbitrary: sends c evs reached stop)
  case Nil
  then show ?case by (simp add: open_after_def settled_def)
next
  case (Cons entry entries)
  obtain n fs where entry: "entry = (n, fs)" by (cases entry)
  have pos: "After n = position (c @ [entry])" by (simp add: position_def entry)
  let ?d = "unmarshalEvent E (case map_of fs ''event'' of Some raw \<Rightarrow> raw | None \<Rightarrow> [])"
  show ?case
  proof (cases ?d)
    case (Inl e)
    then show ?thesis
      using Cons.IH [of sends "c @ [entry]" evs reached stop] Cons.prems
      by (auto simp: entry pos [symmetric, unfolded entry] open_after_def settled_def split: if_splits)
  next
    case (Inr ev)
    show ?thesis
    proof (cases sends)
      case 0
      then show ?thesis using Inr Cons.prems by (auto simp: entry)
    next
      case (Suc left)
      show ?thesis
      proof (cases "isTerminalEvent ev")
        case True
        then show ?thesis using Inr Suc Cons.prems by (auto simp: entry)
      next
        case False
        obtain evs' where f: "forward E left entries (position (c @ [entry])) = (evs', reached, stop)" "evs = ev # evs'"
          using Cons.prems Inr Suc False pos by (auto simp: entry split: prod.splits)
        then show ?thesis using Cons.IH [OF f(1)] Inr Suc False
          by (auto simp: entry open_after_def settled_def split: if_splits)
      qed
    qed
  qed
qed

lemma entries_from:
  assumes "sorted_wrt (<) (map fst (c @ rest))" "c \<noteq> []"
  shows "entries_after (fst (last c)) (c @ rest) = rest"
proof -
  have "\<forall>e \<in> set c. fst e \<le> fst (last c)"
    using assms by (induction c) (auto simp: sorted_wrt_append less_imp_le)
  moreover have "\<forall>e \<in> set rest. fst (last c) < fst e"
    using assms by (auto simp: sorted_wrt_append)
  ultimately show ?thesis by (auto simp: entries_after_def filter_empty_conv filter_id_conv not_less)
qed

lemma read_position:
  assumes "stream_ok k ks" "stream_at ks k = c @ rest"
  shows "vk_effect ch (XREAD n k (position c)) ks = (if take n rest = [] then NilR else StreamR [(k, take n rest)], ks)"
  using assms entries_from [of c rest] by (auto simp: stream_ok_def read_stream_def position_def Let_def)

lemma settled_absorbs: "settled E s \<Longrightarrow> decoded E (s @ tail) = decoded E s"
  by (induction s rule: decoded.induct) (auto simp: settled_def split: sum.splits if_splits)

text \<open>From a state in \<open>calm\<close> on, reads of the stream do not fail.\<close>

definition reads_well :: "'v vk_client \<Rightarrow> ('v \<Rightarrow> keyspace) \<Rightarrow> string \<Rightarrow> ('v \<Rightarrow> bool) \<Rightarrow> bool" where
  "reads_well client obs k calm \<longleftrightarrow> (\<forall>from w r w'. calm w \<longrightarrow> stream_ok k (obs w) \<longrightarrow> client (XREAD 64 k from) w = (r, w') \<longrightarrow>
     calm w' \<and> (\<forall>e. r \<noteq> ErrR e))"

locale subscription = valkey_server client obs "grows k"
  for client :: "'v vk_client" and obs :: "'v \<Rightarrow> keyspace" and k :: string +
  fixes E :: vq_env and tid :: uuid
  assumes key: "k = streamKey E tid"
begin

text \<open>One read: the stream has grown, and the reply has what follows the position, or is an error.\<close>

lemma read_step:
  assumes "client (XREAD 64 k (position c)) v = (r, v')" "stream_ok k (obs v)" "stream_at (obs v) k = c @ rest"
  obtains tail where "stream_ok k (obs v')" "stream_at (obs v') k = c @ rest @ tail"
    and "(\<exists>e. r = ErrR e \<and> \<not> IsValkeyNil e) \<or>
         r = (if take 64 (rest @ tail) = [] then NilR else StreamR [(k, take 64 (rest @ tail))])"
proof -
  obtain ks ch where g: "grows k (obs v) ks" and s: "served ch (XREAD 64 k (position c)) ks r (obs v')"
    using serves [OF assms(1)] by blast
  obtain tail where tail: "stream_at ks k = c @ rest @ tail" using g assms(3) by (auto simp: grows_def prefix_def)
  have ok: "stream_ok k ks" using g assms(2) by (simp add: grows_def)
  note eff = read_position [OF ok tail, of ch 64]
  have "obs v' = ks" using s eff by (auto simp: served_def)
  then show ?thesis using that [of tail] ok tail s eff by (auto simp: served_def)
qed

lemma subscriber_prefix:
  assumes "run_vk client (subscriber E tid reads sends (position c)) v = (evs, v')" "stream_ok k (obs v)" "stream_at (obs v) k = c @ rest"
  shows "\<exists>rest'. stream_at (obs v') k = c @ rest' \<and> prefix evs (decoded E rest')"
  using assms
proof (induction reads arbitrary: sends c v rest evs)
  case (Suc reads)
  obtain r v1 where r: "client (XREAD 64 k (position c)) v = (r, v1)" by fastforce
  obtain tail where st: "stream_ok k (obs v1)" "stream_at (obs v1) k = c @ rest @ tail"
    and rep: "(\<exists>e. r = ErrR e \<and> \<not> IsValkeyNil e) \<or>
      r = (if take 64 (rest @ tail) = [] then NilR else StreamR [(k, take 64 (rest @ tail))])"
    using read_step [OF r Suc.prems(2,3)] by blast
  let ?new = "take 64 (rest @ tail)"
  consider (err) e where "r = ErrR e" "\<not> IsValkeyNil e" | (quiet) "r = NilR" | (some) "r = StreamR [(k, ?new)]"
    using rep by (auto split: if_splits)
  then show ?case
  proof cases
    case err
    then show ?thesis using Suc.prems(1) r st by (auto simp: key AsXRead_def)
  next
    case quiet
    then have "run_vk client (subscriber E tid reads sends (position c)) v1 = (evs, v')"
      using Suc.prems(1) r by (simp add: key AsXRead_def IsValkeyNil_def)
    then show ?thesis using Suc.IH st by blast
  next
    case some
    obtain now reached stop where f: "forward E sends ?new (position c) = (now, reached, stop)" by (metis prod_cases3)
    show ?thesis
    proof (cases stop)
      case True
      then have "evs = now" "v' = v1" using Suc.prems(1) r some f by (simp_all add: key AsXRead_def)
      moreover have "prefix now (decoded E (rest @ tail))" using forward_sends [OF f] True by (metis append_take_drop_id)
      ultimately show ?thesis using st by blast
    next
      case False
      then have at: "reached = position (c @ ?new)" "open_after E ?new" "now = decoded E ?new" using forward_sends [OF f] by auto
      obtain later where l: "run_vk client (subscriber E tid reads (sends - length now) (position (c @ ?new))) v1 = (later, v')" "evs = now @ later"
        using Suc.prems(1) r some f False at(1) by (auto simp: key AsXRead_def run_vk_bind split: prod.splits)
      then obtain rest' where "stream_at (obs v') k = (c @ ?new) @ rest'" "prefix later (decoded E rest')"
        using Suc.IH [OF l(1) st(1), of "drop 64 (rest @ tail)"] st(2) by (simp only: append_assoc append_take_drop_id) blast
      then show ?thesis using at l(2) by (auto simp: open_after_def)
    qed
  qed
qed auto

lemma subscriber_complete:
  assumes "run_vk client (subscriber E tid reads sends (position c)) v = (evs, v')" "stream_ok k (obs v)" "stream_at (obs v) k = c @ rest @ extra"
    and "reads_well client obs k calm" and "settled E rest" "length rest \<le> reads" "length (decoded E rest) \<le> sends" "calm v"
  shows "evs = decoded E rest"
  using assms(1-3,5-)
proof (induction reads arbitrary: sends c v rest extra evs)
  case 0
  then show ?case by (simp add: settled_def)
next
  case (Suc reads)
  obtain r v1 where r: "client (XREAD 64 k (position c)) v = (r, v1)" by fastforce
  obtain tail where st: "stream_ok k (obs v1)" "stream_at (obs v1) k = c @ rest @ extra @ tail"
    and rep: "(\<exists>e. r = ErrR e \<and> \<not> IsValkeyNil e) \<or>
      r = (if take 64 (rest @ extra @ tail) = [] then NilR else StreamR [(k, take 64 (rest @ extra @ tail))])"
    using read_step [OF r Suc.prems(2,3)] unfolding append_assoc by blast
  let ?new = "take 64 (rest @ extra @ tail)"
  have ne: "rest \<noteq> []" using Suc.prems(4) by (auto simp: settled_def)
  then have some: "r = StreamR [(k, ?new)]" and calm: "calm v1" using rep assms(4) Suc.prems(2,7) r by (auto simp: reads_well_def)
  obtain now reached stop where f: "forward E sends ?new (position c) = (now, reached, stop)" by (metis prod_cases3)
  have same: "decoded E (?new @ drop 64 (rest @ extra @ tail)) = decoded E rest"
    using settled_absorbs [OF Suc.prems(4), of "extra @ tail"] by (simp only: append_take_drop_id)
  show ?case
  proof (cases stop)
    case True
    then have "evs = now" using Suc.prems(1) r some f by (simp add: key AsXRead_def)
    then show ?thesis using forward_sends [OF f] True same Suc.prems(6) by metis
  next
    case False
    then have at: "reached = position (c @ ?new)" "open_after E ?new" "now = decoded E ?new" "\<not> settled E ?new"
      using forward_sends [OF f] by auto
    have long: "64 < length rest"
    proof (rule ccontr)
      assume "\<not> 64 < length rest"
      then have "?new = rest @ take (64 - length rest) (extra @ tail)" by simp
      then show False using at(4) settled_absorbs [OF Suc.prems(4)] Suc.prems(4) by (simp add: settled_def)
    qed
    then have new: "?new = take 64 rest" by simp
    obtain later where l: "run_vk client (subscriber E tid reads (sends - length now) (position (c @ take 64 rest))) v1 = (later, v')" "evs = now @ later"
      using Suc.prems(1) r some f False at(1) new by (auto simp: key AsXRead_def run_vk_bind split: prod.splits)
    have dec: "decoded E rest = now @ decoded E (drop 64 rest)"
      using at(2,3) new by (metis append_take_drop_id open_after_def)
    then have "settled E (drop 64 rest)"
      using Suc.prems(4) at(3,4) new by (auto simp: settled_def last_append split: if_splits)
    moreover have "stream_at (obs v1) k = (c @ take 64 rest) @ drop 64 rest @ extra @ tail" using st(2) by simp
    ultimately have "later = decoded E (drop 64 rest)"
      using Suc.IH [OF l(1) st(1)] Suc.prems(5,6) long dec calm by simp
    then show ?thesis using l(2) dec by simp
  qed
qed

end

definition event_fields :: "string \<Rightarrow> fields" where
  "event_fields raw = [(''event'', raw)]"

definition sample_stream :: stream where
  "sample_stream = [(1, event_fields ''queued''), (2, event_fields ''noise''), (4, event_fields ''failed''), (5, event_fields ''queued'')]"

definition stream_ks :: keyspace where
  "stream_ks = put_key (streamKey unary_vq 7) (StreamV sample_stream) (Some 1000) empty_keyspace"

interpretation sample_sub: subscription sim_client fst "streamKey unary_vq 7" unary_vq 7
  by (intro subscription.intro subscription_axioms.intro sim_server) simp_all

text \<open>
  C35. A subscriber of the shared queue misses nothing: whatever others append to the ticket's stream while
  it reads, the events it has sent on are an initial part of the events the stream stands for, in
  order, from the first one on and never beyond a terminal event. When the terminal event is in the
  stream, reads do not fail and the receiver keeps receiving, all of them are sent.
\<close>

theorem subscriber_misses_nothing:
  assumes "valkey_server client obs (grows (streamKey E tid))" and "stream_ok (streamKey E tid) (obs v)"
    and "run_vk client (subscriber E tid reads sends From0) v = (evs, v')"
  defines "s \<equiv> stream_at (obs v) (streamKey E tid)"
  shows "prefix evs (decoded E (stream_at (obs v') (streamKey E tid))) \<and>
    (settled E s \<and> reads_well client obs (streamKey E tid) calm \<and> calm v \<and>
       length s \<le> reads \<and> length (decoded E s) \<le> sends \<longrightarrow> evs = decoded E s)"
proof -
  have sub: "subscription client obs (streamKey E tid) E tid"
    using assms(1) by (simp add: subscription_def subscription_axioms_def)
  have run: "run_vk client (subscriber E tid reads sends (position [])) v = (evs, v')"
    using assms(3) by (simp add: position_def)
  have "stream_at (obs v) (streamKey E tid) = [] @ s @ []" by (simp add: s_def)
  then show ?thesis
    using subscription.subscriber_prefix [OF sub run assms(2)] subscription.subscriber_complete [OF sub run assms(2), of s "[]" calm]
    by auto
qed

theorem subscriber_misses_nothing_witness:
  "fst (run_vk sim_client (subscriber unary_vq 7 4 2 From0) (stream_ks, [])) = [EventQueued 0 0, EventFailed [] []]"
proof -
  let ?k = "streamKey unary_vq 7"
  have at: "stream_at stream_ks ?k = sample_stream" by (simp add: stream_ks_def stream_at_def put_key_def)
  have dec: "decoded unary_vq sample_stream = [EventQueued 0 0, EventFailed [] []]"
    by (simp add: sample_stream_def event_fields_def unmarshalEvent_def zero_event_def isTerminalEvent_def nil_dereference_def)
  have well: "reads_well sim_client fst ?k (\<lambda>w. snd w = [])"
    by (auto simp: reads_well_def stream_ok_def read_stream_def Let_def split: if_splits)
  have ok: "stream_ok ?k stream_ks"
    by (simp add: stream_ok_def at) (simp add: is_stream_def stream_ks_def put_key_def sample_stream_def)
  obtain evs v' where run: "run_vk sim_client (subscriber unary_vq 7 4 2 From0) (stream_ks, []) = (evs, v')" by (metis surj_pair)
  have "evs = decoded unary_vq sample_stream"
    using subscriber_misses_nothing [OF sample_sub.valkey_server_axioms, of "(stream_ks, [])" 4 2 evs v' "\<lambda>w. snd w = []"] run ok well at dec
    by (simp add: settled_def isTerminalEvent_def) (simp add: sample_stream_def)
  then show ?thesis using run dec by simp
qed

end
