(* ===== verification/Valkey_Stores.thy ===== *)
theory Valkey_Stores
  imports Valkey_Contract
begin

text \<open>
  Two small users of the shared server: the store of current assignments
  (\<open>internal/infra/assignmentstore/valkey.go\<close>), from which a player who lost the connection recovers the
  room, and the lease that lets one replica at a time run the matchmaker
  (\<open>internal/infra/leaderlock\<close>).
\<close>


text \<open>A key nobody else touches and whose time to live does not run out.\<close>

definition keeps :: "string \<Rightarrow> keyspace \<Rightarrow> keyspace \<Rightarrow> bool" where
  "keeps k ks ks' \<longleftrightarrow> ks_data ks' k = ks_data ks k"

lemma keeps_refl [simp]: "keeps k ks ks"
  by (simp add: keeps_def)

section \<open>The assignment store\<close>

definition assignment_key :: "vq_env \<Rightarrow> uuid \<Rightarrow> string" where
  "assignment_key E playerID = ''vfx:assignment:'' @ vq_str E playerID"

definition Assignment_Put :: "vq_env \<Rightarrow> matchDTO json_codec \<Rightarrow> uuid \<Rightarrow> Assignment \<Rightarrow> duration \<Rightarrow> go_error option vk" where
  "Assignment_Put E J playerID a ttl = (case json_Marshal J \<lparr>md_MatchID = vq_str E (Assignment_MatchID a), md_Endpoint = Endpoint a,
       md_SessionToken = SessionToken a, md_ExpiresAt = ExpiresAt a\<rparr> of
     Inl e \<Rightarrow> Ret (Some (Wrap ''assignmentstore: marshal'' e))
   | Inr payload \<Rightarrow>
       let seconds = (if whole_seconds ttl < 1 then 1 else whole_seconds ttl)
       in do_err ''assignmentstore: set'' (SET (assignment_key E playerID) payload (1000 * seconds)))"

definition Assignment_Get :: "vq_env \<Rightarrow> matchDTO json_codec \<Rightarrow> uuid \<Rightarrow> (go_error + Assignment option) vk" where
  "Assignment_Get E J playerID = Do (GET (assignment_key E playerID)) (\<lambda>r. Ret (case ToString r of
     Inl e \<Rightarrow> if IsValkeyNil e then Inr None else Inl (Wrap ''assignmentstore: get'' e)
   | Inr raw \<Rightarrow> (case json_Unmarshal J raw of
       Inl e \<Rightarrow> Inl (Wrap ''assignmentstore: unmarshal'' e)
     | Inr dto \<Rightarrow> (case vq_parse E (md_MatchID dto) of
         Inl e \<Rightarrow> Inl (Wrap ''assignmentstore: parse match id'' e)
       | Inr matchID \<Rightarrow> Inr (Some \<lparr>Assignment_MatchID = matchID, Endpoint = md_Endpoint dto,
           SessionToken = md_SessionToken dto, ExpiresAt = md_ExpiresAt dto\<rparr>)))))"

definition Valkey_store_ops :: "'v vk_client \<Rightarrow> vq_env \<Rightarrow> matchDTO json_codec \<Rightarrow> 'v store_ops" where
  "Valkey_store_ops client E J = \<lparr>op_Put = (\<lambda>p a ttl. run_vk client (Assignment_Put E J p a ttl)),
     op_Get = (\<lambda>p. run_vk client (Assignment_Get E J p))\<rparr>"

text \<open>What the JSON library does for the strings and instants it can represent: decoding gives back what was encoded.\<close>

definition json_roundtrip :: "'d json_codec \<Rightarrow> 'd \<Rightarrow> bool" where
  "json_roundtrip J d \<longleftrightarrow> (\<forall>raw. json_Marshal J d = Inr raw \<longrightarrow> json_Unmarshal J raw = Inr d)"

context valkey_server
begin

lemma set_key_served:
  assumes "client (SET k x ttl) v = (r, v')" "reply_Error r = None"
  shows "ks_data (obs v') k = Some (StrV x, Some ttl)"
proof -
  obtain ks ch where "served ch (SET k x ttl) ks r (obs v')" using serves [OF assms(1)] by blast
  then have "(r, obs v') = set_key k x ttl ks" using assms(2) by (auto simp: served_def reply_Error_def)
  then show ?thesis using assms(2) by (auto simp: set_key_def put_key_def reply_Error_def split: if_splits)
qed

lemma get_key_served:
  assumes "client (GET k) v = (r, v')" "rely = keeps k" "ks_data (obs v) k = Some (StrV x, ttl)"
  shows "(\<exists>e. r = ErrR e \<and> \<not> IsValkeyNil e) \<or> r = BulkR x"
proof -
  obtain ks ch where "rely (obs v) ks" "served ch (GET k) ks r (obs v')" using serves [OF assms(1)] by blast
  then show ?thesis using assms(2,3) by (auto simp: served_def keeps_def)
qed

end

text \<open>The key lives for the whole seconds of the lifetime asked for, the rest dropped, and for one second when there is none.\<close>

lemma Assignment_Put_stores:
  assumes "valkey_server client obs rely" and "op_Put (Valkey_store_ops client E J) p a ttl v = (None, v')"
  shows "\<exists>payload. json_Marshal J \<lparr>md_MatchID = vq_str E (Assignment_MatchID a), md_Endpoint = Endpoint a,
       md_SessionToken = SessionToken a, md_ExpiresAt = ExpiresAt a\<rparr> = Inr payload \<and>
     ks_data (obs v') (assignment_key E p) = Some (StrV payload, Some (1000 * max 1 (whole_seconds ttl)))"
proof -
  let ?k = "assignment_key E p"
  obtain payload where pay: "json_Marshal J \<lparr>md_MatchID = vq_str E (Assignment_MatchID a), md_Endpoint = Endpoint a,
       md_SessionToken = SessionToken a, md_ExpiresAt = ExpiresAt a\<rparr> = Inr payload"
    using assms(2) by (auto simp: Valkey_store_ops_def Assignment_Put_def split: sum.splits)
  obtain r where c: "client (SET ?k payload (1000 * max 1 (whole_seconds ttl))) v = (r, v')" and "reply_Error r = None"
    using assms(2) pay by (auto simp: Valkey_store_ops_def Assignment_Put_def Let_def do_err_def max_def split: prod.splits if_splits)
  then have "ks_data (obs v') ?k = Some (StrV payload, Some (1000 * max 1 (whole_seconds ttl)))"
    by (rule valkey_server.set_key_served [OF assms(1)])
  then show ?thesis using pay by blast
qed

text \<open>
  The comment above the computation says the lifetime is rounded up to whole seconds; it is cut: an assignment stored
  for 1.5 seconds is gone after one.
\<close>

lemma assignment_ttl_truncated:
  assumes "valkey_server client obs rely" and "op_Put (Valkey_store_ops client E J) p a 1500000000 v = (None, v')"
  shows "ttl_at (obs v') (assignment_key E p) = Some 1000"
proof -
  have "whole_seconds 1500000000 = 1" by code_simp
  then show ?thesis using Assignment_Put_stores [OF assms] by (auto simp: ttl_at_def)
qed

text \<open>
  C36. A player recovers the room from any replica: after a \<open>Put\<close> that reported success, and as long as the
  key has neither expired nor been written again, \<open>Get\<close> returns exactly the assignment or a failure of the server, never another
  assignment and never that there is none.
\<close>

theorem assignment_recovered:
  assumes "valkey_server client obs (keeps (assignment_key E p))" and "\<And>u. vq_parse E (vq_str E u) = Inr u"
    and "json_roundtrip J \<lparr>md_MatchID = vq_str E (Assignment_MatchID a), md_Endpoint = Endpoint a,
       md_SessionToken = SessionToken a, md_ExpiresAt = ExpiresAt a\<rparr>"
    and "op_Put (Valkey_store_ops client E J) p a ttl v = (None, v')"
  shows "case op_Get (Valkey_store_ops client E J) p v' of
       (Inr got, _) \<Rightarrow> got = Some a
     | (Inl err, _) \<Rightarrow> \<exists>e. err = Wrap ''assignmentstore: get'' e"
proof -
  let ?k = "assignment_key E p"
  obtain payload where pay: "json_Marshal J \<lparr>md_MatchID = vq_str E (Assignment_MatchID a), md_Endpoint = Endpoint a,
       md_SessionToken = SessionToken a, md_ExpiresAt = ExpiresAt a\<rparr> = Inr payload"
    and at: "ks_data (obs v') ?k = Some (StrV payload, Some (1000 * max 1 (whole_seconds ttl)))"
    using Assignment_Put_stores [OF assms(1,4)] by blast
  obtain q v'' where g: "client (GET ?k) v' = (q, v'')" by fastforce
  have "(\<exists>e. q = ErrR e \<and> \<not> IsValkeyNil e) \<or> q = BulkR payload"
    by (rule valkey_server.get_key_served [OF assms(1) g refl at])
  moreover have "json_Unmarshal J payload = Inr \<lparr>md_MatchID = vq_str E (Assignment_MatchID a), md_Endpoint = Endpoint a,
       md_SessionToken = SessionToken a, md_ExpiresAt = ExpiresAt a\<rparr>"
    using assms(3) pay by (simp add: json_roundtrip_def)
  ultimately show ?thesis using g assms(2)
    by (auto simp: Valkey_store_ops_def Assignment_Get_def ToString_def)
qed

definition sample_json :: "Assignment \<Rightarrow> matchDTO json_codec" where
  "sample_json a = \<lparr>json_Marshal = (\<lambda>_. Inr ''{}''), json_Unmarshal = (\<lambda>_. Inr \<lparr>md_MatchID = unary_str (Assignment_MatchID a),
     md_Endpoint = Endpoint a, md_SessionToken = SessionToken a, md_ExpiresAt = ExpiresAt a\<rparr>)\<rparr>"

definition sample_assignment :: Assignment where
  "sample_assignment = \<lparr>Assignment_MatchID = 9, Endpoint = ''h:1'', SessionToken = ''tok'', ExpiresAt = 80\<rparr>"

theorem assignment_recovered_witness:
  "fst (op_Get (Valkey_store_ops sim_client unary_vq (sample_json sample_assignment)) 3
     (snd (op_Put (Valkey_store_ops sim_client unary_vq (sample_json sample_assignment)) 3 sample_assignment 1500000000 (empty_keyspace, []))))
   = Inr (Some sample_assignment)"
proof -
  let ?O = "Valkey_store_ops sim_client unary_vq (sample_json sample_assignment)"
  have secs: "whole_seconds 1500000000 = 1" by code_simp
  have put: "op_Put ?O 3 sample_assignment 1500000000 (empty_keyspace, []) =
      (None, (put_key (assignment_key unary_vq 3) (StrV ''{}'') (Some 1000) empty_keyspace, []))"
    by (simp add: Valkey_store_ops_def Assignment_Put_def sample_json_def secs do_err_def set_key_def reply_Error_def)
  have "valkey_server sim_client fst (keeps (assignment_key unary_vq 3))" by (rule sim_server) simp
  then have "case op_Get ?O 3 (put_key (assignment_key unary_vq 3) (StrV ''{}'') (Some 1000) empty_keyspace, []) of
      (Inr got, _) \<Rightarrow> got = Some sample_assignment | (Inl err, _) \<Rightarrow> \<exists>e. err = Wrap ''assignmentstore: get'' e"
    using assignment_recovered [of sim_client fst unary_vq 3 "sample_json sample_assignment" sample_assignment, OF _ _ _ put]
    by (simp add: json_roundtrip_def sample_json_def)
  then show ?thesis unfolding put
    by (auto simp: Valkey_store_ops_def Assignment_Get_def put_key_def ToString_def split: prod.splits sum.splits)
qed


section \<open>The leader lock\<close>

record lock_config =
  lock_Key :: string
  lock_TTL :: duration

text \<open>A lifetime that is not positive becomes fifteen seconds; the lease is renewed three times in it.\<close>

definition lease_ttl :: "lock_config \<Rightarrow> duration" where
  "lease_ttl cfg = (if lock_TTL cfg \<le> 0 then 15 * Second else lock_TTL cfg)"

definition renewEvery :: "lock_config \<Rightarrow> duration" where
  "renewEvery cfg = trunc_div (lease_ttl cfg) 3"

definition pollEvery :: "lock_config \<Rightarrow> duration" where
  "pollEvery cfg = trunc_div (lease_ttl cfg) 2"

definition Milliseconds :: "duration \<Rightarrow> int" where
  "Milliseconds d = trunc_div d Millisecond"

definition acquire :: "string \<Rightarrow> string \<Rightarrow> duration \<Rightarrow> (go_error + bool) vk" where
  "acquire key me ttl = Do (SETNX key me (Milliseconds ttl)) (\<lambda>res. Ret (case reply_Error res of
     Some e \<Rightarrow> if IsValkeyNil e then Inr False else Inl (Wrap ''leaderlock: acquire'' e)
   | None \<Rightarrow> Inr True))"

definition renew :: "string \<Rightarrow> string \<Rightarrow> duration \<Rightarrow> (go_error + bool) vk" where
  "renew key me ttl = Do (EVAL renewScript key [me, show_int (Milliseconds ttl)]) (\<lambda>r. Ret (case ToInt64 r of
     Inl e \<Rightarrow> Inl (Wrap ''leaderlock: renew'' e) | Inr n \<Rightarrow> Inr (n = 1)))"

definition release :: "string \<Rightarrow> string \<Rightarrow> unit vk" where
  "release key me = Do (EVAL releaseScript key [me]) (\<lambda>_. Ret ())"

text \<open>
  One turn of the \<open>select\<close> in \<open>leadAndHold\<close>: the context is done, \<open>fn\<close> has returned, or the ticker fires.
  \<open>None\<close> is another turn; otherwise the leadership ends, \<open>fn\<close> has been waited for, and the result is
  what \<open>leadAndHold\<close> returns.
\<close>

datatype hold_event = CtxDone | FnDone "go_error option" | TickerC

definition leadAndHold :: "lock_config \<Rightarrow> string \<Rightarrow> hold_event \<Rightarrow> go_error option option vk" where
  "leadAndHold cfg me ev = (case ev of
     CtxDone \<Rightarrow> Ret (Some None)
   | FnDone err \<Rightarrow> Ret (Some err)
   | TickerC \<Rightarrow> vk_bind (renew (lock_Key cfg) me (lease_ttl cfg)) (\<lambda>r. Ret (case r of
       Inl e \<Rightarrow> Some (Some e)
     | Inr False \<Rightarrow> Some (Some (ErrorString ''leaderlock: lease no longer held''))
     | Inr True \<Rightarrow> None)))"

text \<open>
  \<open>Run\<close> of one instance, as the phases of its loop: it contends, leads while \<open>leadAndHold\<close> turns, releases
  and contends again, until its context is done. \<open>fn\<close> runs exactly while the instance leads.
\<close>

datatype lock_phase = Contending | Leading | Releasing | Ended

record 'v lock_sys =
  ls_server :: 'v
  ls_phase :: "string \<Rightarrow> lock_phase"

inductive lock_step :: "'v vk_client \<Rightarrow> lock_config \<Rightarrow> 'v lock_sys \<Rightarrow> 'v lock_sys \<Rightarrow> bool" for client cfg where
  ended: "ls_phase s me = Contending \<Longrightarrow> lock_step client cfg s (s\<lparr>ls_phase := (ls_phase s)(me := Ended)\<rparr>)"
| contend: "ls_phase s me = Contending \<Longrightarrow> run_vk client (acquire (lock_Key cfg) me (lease_ttl cfg)) (ls_server s) = (got, v) \<Longrightarrow>
    lock_step client cfg s (s\<lparr>ls_server := v, ls_phase := (ls_phase s)(me := (if got = Inr True then Leading else Contending))\<rparr>)"
| hold: "ls_phase s me = Leading \<Longrightarrow> run_vk client (leadAndHold cfg me ev) (ls_server s) = (res, v) \<Longrightarrow>
    lock_step client cfg s (s\<lparr>ls_server := v, ls_phase := (ls_phase s)(me := (if res = None then Leading else Releasing))\<rparr>)"
| release: "ls_phase s me = Releasing \<Longrightarrow> run_vk client (release (lock_Key cfg) me) (ls_server s) = ((), v) \<Longrightarrow>
    lock_step client cfg s (s\<lparr>ls_server := v, ls_phase := (ls_phase s)(me := Contending)\<rparr>)"

definition start_lock :: "'v \<Rightarrow> 'v lock_sys" where
  "start_lock v = \<lparr>ls_server = v, ls_phase = (\<lambda>_. Contending)\<rparr>"

text \<open>Every instance that leads owns the lease.\<close>

definition lock_inv :: "('v \<Rightarrow> keyspace) \<Rightarrow> string \<Rightarrow> 'v lock_sys \<Rightarrow> bool" where
  "lock_inv obs k s \<longleftrightarrow> (\<forall>me. ls_phase s me = Leading \<longrightarrow> str_at (obs (ls_server s)) k = Some me)"

text \<open>A lease changes hands only when it is free, and is given up only by its owner.\<close>

lemma str_at_simps [simp]:
  "str_at (put_key k (StrV x) t ks) k = Some x" "str_at (drop_key k ks) k = None"
  by (simp_all add: str_at_def put_key_def drop_key_def)

lemma effect_acquire: "vk_effect ch (SETNX k me ttl) ks = (r, ks') \<Longrightarrow>
    ks' = ks \<and> reply_Error r \<noteq> None \<or> ks_data ks k = None \<and> str_at ks' k = Some me"
  by (auto simp: set_key_def reply_Error_def str_at_def put_key_def split: if_splits)

lemma digit_char: "d < 10 \<Longrightarrow> of_char (char_of (48 + d) :: char) = (48 + d :: nat)"
  by simp

lemma show_nat_digits: "show_nat n \<noteq> [] \<and> list_all is_digit (show_nat n)"
proof (induction n rule: show_nat.induct)
  case (1 n)
  show ?case unfolding show_nat.simps [of n] using 1 by (auto simp: is_digit_def)
qed

lemma show_nat_value: "foldl (\<lambda>n c. 10 * n + (of_char c - 48)) 0 (show_nat n) = n"
proof (induction n rule: show_nat.induct)
  case (1 n)
  show ?case unfolding show_nat.simps [of n] using 1 by auto
qed

lemma parse_show_nat [simp]: "parse_nat (show_nat n) = Some n"
  using show_nat_digits [of n] show_nat_value [of n] by (simp add: parse_nat_def)

lemma effect_renew: "vk_effect ch (EVAL renewScript k [me, show_int ttl]) ks = (r, ks') \<Longrightarrow> 0 < ttl \<Longrightarrow> str_at ks' k = str_at ks k"
  by (auto simp: run_script_def run_renew_def expire_key_def show_int_def str_at_def put_key_def
      split: if_splits option.splits prod.splits vk_value.splits)

lemma effect_renewed: "vk_effect ch (EVAL renewScript k [me, t]) ks = (IntR 1, ks') \<Longrightarrow> str_at ks k = Some me"
  by (auto simp: run_script_def run_renew_def split: if_splits)

lemma effect_release: "vk_effect ch (EVAL releaseScript k [me]) ks = (r, ks') \<Longrightarrow>
    str_at ks' k = str_at ks k \<or> str_at ks k = Some me"
  by (auto simp: run_script_def run_release_def split: if_splits)

context valkey_server
begin

lemma acquire_step:
  assumes "rely = keeps k" "run_vk client (acquire k me ttl) v = (got, v')"
  shows "if got = Inr True then ks_data (obs v) k = None \<and> str_at (obs v') k = Some me
    else str_at (obs v) k \<noteq> None \<longrightarrow> str_at (obs v') k = str_at (obs v) k"
proof -
  obtain r where c: "client (SETNX k me (Milliseconds ttl)) v = (r, v')" and got: "got = Inr True \<longleftrightarrow> reply_Error r = None"
    using assms(2) by (auto simp: acquire_def split: prod.splits option.splits if_splits)
  obtain ks ch where "keeps k (obs v) ks" and s: "served ch (SETNX k me (Milliseconds ttl)) ks r (obs v')"
    using serves [OF c] assms(1) by blast
  then have k: "ks_data ks k = ks_data (obs v) k" "str_at ks k = str_at (obs v) k" by (simp_all add: keeps_def str_at_def)
  obtain r1 ks1 where e: "vk_effect ch (SETNX k me (Milliseconds ttl)) ks = (r1, ks1)" by fastforce
  show ?thesis
    using effect_acquire [OF e] s e k got by (auto simp: served_def reply_Error_def str_at_def)
qed

lemma renew_step:
  assumes "rely = keeps k" "run_vk client (renew k me ttl) v = (res, v')" "0 < Milliseconds ttl"
  shows "str_at (obs v') k = str_at (obs v) k \<and> (res = Inr True \<longrightarrow> str_at (obs v) k = Some me)"
proof -
  let ?c = "EVAL renewScript k [me, show_int (Milliseconds ttl)]"
  obtain r where c: "client ?c v = (r, v')" and res: "res = Inr True \<Longrightarrow> r = IntR 1"
    using assms(2) by (auto simp: renew_def ToInt64_def split: prod.splits sum.splits reply.splits)
  obtain ks ch where "keeps k (obs v) ks" and s: "served ch ?c ks r (obs v')" using serves [OF c] assms(1) by blast
  then have k: "str_at ks k = str_at (obs v) k" by (simp add: keeps_def str_at_def)
  have "str_at (obs v') k = str_at ks k"
    using s effect_renew [of ch k me "Milliseconds ttl" ks, OF surjective_pairing assms(3)] by (auto simp: served_def) (metis snd_conv)
  moreover have "str_at ks k = Some me" if "res = Inr True"
    using res [OF that] s effect_renewed [of ch k me "show_int (Milliseconds ttl)" ks "obs v'"] by (simp add: served_def)
  ultimately show ?thesis using k by simp
qed

lemma release_step:
  assumes "rely = keeps k" "run_vk client (release k me) v = ((), v')"
  shows "str_at (obs v') k = str_at (obs v) k \<or> str_at (obs v) k = Some me"
proof -
  obtain r where c: "client (EVAL releaseScript k [me]) v = (r, v')" using assms(2) by (auto simp: release_def split: prod.splits)
  obtain ks ch where "keeps k (obs v) ks" and s: "served ch (EVAL releaseScript k [me]) ks r (obs v')" using serves [OF c] assms(1) by blast
  then have k: "str_at ks k = str_at (obs v) k" by (simp add: keeps_def str_at_def)
  show ?thesis using s k effect_release [of ch k me ks] by (auto simp: served_def) (metis surjective_pairing)+
qed

lemma lock_inv_step:
  fixes s :: "'v lock_sys"
  assumes "rely = keeps (lock_Key cfg)" "0 < Milliseconds (lease_ttl cfg)" "lock_step client cfg s s'" "lock_inv obs (lock_Key cfg) s"
  shows "lock_inv obs (lock_Key cfg) s'"
  using assms(3,4)
proof (cases rule: lock_step.cases)
  case (contend me got v)
  then show ?thesis using acquire_step [OF assms(1) contend(3)] assms(4)
    by (auto simp: lock_inv_def str_at_def split: if_splits)
next
  case (hold me ev res v)
  have "str_at (obs v) (lock_Key cfg) = str_at (obs (ls_server s)) (lock_Key cfg)"
    using hold(3) renew_step [OF assms(1) _ assms(2)]
    by (cases ev) (auto simp: leadAndHold_def run_vk_bind split: prod.splits)
  moreover have "ls_phase s x = Leading" if "ls_phase s' x = Leading" for x
    using that hold(1,2) by (auto split: if_splits)
  moreover have "ls_server s' = v" using hold(1) by simp
  ultimately show ?thesis using assms(4) unfolding lock_inv_def by metis
next
  case (release me v)
  then show ?thesis using release_step [OF assms(1) release(3)] assms(4)
    by (auto simp: lock_inv_def split: if_splits)
qed (use assms(4) in \<open>auto simp: lock_inv_def split: if_splits\<close>)

end

text \<open>
  C37. Leadership is exclusive while leases do not expire: however the instances contend, renew, give up
  and restart, and whether or not commands fail with or without having taken effect, at most one
  instance runs the matchmaker at a time, and it owns the lease.
\<close>

theorem leader_exclusive:
  assumes "valkey_server client obs (keeps (lock_Key cfg))" and "0 < Milliseconds (lease_ttl cfg)"
    and "(lock_step client cfg)\<^sup>*\<^sup>* (start_lock v) s" and "ls_phase s a = Leading" and "ls_phase s b = Leading"
  shows "a = b \<and> str_at (obs (ls_server s)) (lock_Key cfg) = Some a"
proof -
  have "lock_inv obs (lock_Key cfg) s"
    using assms(3)
  proof (induction rule: rtranclp_induct)
    case base
    then show ?case by (simp add: lock_inv_def start_lock_def)
  next
    case (step s s')
    then show ?case using valkey_server.lock_inv_step [OF assms(1) refl assms(2)] by blast
  qed
  then show ?thesis using assms(4,5) unfolding lock_inv_def by (metis option.inject)
qed

definition sample_lock :: lock_config where
  "sample_lock = \<lparr>lock_Key = ''vfx:leader'', lock_TTL = 0\<rparr>"

definition led_by_a :: "(keyspace \<times> vk_fault list) lock_sys" where
  "led_by_a = \<lparr>ls_server = (put_key ''vfx:leader'' (StrV ''a'') (Some 15000) empty_keyspace, [ReplyLost]),
     ls_phase = (\<lambda>_. Contending)(''a'' := Leading)\<rparr>"

theorem leader_exclusive_witness:
  "ls_phase led_by_a ''a'' = Leading \<and> str_at (fst (ls_server led_by_a)) (lock_Key sample_lock) = Some ''a''"
proof -
  have ms: "Milliseconds (lease_ttl sample_lock) = 15000"
    by (simp add: sample_lock_def lease_ttl_def Milliseconds_def Second_def Millisecond_def trunc_div_def)
  have "run_vk sim_client (acquire (lock_Key sample_lock) ''a'' (lease_ttl sample_lock)) (ls_server (start_lock (empty_keyspace, [Fine, ReplyLost]))) =
      (Inr True, ls_server led_by_a)"
    unfolding acquire_def ms by (simp add: set_key_def reply_Error_def led_by_a_def sample_lock_def empty_keyspace_def start_lock_def)
  from lock_step.contend [of "start_lock (empty_keyspace, [Fine, ReplyLost])" "''a''", OF _ this]
  have "lock_step sim_client sample_lock (start_lock (empty_keyspace, [Fine, ReplyLost])) led_by_a"
    by (simp add: start_lock_def led_by_a_def)
  then have run: "(lock_step sim_client sample_lock)\<^sup>*\<^sup>* (start_lock (empty_keyspace, [Fine, ReplyLost])) led_by_a" ..
  have lead: "ls_phase led_by_a ''a'' = Leading" by (simp add: led_by_a_def)
  have "valkey_server sim_client fst (keeps (lock_Key sample_lock))" by (rule sim_server) simp
  from leader_exclusive [OF this _ run lead lead] lead show ?thesis by (simp add: ms)
qed

end
