(* ===== verification/Leaderboards.thy ===== *)
theory Leaderboards
  imports Connect
begin

text \<open>
  Leaderboards: the domain package \<open>internal/domain/leaderboard\<close>, the PostgreSQL repository
  \<open>internal/infra/repository/leaderboard.go\<close> over \<open>schema/db/queries/leaderboard.sql\<close>, the usecase
  \<open>internal/usecase/leaderboard\<close> and its Connect handler \<open>internal/presentation/gateway/leaderboard\<close>.

  A board keeps one row per player, the best score so far. The lemmas show that a better score is
  never lost, that the rank a player is told by counting is the position in the paged ranking, and
  that the window around a player holds the player.
\<close>

section \<open>Domain\<close>

datatype SortOrder = Descending | Ascending

record Leaderboard =
  Leaderboard_ID :: string
  Leaderboard_SortOrder :: SortOrder

definition Beats :: "Leaderboard \<Rightarrow> int \<Rightarrow> int \<Rightarrow> bool" where
  "Beats l a b = (if Leaderboard_SortOrder l = Ascending then a < b else a > b)"

record RankedEntry =
  Rank :: int
  Ranked_PlayerID :: uuid
  Ranked_Nickname :: "string option"
  Score :: int
  AchievedAt :: go_time

section \<open>Statements\<close>

definition is_entry :: "string \<Rightarrow> uuid \<Rightarrow> leaderboard_row \<Rightarrow> bool" where
  "is_entry lid p r \<longleftrightarrow> le_leaderboard_id r = lid \<and> le_player_id r = p"

text \<open>
  \<open>INSERT \<dots> ON CONFLICT (leaderboard_id, player_id) DO UPDATE \<dots> WHERE EXCLUDED.score better score\<close>;
  the result is the number of rows inserted or updated.
\<close>

definition upsert_entry :: "(int \<Rightarrow> int \<Rightarrow> bool) \<Rightarrow> uuid \<Rightarrow> string \<Rightarrow> uuid \<Rightarrow> int \<Rightarrow> go_time \<Rightarrow> nat tx" where
  "upsert_entry better uid lid p score at = sql_exec (\<lambda>now t.
     case List.find (is_entry lid p) (leaderboard_entries t) of
       Some e \<Rightarrow>
         if better score (le_score e)
         then Inr (1, t\<lparr>leaderboard_entries := map (\<lambda>r. if is_entry lid p r then r\<lparr>le_score := score, le_achieved_at := at\<rparr> else r)
                (leaderboard_entries t)\<rparr>)
         else Inr (0, t)
     | None \<Rightarrow>
         if uid \<in> le_id ` set (leaderboard_entries t) then Inl unique_violation
         else if \<not> has_player t p then Inl foreign_key_violation
         else Inr (1, t\<lparr>leaderboard_entries := leaderboard_entries t @
           [\<lparr>le_id = uid, le_leaderboard_id = lid, le_player_id = p, le_score = score, le_achieved_at = at, le_created_at = now\<rparr>]\<rparr>))"

definition sql_UpsertLeaderboardEntryDesc :: "uuid \<Rightarrow> string \<Rightarrow> uuid \<Rightarrow> int \<Rightarrow> go_time \<Rightarrow> nat tx" where
  "sql_UpsertLeaderboardEntryDesc = upsert_entry (\<lambda>a b. a > b)"

definition sql_UpsertLeaderboardEntryAsc :: "uuid \<Rightarrow> string \<Rightarrow> uuid \<Rightarrow> int \<Rightarrow> go_time \<Rightarrow> nat tx" where
  "sql_UpsertLeaderboardEntryAsc = upsert_entry (\<lambda>a b. a < b)"

text \<open>A result row of the rank queries: player id, nickname, score and instant.\<close>

type_synonym rank_row = "uuid \<times> string option \<times> int \<times> go_time"

definition rank_rows :: "tables \<Rightarrow> leaderboard_row \<Rightarrow> rank_row list" where
  "rank_rows t e = join_player t (le_player_id e) (\<lambda>p. (le_player_id e, p_nickname p, le_score e, le_achieved_at e))"

definition row_ahead :: "(int \<Rightarrow> int \<Rightarrow> bool) \<Rightarrow> rank_row \<Rightarrow> rank_row \<Rightarrow> bool" where
  "row_ahead better = (\<lambda>(_, _, s, at) (_, _, s', at'). better s s' \<or> s = s' \<and> at < at')"

definition top_ranks :: "(int \<Rightarrow> int \<Rightarrow> bool) \<Rightarrow> string \<Rightarrow> int \<Rightarrow> int \<Rightarrow> rank_row list tx" where
  "top_ranks better lid lim off = stmt False (\<lambda>now t.
     if lim < 0 then Inl negative_limit
     else if off < 0 then Inl negative_offset
     else Inr (take (nat lim) (drop (nat off) (sort_by (row_ahead better)
       (concat (map (rank_rows t) (filter (\<lambda>e. le_leaderboard_id e = lid) (leaderboard_entries t)))))), t))"

definition sql_TopRanksDesc :: "string \<Rightarrow> int \<Rightarrow> int \<Rightarrow> rank_row list tx" where
  "sql_TopRanksDesc = top_ranks (\<lambda>a b. a > b)"

definition sql_TopRanksAsc :: "string \<Rightarrow> int \<Rightarrow> int \<Rightarrow> rank_row list tx" where
  "sql_TopRanksAsc = top_ranks (\<lambda>a b. a < b)"

definition entry_ahead :: "(int \<Rightarrow> int \<Rightarrow> bool) \<Rightarrow> leaderboard_row \<Rightarrow> leaderboard_row \<Rightarrow> bool" where
  "entry_ahead better a b \<longleftrightarrow> better (le_score a) (le_score b) \<or> le_score a = le_score b \<and> le_achieved_at a < le_achieved_at b"

definition count_ahead :: "(int \<Rightarrow> int \<Rightarrow> bool) \<Rightarrow> tables \<Rightarrow> leaderboard_row \<Rightarrow> nat" where
  "count_ahead better t e = length (filter (\<lambda>a. le_leaderboard_id a = le_leaderboard_id e \<and> entry_ahead better a e)
     (leaderboard_entries t))"

definition rank_of :: "(int \<Rightarrow> int \<Rightarrow> bool) \<Rightarrow> string \<Rightarrow> uuid \<Rightarrow> (int \<times> rank_row) tx" where
  "rank_of better lid p = sql_one (\<lambda>t.
     case concat (map (\<lambda>e. map (Pair (1 + int (count_ahead better t e))) (rank_rows t e))
            (filter (is_entry lid p) (leaderboard_entries t)))
     of [] \<Rightarrow> None | row # _ \<Rightarrow> Some row)"

definition sql_RankOfDesc :: "string \<Rightarrow> uuid \<Rightarrow> (int \<times> rank_row) tx" where
  "sql_RankOfDesc = rank_of (\<lambda>a b. a > b)"

definition sql_RankOfAsc :: "string \<Rightarrow> uuid \<Rightarrow> (int \<times> rank_row) tx" where
  "sql_RankOfAsc = rank_of (\<lambda>a b. a < b)"

section \<open>Repository\<close>

definition Leaderboard_Submit :: "uuid \<Rightarrow> Leaderboard \<Rightarrow> uuid \<Rightarrow> int \<Rightarrow> go_time \<Rightarrow> bool tx" where
  "Leaderboard_Submit uid lb playerID score now =
     (if Leaderboard_SortOrder lb = Ascending
      then tx_bind (sql_UpsertLeaderboardEntryAsc uid (Leaderboard_ID lb) playerID score (toTimestamptz now))
             (\<lambda>affected. tx_return (affected > 0))
      else tx_bind (sql_UpsertLeaderboardEntryDesc uid (Leaderboard_ID lb) playerID score (toTimestamptz now))
             (\<lambda>affected. tx_return (affected > 0)))"

definition rankErr :: "'a tx \<Rightarrow> 'a tx" where
  "rankErr m = tx_mapping (DbE ErrNoRows) (LeaderboardE ErrEntryNotFound) m"

definition toRanked :: "int \<times> rank_row \<Rightarrow> RankedEntry" where
  "toRanked = (\<lambda>(rank, p, nick, score, at). \<lparr>Rank = rank, Ranked_PlayerID = p, Ranked_Nickname = nick, Score = score,
     AchievedAt = at\<rparr>)"

definition Leaderboard_RankOf :: "Leaderboard \<Rightarrow> uuid \<Rightarrow> RankedEntry tx" where
  "Leaderboard_RankOf lb playerID =
     (if Leaderboard_SortOrder lb = Ascending
      then tx_bind (rankErr (sql_RankOfAsc (Leaderboard_ID lb) playerID)) (\<lambda>row. tx_return (toRanked row))
      else tx_bind (rankErr (sql_RankOfDesc (Leaderboard_ID lb) playerID)) (\<lambda>row. tx_return (toRanked row)))"

definition ranked_page :: "int \<Rightarrow> rank_row list \<Rightarrow> RankedEntry list" where
  "ranked_page offset rows = map (\<lambda>(i, row). toRanked (offset + int i + 1, row)) (enumerate 0 rows)"

text \<open>A negative capacity makes \<open>make\<close> panic; only a negative limit in the configuration leads there.\<close>

definition Leaderboard_TopRanks :: "Leaderboard \<Rightarrow> int \<Rightarrow> int \<Rightarrow> RankedEntry list tx" where
  "Leaderboard_TopRanks lb offset limit =
     (if limit < 0 then tx_fail (ErrorString ''panic: makeslice: cap out of range'')
      else if Leaderboard_SortOrder lb = Ascending
      then tx_bind (sql_TopRanksAsc (Leaderboard_ID lb) (int32_of limit) (int32_of offset))
             (\<lambda>rows. tx_return (ranked_page offset rows))
      else tx_bind (sql_TopRanksDesc (Leaderboard_ID lb) (int32_of limit) (int32_of offset))
             (\<lambda>rows. tx_return (ranked_page offset rows)))"

section \<open>Usecase\<close>

record LeaderboardUsecase =
  lu_defs :: "string \<rightharpoonup> Leaderboard"
  lu_DefaultLimit :: int
  lu_MaxLimit :: int
  lu_MaxRadius :: int

definition lb_lookup :: "LeaderboardUsecase \<Rightarrow> string \<Rightarrow> Leaderboard result" where
  "lb_lookup u lid = (case lu_defs u lid of None \<Rightarrow> Inl (LeaderboardE ErrLeaderboardNotFound) | Some lb \<Rightarrow> Inr lb)"

definition lb_rankOf :: "Leaderboard \<Rightarrow> uuid \<Rightarrow> RankedEntry tx" where
  "lb_rankOf lb playerID = RO (Leaderboard_RankOf lb playerID)"

definition lb_clampLimit :: "LeaderboardUsecase \<Rightarrow> int \<Rightarrow> int" where
  "lb_clampLimit u limit =
     (if limit \<le> 0 then lu_DefaultLimit u
      else if limit > lu_MaxLimit u then lu_MaxLimit u
      else limit)"

definition SubmitScore :: "LeaderboardUsecase \<Rightarrow> uuid \<Rightarrow> string \<Rightarrow> uuid \<Rightarrow> int \<Rightarrow> go_time \<Rightarrow> (RankedEntry \<times> bool) tx" where
  "SubmitScore u uid lid playerID score now =
     tx_bind (lift_result (lb_lookup u lid)) (\<lambda>lb.
     tx_bind (RW (Leaderboard_Submit uid lb playerID score now)) (\<lambda>improved.
     tx_bind (lb_rankOf lb playerID) (\<lambda>ranked. tx_return (ranked, improved))))"

definition ListRanks :: "LeaderboardUsecase \<Rightarrow> string \<Rightarrow> int \<Rightarrow> int \<Rightarrow> RankedEntry list tx" where
  "ListRanks u lid offset limit =
     tx_bind (lift_result (lb_lookup u lid)) (\<lambda>lb.
     RO (Leaderboard_TopRanks lb (if offset < 0 then 0 else offset) (lb_clampLimit u limit)))"

definition GetPlayerRank :: "LeaderboardUsecase \<Rightarrow> string \<Rightarrow> uuid \<Rightarrow> RankedEntry tx" where
  "GetPlayerRank u lid playerID = tx_bind (lift_result (lb_lookup u lid)) (\<lambda>lb. lb_rankOf lb playerID)"

definition clampRadius :: "LeaderboardUsecase \<Rightarrow> int \<Rightarrow> int" where
  "clampRadius u radius = (let r = (if radius < 0 then 0 else radius) in if r > lu_MaxRadius u then lu_MaxRadius u else r)"

definition around_work :: "Leaderboard \<Rightarrow> uuid \<Rightarrow> int \<Rightarrow> RankedEntry list tx" where
  "around_work lb playerID radius =
     tx_bind (Leaderboard_RankOf lb playerID) (\<lambda>self.
     let offset = Rank self - 1 - radius in
     Leaderboard_TopRanks lb (if offset < 0 then 0 else offset) (2 * radius + 1))"

definition ListRanksAroundPlayer :: "LeaderboardUsecase \<Rightarrow> string \<Rightarrow> uuid \<Rightarrow> int \<Rightarrow> RankedEntry list tx" where
  "ListRanksAroundPlayer u lid playerID radius =
     tx_bind (lift_result (lb_lookup u lid)) (\<lambda>lb. RO (around_work lb playerID (clampRadius u radius)))"

section \<open>Handlers\<close>

record RankEntryPb =
  RankEntryPb_Rank :: int
  RankEntryPb_PlayerId :: string
  RankEntryPb_Nickname :: "string option"
  RankEntryPb_Score :: int
  RankEntryPb_AchievedAt :: go_time

definition toRankEntryPb :: "(uuid \<Rightarrow> string) \<Rightarrow> RankedEntry \<Rightarrow> RankEntryPb" where
  "toRankEntryPb str e = \<lparr>RankEntryPb_Rank = Rank e, RankEntryPb_PlayerId = str (Ranked_PlayerID e),
     RankEntryPb_Nickname = Ranked_Nickname e, RankEntryPb_Score = Score e, RankEntryPb_AchievedAt = AchievedAt e\<rparr>"

definition toRankEntryListPb :: "(uuid \<Rightarrow> string) \<Rightarrow> RankedEntry list \<Rightarrow> RankEntryPb list" where
  "toRankEntryListPb str es = map (toRankEntryPb str) es"

definition leaderboard_toConnectError :: "go_error \<Rightarrow> connect_error" where
  "leaderboard_toConnectError err =
     (if errors_Is err (LeaderboardE ErrLeaderboardNotFound) \<or> errors_Is err (LeaderboardE ErrEntryNotFound)
      then (CodeNotFound, err) else (CodeInternal, err))"

definition Handler_SubmitScore ::
    "(uuid \<Rightarrow> string) \<Rightarrow> LeaderboardUsecase \<Rightarrow> uuid \<Rightarrow> ctx \<Rightarrow> string \<Rightarrow> int \<Rightarrow> go_time \<Rightarrow> db \<Rightarrow> (RankEntryPb \<times> bool) response \<times> db" where
  "Handler_SubmitScore str u uid c lid score now s =
     or_return (requireAuth c) s (\<lambda>playerID.
     respond leaderboard_toConnectError (\<lambda>(entry, improved). (toRankEntryPb str entry, improved))
       (SubmitScore u uid lid playerID score now s))"

definition Handler_ListRanks ::
    "(uuid \<Rightarrow> string) \<Rightarrow> LeaderboardUsecase \<Rightarrow> ctx \<Rightarrow> string \<Rightarrow> int \<Rightarrow> int \<Rightarrow> db \<Rightarrow> RankEntryPb list response \<times> db" where
  "Handler_ListRanks str u c lid offset limit s =
     or_return (requireAuth c) s (\<lambda>_.
     respond leaderboard_toConnectError (toRankEntryListPb str) (ListRanks u lid offset limit s))"

definition rank_target :: "(string \<Rightarrow> uuid option) \<Rightarrow> uuid \<Rightarrow> string \<Rightarrow> uuid response" where
  "rank_target parse caller raw =
     (if raw = [] then Inr caller
      else case parse raw of
        None \<Rightarrow> Inl (CodeInvalidArgument, ErrorString ''invalid player_id'')
      | Some parsed \<Rightarrow> Inr parsed)"

definition Handler_GetPlayerRank ::
    "(string \<Rightarrow> uuid option) \<Rightarrow> (uuid \<Rightarrow> string) \<Rightarrow> LeaderboardUsecase \<Rightarrow> ctx \<Rightarrow> string \<Rightarrow> string \<Rightarrow> db \<Rightarrow> RankEntryPb response \<times> db" where
  "Handler_GetPlayerRank parse str u c lid raw s =
     or_return (requireAuth c) s (\<lambda>caller.
     or_return (rank_target parse caller raw) s (\<lambda>target.
     respond leaderboard_toConnectError (toRankEntryPb str) (GetPlayerRank u lid target s)))"

definition Handler_ListRanksAroundPlayer ::
    "(uuid \<Rightarrow> string) \<Rightarrow> LeaderboardUsecase \<Rightarrow> ctx \<Rightarrow> string \<Rightarrow> int \<Rightarrow> db \<Rightarrow> RankEntryPb list response \<times> db" where
  "Handler_ListRanksAroundPlayer str u c lid radius s =
     or_return (requireAuth c) s (\<lambda>playerID.
     respond leaderboard_toConnectError (toRankEntryListPb str) (ListRanksAroundPlayer u lid playerID radius s))"

section \<open>Both orders at once\<close>

text \<open>The two variants of each statement are one, in the order of the board.\<close>

lemma Beats_cases: "Beats lb = (if Leaderboard_SortOrder lb = Ascending then (\<lambda>a b. a < b) else (\<lambda>a b. a > b))"
  by (simp add: Beats_def fun_eq_iff)

lemma repo_by_order:
  "Leaderboard_Submit uid lb p score now =
     tx_bind (upsert_entry (Beats lb) uid (Leaderboard_ID lb) p score (toTimestamptz now)) (\<lambda>n. tx_return (n > 0))"
  "Leaderboard_RankOf lb p = tx_bind (rankErr (rank_of (Beats lb) (Leaderboard_ID lb) p)) (\<lambda>row. tx_return (toRanked row))"
  "Leaderboard_TopRanks lb off lim =
     (if lim < 0 then tx_fail (ErrorString ''panic: makeslice: cap out of range'')
      else tx_bind (top_ranks (Beats lb) (Leaderboard_ID lb) (int32_of lim) (int32_of off)) (\<lambda>rows. tx_return (ranked_page off rows)))"
  by (simp_all add: Leaderboard_Submit_def Leaderboard_RankOf_def Leaderboard_TopRanks_def Beats_cases
      sql_UpsertLeaderboardEntryDesc_def sql_UpsertLeaderboardEntryAsc_def sql_RankOfDesc_def sql_RankOfAsc_def
      sql_TopRanksDesc_def sql_TopRanksAsc_def)

lemma Beats_order: "\<not> Beats lb a a" "Beats lb a b \<Longrightarrow> \<not> Beats lb b a" "\<not> Beats lb a b \<Longrightarrow> \<not> Beats lb b c \<Longrightarrow> \<not> Beats lb a c"
  "Beats lb a b \<or> a = b \<or> Beats lb b a"
  by (auto simp: Beats_def split: if_splits)

section \<open>The best score\<close>

definition board :: "tables \<Rightarrow> string \<Rightarrow> uuid \<Rightarrow> int option" where
  "board t lid p = map_option le_score (List.find (is_entry lid p) (leaderboard_entries t))"

lemma board_frame [simp]: "board (t\<lparr>players := x\<rparr>) = board t"
  by (simp add: board_def fun_eq_iff)

lemma find_update:
  assumes "\<And>r. Q (f r) = Q r"
  shows "List.find Q (map (\<lambda>r. if P r then f r else r) rs) = map_option (\<lambda>r. if P r then f r else r) (List.find Q rs)"
  using assms by (induction rs) auto

lemma board_update:
  assumes "board t lid p \<noteq> None"
  shows "board (t\<lparr>leaderboard_entries := map (\<lambda>r. if is_entry lid p r then r\<lparr>le_score := s, le_achieved_at := w\<rparr> else r) (leaderboard_entries t)\<rparr>) l q =
    (if (l, q) = (lid, p) then Some s else board t l q)"
proof -
  have find: "List.find (is_entry l q) (map (\<lambda>r. if is_entry lid p r then r\<lparr>le_score := s, le_achieved_at := w\<rparr> else r) (leaderboard_entries t))
     = map_option (\<lambda>r. if is_entry lid p r then r\<lparr>le_score := s, le_achieved_at := w\<rparr> else r) (List.find (is_entry l q) (leaderboard_entries t))"
    by (rule find_update) (simp add: is_entry_def)
  show ?thesis
  proof (cases "List.find (is_entry l q) (leaderboard_entries t)")
    case None
    then have "(l, q) \<noteq> (lid, p)" using assms by (auto simp: board_def)
    then show ?thesis using None find by (auto simp: board_def)
  next
    case (Some y)
    then have "is_entry lid p y \<longleftrightarrow> (l, q) = (lid, p)" by (auto simp: is_entry_def dest: find_Some)
    then show ?thesis using Some find by (simp add: board_def)
  qed
qed

lemma board_append:
  "board (t\<lparr>leaderboard_entries := leaderboard_entries t @ [r]\<rparr>) l q =
    (case board t l q of Some v \<Rightarrow> Some v | None \<Rightarrow> if is_entry l q r then Some (le_score r) else None)"
proof -
  have "List.find P (xs @ [r]) = (case List.find P xs of Some v \<Rightarrow> Some v | None \<Rightarrow> if P r then Some r else None)" for P xs
    by (induction xs) auto
  then show ?thesis by (auto simp: board_def split: option.split)
qed

text \<open>What a submission does to the boards.\<close>

definition Spec_Submit :: "Leaderboard \<Rightarrow> uuid \<Rightarrow> int \<Rightarrow> (string \<Rightarrow> uuid \<Rightarrow> int option) \<Rightarrow> bool \<times> (string \<Rightarrow> uuid \<Rightarrow> int option)" where
  "Spec_Submit lb p score b =
     (if (case b (Leaderboard_ID lb) p of None \<Rightarrow> True | Some v \<Rightarrow> Beats lb score v)
      then (True, b(Leaderboard_ID lb := (b (Leaderboard_ID lb))(p := Some score)))
      else (False, b))"

lemma Submit_triple:
  "tx_triple (\<lambda>t. board t = b0) (Leaderboard_Submit uid lb p score now)
     (\<lambda>improved t. Spec_Submit lb p score b0 = (improved, board t)) (\<lambda>e t. infra e)"
  unfolding repo_by_order
proof (rule triple_bind, unfold upsert_entry_def, rule triple_exec)
  fix now' t and n :: nat and t'
  assume b0: "board t = b0"
  let ?lid = "Leaderboard_ID lb"
  assume run: "(case List.find (is_entry ?lid p) (leaderboard_entries t) of
       Some e \<Rightarrow>
         if Beats lb score (le_score e)
         then Inr (1, t\<lparr>leaderboard_entries := map (\<lambda>r. if is_entry ?lid p r then r\<lparr>le_score := score, le_achieved_at := toTimestamptz now\<rparr> else r)
                (leaderboard_entries t)\<rparr>)
         else Inr (0, t)
     | None \<Rightarrow>
         if uid \<in> le_id ` set (leaderboard_entries t) then Inl unique_violation
         else if \<not> has_player t p then Inl foreign_key_violation
         else Inr (1, t\<lparr>leaderboard_entries := leaderboard_entries t @
           [\<lparr>le_id = uid, le_leaderboard_id = ?lid, le_player_id = p, le_score = score, le_achieved_at = toTimestamptz now, le_created_at = now'\<rparr>]\<rparr>))
      = Inr (n, t')"
  show "Spec_Submit lb p score b0 = (n > 0, board t')"
  proof (cases "List.find (is_entry ?lid p) (leaderboard_entries t)")
    case None
    then have none: "b0 ?lid p = None" using b0 by (auto simp: board_def)
    have t': "n = 1" "t' = t\<lparr>leaderboard_entries := leaderboard_entries t @
           [\<lparr>le_id = uid, le_leaderboard_id = ?lid, le_player_id = p, le_score = score, le_achieved_at = toTimestamptz now, le_created_at = now'\<rparr>]\<rparr>"
      using run None by (auto split: if_splits)
    have "board t' = b0(?lid := (b0 ?lid)(p := Some score))"
      using none unfolding t' fun_eq_iff board_append b0 by (auto simp: is_entry_def split: option.split)
    then show ?thesis using none t'(1) by (simp add: Spec_Submit_def)
  next
    case (Some e)
    then have some: "b0 ?lid p = Some (le_score e)" "board t ?lid p \<noteq> None" using b0 by (auto simp: board_def)
    show ?thesis
    proof (cases "Beats lb score (le_score e)")
      case True
      have t': "n = 1" "t' = t\<lparr>leaderboard_entries := map (\<lambda>r. if is_entry ?lid p r then r\<lparr>le_score := score, le_achieved_at := toTimestamptz now\<rparr> else r)
                (leaderboard_entries t)\<rparr>"
        using run Some True by (auto split: if_splits)
      have "board t' = b0(?lid := (b0 ?lid)(p := Some score))"
        unfolding t' fun_eq_iff board_update [OF some(2)] b0 by auto
      then show ?thesis using some True t'(1) by (simp add: Spec_Submit_def)
    qed (use run Some some b0 in \<open>auto simp: Spec_Submit_def\<close>)
  qed
qed (auto intro!: triple_return)

lemma RankOf_triple:
  "tx_triple (\<lambda>t. t = t0) (Leaderboard_RankOf lb p)
     (\<lambda>e t. t = t0 \<and> (\<exists>r \<in> set (leaderboard_entries t0). is_entry (Leaderboard_ID lb) p r \<and> Score e = le_score r \<and> Ranked_PlayerID e = p))
     (\<lambda>e t. t = t0)"
  unfolding repo_by_order rankErr_def
proof (rule triple_bind, rule triple_mapping [where E = "\<lambda>_ t. t = t0"], unfold rank_of_def, rule triple_one)
  fix t row
  assume "t = t0" and "(case concat (map (\<lambda>e. map (Pair (1 + int (count_ahead (Beats lb) t e))) (rank_rows t e))
            (filter (is_entry (Leaderboard_ID lb) p) (leaderboard_entries t)))
     of [] \<Rightarrow> None | row # _ \<Rightarrow> Some row) = Some row"
  then obtain rest where "concat (map (\<lambda>e. map (Pair (1 + int (count_ahead (Beats lb) t e))) (rank_rows t e))
            (filter (is_entry (Leaderboard_ID lb) p) (leaderboard_entries t))) = row # rest"
    by (auto split: list.splits)
  then have "row \<in> set (concat (map (\<lambda>e. map (Pair (1 + int (count_ahead (Beats lb) t e))) (rank_rows t e))
            (filter (is_entry (Leaderboard_ID lb) p) (leaderboard_entries t))))"
    by (metis list.set_intros(1))
  then obtain e r where e: "e \<in> set (leaderboard_entries t)" "is_entry (Leaderboard_ID lb) p e" "r \<in> set (rank_rows t e)"
      "row = (1 + int (count_ahead (Beats lb) t e), r)"
    by auto
  then have "Score (toRanked row) = le_score e \<and> Ranked_PlayerID (toRanked row) = p"
    by (auto simp: toRanked_def rank_rows_def join_player_def is_entry_def)
  then show "t = t0 \<and> (\<exists>e \<in> set (leaderboard_entries t0). is_entry (Leaderboard_ID lb) p e \<and> Score (toRanked row) = le_score e \<and> Ranked_PlayerID (toRanked row) = p)"
    using e \<open>t = t0\<close> by blast
qed (auto intro!: triple_return)

definition lb_wf :: "tables \<Rightarrow> bool" where
  "lb_wf t \<longleftrightarrow> distinct (map p_id (players t)) \<and>
     distinct (map (\<lambda>e. (le_leaderboard_id e, le_player_id e)) (leaderboard_entries t)) \<and>
     (\<forall>e \<in> set (leaderboard_entries t). has_player t (le_player_id e))"

lemma board_entry:
  assumes "lb_wf t" "e \<in> set (leaderboard_entries t)"
  shows "List.find (is_entry (le_leaderboard_id e) (le_player_id e)) (leaderboard_entries t) = Some e"
proof -
  obtain e' where e': "List.find (is_entry (le_leaderboard_id e) (le_player_id e)) (leaderboard_entries t) = Some e'"
    using assms(2) by (cases "List.find (is_entry (le_leaderboard_id e) (le_player_id e)) (leaderboard_entries t)")
      (auto simp: find_None_iff is_entry_def)
  then have "e' \<in> set (leaderboard_entries t)" "(le_leaderboard_id e', le_player_id e') = (le_leaderboard_id e, le_player_id e)"
    by (auto dest: find_Some simp: is_entry_def)
  then have "e' = e" using assms by (auto simp: lb_wf_def distinct_map dest: inj_onD)
  then show ?thesis using e' by simp
qed

lemma upsert_wf: "preserves lb_wf (upsert_entry better uid lid p score at)"
  unfolding upsert_entry_def
proof (rule triple_exec)
  fix now t and n :: nat and t'
  assume wf: "lb_wf t" and run: "(case List.find (is_entry lid p) (leaderboard_entries t) of
       Some e \<Rightarrow>
         if better score (le_score e)
         then Inr (1, t\<lparr>leaderboard_entries := map (\<lambda>r. if is_entry lid p r then r\<lparr>le_score := score, le_achieved_at := at\<rparr> else r)
                (leaderboard_entries t)\<rparr>)
         else Inr (0, t)
     | None \<Rightarrow>
         if uid \<in> le_id ` set (leaderboard_entries t) then Inl unique_violation
         else if \<not> has_player t p then Inl foreign_key_violation
         else Inr (1, t\<lparr>leaderboard_entries := leaderboard_entries t @
           [\<lparr>le_id = uid, le_leaderboard_id = lid, le_player_id = p, le_score = score, le_achieved_at = at, le_created_at = now\<rparr>]\<rparr>))
      = Inr (n, t')"
  have keys: "map (\<lambda>e. (le_leaderboard_id e, le_player_id e)) (map (\<lambda>r. if is_entry lid p r then r\<lparr>le_score := score, le_achieved_at := at\<rparr> else r) rs)
      = map (\<lambda>e. (le_leaderboard_id e, le_player_id e)) rs" for rs
    by (induction rs) auto
  have none: "(lid, p) \<notin> (\<lambda>e. (le_leaderboard_id e, le_player_id e)) ` set (leaderboard_entries t)"
    if "List.find (is_entry lid p) (leaderboard_entries t) = None"
    using that by (auto simp: find_None_iff is_entry_def)
  have upd: "lb_wf (t\<lparr>leaderboard_entries := map (\<lambda>r. if is_entry lid p r then r\<lparr>le_score := score, le_achieved_at := at\<rparr> else r)
                (leaderboard_entries t)\<rparr>)"
    using wf by (auto simp: lb_wf_def keys has_player_def simp del: map_map)
  have ins: "lb_wf (t\<lparr>leaderboard_entries := leaderboard_entries t @
           [\<lparr>le_id = uid, le_leaderboard_id = lid, le_player_id = p, le_score = score, le_achieved_at = at, le_created_at = now\<rparr>]\<rparr>)"
    if "List.find (is_entry lid p) (leaderboard_entries t) = None" "has_player t p"
    using wf that(2) none [OF that(1)] by (auto simp: lb_wf_def has_player_def)
  show "lb_wf t'"
    using run wf upd ins by (cases "List.find (is_entry lid p) (leaderboard_entries t)") (simp_all split: if_splits)
qed

lemma Submit_wf_triple:
  "tx_triple (\<lambda>t. lb_wf t \<and> board t = b0) (Leaderboard_Submit uid lb p score now)
     (\<lambda>improved t. lb_wf t \<and> Spec_Submit lb p score b0 = (improved, board t)) (\<lambda>e t. infra e)"
  using Submit_triple [of b0 uid lb p score now] upsert_wf [of "Beats lb" uid "Leaderboard_ID lb" p score "toTimestamptz now"]
  unfolding tx_triple_def repo_by_order tx_bind_def tx_return_def by (fastforce split: prod.splits sum.splits)

lemma RankOf_board:
  "tx_triple (\<lambda>t. lb_wf t \<and> board t = b0) (Leaderboard_RankOf lb p)
     (\<lambda>e t. (lb_wf t \<and> board t = b0) \<and> b0 (Leaderboard_ID lb) p = Some (Score e)) (\<lambda>e t. lb_wf t \<and> board t = b0)"
  unfolding tx_triple_def
proof (intro allI impI)
  fix s :: db assume wf: "lb_wf (db_tables s) \<and> board (db_tables s) = b0"
  note rk = tx_tripleD [OF RankOf_triple [of "db_tables s" lb p] refl]
  show "case Leaderboard_RankOf lb p s of (Inr e, s') \<Rightarrow> (lb_wf (db_tables s') \<and> board (db_tables s') = b0) \<and> b0 (Leaderboard_ID lb) p = Some (Score e)
    | (Inl e, s') \<Rightarrow> lb_wf (db_tables s') \<and> board (db_tables s') = b0"
  proof (cases "Leaderboard_RankOf lb p s")
    case (Pair r s')
    show ?thesis
    proof (cases r)
      case (Inl e)
      then show ?thesis using Pair rk(2) wf by simp
    next
      case (Inr e)
      then obtain row where row: "row \<in> set (leaderboard_entries (db_tables s))" "is_entry (Leaderboard_ID lb) p row" "Score e = le_score row"
        and s': "db_tables s' = db_tables s"
        using Pair rk(1) by blast
      then have "board (db_tables s) (Leaderboard_ID lb) p = Some (Score e)"
        using board_entry [OF conjunct1 [OF wf] row(1)] row(2,3) by (simp add: board_def is_entry_def)
      then show ?thesis using Pair Inr wf s' by auto
    qed
  qed
qed

section \<open>Calls in sequence\<close>

datatype lb_call = CallSubmit uuid string uuid int go_time | CallListRanks string int int
  | CallPlayerRank string uuid | CallAround string uuid int

fun lb_step :: "LeaderboardUsecase \<Rightarrow> lb_call \<Rightarrow> db \<Rightarrow> db" where
  "lb_step u (CallSubmit uid lid p score now) s = snd (SubmitScore u uid lid p score now s)"
| "lb_step u (CallListRanks lid off lim) s = snd (ListRanks u lid off lim s)"
| "lb_step u (CallPlayerRank lid p) s = snd (GetPlayerRank u lid p s)"
| "lb_step u (CallAround lid p r) s = snd (ListRanksAroundPlayer u lid p r s)"

text \<open>Each board is defined under its own id.\<close>

definition defs_ok :: "LeaderboardUsecase \<Rightarrow> bool" where
  "defs_ok u \<longleftrightarrow> (\<forall>lid lb. lu_defs u lid = Some lb \<longrightarrow> Leaderboard_ID lb = lid)"

fun submitted :: "string \<Rightarrow> uuid \<Rightarrow> lb_call \<Rightarrow> int set" where
  "submitted lid p (CallSubmit uid lid' p' score now) = (if lid' = lid \<and> p' = p then {score} else {})"
| "submitted lid p _ = {}"

text \<open>
  \<open>no_worse\<close>: on the board \<open>lid\<close>, the player's score after is no worse than before, and is the one
  before or one of \<open>new\<close>.
\<close>

definition no_worse :: "Leaderboard \<Rightarrow> uuid \<Rightarrow> int set \<Rightarrow> (string \<Rightarrow> uuid \<Rightarrow> int option) \<Rightarrow> (string \<Rightarrow> uuid \<Rightarrow> int option) \<Rightarrow> bool" where
  "no_worse lb p new b b' \<longleftrightarrow> (case b' (Leaderboard_ID lb) p of
      None \<Rightarrow> b (Leaderboard_ID lb) p = None
    | Some v \<Rightarrow> (v \<in> new \<or> b (Leaderboard_ID lb) p = Some v) \<and>
        (\<forall>w. b (Leaderboard_ID lb) p = Some w \<longrightarrow> \<not> Beats lb w v))"

lemma no_worse_refl: "no_worse lb p new b b"
  by (auto simp: no_worse_def Beats_order split: option.split)

lemma no_worse_trans: "no_worse lb p new b b' \<Longrightarrow> no_worse lb p new' b' b'' \<Longrightarrow> no_worse lb p (new \<union> new') b b''"
  unfolding no_worse_def
  by (cases "b (Leaderboard_ID lb) p"; cases "b' (Leaderboard_ID lb) p"; cases "b'' (Leaderboard_ID lb) p")
    (auto intro: Beats_order(3) [THEN notE] dest: Beats_order(3))

lemma Spec_Submit_no_worse:
  assumes "Spec_Submit lb' p' score b = (x, b')" "Leaderboard_ID lb' = Leaderboard_ID lb \<Longrightarrow> lb' = lb"
  shows "no_worse lb p (if Leaderboard_ID lb' = Leaderboard_ID lb \<and> p' = p then {score} else {}) b b'"
proof (cases "lb' = lb \<and> p' = p")
  case True
  then show ?thesis
    using assms(1) Beats_order(1,2) [of lb] by (auto simp: Spec_Submit_def no_worse_def split: option.splits if_splits)
next
  case False
  then have "b' (Leaderboard_ID lb) p = b (Leaderboard_ID lb) p"
    using assms by (auto simp: Spec_Submit_def split: if_splits)
  then show ?thesis by (auto simp: no_worse_def Beats_order split: option.split)
qed

text \<open>A submission, whatever the store does: what each of its outcomes says of the boards.\<close>

lemma SubmitScore_triple:
  assumes "lu_defs u lid = Some lb"
  shows "tx_triple (\<lambda>t. lb_wf t \<and> board t = b0) (SubmitScore u uid lid p score now)
     (\<lambda>(e, improved) t. lb_wf t \<and> Spec_Submit lb p score b0 = (improved, board t) \<and> board t (Leaderboard_ID lb) p = Some (Score e))
     (\<lambda>_ t. lb_wf t \<and> (board t = b0 \<or> board t = snd (Spec_Submit lb p score b0)))"
proof -
  have submit: "tx_triple (\<lambda>t. lb_wf t \<and> board t = b0) (RW (Leaderboard_Submit uid lb p score now))
     (\<lambda>improved t. lb_wf t \<and> Spec_Submit lb p score b0 = (improved, board t))
     (\<lambda>_ t. lb_wf t \<and> (board t = b0 \<or> board t = snd (Spec_Submit lb p score b0)))"
    by (rule tx_triple_weaken [OF session_rw.run_triple [OF Submit_wf_triple]]) auto
  have rank: "tx_triple (\<lambda>t. lb_wf t \<and> Spec_Submit lb p score b0 = (improved, board t)) (lb_rankOf lb p)
     (\<lambda>e t. lb_wf t \<and> Spec_Submit lb p score b0 = (improved, board t) \<and> board t (Leaderboard_ID lb) p = Some (Score e))
     (\<lambda>_ t. lb_wf t \<and> (board t = b0 \<or> board t = snd (Spec_Submit lb p score b0)))" for improved
    unfolding lb_rankOf_def
  proof (cases "improved = fst (Spec_Submit lb p score b0)")
    case True
    then show "tx_triple (\<lambda>t. lb_wf t \<and> Spec_Submit lb p score b0 = (improved, board t)) (RO (Leaderboard_RankOf lb p))
       (\<lambda>e t. lb_wf t \<and> Spec_Submit lb p score b0 = (improved, board t) \<and> board t (Leaderboard_ID lb) p = Some (Score e))
       (\<lambda>_ t. lb_wf t \<and> (board t = b0 \<or> board t = snd (Spec_Submit lb p score b0)))"
      by (intro tx_triple_weaken [OF session_ro.run_triple [OF RankOf_board [of "snd (Spec_Submit lb p score b0)" lb p]]])
        (auto simp: prod_eq_iff)
  next
    case False
    then show "tx_triple (\<lambda>t. lb_wf t \<and> Spec_Submit lb p score b0 = (improved, board t)) (RO (Leaderboard_RankOf lb p))
       (\<lambda>e t. lb_wf t \<and> Spec_Submit lb p score b0 = (improved, board t) \<and> board t (Leaderboard_ID lb) p = Some (Score e))
       (\<lambda>_ t. lb_wf t \<and> (board t = b0 \<or> board t = snd (Spec_Submit lb p score b0)))"
      by (auto simp: tx_triple_def prod_eq_iff)
  qed
  show ?thesis
    unfolding SubmitScore_def lb_lookup_def assms lift_result_def option.case sum.case
  proof (rule triple_bind [where R = "\<lambda>l t. l = lb \<and> lb_wf t \<and> board t = b0"])
    show "tx_triple (\<lambda>t. l = lb \<and> lb_wf t \<and> board t = b0)
      (tx_bind (RW (Leaderboard_Submit uid l p score now)) (\<lambda>improved. tx_bind (lb_rankOf l p) (\<lambda>ranked. tx_return (ranked, improved))))
      (\<lambda>(e, improved) t. lb_wf t \<and> Spec_Submit lb p score b0 = (improved, board t) \<and> board t (Leaderboard_ID lb) p = Some (Score e))
      (\<lambda>_ t. lb_wf t \<and> (board t = b0 \<or> board t = snd (Spec_Submit lb p score b0)))" for l
    proof (cases "l = lb")
      case True
      show ?thesis
        unfolding True simp_thms
        by (rule triple_bind [OF submit], rule triple_bind [OF rank], rule triple_return, simp)
    qed (simp add: tx_triple_def)
  qed (rule triple_return, simp)
qed


lemma rank_of_preserves: "preserves I (Leaderboard_RankOf lb p)"
  unfolding repo_by_order rankErr_def rank_of_def
  by (rule triple_bind [where R = "\<lambda>_. I"], rule triple_mapping [where E = "\<lambda>_. I"], rule triple_one) (auto intro!: triple_return)

lemma TopRanks_preserves: "preserves I (Leaderboard_TopRanks lb off lim)"
  unfolding repo_by_order top_ranks_def
  by (auto intro!: triple_fail triple_bind [where R = "\<lambda>_. I"] triple_return triple_stmt split: if_splits)

lemma lb_reads_preserve:
  "preserves I (ListRanks u lid off lim)" "preserves I (GetPlayerRank u lid p)" "preserves I (ListRanksAroundPlayer u lid p r)"
  unfolding ListRanks_def GetPlayerRank_def ListRanksAroundPlayer_def around_work_def lb_rankOf_def Let_def
  by (auto intro!: triple_bind [where R = "\<lambda>_. I"] triple_lift session_ro.run_preserves rank_of_preserves TopRanks_preserves)


lemma lb_reads_tables:
  "db_tables (snd (ListRanks u lid off lim s)) = db_tables s" "db_tables (snd (GetPlayerRank u lid p s)) = db_tables s"
  "db_tables (snd (ListRanksAroundPlayer u lid p r s)) = db_tables s"
  using preserves_snd [where I = "\<lambda>t. t = db_tables s" and s = s] lb_reads_preserve by blast+

lemma SubmitScore_unknown: "lu_defs u lid = None \<Longrightarrow> SubmitScore u uid lid p score now = tx_fail (LeaderboardE ErrLeaderboardNotFound)"
  by (simp add: SubmitScore_def lb_lookup_def lift_result_def tx_bind_def tx_fail_def fun_eq_iff)

text \<open>One call, whatever the store does with it.\<close>

lemma lb_step_no_worse:
  assumes "defs_ok u" "lu_defs u lid = Some lb" "lb_wf (db_tables s)"
  shows "lb_wf (db_tables (lb_step u c s)) \<and>
    no_worse lb p (submitted lid p c) (board (db_tables s)) (board (db_tables (lb_step u c s)))"
proof (cases c)
  case (CallSubmit uid lid' p' score now)
  show ?thesis
  proof (cases "lu_defs u lid'")
    case None
    then show ?thesis
      using CallSubmit assms(3) by (simp add: SubmitScore_unknown tx_fail_def no_worse_refl)
  next
    case (Some lb')
    have ids: "Leaderboard_ID lb = lid" "Leaderboard_ID lb' = lid'" using assms(1,2) Some by (auto simp: defs_ok_def)
    obtain x where sp: "Spec_Submit lb' p' score (board (db_tables s)) = (x, snd (Spec_Submit lb' p' score (board (db_tables s))))"
      by (metis prod.collapse)
    have nw: "no_worse lb p (submitted lid p c) (board (db_tables s)) (snd (Spec_Submit lb' p' score (board (db_tables s))))"
      using Spec_Submit_no_worse [OF sp, of lb p] ids assms(2) Some CallSubmit by (cases "lid' = lid") auto
    note tr = SubmitScore_triple [OF Some, of "board (db_tables s)" uid p' score now]
    obtain r s' where run: "SubmitScore u uid lid' p' score now s = (r, s')" by fastforce
    have "lb_wf (db_tables s') \<and> (board (db_tables s') = board (db_tables s) \<or>
        board (db_tables s') = snd (Spec_Submit lb' p' score (board (db_tables s))))"
      using tx_tripleD [OF tr, of s] run assms(3) by (cases r) auto
    then show ?thesis
      using nw no_worse_refl [of lb p "submitted lid p c" "board (db_tables s)"] run CallSubmit by auto
  qed
qed (use assms(3) in \<open>simp_all add: lb_reads_tables no_worse_refl\<close>)

lemma lb_steps_no_worse:
  assumes "defs_ok u" "lu_defs u lid = Some lb" "lb_wf (db_tables s)"
  shows "no_worse lb p (\<Union> (submitted lid p ` set calls)) (board (db_tables s)) (board (db_tables (fold (lb_step u) calls s)))"
  using assms(3)
proof (induction calls arbitrary: s)
  case Nil
  show ?case by (simp add: no_worse_refl)
next
  case (Cons c calls)
  have step: "lb_wf (db_tables (lb_step u c s))"
    "no_worse lb p (submitted lid p c) (board (db_tables s)) (board (db_tables (lb_step u c s)))"
    using lb_step_no_worse [OF assms(1,2) Cons.prems] by auto
  show ?case using no_worse_trans [OF step(2) Cons.IH [OF step(1)]] by (simp add: Un_commute)
qed

text \<open>
  C25. A best score is never lost. A submission that returns reports the better of the submitted score
  and the one the player had, with the improvement flag saying which; and after any further calls of
  the service by anyone, in any order and with any failures of the store, the player still has a score
  on that board, no worse than the reported one and the submitted one, and it is the reported one or
  one the player has submitted since.
\<close>

theorem leaderboard_keeps_best:
  assumes "defs_ok u" and "lu_defs u lid = Some lb" and "lb_wf (db_tables s)"
    and "SubmitScore u uid lid p score now s = (Inr (e, improved), s')"
  shows "(improved \<longleftrightarrow> (case board (db_tables s) lid p of None \<Rightarrow> True | Some old \<Rightarrow> Beats lb score old)) \<and>
    (if improved then Score e = score else board (db_tables s) lid p = Some (Score e)) \<and>
    (\<exists>v. board (db_tables (fold (lb_step u) calls s')) lid p = Some v \<and> \<not> Beats lb score v \<and> \<not> Beats lb (Score e) v \<and>
       (v = Score e \<or> v \<in> \<Union> (submitted lid p ` set calls)))"
proof -
  have id: "Leaderboard_ID lb = lid" using assms(1,2) by (auto simp: defs_ok_def)
  have after: "lb_wf (db_tables s')" "Spec_Submit lb p score (board (db_tables s)) = (improved, board (db_tables s'))"
      "board (db_tables s') lid p = Some (Score e)"
    using tx_tripleD(1) [OF SubmitScore_triple [OF assms(2), of "board (db_tables s)" uid p score now] _ assms(4)] assms(3) id by auto
  then have sp: "improved = fst (Spec_Submit lb p score (board (db_tables s)))"
      "snd (Spec_Submit lb p score (board (db_tables s))) lid p = Some (Score e)"
    by simp_all
  have better: "\<not> Beats lb score (Score e)"
    using sp id Beats_order(1) [of lb] by (auto simp: Spec_Submit_def split: option.splits if_splits)
  have "no_worse lb p (\<Union> (submitted lid p ` set calls)) (board (db_tables s')) (board (db_tables (fold (lb_step u) calls s')))"
    by (rule lb_steps_no_worse [OF assms(1,2) after(1)])
  then obtain v where v: "board (db_tables (fold (lb_step u) calls s')) lid p = Some v" "\<not> Beats lb (Score e) v"
      "v = Score e \<or> v \<in> \<Union> (submitted lid p ` set calls)"
    using after(3) id by (auto simp: no_worse_def split: option.splits)
  have "\<not> Beats lb score v" using Beats_order(3) [OF better v(2)] .
  moreover have "improved \<longleftrightarrow> (case board (db_tables s) lid p of None \<Rightarrow> True | Some old \<Rightarrow> Beats lb score old)"
    using sp(1) id by (auto simp: Spec_Submit_def split: option.splits if_splits)
  moreover have "if improved then Score e = score else board (db_tables s) lid p = Some (Score e)"
    using sp id by (auto simp: Spec_Submit_def split: option.splits if_splits)
  ultimately show ?thesis using v by blast
qed


definition lb_demo :: LeaderboardUsecase where
  "lb_demo = \<lparr>lu_defs = [''wins'' \<mapsto> \<lparr>Leaderboard_ID = ''wins'', Leaderboard_SortOrder = Descending\<rparr>],
     lu_DefaultLimit = 10, lu_MaxLimit = 50, lu_MaxRadius = 5\<rparr>"

section \<open>Rank and position\<close>

text \<open>The rows of a board in the order of the ranking.\<close>

definition board_rows :: "tables \<Rightarrow> string \<Rightarrow> rank_row list" where
  "board_rows t lid = concat (map (rank_rows t) (filter (\<lambda>e. le_leaderboard_id e = lid) (leaderboard_entries t)))"

definition standings :: "Leaderboard \<Rightarrow> tables \<Rightarrow> rank_row list" where
  "standings lb t = sort_by (row_ahead (Beats lb)) (board_rows t (Leaderboard_ID lb))"

definition row_of :: "tables \<Rightarrow> leaderboard_row \<Rightarrow> rank_row" where
  "row_of t e = hd (rank_rows t e)"

definition no_ties :: "tables \<Rightarrow> string \<Rightarrow> bool" where
  "no_ties t lid \<longleftrightarrow> distinct (map (\<lambda>e. (le_score e, le_achieved_at e)) (filter (\<lambda>e. le_leaderboard_id e = lid) (leaderboard_entries t)))"

lemma rank_rows_single:
  assumes "lb_wf t" "e \<in> set (leaderboard_entries t)"
  shows "rank_rows t e = [row_of t e]" "\<exists>nick. row_of t e = (le_player_id e, nick, le_score e, le_achieved_at e)"
proof -
  have "map fst (rank_rows t e) = [le_player_id e]"
    unfolding rank_rows_def join_player_def
    using join_player_ids [of t "le_player_id e" p_id "\<lambda>r. r"] assms
    by (auto simp: lb_wf_def join_player_def)
  then obtain row where row: "rank_rows t e = [row]" by auto
  then show "rank_rows t e = [row_of t e]" by (simp add: row_of_def)
  have "row \<in> set (rank_rows t e)" using row by simp
  then show "\<exists>nick. row_of t e = (le_player_id e, nick, le_score e, le_achieved_at e)"
    using row by (auto simp: row_of_def rank_rows_def join_player_def)
qed

lemma board_rows_map:
  assumes "lb_wf t"
  shows "board_rows t lid = map (row_of t) (filter (\<lambda>e. le_leaderboard_id e = lid) (leaderboard_entries t))"
proof -
  have "concat (map (rank_rows t) es) = map (row_of t) es" if "set es \<subseteq> set (leaderboard_entries t)" for es
    using that by (induction es) (simp_all add: rank_rows_single(1) [OF assms])
  then show ?thesis unfolding board_rows_def by auto
qed

lemma row_ahead_weak: "strict_weak (row_ahead (Beats lb))"
  unfolding strict_weak_def row_ahead_def by (auto simp: Beats_def)

lemma row_ahead_total:
  "snd (snd x) \<noteq> snd (snd y) \<Longrightarrow> row_ahead (Beats lb) x y \<or> row_ahead (Beats lb) y x"
  by (cases x; cases y) (auto simp: row_ahead_def Beats_def)

lemma row_ahead_entry:
  assumes "lb_wf t" "a \<in> set (leaderboard_entries t)" "b \<in> set (leaderboard_entries t)"
  shows "row_ahead better (row_of t a) (row_of t b) \<longleftrightarrow> entry_ahead better a b"
  using rank_rows_single(2) [OF assms(1,2)] rank_rows_single(2) [OF assms(1,3)]
  by (auto simp: row_ahead_def entry_ahead_def)

lemma standings_strict:
  assumes "lb_wf t" "no_ties t (Leaderboard_ID lb)"
  shows "sorted_wrt (row_ahead (Beats lb)) (standings lb t)" "distinct (standings lb t)"
proof -
  let ?es = "filter (\<lambda>e. le_leaderboard_id e = Leaderboard_ID lb) (leaderboard_entries t)"
  have key: "map (\<lambda>r. snd (snd r)) (board_rows t (Leaderboard_ID lb)) = map (\<lambda>e. (le_score e, le_achieved_at e)) ?es"
    using rank_rows_single(2) [OF assms(1)] by (fastforce simp: board_rows_map [OF assms(1)])
  have dk: "distinct (map (\<lambda>r. snd (snd r)) (board_rows t (Leaderboard_ID lb)))"
    using assms(2) unfolding key no_ties_def .
  then show d: "distinct (standings lb t)" by (auto simp: standings_def distinct_map)
  have "row_ahead (Beats lb) x y \<or> row_ahead (Beats lb) y x"
    if "x \<in> set (standings lb t)" "y \<in> set (standings lb t)" "x \<noteq> y" for x y
    by (rule row_ahead_total)
      (use that inj_onD [OF conjunct2 [OF dk [unfolded distinct_map]], of x y] in \<open>auto simp: standings_def\<close>)
  then show "sorted_wrt (row_ahead (Beats lb)) (standings lb t)"
    using sorted_wrt_strict [OF sorted_sort_by [OF row_ahead_weak]] d by (simp add: standings_def)
qed

text \<open>The count the rank query makes is the index in the ranking.\<close>

lemma count_ahead_index:
  assumes "lb_wf t" "no_ties t (Leaderboard_ID lb)" "i < length (standings lb t)"
    and "e \<in> set (leaderboard_entries t)" "le_leaderboard_id e = Leaderboard_ID lb" "standings lb t ! i = row_of t e"
  shows "count_ahead (Beats lb) t e = i"
proof -
  let ?es = "filter (\<lambda>e. le_leaderboard_id e = Leaderboard_ID lb) (leaderboard_entries t)"
  have "count_ahead (Beats lb) t e = length (filter (\<lambda>a. entry_ahead (Beats lb) a e) ?es)"
    by (simp add: count_ahead_def assms(5) conj_commute)
  also have "\<dots> = length (filter (\<lambda>r. row_ahead (Beats lb) r (row_of t e)) (map (row_of t) ?es))"
    using row_ahead_entry [OF assms(1) _ assms(4)] by (simp add: filter_map comp_def cong: filter_cong)
  also have "\<dots> = length (filter (\<lambda>r. row_ahead (Beats lb) r (row_of t e)) (standings lb t))"
    unfolding standings_def board_rows_map [OF assms(1)]
    by (metis mset_filter mset_sort_by size_mset)
  also have "\<dots> = i"
    using count_before [OF standings_strict(1) [OF assms(1,2)] assms(3)] strict_weakD(1) [OF row_ahead_weak] assms(6) by metis
  finally show ?thesis .
qed


text \<open>What the queries return on a quiet store.\<close>

lemma standings_entry:
  assumes "lb_wf t" "i < length (standings lb t)"
  obtains e where "e \<in> set (leaderboard_entries t)" "le_leaderboard_id e = Leaderboard_ID lb" "standings lb t ! i = row_of t e"
  using nth_mem [OF assms(2)] by (auto simp: standings_def board_rows_map [OF assms(1)])

lemma entry_standing:
  assumes "lb_wf t" "e \<in> set (leaderboard_entries t)" "le_leaderboard_id e = Leaderboard_ID lb"
  obtains i where "i < length (standings lb t)" "standings lb t ! i = row_of t e"
proof -
  have "row_of t e \<in> set (standings lb t)" using assms by (auto simp: standings_def board_rows_map)
  then show thesis using that by (metis in_set_conv_nth)
qed

lemma TopRanks_run:
  assumes "live ro s" "0 \<le> off" "off < 2 ^ 31" "0 \<le> lim" "lim < 2 ^ 31"
  shows "Leaderboard_TopRanks lb off lim s
    = (Inr (ranked_page off (take (nat lim) (drop (nat off) (standings lb (db_tables s))))), s)"
  using assms by (simp add: repo_by_order top_ranks_def tx_eval int32_of_small standings_def board_rows_def)

lemma entry_filter:
  assumes "lb_wf t" "e \<in> set (leaderboard_entries t)"
  shows "filter (is_entry (le_leaderboard_id e) (le_player_id e)) (leaderboard_entries t) = [e]"
proof -
  have "(le_leaderboard_id e, le_player_id e) \<in> (\<lambda>e. (le_leaderboard_id e, le_player_id e)) ` set (leaderboard_entries t)"
    using assms(2) by simp
  from filter_key_singleton [OF conjunct1 [OF conjunct2 [OF assms(1) [unfolded lb_wf_def]]] this]
  have "\<exists>x. filter (is_entry (le_leaderboard_id e) (le_player_id e)) (leaderboard_entries t) = [x]"
    by (auto simp: is_entry_def [abs_def])
  moreover have "e \<in> set (filter (is_entry (le_leaderboard_id e) (le_player_id e)) (leaderboard_entries t))"
    using assms(2) by (simp add: is_entry_def)
  ultimately show ?thesis by (auto simp del: set_filter)
qed

lemma RankOf_run:
  assumes "live ro s" "lb_wf (db_tables s)" "e \<in> set (leaderboard_entries (db_tables s))" "le_leaderboard_id e = Leaderboard_ID lb"
  shows "Leaderboard_RankOf lb (le_player_id e) s
    = (Inr (toRanked (1 + int (count_ahead (Beats lb) (db_tables s) e), row_of (db_tables s) e)), s)"
proof -
  have "filter (is_entry (Leaderboard_ID lb) (le_player_id e)) (leaderboard_entries (db_tables s)) = [e]"
    using entry_filter [OF assms(2,3)] assms(4) by simp
  then show ?thesis
    using assms(1) by (simp add: repo_by_order rankErr_def rank_of_def tx_mapping_def tx_eval rank_rows_single(1) [OF assms(2,3)])
qed


text \<open>The entry at an index of the ranking, and what both queries say of it.\<close>

definition standing :: "Leaderboard \<Rightarrow> tables \<Rightarrow> nat \<Rightarrow> RankedEntry" where
  "standing lb t i = toRanked (int i + 1, standings lb t ! i)"

lemma ranked_page_standing:
  assumes "0 \<le> off"
  shows "ranked_page off (take n (drop (nat off) (standings lb t)))
    = map (standing lb t) [nat off ..< min (length (standings lb t)) (nat off + n)]"
  using assms by (auto intro!: nth_equalityI simp: ranked_page_def standing_def enumerate_eq_zip add.commute)

lemma Rank_standing: "Rank (standing lb t i) = int i + 1"
  by (simp add: standing_def toRanked_def split: prod.split)

lemma upt_upto: "map (\<lambda>j. int j + 1) [a ..< b] = [int a + 1 .. int b]"
proof (induction b)
  case (Suc b)
  then show ?case using upto_rec2 [of "int a + 1" "1 + int b"] by (cases "a \<le> b") simp_all
qed simp

lemma RankOf_standing:
  assumes "live ro s" "lb_wf (db_tables s)" "no_ties (db_tables s) (Leaderboard_ID lb)" "i < length (standings lb (db_tables s))"
  shows "Leaderboard_RankOf lb (Ranked_PlayerID (standing lb (db_tables s) i)) s = (Inr (standing lb (db_tables s) i), s)"
proof -
  obtain e where e: "e \<in> set (leaderboard_entries (db_tables s))" "le_leaderboard_id e = Leaderboard_ID lb"
      "standings lb (db_tables s) ! i = row_of (db_tables s) e"
    using standings_entry [OF assms(2,4)] .
  then have "Ranked_PlayerID (standing lb (db_tables s) i) = le_player_id e"
    using rank_rows_single(2) [OF assms(2) e(1)] by (auto simp: standing_def toRanked_def)
  then show ?thesis
    using RankOf_run [OF assms(1,2) e(1,2)] count_ahead_index [OF assms(2,3,4) e] e(3) by (simp add: standing_def add.commute)
qed


lemma lookup_known: "lu_defs u lid = Some lb \<Longrightarrow> lift_result (lb_lookup u lid) = tx_return lb"
  by (simp add: lb_lookup_def lift_result_def)

lemma usecase_reads:
  assumes "lu_defs u lid = Some lb"
  shows "ListRanks u lid off lim = RO (Leaderboard_TopRanks lb (if off < 0 then 0 else off) (lb_clampLimit u lim))"
    and "GetPlayerRank u lid p = RO (Leaderboard_RankOf lb p)"
    and "ListRanksAroundPlayer u lid p r = RO (around_work lb p (clampRadius u r))"
  by (simp_all add: ListRanks_def GetPlayerRank_def ListRanksAroundPlayer_def lookup_known [OF assms] lb_rankOf_def
      tx_bind_def tx_return_def fun_eq_iff)

text \<open>
  C26. The two ways the service computes a rank agree. On a board where no two entries have both the
  same score and the same instant, every entry of a page of \<open>ListRanks\<close> carries the rank its position
  says, counted from the offset, and \<open>GetPlayerRank\<close>, which counts the entries ahead instead of sorting,
  returns that very entry; the page has as many entries as the clamped limit and the board allow.
\<close>

theorem rank_matches_page:
  assumes "quiet s" and "lb_wf (db_tables s)" and "lu_defs u lid = Some lb" and "no_ties (db_tables s) (Leaderboard_ID lb)"
    and "0 \<le> off" and "off < 2 ^ 31" and "0 \<le> lb_clampLimit u lim" and "lb_clampLimit u lim < 2 ^ 31"
  shows "\<exists>es. outcome (ListRanks u lid off lim) s = (Inr es, db_tables s) \<and>
    int (length es) = min (lb_clampLimit u lim) (max 0 (int (length (board_rows (db_tables s) (Leaderboard_ID lb))) - off)) \<and>
    (\<forall>i < length es. Rank (es ! i) = off + int i + 1 \<and>
       outcome (GetPlayerRank u lid (Ranked_PlayerID (es ! i))) s = (Inr (es ! i), db_tables s))"
proof -
  let ?t = "db_tables s" let ?n = "nat (lb_clampLimit u lim)"
  let ?es = "map (standing lb ?t) [nat off ..< min (length (standings lb ?t)) (nat off + ?n)]"
  note live = live_begin_tx [OF assms(1), of True]
  have "outcome (ListRanks u lid off lim) s = (Inr ?es, ?t)"
    unfolding usecase_reads(1) [OF assms(3)]
    by (rule RO_outcome [OF assms(1)])
      (use assms(5) TopRanks_run [OF live assms(5-8), of lb] in \<open>simp add: ranked_page_standing\<close>)
  moreover have "int (length ?es) = min (lb_clampLimit u lim) (max 0 (int (length (board_rows ?t (Leaderboard_ID lb))) - off))"
    using assms(5,7) by (simp add: standings_def)
  moreover have "Rank (?es ! i) = off + int i + 1 \<and> outcome (GetPlayerRank u lid (Ranked_PlayerID (?es ! i))) s = (Inr (?es ! i), ?t)"
    if "i < length ?es" for i
  proof -
    have "nat off + i < min (length (standings lb ?t)) (nat off + ?n)"
      using that unfolding length_map length_upt less_diff_conv by (simp only: add.commute)
    then have i: "?es ! i = standing lb ?t (nat off + i)" "nat off + i < length (standings lb ?t)" using that by simp_all
    have "outcome (GetPlayerRank u lid (Ranked_PlayerID (standing lb ?t (nat off + i)))) s = (Inr (standing lb ?t (nat off + i)), ?t)"
      unfolding usecase_reads(2) [OF assms(3)]
      by (rule RO_outcome [OF assms(1)]) (use RankOf_standing [OF live, of lb "nat off + i"] assms(2,4) i(2) in simp)
    then show ?thesis unfolding i(1) using assms(5) by (simp add: standing_def toRanked_def split: prod.split)
  qed
  ultimately show ?thesis by blast
qed


lemma board_some:
  assumes "board t lid p = Some v"
  obtains e where "e \<in> set (leaderboard_entries t)" "le_leaderboard_id e = lid" "le_player_id e = p" "le_score e = v"
  using assms by (auto simp: board_def is_entry_def dest!: find_Some)

text \<open>
  The window around a player. For a player with a score on a board without ties, the entries of
  \<open>ListRanksAroundPlayer\<close> are consecutive ranks: from the clamped radius before the player, or from
  the first rank, twice the radius onwards, or to the last rank. The player's own entry is among
  them, as \<open>GetPlayerRank\<close> reports it.
\<close>

theorem window_around_player:
  assumes "quiet s" and "lb_wf (db_tables s)" and "lu_defs u lid = Some lb" and "no_ties (db_tables s) (Leaderboard_ID lb)"
    and "board (db_tables s) (Leaderboard_ID lb) p = Some v"
    and "0 \<le> lu_MaxRadius u" and "lu_MaxRadius u < 2 ^ 30" and "length (leaderboard_entries (db_tables s)) < 2 ^ 31"
  shows "\<exists>self es. outcome (GetPlayerRank u lid p) s = (Inr self, db_tables s) \<and> Ranked_PlayerID self = p \<and> Score self = v \<and>
    outcome (ListRanksAroundPlayer u lid p r) s = (Inr es, db_tables s) \<and> self \<in> set es \<and>
    map Rank es = [max 1 (Rank self - clampRadius u r) ..
      min (int (length (board_rows (db_tables s) (Leaderboard_ID lb)))) (max 1 (Rank self - clampRadius u r) + 2 * clampRadius u r)]"
proof -
  let ?t = "db_tables s" and ?\<rho> = "clampRadius u r" and ?N = "length (standings lb (db_tables s))"
  note live = live_begin_tx [OF assms(1), of True]
  obtain e where e: "e \<in> set (leaderboard_entries ?t)" "le_leaderboard_id e = Leaderboard_ID lb" "le_player_id e = p" "le_score e = v"
    using board_some [OF assms(5)] .
  obtain i where i: "i < ?N" "standings lb ?t ! i = row_of ?t e" using entry_standing [OF assms(2) e(1,2)] .
  let ?self = "standing lb ?t i" and ?off = "max 0 (int i - ?\<rho>)"
  have self: "Ranked_PlayerID ?self = p" "Score ?self = v" "Rank ?self = int i + 1"
    using rank_rows_single(2) [OF assms(2) e(1)] i(2) e(3,4) by (auto simp: standing_def toRanked_def)
  have N: "int ?N < 2 ^ 31"
    using assms(8) le_less_trans [OF length_filter_le assms(8)] by (simp add: standings_def board_rows_map [OF assms(2)])
  have \<rho>: "0 \<le> ?\<rho>" "?\<rho> < 2 ^ 30" using assms(6,7) by (auto simp: clampRadius_def Let_def)
  have rank: "Leaderboard_RankOf lb p (begin_tx True s) = (Inr ?self, begin_tx True s)"
    using RankOf_standing [OF live, of lb i] assms(2,4) i(1) self(1) by simp
  then have get: "outcome (GetPlayerRank u lid p) s = (Inr ?self, ?t)"
    unfolding usecase_reads(2) [OF assms(3)] by (rule RO_outcome [OF assms(1)])
  let ?es = "map (standing lb ?t) [nat ?off ..< min ?N (nat ?off + nat (2 * ?\<rho> + 1))]"
  have "around_work lb p ?\<rho> (begin_tx True s) = (Inr ?es, begin_tx True s)"
  proof -
    have "Leaderboard_TopRanks lb ?off (2 * ?\<rho> + 1) (begin_tx True s) = (Inr ?es, begin_tx True s)"
      using TopRanks_run [OF live, of ?off "2 * ?\<rho> + 1" lb] N i(1) \<rho> by (simp add: ranked_page_standing)
    moreover have "(if Rank ?self - 1 - ?\<rho> < 0 then 0 else Rank ?self - 1 - ?\<rho>) = ?off" using self(3) by simp
    ultimately show ?thesis using rank by (simp only: around_work_def tx_bind_def Let_def prod.case sum.case)
  qed
  then have around: "outcome (ListRanksAroundPlayer u lid p r) s = (Inr ?es, ?t)"
    unfolding usecase_reads(3) [OF assms(3)] by (rule RO_outcome [OF assms(1)])
  have "i \<in> {nat ?off ..< min ?N (nat ?off + nat (2 * ?\<rho> + 1))}" using i(1) \<rho> by (simp add: nat_le_iff)
  then have "?self \<in> set ?es" by (simp only: set_map set_upt image_eqI)
  moreover have "map Rank ?es = [max 1 (Rank ?self - ?\<rho>) .. min (int (length (board_rows ?t (Leaderboard_ID lb)))) (max 1 (Rank ?self - ?\<rho>) + 2 * ?\<rho>)]"
  proof -
    have "map Rank ?es = [int (nat ?off) + 1 .. int (min ?N (nat ?off + nat (2 * ?\<rho> + 1)))]"
      by (simp add: Rank_standing comp_def upt_upto)
    moreover have "int (nat ?off) + 1 = max 1 (Rank ?self - ?\<rho>)"
      "int (min ?N (nat ?off + nat (2 * ?\<rho> + 1))) = min (int (length (board_rows ?t (Leaderboard_ID lb)))) (max 1 (Rank ?self - ?\<rho>) + 2 * ?\<rho>)"
      using self(3) \<rho> by (simp_all add: standings_def)
    ultimately show ?thesis by simp
  qed
  ultimately show ?thesis using get around self by blast
qed


text \<open>
  Ties in both score and instant are possible, since instants are kept to the microsecond: then two
  players share the rank the count gives, and the page gives them different ones.
\<close>

definition sample_board :: "(uuid \<times> int \<times> go_time) list \<Rightarrow> db" where
  "sample_board es = (sample_db [1, 2, 3])\<lparr>db_tables := (db_tables (sample_db [1, 2, 3]))\<lparr>leaderboard_entries :=
     map (\<lambda>(p, score, at). \<lparr>le_id = p, le_leaderboard_id = ''wins'', le_player_id = p, le_score = score, le_achieved_at = at, le_created_at = 0\<rparr>) es\<rparr>\<rparr>"

lemma sample_board_facts:
  "quiet (sample_board es)"
  "distinct (map fst es) \<Longrightarrow> fst ` set es \<subseteq> {1, 2, 3} \<Longrightarrow> lb_wf (db_tables (sample_board es))"
  by (auto simp: sample_board_def sample_simps lb_wf_def has_player_def comp_def split_def distinct_map inj_on_def)

lemma lb_demo_facts:
  "defs_ok lb_demo" "lu_defs lb_demo ''wins'' = Some \<lparr>Leaderboard_ID = ''wins'', Leaderboard_SortOrder = Descending\<rparr>"
  by (auto simp: lb_demo_def defs_ok_def split: if_splits)

lemma tie_breaks_rank:
  "map (\<lambda>e. (Rank e, Ranked_PlayerID e)) (case fst (ListRanks lb_demo ''wins'' 0 2 (sample_board [(1, 5, 7000), (2, 5, 7000)])) of Inr es \<Rightarrow> es | Inl _ \<Rightarrow> [])
     = [(1, 1), (2, 2)]"
  "map_option Rank (case fst (GetPlayerRank lb_demo ''wins'' 2 (sample_board [(1, 5, 7000), (2, 5, 7000)])) of Inr e \<Rightarrow> Some e | Inl _ \<Rightarrow> None) = Some 1"
  by code_simp+

theorem leaderboard_keeps_best_witness:
  "\<exists>v. board (db_tables (fold (lb_step lb_demo) [CallSubmit 9 ''wins'' 3 4 9000, CallAround ''wins'' 3 2]
     (snd (SubmitScore lb_demo 8 ''wins'' 3 6 8000 (sample_board [(1, 5, 7000)]))))) ''wins'' 3 = Some v \<and> v \<ge> 6"
proof -
  have "case fst (SubmitScore lb_demo 8 ''wins'' 3 6 8000 (sample_board [(1, 5, 7000)])) of Inr _ \<Rightarrow> True | Inl _ \<Rightarrow> False"
    by code_simp
  then obtain e imp s' where run: "SubmitScore lb_demo 8 ''wins'' 3 6 8000 (sample_board [(1, 5, 7000)]) = (Inr (e, imp), s')"
    by (cases "SubmitScore lb_demo 8 ''wins'' 3 6 8000 (sample_board [(1, 5, 7000)])") (auto split: sum.splits)
  have "lb_wf (db_tables (sample_board [(1, 5, 7000)]))" by (rule sample_board_facts(2)) simp_all
  from leaderboard_keeps_best [OF lb_demo_facts this run, of "[CallSubmit 9 ''wins'' 3 4 9000, CallAround ''wins'' 3 2]"]
  show ?thesis unfolding run by (auto simp: Beats_def)
qed


lemma sample_board_no_ties: "distinct (map snd es) \<Longrightarrow> no_ties (db_tables (sample_board es)) ''wins''"
  by (simp add: sample_board_def no_ties_def comp_def split_def sample_simps)

theorem rank_matches_page_witness:
  "\<exists>es. outcome (ListRanks lb_demo ''wins'' 1 2) (sample_board [(1, 5, 7000), (2, 9, 8000), (3, 5, 6000)])
       = (Inr es, db_tables (sample_board [(1, 5, 7000), (2, 9, 8000), (3, 5, 6000)])) \<and> length es = 2 \<and> Rank (es ! 1) = 3 \<and>
     outcome (GetPlayerRank lb_demo ''wins'' (Ranked_PlayerID (es ! 1))) (sample_board [(1, 5, 7000), (2, 9, 8000), (3, 5, 6000)])
       = (Inr (es ! 1), db_tables (sample_board [(1, 5, 7000), (2, 9, 8000), (3, 5, 6000)]))"
proof -
  let ?s = "sample_board [(1, 5, 7000), (2, 9, 8000), (3, 5, 6000)]"
  have facts: "lb_wf (db_tables ?s)" "no_ties (db_tables ?s) ''wins''"
    by (rule sample_board_facts(2); simp) (rule sample_board_no_ties; simp)
  have lims: "lb_clampLimit lb_demo 2 = 2" "length (board_rows (db_tables ?s) ''wins'') = 3" by code_simp+
  show ?thesis
    using rank_matches_page [OF sample_board_facts(1) facts(1) lb_demo_facts(2), of 1 2] facts(2) lims by auto
qed

theorem window_around_player_witness:
  "\<exists>self es. outcome (GetPlayerRank lb_demo ''wins'' 3) (sample_board [(1, 5, 7000), (2, 9, 8000), (3, 5, 6000)])
       = (Inr self, db_tables (sample_board [(1, 5, 7000), (2, 9, 8000), (3, 5, 6000)])) \<and>
     outcome (ListRanksAroundPlayer lb_demo ''wins'' 3 1) (sample_board [(1, 5, 7000), (2, 9, 8000), (3, 5, 6000)])
       = (Inr es, db_tables (sample_board [(1, 5, 7000), (2, 9, 8000), (3, 5, 6000)])) \<and> self \<in> set es"
proof -
  let ?s = "sample_board [(1, 5, 7000), (2, 9, 8000), (3, 5, 6000)]"
  have facts: "lb_wf (db_tables ?s)" "no_ties (db_tables ?s) ''wins''"
    by (rule sample_board_facts(2); simp) (rule sample_board_no_ties; simp)
  have more: "board (db_tables ?s) ''wins'' 3 = Some 5" "lu_MaxRadius lb_demo = 5" "length (leaderboard_entries (db_tables ?s)) = 3"
    by code_simp+
  show ?thesis
    using window_around_player [OF sample_board_facts(1) facts(1) lb_demo_facts(2), of 3 5 1] facts(2) more by auto
qed

end
