(* ===== verification/Leaderboard_Index.thy ===== *)
theory Leaderboard_Index
  imports Valkey_Stores Leaderboards
begin

text \<open>
  The leaderboard repository with a sorted set beside the table
  (\<open>internal/infra/repository/leaderboard_valkey.go\<close>): submissions go to PostgreSQL first and are
  mirrored into the set, ranks are read from the set, which is rebuilt from the table when it is
  missing, and every failure of the server falls back to the table. The last section shows that the
  rank the index gives is the rank the table gives, whatever faults the server has.
\<close>


section \<open>The repository\<close>

text \<open>
  Code that talks to both stores: a computation on the session and the server. Code for one of them
  leaves the other alone.
\<close>

type_synonym ('v, 'a) idx = "db \<times> 'v \<Rightarrow> 'a result \<times> db \<times> 'v"

definition idx_return :: "'a \<Rightarrow> ('v, 'a) idx" where
  "idx_return x w = (Inr x, w)"

definition idx_fail :: "go_error \<Rightarrow> ('v, 'a) idx" where
  "idx_fail e w = (Inl e, w)"

definition idx_bind :: "('v, 'a) idx \<Rightarrow> ('a \<Rightarrow> ('v, 'b) idx) \<Rightarrow> ('v, 'b) idx" where
  "idx_bind m f w = (case m w of (Inl e, w') \<Rightarrow> (Inl e, w') | (Inr x, w') \<Rightarrow> f x w')"

definition idx_tx :: "'a tx \<Rightarrow> ('v, 'a) idx" where
  "idx_tx m = (\<lambda>(s, v). case m s of (r, s') \<Rightarrow> (r, s', v))"

definition idx_do :: "'v vk_client \<Rightarrow> command \<Rightarrow> (reply \<Rightarrow> 'a result) \<Rightarrow> ('v, 'a) idx" where
  "idx_do client c read = (\<lambda>(s, v). case client c v of (r, v') \<Rightarrow> (read r, s, v'))"

definition only_error :: "reply \<Rightarrow> unit result" where
  "only_error r = (case reply_Error r of Some e \<Rightarrow> Inl e | None \<Rightarrow> Inr ())"

record 'v LeaderboardIndex =
  ix_client :: "'v vk_client"
  ix_ttl :: duration
  ix_str :: "uuid \<Rightarrow> string"

definition leaderboardKey :: "string \<Rightarrow> string" where
  "leaderboardKey lid = ''vfx:lb:'' @ lid"

definition float_of_int64 :: "int \<Rightarrow> float64" where
  "float_of_int64 n = round64 (of_int n)"

definition sql_AllLeaderboardEntries :: "string \<Rightarrow> (uuid \<times> int) list tx" where
  "sql_AllLeaderboardEntries lid = sql_query (\<lambda>t. map (\<lambda>e. (le_player_id e, le_score e))
     (filter (\<lambda>e. le_leaderboard_id e = lid) (leaderboard_entries t)))"

definition sql_LeaderboardEntryByPlayer :: "string \<Rightarrow> uuid \<Rightarrow> rank_row tx" where
  "sql_LeaderboardEntryByPlayer lid p = sql_one (\<lambda>t.
     case concat (map (rank_rows t) (filter (is_entry lid p) (leaderboard_entries t))) of [] \<Rightarrow> None | row # _ \<Rightarrow> Some row)"

definition rebuild :: "'v LeaderboardIndex \<Rightarrow> Leaderboard \<Rightarrow> ('v, unit) idx" where
  "rebuild x lb =
     idx_bind (idx_tx (sql_AllLeaderboardEntries (Leaderboard_ID lb))) (\<lambda>rows.
     if rows = [] then idx_return ()
     else idx_bind (idx_do (ix_client x) (ZADD (leaderboardKey (Leaderboard_ID lb)) ZSET
              (map (\<lambda>(p, score). (float_of_int64 score, ix_str x p)) rows)) only_error) (\<lambda>_.
          idx_do (ix_client x) (EXPIRE (leaderboardKey (Leaderboard_ID lb)) (whole_seconds (ix_ttl x))) only_error))"

definition ensureBuilt :: "'v LeaderboardIndex \<Rightarrow> Leaderboard \<Rightarrow> ('v, unit) idx" where
  "ensureBuilt x lb =
     idx_bind (idx_do (ix_client x) (EXISTS (leaderboardKey (Leaderboard_ID lb))) ToInt64) (\<lambda>exists.
     if exists = 1 then idx_return () else rebuild x lb)"

definition index_zadd :: "'v LeaderboardIndex \<Rightarrow> Leaderboard \<Rightarrow> uuid \<Rightarrow> int \<Rightarrow> ('v, unit) idx" where
  "index_zadd x lb playerID score =
     idx_do (ix_client x) (ZADD (leaderboardKey (Leaderboard_ID lb)) (if Leaderboard_SortOrder lb = Ascending then ZLT else ZGT)
       [(float_of_int64 score, ix_str x playerID)]) only_error"

definition zeroBasedRank :: "'v LeaderboardIndex \<Rightarrow> Leaderboard \<Rightarrow> uuid \<Rightarrow> ('v, int) idx" where
  "zeroBasedRank x lb playerID =
     (let cmd = (if Leaderboard_SortOrder lb = Ascending then ZRANK else ZREVRANK) (leaderboardKey (Leaderboard_ID lb)) (ix_str x playerID)
      in idx_do (ix_client x) cmd (\<lambda>r. case ToInt64 r of
           Inl e \<Rightarrow> if IsValkeyNil e then Inl (LeaderboardE ErrEntryNotFound) else Inl e
         | Inr rank \<Rightarrow> Inr rank))"

definition rankViaIndex :: "'v LeaderboardIndex \<Rightarrow> Leaderboard \<Rightarrow> uuid \<Rightarrow> ('v, RankedEntry) idx" where
  "rankViaIndex x lb playerID =
     idx_bind (ensureBuilt x lb) (\<lambda>_.
     idx_bind (zeroBasedRank x lb playerID) (\<lambda>rank.
     idx_bind (idx_tx (rankErr (sql_LeaderboardEntryByPlayer (Leaderboard_ID lb) playerID))) (\<lambda>row.
     idx_return (toRanked (rank + 1, row)))))"

definition Index_Submit :: "'v LeaderboardIndex \<Rightarrow> uuid \<Rightarrow> Leaderboard \<Rightarrow> uuid \<Rightarrow> int \<Rightarrow> go_time \<Rightarrow> ('v, bool) idx" where
  "Index_Submit x uid lb playerID score now =
     idx_bind (idx_tx (Leaderboard_Submit uid lb playerID score now)) (\<lambda>improved w.
     case ensureBuilt x lb w of
       (Inl _, w') \<Rightarrow> (Inr improved, w')
     | (Inr _, w') \<Rightarrow> (Inr improved, snd (index_zadd x lb playerID score w')))"

definition Index_RankOf :: "'v LeaderboardIndex \<Rightarrow> Leaderboard \<Rightarrow> uuid \<Rightarrow> ('v, RankedEntry) idx" where
  "Index_RankOf x lb playerID w = (case rankViaIndex x lb playerID w of
     (Inr entry, w') \<Rightarrow> (Inr entry, w')
   | (Inl err, w') \<Rightarrow> if errors_Is err (LeaderboardE ErrEntryNotFound) then (Inl err, w')
       else idx_tx (Leaderboard_RankOf lb playerID) w')"

definition Index_TopRanks :: "'v LeaderboardIndex \<Rightarrow> Leaderboard \<Rightarrow> int \<Rightarrow> int \<Rightarrow> ('v, RankedEntry list) idx" where
  "Index_TopRanks x lb offset limit = idx_tx (Leaderboard_TopRanks lb offset limit)"

section \<open>Scores as floating point numbers\<close>

lemma bitlen_le: "n < 2 ^ k \<Longrightarrow> bitlen n \<le> k"
proof (induction k arbitrary: n)
  case (Suc k)
  then show ?case by (cases "n = 0") (simp_all add: bitlen.simps [of n] bitlen.simps [of 0])
qed (simp add: bitlen.simps)

lemma bitlen_1: "bitlen 1 = 1"
  by (simp add: bitlen.simps)

lemma pow2_pos: "pow2 u > 0"
  by (simp add: pow2_def)

lemma round_half_even_int: "round_half_even (of_int n) = n"
  by (simp add: round_half_even_def)

lemma lead_exp_int:
  assumes "0 < n" "n < 2 ^ 53"
  shows "lead_exp (of_int n) \<le> 52"
proof -
  have "bitlen (nat n) \<le> 53" by (rule bitlen_le) (use assms in \<open>simp add: nat_less_iff\<close>)
  then show ?thesis using bitlen_1 by (simp add: lead_exp_def Let_def)
qed

lemma round_mag_int:
  assumes "0 \<le> n" "n < 2 ^ 53"
  shows "round_mag (of_int n) = Some (of_int n)"
proof (cases "n = 0")
  case False
  define u where "u = max (lead_exp (of_int n :: rat) - 52) (- 1074)"
  have u: "u \<le> 0" using lead_exp_int [of n] assms False by (simp add: u_def)
  then have inv: "(of_int n :: rat) / pow2 u = of_int (n * 2 ^ nat (- u))" by (simp add: pow2_def)
  then have "of_int (round_half_even ((of_int n :: rat) / pow2 u)) * pow2 u = of_int n"
    unfolding inv round_half_even_int using u by (simp add: pow2_def)
  moreover have "(of_int n :: rat) < pow2 1024"
  proof -
    have "n < 2 ^ 1024" using assms(2) by (rule less_le_trans) simp
    then have "(of_int n :: rat) < of_int (2 ^ 1024)" by (simp only: of_int_less_iff)
    then show ?thesis by (simp add: pow2_def)
  qed
  ultimately show ?thesis using False by (simp add: round_mag_def Let_def u_def [symmetric])
qed (simp add: round_mag_def)

lemma float_of_int64_exact:
  assumes "\<bar>n\<bar> < 2 ^ 53"
  shows "float_of_int64 n = Fin (of_int n)"
  using round_mag_int [of "\<bar>n\<bar>"] assms by (auto simp: float_of_int64_def round64_def abs_if split: if_splits)


section \<open>Ranks in a sorted set\<close>

lemma insert_by_map: "insert_by lt (f x) (map f ys) = map f (insert_by (\<lambda>a b. lt (f a) (f b)) x ys)"
  by (induction ys) auto

lemma sort_by_map: "sort_by lt (map f ys) = map f (sort_by (\<lambda>a b. lt (f a) (f b)) ys)"
  by (induction ys) (simp_all add: sort_by_Cons insert_by_map)

lemma mset_map_preimage: "mset z = mset (map f es) \<Longrightarrow> \<exists>ys. z = map f ys \<and> mset ys = mset es"
proof (induction z arbitrary: es)
  case (Cons a z)
  then obtain e where e: "e \<in> set es" "a = f e" by (metis image_iff list.set_intros(1) list.set_map mset_eq_setD)
  then have "mset z = mset (map f (remove1 e es))"
    using Cons.prems by (simp add: image_mset_Diff) (metis add_mset_diff_bothsides add_mset_remove_trivial image_mset_add_mset insert_DiffM set_mset_mset)
  then obtain ys where "z = map f ys" "mset ys = mset (remove1 e es)" using Cons.IH by blast
  then have "a # z = map f (e # ys)" "mset (e # ys) = mset es" using e by auto
  then show ?case by (intro exI conjI)
qed simp

lemma index_of_nth: "distinct ys \<Longrightarrow> i < length ys \<Longrightarrow> index_of (ys ! i) ys = Some i"
proof (induction ys arbitrary: i)
  case (Cons y ys)
  then show ?case by (cases i) (auto simp: nth_mem)
qed simp

lemma index_of_None: "x \<notin> set ys \<Longrightarrow> index_of x ys = None"
  by (induction ys) auto

lemma index_strict:
  assumes "sorted_wrt lt xs" "\<And>x y. lt x y \<Longrightarrow> \<not> lt y x" "distinct (map f xs)" "e \<in> set xs"
  shows "index_of (f e) (map f xs) = Some (length (filter (\<lambda>a. lt a e) xs))"
proof -
  obtain i where i: "i < length xs" "xs ! i = e" using assms(4) by (metis in_set_conv_nth)
  then show ?thesis using count_before [OF assms(1) i(1) assms(2)] index_of_nth [OF assms(3), of i] by simp
qed

definition score_less :: "(uuid \<Rightarrow> string) \<Rightarrow> uuid \<times> int \<Rightarrow> uuid \<times> int \<Rightarrow> bool" where
  "score_less str a b \<longleftrightarrow> snd a < snd b \<or> (snd a = snd b \<and> str (fst a) < str (fst b))"

definition scored :: "(uuid \<Rightarrow> string) \<Rightarrow> uuid \<times> int \<Rightarrow> string \<times> float64" where
  "scored str = (\<lambda>(p, n). (str p, Fin (of_int n)))"

lemma zset_less_scored: "zset_less (scored str a) (scored str b) = score_less str a b"
  by (cases a; cases b) (simp add: zset_less_def scored_def score_less_def)

lemma score_less_weak: "strict_weak (score_less str)"
  unfolding strict_weak_def score_less_def by auto

text \<open>With distinct scores, the rank of a player counts the lower scores, the reverse rank the higher ones.\<close>

lemma zset_rank:
  assumes "mset z = mset (map (scored str) rows)" "distinct (map (str \<circ> fst) rows)" "distinct (map snd rows)" "e \<in> set rows"
  shows "rank_reply (str (fst e)) (zset_members z) = IntR (int (length (filter (\<lambda>a. snd a < snd e) rows)))"
    and "rank_reply (str (fst e)) (rev (zset_members z)) = IntR (int (length (filter (\<lambda>a. snd a > snd e) rows)))"
proof -
  obtain ys where ys: "z = map (scored str) ys" "mset ys = mset rows" using mset_map_preimage [OF assms(1)] by blast
  define xs where "xs = sort_by (score_less str) ys"
  have mem: "zset_members z = map (str \<circ> fst) xs"
    by (simp add: zset_members_def ys(1) sort_by_map zset_less_scored xs_def) (simp add: scored_def comp_def split_def)
  have ms: "mset xs = mset rows" by (simp add: xs_def mset_sort_by ys(2))
  have d: "distinct (map (str \<circ> fst) xs)" "distinct (map snd xs)"
    using assms(2,3) ms by (metis mset_eq_imp_distinct_iff mset_map)+
  have in_xs: "e \<in> set xs" using assms(4) ms by (metis mset_eq_setD)
  have other: "snd a \<noteq> snd e" if "a \<in> set xs" "a \<noteq> e" for a
    using that in_xs d(2) by (auto simp: distinct_map inj_on_def)
  have srt: "sorted_wrt (score_less str) xs"
    unfolding xs_def
  proof (rule sorted_wrt_strict [OF sorted_sort_by [OF score_less_weak]])
    show "distinct (sort_by (score_less str) ys)" using d(2) by (simp add: xs_def [symmetric] distinct_map)
    show "score_less str x y \<or> score_less str y x" if "x \<in> set (sort_by (score_less str) ys)" "y \<in> set (sort_by (score_less str) ys)" "x \<noteq> y" for x y
      using that d(2) by (auto simp: xs_def [symmetric] distinct_map inj_on_def score_less_def)
  qed
  have asym: "score_less str x y \<Longrightarrow> \<not> score_less str y x" for x y using strict_weakD(1) [OF score_less_weak] .
  have len: "length (filter P xs) = length (filter P rows)" for P by (metis mset_filter ms size_mset)
  have "filter (\<lambda>a. score_less str a e) xs = filter (\<lambda>a. snd a < snd e) xs"
    using other by (intro filter_cong refl) (auto simp: score_less_def)
  then show "rank_reply (str (fst e)) (zset_members z) = IntR (int (length (filter (\<lambda>a. snd a < snd e) rows)))"
    using index_strict [OF srt asym d(1) in_xs] by (simp add: rank_reply_def mem len)
  have "filter (\<lambda>a. score_less str e a) xs = filter (\<lambda>a. snd a > snd e) xs"
    by (intro filter_cong refl) (metis other less_irrefl score_less_def)
  then have n: "length (filter (\<lambda>a. score_less str e a) (rev xs)) = length (filter (\<lambda>a. snd a > snd e) rows)"
    by (simp add: rev_filter [symmetric] len)
  have "index_of ((str \<circ> fst) e) (map (str \<circ> fst) (rev xs)) = Some (length (filter (\<lambda>a. score_less str e a) (rev xs)))"
  proof (rule index_strict)
    show "sorted_wrt (\<lambda>a b. score_less str b a) (rev xs)" using srt by (simp add: sorted_wrt_rev)
    show "distinct (map (str \<circ> fst) (rev xs))" using d(1) by (simp only: rev_map [symmetric] distinct_rev)
  qed (use asym in_xs in auto)
  then show "rank_reply (str (fst e)) (rev (zset_members z)) = IntR (int (length (filter (\<lambda>a. snd a > snd e) rows)))"
    unfolding n by (simp add: rank_reply_def mem rev_map)
qed

lemma zset_no_rank:
  assumes "mset z = mset (map (scored str) rows)" "m \<notin> (str \<circ> fst) ` set rows"
  shows "rank_reply m (zset_members z) = NilR" "rank_reply m (rev (zset_members z)) = NilR"
proof -
  have "fst ` set z = (str \<circ> fst) ` set rows"
    using mset_eq_setD [OF assms(1)] by (simp add: image_image scored_def split_def)
  then have "m \<notin> set (zset_members z)" using assms(2) by (auto simp: zset_members_def)
  then show "rank_reply m (zset_members z) = NilR" "rank_reply m (rev (zset_members z)) = NilR"
    by (simp_all add: rank_reply_def index_of_None)
qed

lemma zadd_all_new:
  assumes "distinct (map fst z @ map snd sms)"
  shows "zadd_all ZSET sms z = z @ map (\<lambda>(s, m). (m, s)) sms"
  using assms
proof (induction sms arbitrary: z)
  case (Cons sm sms)
  obtain s m where sm: "sm = (s, m)" by (cases sm)
  have "map_of z m = None" using Cons.prems by (auto simp: sm map_of_eq_None_iff)
  then have "zadd_one ZSET sm z = z @ [(m, s)]" by (simp add: zadd_one_def sm)
  then show ?case using Cons.IH [of "z @ [(m, s)]"] Cons.prems by (auto simp: zadd_all_def sm)
qed (simp add: zadd_all_def)


section \<open>The index beside the table\<close>

definition board_list :: "tables \<Rightarrow> string \<Rightarrow> (uuid \<times> int) list" where
  "board_list t lid = map (\<lambda>e. (le_player_id e, le_score e)) (filter (\<lambda>e. le_leaderboard_id e = lid) (leaderboard_entries t))"

text \<open>The sorted set holds exactly the scores of the table; the index may also be absent, to be rebuilt.\<close>

definition mirrored :: "(uuid \<Rightarrow> string) \<Rightarrow> tables \<Rightarrow> string \<Rightarrow> keyspace \<Rightarrow> bool" where
  "mirrored str t lid ks \<longleftrightarrow> is_zset ks (leaderboardKey lid) \<and>
     mset (zset_at ks (leaderboardKey lid)) = mset (map (scored str) (board_list t lid))"

definition index_ok :: "(uuid \<Rightarrow> string) \<Rightarrow> tables \<Rightarrow> string \<Rightarrow> keyspace \<Rightarrow> bool" where
  "index_ok str t lid ks \<longleftrightarrow> ks_data ks (leaderboardKey lid) = None \<or> mirrored str t lid ks"

text \<open>Scores that \<open>float64\<close> represents and that no two players of the board share.\<close>

definition indexable :: "tables \<Rightarrow> string \<Rightarrow> bool" where
  "indexable t lid \<longleftrightarrow> (\<forall>n \<in> snd ` set (board_list t lid). \<bar>n\<bar> < 2 ^ 53) \<and> distinct (map snd (board_list t lid))"

lemma board_list_keys: "lb_wf t \<Longrightarrow> inj str \<Longrightarrow> distinct (map (str \<circ> fst) (board_list t lid))"
proof -
  assume wf: "lb_wf t" and inj: "inj str"
  have "distinct (map (\<lambda>e. (le_leaderboard_id e, le_player_id e)) (leaderboard_entries t))" using wf by (simp add: lb_wf_def)
  then have "distinct (map le_player_id (filter (\<lambda>e. le_leaderboard_id e = lid) (leaderboard_entries t)))"
    by (induction "leaderboard_entries t" rule: rev_induct) (auto simp: distinct_map inj_on_def)
  then show ?thesis using inj by (auto simp: board_list_def distinct_map inj_on_def comp_def)
qed

lemma mirrored_same: "ks_data ks' (leaderboardKey lid) = ks_data ks (leaderboardKey lid) \<Longrightarrow>
    mirrored str t lid ks' = mirrored str t lid ks \<and> index_ok str t lid ks' = index_ok str t lid ks"
  by (simp add: mirrored_def index_ok_def is_zset_def zset_at_def)

lemma float_rows: "indexable t lid \<Longrightarrow>
    map (\<lambda>(s, m). (m, s)) (map (\<lambda>(p, n). (float_of_int64 n, str p)) (board_list t lid)) = map (scored str) (board_list t lid)"
  by (auto simp: indexable_def scored_def float_of_int64_exact split_def)

definition not_found :: "go_error \<Rightarrow> bool" where
  "not_found e \<longleftrightarrow> errors_Is e (LeaderboardE ErrEntryNotFound)"

abbreviation board_key :: "Leaderboard \<Rightarrow> string" where
  "board_key lb \<equiv> leaderboardKey (Leaderboard_ID lb)"

locale board_index = valkey_server "ix_client x" obs "keeps (board_key lb)"
  for x :: "'v LeaderboardIndex" and obs and lb :: Leaderboard +
  assumes client_errors: "ix_client x c v = (ErrR e, v') \<Longrightarrow> \<not> not_found e"
    and str_inj: "inj (ix_str x)" and ttl_pos: "0 < whole_seconds (ix_ttl x)"
begin

lemma key_served:
  assumes "ix_client x c v = (r, v')"
  obtains ks ch where "ks_data ks (board_key lb) = ks_data (obs v) (board_key lb)" "served ch c ks r (obs v')"
  using serves [OF assms] by (auto simp: keeps_def)

lemma only_error_found:
  assumes "ix_client x c v = (r, v')" "only_error r = Inl e"
  shows "\<not> not_found e"
  using assms client_errors [of c v e v']
  by (auto simp: only_error_def reply_Error_def not_found_def valkey_Nil_def split: reply.splits)

lemma exists_step:
  assumes "ix_client x (EXISTS (board_key lb)) v = (r, v')"
  shows "ks_data (obs v') (board_key lb) = ks_data (obs v) (board_key lb)"
    and "(\<exists>e. r = ErrR e) \<or> r = IntR (if ks_data (obs v) (board_key lb) = None then 0 else 1)"
  using assms by (auto elim!: key_served simp: served_def)

lemma rebuild_step:
  assumes "ix_client x (ZADD (board_key lb) ZSET sms) v = (r, v')" "ks_data (obs v) (board_key lb) = None" "distinct (map snd sms)" "sms \<noteq> []"
  shows "ks_data (obs v') (board_key lb) = None \<and> (\<exists>e. r = ErrR e) \<or>
    is_zset (obs v') (board_key lb) \<and> zset_at (obs v') (board_key lb) = map (\<lambda>(s, m). (m, s)) sms"
proof -
  obtain ks ch where ks: "ks_data ks (board_key lb) = None" and s: "served ch (ZADD (board_key lb) ZSET sms) ks r (obs v')"
    using assms(1,2) by (auto elim!: key_served)
  have z: "is_zset ks (board_key lb)" "zset_at ks (board_key lb) = []" using ks by (simp_all add: is_zset_def zset_at_def)
  have "zadd_all ZSET sms [] = map (\<lambda>(s, m). (m, s)) sms" using zadd_all_new [of "[]" sms] assms(3) by simp
  then have "snd (vk_effect ch (ZADD (board_key lb) ZSET sms) ks) = put_key (board_key lb) (ZsetV (map (\<lambda>(s, m). (m, s)) sms)) (ttl_at ks (board_key lb)) ks"
    using z assms(4) by (simp add: put_zset_def)
  then show ?thesis using s ks by (auto simp: served_def is_zset_def zset_at_def put_key_def split: prod.splits)
qed

lemma expire_step:
  assumes "ix_client x (EXPIRE (board_key lb) (whole_seconds (ix_ttl x))) v = (r, v')"
  shows "is_zset (obs v') (board_key lb) = is_zset (obs v) (board_key lb)" "zset_at (obs v') (board_key lb) = zset_at (obs v) (board_key lb)"
proof -
  obtain ks ch where ks: "ks_data ks (board_key lb) = ks_data (obs v) (board_key lb)" and s: "served ch (EXPIRE (board_key lb) (whole_seconds (ix_ttl x))) ks r (obs v')"
    using assms by (rule key_served)
  have "is_zset (obs v') (board_key lb) = is_zset ks (board_key lb) \<and> zset_at (obs v') (board_key lb) = zset_at ks (board_key lb)"
    using s ttl_pos by (auto simp: served_def expire_key_def is_zset_def zset_at_def put_key_def split: option.splits)
  then show "is_zset (obs v') (board_key lb) = is_zset (obs v) (board_key lb)" "zset_at (obs v') (board_key lb) = zset_at (obs v) (board_key lb)"
    using ks by (simp_all add: is_zset_def zset_at_def)
qed

lemma ensureBuilt_run:
  assumes "live ro s" "lb_wf (db_tables s)" "indexable (db_tables s) (Leaderboard_ID lb)"
    and "index_ok (ix_str x) (db_tables s) (Leaderboard_ID lb) (obs v)"
    and "ensureBuilt x lb (s, v) = (r, s', v')"
  shows "s' = s \<and> index_ok (ix_str x) (db_tables s) (Leaderboard_ID lb) (obs v') \<and>
    (case r of Inr _ \<Rightarrow> mirrored (ix_str x) (db_tables s) (Leaderboard_ID lb) (obs v') | Inl e \<Rightarrow> \<not> not_found e)"
proof -
  let ?t = "db_tables s" and ?lid = "Leaderboard_ID lb"
  let ?sms = "map (\<lambda>(p, n). (float_of_int64 n, ix_str x p)) (board_list ?t ?lid)"
  obtain q v1 where c: "ix_client x (EXISTS (board_key lb)) v = (q, v1)" by fastforce
  have same: "mirrored (ix_str x) ?t ?lid (obs v1) = mirrored (ix_str x) ?t ?lid (obs v)"
      "index_ok (ix_str x) ?t ?lid (obs v1)"
    using mirrored_same [OF exists_step(1) [OF c]] assms(4) by blast+
  show ?thesis
  proof (cases "\<exists>e. q = ErrR e")
    case True
    then show ?thesis using assms(5) c same client_errors [of "EXISTS (board_key lb)" v] by (auto simp: ensureBuilt_def idx_bind_def idx_do_def ToInt64_def)
  next
    case False
    then have q: "q = IntR (if ks_data (obs v) (board_key lb) = None then 0 else 1)" using exists_step(2) [OF c] by simp
    show ?thesis
    proof (cases "ks_data (obs v) (board_key lb) = None")
      case built: False
      then have "mirrored (ix_str x) ?t ?lid (obs v)" using assms(4) by (auto simp: index_ok_def)
      then show ?thesis using assms(5) c q built same by (auto simp: ensureBuilt_def idx_bind_def idx_do_def ToInt64_def idx_return_def)
    next
      case absent: True
      then have none: "ks_data (obs v1) (board_key lb) = None" using exists_step(1) [OF c] by simp
      have rows: "sql_AllLeaderboardEntries ?lid s = (Inr (board_list ?t ?lid), s)"
        using assms(1) by (simp add: sql_AllLeaderboardEntries_def query_eval board_list_def)
      have run: "rebuild x lb (s, v1) = (r, s', v')"
        using assms(5) c q absent by (simp add: ensureBuilt_def idx_bind_def idx_do_def ToInt64_def)
      show ?thesis
      proof (cases "board_list ?t ?lid = []")
        case True
        then show ?thesis using run rows none same
          by (auto simp: rebuild_def idx_bind_def idx_tx_def idx_return_def mirrored_def is_zset_def zset_at_def)
      next
        case False
        have d: "distinct (map snd ?sms)"
          using board_list_keys [OF assms(2) str_inj, of ?lid] by (simp add: comp_def split_def)
        obtain q2 v2 where z: "ix_client x (ZADD (board_key lb) ZSET ?sms) v1 = (q2, v2)" by fastforce
        have built: "mirrored (ix_str x) ?t ?lid ks" if "is_zset ks (board_key lb)" "zset_at ks (board_key lb) = map (\<lambda>(s, m). (m, s)) ?sms" for ks
          unfolding mirrored_def that(2) float_rows [OF assms(3)] using that(1) by simp
        note zs = rebuild_step [OF z none d]
        have ok2: "index_ok (ix_str x) ?t ?lid (obs v2)" using zs False built by (auto simp: index_ok_def)
        show ?thesis
        proof (cases "only_error q2")
          case (Inl e)
          then have "r = Inl e" "s' = s" "v' = v2"
            using run rows z False by (auto simp: rebuild_def idx_bind_def idx_tx_def idx_do_def)
          then show ?thesis using ok2 only_error_found [OF z Inl] by simp
        next
          case (Inr u)
          then have "\<nexists>e. q2 = ErrR e" by (auto simp: only_error_def reply_Error_def)
          then have m2: "mirrored (ix_str x) ?t ?lid (obs v2)" using zs False built by auto
          obtain q3 v3 where ex: "ix_client x (EXPIRE (board_key lb) (whole_seconds (ix_ttl x))) v2 = (q3, v3)" by fastforce
          have m3: "mirrored (ix_str x) ?t ?lid (obs v3)" using m2 expire_step [OF ex] by (simp add: mirrored_def)
          have "r = only_error q3" "s' = s" "v' = v3"
            using run rows z Inr ex False by (auto simp: rebuild_def idx_bind_def idx_tx_def idx_do_def)
          then show ?thesis using m3 only_error_found [OF ex] by (auto simp: index_ok_def split: sum.split)
        qed
      qed
    qed
  qed
qed

lemma rank_step:
  assumes "zeroBasedRank x lb p (s, v) = (r, s', v')" "mirrored (ix_str x) t (Leaderboard_ID lb) (obs v)"
  defines "ms \<equiv> zset_members (zset_at (obs v) (board_key lb))"
  defines "want \<equiv> rank_reply (ix_str x p) (if Leaderboard_SortOrder lb = Ascending then ms else rev ms)"
  shows "s' = s \<and> mirrored (ix_str x) t (Leaderboard_ID lb) (obs v') \<and>
    (r = (case want of IntR n \<Rightarrow> Inr n | _ \<Rightarrow> Inl (LeaderboardE ErrEntryNotFound)) \<or> (\<exists>e. r = Inl e \<and> \<not> not_found e))"
proof -
  let ?c = "(if Leaderboard_SortOrder lb = Ascending then ZRANK else ZREVRANK) (board_key lb) (ix_str x p)"
  obtain q where c: "ix_client x ?c v = (q, v')" and r: "s' = s" "r = (case ToInt64 q of
      Inl e \<Rightarrow> if IsValkeyNil e then Inl (LeaderboardE ErrEntryNotFound) else Inl e | Inr rank \<Rightarrow> Inr rank)"
    using assms(1) by (auto simp: zeroBasedRank_def idx_do_def Let_def split: prod.splits)
  obtain ks ch where ks: "ks_data ks (board_key lb) = ks_data (obs v) (board_key lb)" and s: "served ch ?c ks q (obs v')"
    using c by (rule key_served)
  have z: "is_zset ks (board_key lb)" "zset_at ks (board_key lb) = zset_at (obs v) (board_key lb)"
    using ks assms(2) by (simp_all add: mirrored_def is_zset_def zset_at_def)
  then have eff: "vk_effect ch ?c ks = (want, ks)" by (simp add: want_def ms_def)
  then have "obs v' = ks" using s by (auto simp: served_def)
  moreover have "q = want \<or> (\<exists>e. q = ErrR e \<and> \<not> IsValkeyNil e \<and> \<not> not_found e)"
    using s eff client_errors [of ?c v] c by (auto simp: served_def)
  moreover have "want = NilR \<or> (\<exists>n. want = IntR n)" by (simp add: want_def rank_reply_def split: option.split)
  ultimately show ?thesis
    using r mirrored_same [OF ks] assms(2) by (auto simp: ToInt64_def IsValkeyNil_def)
qed

end

text \<open>What the counting query says of a board whose scores are distinct, or of a player who is not on it.\<close>

lemma RankOf_missing:
  assumes "live ro s" "p \<notin> fst ` set (board_list (db_tables s) (Leaderboard_ID lb))"
  shows "Leaderboard_RankOf lb p s = (Inl (LeaderboardE ErrEntryNotFound), s)"
proof -
  have "filter (is_entry (Leaderboard_ID lb) p) (leaderboard_entries (db_tables s)) = []"
    using assms(2) by (auto simp: board_list_def is_entry_def filter_empty_conv image_iff)
  then show ?thesis using assms(1) by (simp add: repo_by_order rankErr_def rank_of_def tx_mapping_def tx_eval)
qed

lemma count_ahead_scores:
  assumes "indexable t (Leaderboard_ID lb)" "e \<in> set (leaderboard_entries t)" "le_leaderboard_id e = Leaderboard_ID lb"
  shows "count_ahead (Beats lb) t e = length (filter (\<lambda>a. Beats lb (snd a) (le_score e)) (board_list t (Leaderboard_ID lb)))"
proof -
  let ?es = "filter (\<lambda>e. le_leaderboard_id e = Leaderboard_ID lb) (leaderboard_entries t)"
  have "distinct (map le_score ?es)" using assms(1) by (simp add: indexable_def board_list_def comp_def)
  then have other: "a = e" if "a \<in> set ?es" "le_score a = le_score e" for a
    using that assms(2,3) by (auto simp: distinct_map inj_on_def)
  have "count_ahead (Beats lb) t e = length (filter (\<lambda>a. entry_ahead (Beats lb) a e) ?es)"
    by (simp add: count_ahead_def assms(3) conj_commute)
  also have "filter (\<lambda>a. entry_ahead (Beats lb) a e) ?es = filter (\<lambda>a. Beats lb (le_score a) (le_score e)) ?es"
    using other by (intro filter_cong refl) (metis entry_ahead_def less_irrefl)
  also have "length \<dots> = length (filter (\<lambda>a. Beats lb (snd a) (le_score e)) (board_list t (Leaderboard_ID lb)))"
    by (simp add: board_list_def filter_map comp_def)
  finally show ?thesis .
qed

lemma EntryByPlayer_run:
  assumes "live ro s" "lb_wf (db_tables s)" "e \<in> set (leaderboard_entries (db_tables s))" "le_leaderboard_id e = lid"
  shows "rankErr (sql_LeaderboardEntryByPlayer lid (le_player_id e)) s = (Inr (row_of (db_tables s) e), s)"
proof -
  have "filter (is_entry lid (le_player_id e)) (leaderboard_entries (db_tables s)) = [e]"
    using entry_filter [OF assms(2,3)] assms(4) by simp
  then show ?thesis using assms(1) rank_rows_single(1) [OF assms(2,3)]
    by (simp add: rankErr_def sql_LeaderboardEntryByPlayer_def tx_mapping_def tx_eval)
qed

lemma RankOf_total:
  assumes "live ro s" "lb_wf (db_tables s)"
  shows "Leaderboard_RankOf lb p s = (Inl (LeaderboardE ErrEntryNotFound), s) \<or> (\<exists>e. Leaderboard_RankOf lb p s = (Inr e, s))"
proof (cases "p \<in> fst ` set (board_list (db_tables s) (Leaderboard_ID lb))")
  case True
  then obtain e where "e \<in> set (leaderboard_entries (db_tables s))" "le_leaderboard_id e = Leaderboard_ID lb" "p = le_player_id e"
    by (auto simp: board_list_def)
  then show ?thesis using RankOf_run [OF assms, of e lb] by simp
qed (use RankOf_missing [OF assms(1)] in simp)

context board_index
begin

lemma wanted_rank:
  fixes p
  assumes "live ro s" "lb_wf (db_tables s)" "indexable (db_tables s) (Leaderboard_ID lb)"
    and "mirrored (ix_str x) (db_tables s) (Leaderboard_ID lb) ks"
  defines "ms \<equiv> zset_members (zset_at ks (board_key lb))"
  defines "want \<equiv> rank_reply (ix_str x p) (if Leaderboard_SortOrder lb = Ascending then ms else rev ms)"
  shows "idx_bind (\<lambda>w. (case want of IntR n \<Rightarrow> Inr n | _ \<Rightarrow> Inl (LeaderboardE ErrEntryNotFound), w)) (\<lambda>rank.
      idx_bind (idx_tx (rankErr (sql_LeaderboardEntryByPlayer (Leaderboard_ID lb) p))) (\<lambda>row.
      idx_return (toRanked (rank + 1, row)))) (s, v) = (fst (Leaderboard_RankOf lb p s), s, v)"
proof (cases "p \<in> fst ` set (board_list (db_tables s) (Leaderboard_ID lb))")
  case True
  let ?t = "db_tables s" and ?lid = "Leaderboard_ID lb"
  have z: "mset (zset_at ks (board_key lb)) = mset (map (scored (ix_str x)) (board_list ?t ?lid))"
    using assms(4) by (simp add: mirrored_def)
  obtain e where e: "e \<in> set (leaderboard_entries ?t)" "le_leaderboard_id e = ?lid" "p = le_player_id e"
    using True by (auto simp: board_list_def)
  then have mem: "(p, le_score e) \<in> set (board_list ?t ?lid)" by (auto simp: board_list_def)
  have d: "distinct (map snd (board_list ?t ?lid))" using assms(3) by (simp add: indexable_def)
  have "want = IntR (int (count_ahead (Beats lb) ?t e))"
    using zset_rank [OF z board_list_keys [OF assms(2) str_inj] d mem] count_ahead_scores [OF assms(3) e(1,2)]
    by (simp add: want_def ms_def Beats_def)
  then show ?thesis
    using RankOf_run [OF assms(1,2) e(1,2)] EntryByPlayer_run [OF assms(1,2) e(1,2)] e(3)
    by (simp add: idx_bind_def idx_tx_def idx_return_def add.commute)
next
  case False
  have "ix_str x p \<notin> (ix_str x \<circ> fst) ` set (board_list (db_tables s) (Leaderboard_ID lb))"
    using False str_inj by (auto simp: inj_eq image_iff)
  from zset_no_rank [OF _ this, of "zset_at ks (board_key lb)"] have "want = NilR"
    using assms(4) by (simp add: want_def ms_def mirrored_def)
  then show ?thesis using RankOf_missing [OF assms(1) False] by (simp add: idx_bind_def)
qed

lemma Index_RankOf_agrees:
  assumes "live ro s" "lb_wf (db_tables s)" "indexable (db_tables s) (Leaderboard_ID lb)"
    and "index_ok (ix_str x) (db_tables s) (Leaderboard_ID lb) (obs v)"
  shows "\<exists>v'. Index_RankOf x lb p (s, v) = (fst (Leaderboard_RankOf lb p s), s, v') \<and>
    index_ok (ix_str x) (db_tables s) (Leaderboard_ID lb) (obs v')"
proof -
  have fallback: "idx_tx (Leaderboard_RankOf lb p) (s, w) = (fst (Leaderboard_RankOf lb p s), s, w)" for w :: 'v
    using RankOf_total [OF assms(1,2), of lb p] by (auto simp: idx_tx_def)
  obtain r1 s1 v1 where b: "ensureBuilt x lb (s, v) = (r1, s1, v1)" by (metis prod_cases3)
  note built = ensureBuilt_run [OF assms b]
  show ?thesis
  proof (cases r1)
    case (Inl e)
    then have "Index_RankOf x lb p (s, v) = idx_tx (Leaderboard_RankOf lb p) (s, v1)"
      using b built by (simp add: Index_RankOf_def rankViaIndex_def idx_bind_def not_found_def)
    then show ?thesis using fallback built by auto
  next
    case (Inr u)
    then have m1: "mirrored (ix_str x) (db_tables s) (Leaderboard_ID lb) (obs v1)" "s1 = s" using built by auto
    obtain r2 s2 v2 where z: "zeroBasedRank x lb p (s, v1) = (r2, s2, v2)" by (metis prod_cases3)
    note ranked = rank_step [OF z m1(1)]
    have ok2: "index_ok (ix_str x) (db_tables s) (Leaderboard_ID lb) (obs v2)" "s2 = s" using ranked by (auto simp: index_ok_def)
    show ?thesis
    proof (cases "\<exists>e. r2 = Inl e \<and> \<not> not_found e")
      case True
      then have "Index_RankOf x lb p (s, v) = idx_tx (Leaderboard_RankOf lb p) (s, v2)"
        using b Inr m1 z ok2 by (auto simp: Index_RankOf_def rankViaIndex_def idx_bind_def not_found_def)
      then show ?thesis using fallback ok2 by auto
    next
      case False
      let ?want = "rank_reply (ix_str x p) (if Leaderboard_SortOrder lb = Ascending then zset_members (zset_at (obs v1) (board_key lb))
        else rev (zset_members (zset_at (obs v1) (board_key lb))))"
      have r2: "r2 = (case ?want of IntR n \<Rightarrow> Inr n | _ \<Rightarrow> Inl (LeaderboardE ErrEntryNotFound))" using ranked False by blast
      have "rankViaIndex x lb p (s, v) = (fst (Leaderboard_RankOf lb p s), s, v2)"
        using wanted_rank [OF assms(1-3) m1(1), of p v2] b Inr m1(2) z ok2(2) unfolding r2
        by (simp add: rankViaIndex_def idx_bind_def)
      moreover have "fst (Leaderboard_RankOf lb p s) = Inl e \<Longrightarrow> not_found e" for e
        using RankOf_total [OF assms(1,2), of lb p] by (auto simp: not_found_def)
      ultimately show ?thesis using ok2 by (auto simp: Index_RankOf_def not_found_def split: sum.split)
    qed
  qed
qed

end

text \<open>An instance, and a board with three players behind it.\<close>

definition sample_index :: "(keyspace \<times> vk_fault list) LeaderboardIndex" where
  "sample_index = \<lparr>ix_client = sim_client, ix_ttl = Second, ix_str = unary_str\<rparr>"

definition wins_board :: Leaderboard where
  "wins_board = \<lparr>Leaderboard_ID = ''wins'', Leaderboard_SortOrder = Descending\<rparr>"

lemma effect_error_found: "vk_effect ch c ks = (ErrR e, ks') \<Longrightarrow> \<not> not_found e"
  by (cases c) (auto simp: not_found_def wrong_type_def set_key_def expire_key_def rank_reply_def read_stream_def run_script_def run_claim_def
      run_renew_def run_release_def Let_def split: if_splits option.splits prod.splits vk_value.splits vk_script.splits)

lemma sim_error_found: "sim_client c v = (ErrR e, v') \<Longrightarrow> \<not> not_found e"
  by (cases "(c, v)" rule: sim_client.cases)
     (auto simp: conn_error_def not_found_def dest!: effect_error_found split: prod.splits)

interpretation sample_ix: board_index sample_index fst wins_board
proof (intro board_index.intro board_index_axioms.intro)
  show "valkey_server (ix_client sample_index) fst (keeps (board_key wins_board))"
    by (simp add: sample_index_def sim_server)
  show "inj (ix_str sample_index)" by (simp add: sample_index_def inj_def)
  have "whole_seconds Second = 1" by code_simp
  then show "0 < whole_seconds (ix_ttl sample_index)" by (simp add: sample_index_def)
  show "\<not> not_found e" if "ix_client sample_index c v = (ErrR e, v')" for c v e v'
    using sim_error_found that by (simp add: sample_index_def)
qed

section \<open>Properties\<close>

text \<open>
  C38. The index only costs performance, where it can: on a board whose scores are distinct and below 2^53, the range
  in which \<open>float64\<close> is exact, with an index that is absent or in sync with the table and does not expire
  between the commands of the call, \<open>RankOf\<close> through the sorted set answers exactly what counting in the
  table answers, for every player on the board or off it, in both orders, whichever commands of the server
  fail, with or without having taken effect; and it leaves the index absent or true to the table.
\<close>

theorem index_rank_agrees:
  assumes "valkey_server (ix_client x) obs (keeps (leaderboardKey (Leaderboard_ID lb)))"
    and "\<And>c v e v'. ix_client x c v = (ErrR e, v') \<Longrightarrow> \<not> errors_Is e (LeaderboardE ErrEntryNotFound)"
    and "inj (ix_str x)" and "0 < whole_seconds (ix_ttl x)"
    and "live ro s" and "lb_wf (db_tables s)" and "indexable (db_tables s) (Leaderboard_ID lb)"
    and "index_ok (ix_str x) (db_tables s) (Leaderboard_ID lb) (obs v)"
  shows "\<exists>v'. Index_RankOf x lb p (s, v) = (fst (Leaderboard_RankOf lb p s), s, v') \<and>
    index_ok (ix_str x) (db_tables s) (Leaderboard_ID lb) (obs v')"
proof -
  have ix: "board_index x obs lb"
    using assms(1-4) by (simp add: board_index_def board_index_axioms_def not_found_def)
  show ?thesis by (rule board_index.Index_RankOf_agrees [OF ix assms(5-8)])
qed

definition wins_session :: db where
  "wins_session = begin_tx True (sample_board [(1, 5, 7000), (2, 9, 8000), (3, 6, 6000)])"

theorem index_rank_agrees_witness:
  "map_option Rank (case fst (Index_RankOf sample_index wins_board 3 (wins_session, empty_keyspace, [Fine, Fine, ReplyLost])) of
     Inr e \<Rightarrow> Some e | Inl _ \<Rightarrow> None) = Some 2"
proof -
  let ?t = "db_tables wins_session"
  have live: "live True wins_session" unfolding wins_session_def by (rule live_begin_tx) (rule sample_board_facts(1))
  have t: "?t = db_tables (sample_board [(1, 5, 7000), (2, 9, 8000), (3, 6, 6000)])"
    by (simp add: wins_session_def)
  have wf: "lb_wf ?t" unfolding t by (rule sample_board_facts(2)) simp_all
  have "board_list ?t ''wins'' = [(1, 5), (2, 9), (3, 6)]" unfolding t by code_simp
  then have ix: "indexable ?t (Leaderboard_ID wins_board)" by (simp add: indexable_def wins_board_def)
  have ok: "index_ok (ix_str sample_index) ?t (Leaderboard_ID wins_board) empty_keyspace" by (simp add: index_ok_def empty_keyspace_def)
  have "\<exists>v'. Index_RankOf sample_index wins_board 3 (wins_session, empty_keyspace, [Fine, Fine, ReplyLost]) =
      (fst (Leaderboard_RankOf wins_board 3 wins_session), wins_session, v') \<and>
      index_ok (ix_str sample_index) ?t (Leaderboard_ID wins_board) (fst v')"
    by (rule index_rank_agrees [OF sample_ix.valkey_server_axioms])
       (use sample_ix.client_errors sample_ix.str_inj sample_ix.ttl_pos live wf ix ok in \<open>auto simp: not_found_def\<close>)
  moreover have "(case fst (Leaderboard_RankOf wins_board 3 wins_session) of Inr e \<Rightarrow> Some (Rank e) | Inl _ \<Rightarrow> None) = Some 2"
    by code_simp
  ultimately show ?thesis by (auto split: sum.splits)
qed


text \<open>A submission has the outcome the table gives it, whatever becomes of the index.\<close>

lemma ensureBuilt_db: "live ro s \<Longrightarrow> ensureBuilt x lb (s, v) = (r, s', v') \<Longrightarrow> s' = s"
  by (auto simp: ensureBuilt_def rebuild_def idx_bind_def idx_do_def idx_tx_def idx_return_def sql_AllLeaderboardEntries_def query_eval
      split: prod.splits sum.splits if_splits)

lemma Index_Submit_outcome:
  assumes "live False s"
  shows "\<exists>v'. Index_Submit x uid lb p score now (s, v) =
    (fst (Leaderboard_Submit uid lb p score now s), snd (Leaderboard_Submit uid lb p score now s), v')"
proof -
  obtain r s1 where sub: "Leaderboard_Submit uid lb p score now s = (r, s1)" by fastforce
  show ?thesis
  proof (cases r)
    case (Inl e)
    then show ?thesis using sub by (simp add: Index_Submit_def idx_bind_def idx_tx_def)
  next
    case (Inr improved)
    then have l: "live False s1"
      using sub assms by (auto simp: repo_by_order upsert_entry_def tx_eval split: sum.splits prod.splits option.splits if_splits)
    obtain r2 s2 v2 where b: "ensureBuilt x lb (s1, v) = (r2, s2, v2)" by (metis prod_cases3)
    have "s2 = s1" by (rule ensureBuilt_db [OF l b])
    then show ?thesis using sub Inr b
      by (cases r2) (simp_all add: Index_Submit_def idx_bind_def idx_tx_def index_zadd_def idx_do_def split: prod.split)
  qed
qed

end
