(* ===== verification/Player_Groups.thy ===== *)
theory Player_Groups
  imports Connect
begin

text \<open>
  Player groups: the domain package \<open>internal/domain/group\<close>, the repositories
  \<open>internal/infra/repository/group.go\<close> and \<open>membership.go\<close> over the statements of
  \<open>schema/db/queries/group.sql\<close>, the usecase \<open>internal/usecase/group\<close> and its Connect handler
  \<open>internal/presentation/gateway/group\<close>. A call takes the ids it draws (\<open>uuid.New\<close>) and the instant
  \<open>clock.Now\<close> gives it as arguments.

  The abstract state of the component is \<open>clubs\<close>: who owns each group and who belongs to which.
  Every operation refines its abstract counterpart under any store faults, and from there the rules
  of the package comment hold in every reachable state: the creator is the owner and a member, and
  stays one until the group is disbanded.
\<close>

section \<open>Domain\<close>

record Group =
  Group_ID :: uuid
  Group_Name :: string
  OwnerID :: uuid
  FoundedAt :: go_time

record Member =
  Member_PlayerID :: uuid
  Member_Nickname :: "string option"
  Member_JoinedAt :: go_time

record Membership =
  Membership_GroupID :: uuid
  Membership_PlayerID :: uuid
  Membership_JoinedAt :: go_time

definition MaxNameLength :: nat where "MaxNameLength = 64"

definition NewGroup :: "uuid \<Rightarrow> uuid \<Rightarrow> string \<Rightarrow> go_time \<Rightarrow> Group result" where
  "NewGroup uid ownerID rawName now =
     (let name = TrimSpace rawName in
      if name = [] \<or> RuneCountInString name > MaxNameLength then Inl (GroupE ErrInvalidName)
      else Inr \<lparr>Group_ID = uid, Group_Name = name, OwnerID = ownerID, FoundedAt = now\<rparr>)"

definition NewMembership :: "uuid \<Rightarrow> uuid \<Rightarrow> go_time \<Rightarrow> Membership" where
  "NewMembership groupID playerID now =
     \<lparr>Membership_GroupID = groupID, Membership_PlayerID = playerID, Membership_JoinedAt = now\<rparr>"

section \<open>Statements\<close>

definition is_member :: "uuid \<Rightarrow> uuid \<Rightarrow> group_member_row \<Rightarrow> bool" where
  "is_member g p row \<longleftrightarrow> gm_group_id row = g \<and> gm_player_id row = p"

definition sql_GetGroup :: "uuid \<Rightarrow> group_row tx" where
  "sql_GetGroup g = sql_one (\<lambda>t. List.find (\<lambda>r. g_id r = g) (groups t))"

definition sql_UpsertGroup :: "uuid \<Rightarrow> string \<Rightarrow> uuid \<Rightarrow> go_time \<Rightarrow> unit tx" where
  "sql_UpsertGroup g name owner founded = sql_exec (\<lambda>now t.
     if has_group t g
     then Inr ((), t\<lparr>groups := map (\<lambda>r. if g_id r = g then r\<lparr>g_name := name\<rparr> else r) (groups t)\<rparr>)
     else if \<not> has_player t owner then Inl foreign_key_violation
     else Inr ((), t\<lparr>groups := groups t @
       [\<lparr>g_id = g, g_name = name, g_owner_id = owner, g_founded_at = founded\<rparr>]\<rparr>))"

text \<open>Deleting a group deletes its members and its messages (\<open>ON DELETE CASCADE\<close>).\<close>

definition sql_DeleteGroup :: "uuid \<Rightarrow> unit tx" where
  "sql_DeleteGroup g = sql_exec (\<lambda>now t. Inr ((), t\<lparr>
     groups := filter (\<lambda>r. g_id r \<noteq> g) (groups t),
     group_members := filter (\<lambda>m. gm_group_id m \<noteq> g) (group_members t),
     channel_messages := filter (\<lambda>m. cm_channel_id m \<noteq> g) (channel_messages t)\<rparr>))"

definition sql_AddGroupMember :: "uuid \<Rightarrow> uuid \<Rightarrow> uuid \<Rightarrow> go_time \<Rightarrow> unit tx" where
  "sql_AddGroupMember uid g p joined = sql_exec (\<lambda>now t.
     if list_ex (is_member g p) (group_members t) then Inr ((), t)
     else if uid \<in> gm_id ` set (group_members t) then Inl unique_violation
     else if \<not> has_group t g \<or> \<not> has_player t p then Inl foreign_key_violation
     else Inr ((), t\<lparr>group_members := group_members t @
       [\<lparr>gm_id = uid, gm_group_id = g, gm_player_id = p, gm_joined_at = joined\<rparr>]\<rparr>))"

definition sql_RemoveGroupMember :: "uuid \<Rightarrow> uuid \<Rightarrow> nat tx" where
  "sql_RemoveGroupMember g p = sql_exec (\<lambda>now t.
     Inr (length (filter (is_member g p) (group_members t)),
          t\<lparr>group_members := filter (\<lambda>m. \<not> is_member g p m) (group_members t)\<rparr>))"

definition sql_GroupMemberExists :: "uuid \<Rightarrow> uuid \<Rightarrow> bool tx" where
  "sql_GroupMemberExists g p = sql_query (\<lambda>t. list_ex (is_member g p) (group_members t))"

definition sql_ListGroupsForPlayer :: "uuid \<Rightarrow> group_row list tx" where
  "sql_ListGroupsForPlayer p = sql_query (\<lambda>t. newest_first g_founded_at (concat (map (\<lambda>m.
     filter (\<lambda>g. g_id g = gm_group_id m) (groups t))
     (filter (\<lambda>m. gm_player_id m = p) (group_members t)))))"

definition sql_ListGroupMembers :: "uuid \<Rightarrow> (uuid \<times> string option \<times> go_time) list tx" where
  "sql_ListGroupMembers g = sql_query (\<lambda>t. oldest_first (snd \<circ> snd) (concat (map (\<lambda>m.
     join_player t (gm_player_id m) (\<lambda>p. (p_id p, p_nickname p, gm_joined_at m)))
     (filter (\<lambda>m. gm_group_id m = g) (group_members t)))))"

section \<open>Repositories\<close>

definition groupFromRow :: "group_row \<Rightarrow> Group" where
  "groupFromRow r = \<lparr>Group_ID = g_id r, Group_Name = g_name r, OwnerID = g_owner_id r, FoundedAt = g_founded_at r\<rparr>"

definition Group_Find :: "uuid \<Rightarrow> Group tx" where
  "Group_Find g = tx_bind (tx_mapping (DbE ErrNoRows) (GroupE ErrGroupNotFound) (sql_GetGroup g))
     (\<lambda>r. tx_return (groupFromRow r))"

definition Group_Save :: "Group \<Rightarrow> unit tx" where
  "Group_Save g = sql_UpsertGroup (Group_ID g) (Group_Name g) (OwnerID g) (toTimestamptz (FoundedAt g))"

definition Group_Delete :: "uuid \<Rightarrow> unit tx" where
  "Group_Delete g = sql_DeleteGroup g"

definition GroupMembership_Save :: "uuid \<Rightarrow> Membership \<Rightarrow> unit tx" where
  "GroupMembership_Save uid m =
     sql_AddGroupMember uid (Membership_GroupID m) (Membership_PlayerID m) (toTimestamptz (Membership_JoinedAt m))"

definition GroupMembership_Delete :: "uuid \<Rightarrow> uuid \<Rightarrow> unit tx" where
  "GroupMembership_Delete g p =
     tx_bind (sql_RemoveGroupMember g p)
       (\<lambda>affected. if affected = 0 then tx_fail (GroupE ErrNotMember) else tx_return ())"

definition GroupMembership_IsMember :: "uuid \<Rightarrow> uuid \<Rightarrow> bool tx" where
  "GroupMembership_IsMember g p = sql_GroupMemberExists g p"

definition GroupMembership_ListMembers :: "uuid \<Rightarrow> Member list tx" where
  "GroupMembership_ListMembers g = tx_bind (sql_ListGroupMembers g) (\<lambda>rows. tx_return
     (map (\<lambda>(p, nick, joined). \<lparr>Member_PlayerID = p, Member_Nickname = nick, Member_JoinedAt = joined\<rparr>) rows))"

definition GroupMembership_ListGroupsForPlayer :: "uuid \<Rightarrow> Group list tx" where
  "GroupMembership_ListGroupsForPlayer p =
     tx_bind (sql_ListGroupsForPlayer p) (\<lambda>rows. tx_return (map groupFromRow rows))"

section \<open>Usecase\<close>

definition create_group_work :: "uuid \<Rightarrow> Group \<Rightarrow> uuid \<Rightarrow> go_time \<Rightarrow> Group tx" where
  "create_group_work mid g owner now =
     tx_bind (Group_Save g) (\<lambda>_.
     tx_bind (GroupMembership_Save mid (NewMembership (Group_ID g) owner now)) (\<lambda>_. tx_return g))"

definition CreateGroup :: "uuid \<Rightarrow> uuid \<Rightarrow> uuid \<Rightarrow> string \<Rightarrow> go_time \<Rightarrow> Group tx" where
  "CreateGroup uid mid owner name now =
     (case NewGroup uid owner name now of
        Inl valErr \<Rightarrow> tx_fail valErr
      | Inr g \<Rightarrow> RW (create_group_work mid g owner now))"

definition delete_group_work :: "uuid \<Rightarrow> uuid \<Rightarrow> unit tx" where
  "delete_group_work me groupID =
     tx_bind (Group_Find groupID) (\<lambda>g.
     if OwnerID g \<noteq> me then tx_fail (GroupE ErrNotOwner) else Group_Delete groupID)"

definition DeleteGroup :: "uuid \<Rightarrow> uuid \<Rightarrow> unit tx" where
  "DeleteGroup me groupID = RW (delete_group_work me groupID)"

definition join_group_work :: "uuid \<Rightarrow> uuid \<Rightarrow> uuid \<Rightarrow> go_time \<Rightarrow> unit tx" where
  "join_group_work mid me groupID now =
     tx_bind (Group_Find groupID) (\<lambda>_. GroupMembership_Save mid (NewMembership groupID me now))"

definition JoinGroup :: "uuid \<Rightarrow> uuid \<Rightarrow> uuid \<Rightarrow> go_time \<Rightarrow> unit tx" where
  "JoinGroup mid me groupID now = RW (join_group_work mid me groupID now)"

definition leave_group_work :: "uuid \<Rightarrow> uuid \<Rightarrow> unit tx" where
  "leave_group_work me groupID =
     tx_bind (Group_Find groupID) (\<lambda>g.
     if OwnerID g = me then tx_fail (GroupE ErrOwnerMustDelete) else GroupMembership_Delete groupID me)"

definition LeaveGroup :: "uuid \<Rightarrow> uuid \<Rightarrow> unit tx" where
  "LeaveGroup me groupID = RW (leave_group_work me groupID)"

definition ListMyGroups :: "uuid \<Rightarrow> Group list tx" where
  "ListMyGroups me = RO (GroupMembership_ListGroupsForPlayer me)"

definition list_members_work :: "uuid \<Rightarrow> uuid \<Rightarrow> Member list tx" where
  "list_members_work me groupID =
     tx_bind (GroupMembership_IsMember groupID me) (\<lambda>member.
     if \<not> member then tx_fail (GroupE ErrNotMember) else GroupMembership_ListMembers groupID)"

definition ListMembers :: "uuid \<Rightarrow> uuid \<Rightarrow> Member list tx" where
  "ListMembers me groupID = RO (list_members_work me groupID)"

section \<open>Handlers\<close>

record GroupPb =
  GroupPb_Id :: string
  GroupPb_Name :: string
  GroupPb_OwnerId :: string
  GroupPb_FoundedAt :: go_time

record MemberPb =
  MemberPb_PlayerId :: string
  MemberPb_Nickname :: "string option"
  MemberPb_JoinedAt :: go_time

definition parseGroupID :: "(string \<Rightarrow> uuid option) \<Rightarrow> string \<Rightarrow> uuid response" where
  "parseGroupID parse raw = (case parse raw of
     None \<Rightarrow> Inl (CodeInvalidArgument, ErrorString ''invalid group id'') | Some uid \<Rightarrow> Inr uid)"

definition toGroupPb :: "(uuid \<Rightarrow> string) \<Rightarrow> Group \<Rightarrow> GroupPb" where
  "toGroupPb str g = \<lparr>GroupPb_Id = str (Group_ID g), GroupPb_Name = Group_Name g, GroupPb_OwnerId = str (OwnerID g),
     GroupPb_FoundedAt = FoundedAt g\<rparr>"

definition toMemberPb :: "(uuid \<Rightarrow> string) \<Rightarrow> Member \<Rightarrow> MemberPb" where
  "toMemberPb str m = \<lparr>MemberPb_PlayerId = str (Member_PlayerID m), MemberPb_Nickname = Member_Nickname m,
     MemberPb_JoinedAt = Member_JoinedAt m\<rparr>"

definition group_toConnectError :: "go_error \<Rightarrow> connect_error" where
  "group_toConnectError err =
     (if errors_Is err (GroupE ErrInvalidName) then (CodeInvalidArgument, err)
      else if errors_Is err (GroupE ErrGroupNotFound) then (CodeNotFound, err)
      else if errors_Is err (GroupE ErrNotOwner) then (CodePermissionDenied, err)
      else if errors_Is err (GroupE ErrOwnerMustDelete) \<or> errors_Is err (GroupE ErrNotMember)
      then (CodeFailedPrecondition, err)
      else (CodeInternal, err))"

definition Handler_CreateGroup ::
    "(uuid \<Rightarrow> string) \<Rightarrow> uuid \<Rightarrow> uuid \<Rightarrow> ctx \<Rightarrow> string \<Rightarrow> go_time \<Rightarrow> db \<Rightarrow> GroupPb response \<times> db" where
  "Handler_CreateGroup str uid mid c name now s =
     or_return (requireAuth c) s (\<lambda>me.
     respond group_toConnectError (toGroupPb str) (CreateGroup uid mid me name now s))"

definition Handler_DeleteGroup :: "(string \<Rightarrow> uuid option) \<Rightarrow> ctx \<Rightarrow> string \<Rightarrow> db \<Rightarrow> unit response \<times> db" where
  "Handler_DeleteGroup parse c raw s =
     or_return (requireAuth c) s (\<lambda>me.
     or_return (parseGroupID parse raw) s (\<lambda>groupID.
     respond group_toConnectError (\<lambda>_. ()) (DeleteGroup me groupID s)))"

definition Handler_JoinGroup ::
    "(string \<Rightarrow> uuid option) \<Rightarrow> uuid \<Rightarrow> ctx \<Rightarrow> string \<Rightarrow> go_time \<Rightarrow> db \<Rightarrow> unit response \<times> db" where
  "Handler_JoinGroup parse mid c raw now s =
     or_return (requireAuth c) s (\<lambda>me.
     or_return (parseGroupID parse raw) s (\<lambda>groupID.
     respond group_toConnectError (\<lambda>_. ()) (JoinGroup mid me groupID now s)))"

definition Handler_LeaveGroup :: "(string \<Rightarrow> uuid option) \<Rightarrow> ctx \<Rightarrow> string \<Rightarrow> db \<Rightarrow> unit response \<times> db" where
  "Handler_LeaveGroup parse c raw s =
     or_return (requireAuth c) s (\<lambda>me.
     or_return (parseGroupID parse raw) s (\<lambda>groupID.
     respond group_toConnectError (\<lambda>_. ()) (LeaveGroup me groupID s)))"

definition Handler_ListMyGroups :: "(uuid \<Rightarrow> string) \<Rightarrow> ctx \<Rightarrow> db \<Rightarrow> GroupPb list response \<times> db" where
  "Handler_ListMyGroups str c s =
     or_return (requireAuth c) s (\<lambda>me.
     respond group_toConnectError (map (toGroupPb str)) (ListMyGroups me s))"

definition Handler_ListMembers ::
    "(string \<Rightarrow> uuid option) \<Rightarrow> (uuid \<Rightarrow> string) \<Rightarrow> ctx \<Rightarrow> string \<Rightarrow> db \<Rightarrow> MemberPb list response \<times> db" where
  "Handler_ListMembers parse str c raw s =
     or_return (requireAuth c) s (\<lambda>me.
     or_return (parseGroupID parse raw) s (\<lambda>groupID.
     respond group_toConnectError (map (toMemberPb str)) (ListMembers me groupID s)))"

section \<open>Who owns and who belongs\<close>

record clubs =
  cl_owner :: "uuid \<rightharpoonup> uuid"
  cl_members :: "(uuid \<times> uuid) set"

definition abs_clubs :: "tables \<Rightarrow> clubs" where
  "abs_clubs t = \<lparr>cl_owner = map_of (map (\<lambda>r. (g_id r, g_owner_id r)) (groups t)),
     cl_members = (\<lambda>m. (gm_group_id m, gm_player_id m)) ` set (group_members t)\<rparr>"

text \<open>What the schema's constraints and the domain's validation say of the tables.\<close>

definition groups_wf :: "tables \<Rightarrow> bool" where
  "groups_wf t \<longleftrightarrow>
     distinct (map p_id (players t)) \<and> distinct (map g_id (groups t)) \<and>
     distinct (map (\<lambda>m. (gm_group_id m, gm_player_id m)) (group_members t)) \<and>
     (\<forall>g \<in> set (groups t). has_player t (g_owner_id g) \<and>
        g_name g \<noteq> [] \<and> RuneCountInString (g_name g) \<le> MaxNameLength) \<and>
     (\<forall>m \<in> set (group_members t). has_group t (gm_group_id m) \<and> has_player t (gm_player_id m)) \<and>
     (\<forall>m \<in> set (channel_messages t). has_group t (cm_channel_id m))"

definition clubs_ok :: "clubs \<Rightarrow> bool" where
  "clubs_ok c \<longleftrightarrow> (\<forall>g p. cl_owner c g = Some p \<longrightarrow> (g, p) \<in> cl_members c)"

definition groups_inv :: "tables \<Rightarrow> bool" where
  "groups_inv t \<longleftrightarrow> groups_wf t \<and> clubs_ok (abs_clubs t)"

text \<open>
  The abstract operations. A group id that is already taken cannot be drawn in practice; the store
  would then rename that group and let the caller in, and so does the abstract operation.
\<close>

definition Spec_CreateGroup :: "uuid \<Rightarrow> uuid \<Rightarrow> string \<Rightarrow> go_time \<Rightarrow> clubs \<Rightarrow> (go_error + Group) \<times> clubs" where
  "Spec_CreateGroup uid owner name now c =
     (case NewGroup uid owner name now of
        Inl e \<Rightarrow> (Inl e, c)
      | Inr g \<Rightarrow> (Inr g, c\<lparr>cl_owner := (if cl_owner c uid = None then (cl_owner c)(uid \<mapsto> owner) else cl_owner c),
          cl_members := insert (uid, owner) (cl_members c)\<rparr>))"

definition Spec_DeleteGroup :: "uuid \<Rightarrow> uuid \<Rightarrow> clubs \<Rightarrow> (go_error + unit) \<times> clubs" where
  "Spec_DeleteGroup me g c = (case cl_owner c g of
     None \<Rightarrow> (Inl (GroupE ErrGroupNotFound), c)
   | Some p \<Rightarrow> if p \<noteq> me then (Inl (GroupE ErrNotOwner), c)
       else (Inr (), c\<lparr>cl_owner := (cl_owner c)(g := None), cl_members := {m \<in> cl_members c. fst m \<noteq> g}\<rparr>))"

definition Spec_JoinGroup :: "uuid \<Rightarrow> uuid \<Rightarrow> clubs \<Rightarrow> (go_error + unit) \<times> clubs" where
  "Spec_JoinGroup me g c = (case cl_owner c g of
     None \<Rightarrow> (Inl (GroupE ErrGroupNotFound), c)
   | Some p \<Rightarrow> (Inr (), c\<lparr>cl_members := insert (g, me) (cl_members c)\<rparr>))"

definition Spec_LeaveGroup :: "uuid \<Rightarrow> uuid \<Rightarrow> clubs \<Rightarrow> (go_error + unit) \<times> clubs" where
  "Spec_LeaveGroup me g c = (case cl_owner c g of
     None \<Rightarrow> (Inl (GroupE ErrGroupNotFound), c)
   | Some p \<Rightarrow> if p = me then (Inl (GroupE ErrOwnerMustDelete), c)
       else if (g, me) \<notin> cl_members c then (Inl (GroupE ErrNotMember), c)
       else (Inr (), c\<lparr>cl_members := cl_members c - {(g, me)}\<rparr>))"

section \<open>What the statements do to the groups\<close>

abbreviation on_clubs :: "(clubs \<Rightarrow> bool) \<Rightarrow> tables \<Rightarrow> bool" where
  "on_clubs \<equiv> on_abs groups_wf abs_clubs"

lemma member_exists: "list_ex (is_member g p) (group_members t) \<longleftrightarrow> (g, p) \<in> cl_members (abs_clubs t)"
  by (auto simp: list_ex_iff is_member_def abs_clubs_def)

lemma map_of_rows: "map_of (map (\<lambda>r. (key r, val r)) rs) k = map_option val (List.find (\<lambda>r. key r = k) rs)"
  by (induction rs) auto

lemma owner_find: "cl_owner (abs_clubs t) g = map_option g_owner_id (List.find (\<lambda>r. g_id r = g) (groups t))"
  by (simp add: abs_clubs_def map_of_rows)

lemma has_group_owner: "has_group t g \<longleftrightarrow> cl_owner (abs_clubs t) g \<noteq> None"
  by (simp add: has_group_def abs_clubs_def map_of_eq_None_iff image_image)

lemma owner_delete:
  "map_of (map (\<lambda>r. (g_id r, g_owner_id r)) (filter (\<lambda>r. g_id r \<noteq> g) rs)) = (map_of (map (\<lambda>r. (g_id r, g_owner_id r)) rs))(g := None)"
  by (induction rs) (auto simp: fun_eq_iff)

lemma has_player_groups [simp]:
  "has_player (t\<lparr>groups := x\<rparr>) = has_player t" "has_player (t\<lparr>group_members := y\<rparr>) = has_player t"
  "has_player (t\<lparr>channel_messages := z\<rparr>) = has_player t"
  by (rule has_player_cong; simp)+

lemma rename_rows:
  fixes t :: tables and g :: uuid and name :: string
  defines "t' \<equiv> t\<lparr>groups := map (\<lambda>r. if g_id r = g then r\<lparr>g_name := name\<rparr> else r) (groups t)\<rparr>"
  assumes "name \<noteq> []" "RuneCountInString name \<le> MaxNameLength"
  shows "abs_clubs t' = abs_clubs t" and "groups_wf t \<Longrightarrow> groups_wf t'"
proof -
  have ids: "map g_id (map (\<lambda>r. if g_id r = g then r\<lparr>g_name := name\<rparr> else r) rs) = map g_id rs" for rs
    by (induction rs) auto
  have own: "map (\<lambda>r. (g_id r, g_owner_id r)) (map (\<lambda>r. if g_id r = g then r\<lparr>g_name := name\<rparr> else r) rs)
      = map (\<lambda>r. (g_id r, g_owner_id r)) rs" for rs
    by (induction rs) auto
  show "abs_clubs t' = abs_clubs t" by (simp add: abs_clubs_def t'_def own del: map_map)
  have grp: "has_group t' = has_group t"
    unfolding has_group_def fun_eq_iff list.set_map [symmetric] t'_def by (simp add: ids del: map_map list.set_map)
  show "groups_wf t'" if "groups_wf t"
    using that assms(2,3) unfolding groups_wf_def grp by (auto simp: t'_def ids simp del: map_map)
qed

lemma add_group_row:
  assumes "groups_wf t" "\<not> has_group t (g_id r)" "has_player t (g_owner_id r)" "g_name r \<noteq> []" "RuneCountInString (g_name r) \<le> MaxNameLength"
  shows "abs_clubs (t\<lparr>groups := groups t @ [r]\<rparr>) = (abs_clubs t)\<lparr>cl_owner := (cl_owner (abs_clubs t))(g_id r \<mapsto> g_owner_id r)\<rparr>"
    and "groups_wf (t\<lparr>groups := groups t @ [r]\<rparr>)"
proof -
  have n: "map_of (map (\<lambda>r. (g_id r, g_owner_id r)) (groups t)) (g_id r) = None"
    using assms(2) by (auto simp: has_group_def map_of_eq_None_iff)
  show "abs_clubs (t\<lparr>groups := groups t @ [r]\<rparr>) = (abs_clubs t)\<lparr>cl_owner := (cl_owner (abs_clubs t))(g_id r \<mapsto> g_owner_id r)\<rparr>"
    using n by (simp add: abs_clubs_def fun_eq_iff map_add_def split: option.split)
  show "groups_wf (t\<lparr>groups := groups t @ [r]\<rparr>)"
    using assms by (auto simp: groups_wf_def has_group_def)
qed

lemma image_filter_key: "(\<lambda>m. (a m, b m)) ` {m \<in> A. a m \<noteq> g} = {y \<in> (\<lambda>m. (a m, b m)) ` A. fst y \<noteq> g}"
  by (simp add: set_eq_iff image_iff) blast

lemma delete_group_rows:
  fixes t :: tables and g :: uuid and name :: string
  defines "t' \<equiv> t\<lparr>groups := filter (\<lambda>r. g_id r \<noteq> g) (groups t),
     group_members := filter (\<lambda>m. gm_group_id m \<noteq> g) (group_members t),
     channel_messages := filter (\<lambda>m. cm_channel_id m \<noteq> g) (channel_messages t)\<rparr>"
  shows "abs_clubs t' = (abs_clubs t)\<lparr>cl_owner := (cl_owner (abs_clubs t))(g := None), cl_members := {m \<in> cl_members (abs_clubs t). fst m \<noteq> g}\<rparr>"
    and "groups_wf t \<Longrightarrow> groups_wf t'"
proof -
  show "abs_clubs t' = (abs_clubs t)\<lparr>cl_owner := (cl_owner (abs_clubs t))(g := None), cl_members := {m \<in> cl_members (abs_clubs t). fst m \<noteq> g}\<rparr>"
    by (simp add: abs_clubs_def t'_def owner_delete image_filter_key)
  show "groups_wf t'" if "groups_wf t"
  proof -
    have grp: "has_group t' x \<longleftrightarrow> has_group t x \<and> x \<noteq> g" for x by (auto simp: t'_def has_group_def)
    have pl: "has_player t' = has_player t" by (rule has_player_cong) (simp add: t'_def)
    show ?thesis
      using that unfolding groups_wf_def grp pl
      by (intro conjI) (simp_all add: t'_def distinct_map_filterI)
  qed
qed

lemma add_member_row:
  assumes "groups_wf t" "(gm_group_id m, gm_player_id m) \<notin> cl_members (abs_clubs t)" "has_group t (gm_group_id m)" "has_player t (gm_player_id m)"
  shows "abs_clubs (t\<lparr>group_members := group_members t @ [m]\<rparr>) =
      (abs_clubs t)\<lparr>cl_members := insert (gm_group_id m, gm_player_id m) (cl_members (abs_clubs t))\<rparr>"
    and "groups_wf (t\<lparr>group_members := group_members t @ [m]\<rparr>)"
  using assms by (auto simp: abs_clubs_def groups_wf_def has_group_def)

lemma delete_member_rows:
  "abs_clubs (t\<lparr>group_members := filter (\<lambda>m. \<not> is_member g p m) (group_members t)\<rparr>) =
     (abs_clubs t)\<lparr>cl_members := cl_members (abs_clubs t) - {(g, p)}\<rparr>"
  "groups_wf t \<Longrightarrow> groups_wf (t\<lparr>group_members := filter (\<lambda>m. \<not> is_member g p m) (group_members t)\<rparr>)"
  by (auto simp: abs_clubs_def is_member_def groups_wf_def has_group_def)

section \<open>Repository contracts\<close>

lemma GetGroup_triple:
  "tx_triple (on_clubs G) (sql_GetGroup g)
     (\<lambda>r. on_clubs (\<lambda>c. G c \<and> cl_owner c g = Some (g_owner_id r)))
     (\<lambda>e t. \<exists>d. e = DbE d \<and> (d = ErrNoRows \<longrightarrow> (\<exists>c. G c \<and> cl_owner c g = None)))"
  unfolding sql_GetGroup_def by (rule triple_lookup) (auto simp: on_abs_def owner_find)

lemma Group_Find_triple:
  "tx_triple (on_clubs G) (Group_Find g)
     (\<lambda>x. on_clubs (\<lambda>c. G c \<and> cl_owner c g = Some (OwnerID x)))
     (\<lambda>e t. infra e \<or> e = GroupE ErrGroupNotFound \<and> (\<exists>c. G c \<and> cl_owner c g = None))"
  unfolding Group_Find_def tx_mapping_def
  by (rule triple_bind, rule triple_catch, rule GetGroup_triple)
    (auto intro!: triple_if triple_fail triple_return simp: groupFromRow_def)

lemma Group_Save_triple:
  assumes "Group_Name g \<noteq> []" "RuneCountInString (Group_Name g) \<le> MaxNameLength"
  shows "tx_triple (on_clubs G) (Group_Save g)
     (\<lambda>_. on_clubs (\<lambda>c'. \<exists>c. G c \<and> cl_owner c' (Group_ID g) \<noteq> None \<and> c' = c\<lparr>cl_owner := (if cl_owner c (Group_ID g) = None
        then (cl_owner c)(Group_ID g \<mapsto> OwnerID g) else cl_owner c)\<rparr>)) (\<lambda>e t. infra e)"
  unfolding Group_Save_def sql_UpsertGroup_def
  by (rule triple_exec) (auto simp: on_abs_def rename_rows [OF assms] has_group_owner add_group_row assms split: if_splits)

lemma Group_Delete_triple:
  "tx_triple (on_clubs G) (Group_Delete g)
     (\<lambda>_. on_clubs (\<lambda>c'. \<exists>c. G c \<and> c' = c\<lparr>cl_owner := (cl_owner c)(g := None), cl_members := {m \<in> cl_members c. fst m \<noteq> g}\<rparr>))
     (\<lambda>e t. infra e)"
  unfolding Group_Delete_def sql_DeleteGroup_def
  by (rule triple_exec) (auto simp: on_abs_def delete_group_rows)

lemma GroupMembership_Save_triple:
  "tx_triple (on_clubs G) (GroupMembership_Save uid (NewMembership g p now))
     (\<lambda>_. on_clubs (\<lambda>c'. \<exists>c. G c \<and> c' = c\<lparr>cl_members := insert (g, p) (cl_members c)\<rparr>)) (\<lambda>e t. infra e)"
  unfolding GroupMembership_Save_def sql_AddGroupMember_def NewMembership_def
  by (rule triple_exec) (auto simp: on_abs_def member_exists add_member_row insert_absorb split: if_splits)

lemma GroupMembership_Delete_triple:
  "tx_triple (on_clubs G) (GroupMembership_Delete g p)
     (\<lambda>_. on_clubs (\<lambda>c'. \<exists>c. G c \<and> (g, p) \<in> cl_members c \<and> c' = c\<lparr>cl_members := cl_members c - {(g, p)}\<rparr>))
     (\<lambda>e t. infra e \<or> e = GroupE ErrNotMember \<and> (\<exists>c. G c \<and> (g, p) \<notin> cl_members c))"
  unfolding GroupMembership_Delete_def sql_RemoveGroupMember_def
  by (rule triple_affected, unfold no_match_iff member_exists)
    (auto simp: on_abs_def delete_member_rows)


section \<open>Refinement of the usecase\<close>

lemmas group_triples = Group_Find_triple Group_Delete_triple GroupMembership_Save_triple GroupMembership_Delete_triple

lemma NewGroup_valid: "NewGroup uid owner name now = Inr g \<Longrightarrow> Group_Name g \<noteq> [] \<and>
    RuneCountInString (Group_Name g) \<le> MaxNameLength \<and> Group_ID g = uid \<and> OwnerID g = owner"
  by (auto simp: NewGroup_def Let_def split: if_splits)

lemma create_group_work_triple:
  assumes "NewGroup uid owner name now = Inr g"
  shows "tx_triple (on_clubs (\<lambda>c. c = c0)) (create_group_work mid g owner now)
     (\<lambda>x. on_clubs (\<lambda>c. Spec_CreateGroup uid owner name now c0 = (Inr x, c)))
     (\<lambda>e t. infra e \<or> Spec_CreateGroup uid owner name now c0 = (Inl e, c0))"
  unfolding create_group_work_def
  by (rule triple_step, rule Group_Save_triple, (use NewGroup_valid [OF assms] in simp_all)[2],
      rule triple_step, rule group_triples, rule triple_return)
    (use NewGroup_valid [OF assms] assms in \<open>auto simp: on_abs_def Spec_CreateGroup_def\<close>)

lemma delete_group_work_triple:
  "tx_triple (on_clubs (\<lambda>c. c = c0)) (delete_group_work me g)
     (\<lambda>x. on_clubs (\<lambda>c. Spec_DeleteGroup me g c0 = (Inr x, c)))
     (\<lambda>e t. infra e \<or> Spec_DeleteGroup me g c0 = (Inl e, c0))"
  unfolding delete_group_work_def
  by (rule triple_step, rule group_triples, rule triple_if, rule triple_fail)
    (auto simp: on_abs_def Spec_DeleteGroup_def intro!: triple_tail [OF Group_Delete_triple])

lemma join_group_work_triple:
  "tx_triple (on_clubs (\<lambda>c. c = c0)) (join_group_work mid me g now)
     (\<lambda>x. on_clubs (\<lambda>c. Spec_JoinGroup me g c0 = (Inr x, c)))
     (\<lambda>e t. infra e \<or> Spec_JoinGroup me g c0 = (Inl e, c0))"
  unfolding join_group_work_def
  by (rule triple_step, rule group_triples)
    (auto simp: on_abs_def Spec_JoinGroup_def intro!: triple_tail [OF GroupMembership_Save_triple])

lemma leave_group_work_triple:
  "tx_triple (on_clubs (\<lambda>c. c = c0)) (leave_group_work me g)
     (\<lambda>x. on_clubs (\<lambda>c. Spec_LeaveGroup me g c0 = (Inr x, c)))
     (\<lambda>e t. infra e \<or> Spec_LeaveGroup me g c0 = (Inl e, c0))"
  unfolding leave_group_work_def
  by (rule triple_step, rule group_triples, rule triple_if, rule triple_fail)
    (auto simp: on_abs_def Spec_LeaveGroup_def intro!: triple_tail [OF GroupMembership_Delete_triple])

lemma CreateGroup_refines:
  "refines groups_wf abs_clubs (CreateGroup uid mid owner name now) (Spec_CreateGroup uid owner name now)"
  unfolding CreateGroup_def
  by (auto split: sum.split intro!: refines_RW create_group_work_triple refines_fail simp: Spec_CreateGroup_def)

lemma group_refines:
  "refines groups_wf abs_clubs (DeleteGroup me g) (Spec_DeleteGroup me g)"
  "refines groups_wf abs_clubs (JoinGroup mid me g now) (Spec_JoinGroup me g)"
  "refines groups_wf abs_clubs (LeaveGroup me g) (Spec_LeaveGroup me g)"
  unfolding DeleteGroup_def JoinGroup_def LeaveGroup_def
  by (rule refines_RW delete_group_work_triple join_group_work_triple leave_group_work_triple)+

lemma group_specs_ok:
  "clubs_ok c \<Longrightarrow> Spec_CreateGroup uid owner name now c = (r1, c') \<Longrightarrow> clubs_ok c'"
  "clubs_ok c \<Longrightarrow> Spec_DeleteGroup me g c = (r, c') \<Longrightarrow> clubs_ok c'"
  "clubs_ok c \<Longrightarrow> Spec_JoinGroup me g c = (r, c') \<Longrightarrow> clubs_ok c'"
  "clubs_ok c \<Longrightarrow> Spec_LeaveGroup me g c = (r, c') \<Longrightarrow> clubs_ok c'"
  by (auto simp: clubs_ok_def Spec_CreateGroup_def Spec_DeleteGroup_def Spec_JoinGroup_def Spec_LeaveGroup_def NewGroup_def
      split: if_splits option.splits sum.splits)

section \<open>Calls in sequence\<close>

datatype group_call =
    CallCreateGroup uuid uuid uuid string go_time | CallDeleteGroup uuid uuid
  | CallJoinGroup uuid uuid uuid go_time | CallLeaveGroup uuid uuid
  | CallListMyGroups uuid | CallListMembers uuid uuid

fun group_step :: "group_call \<Rightarrow> db \<Rightarrow> db" where
  "group_step (CallCreateGroup uid mid me name now) s = snd (CreateGroup uid mid me name now s)"
| "group_step (CallDeleteGroup me g) s = snd (DeleteGroup me g s)"
| "group_step (CallJoinGroup mid me g now) s = snd (JoinGroup mid me g now s)"
| "group_step (CallLeaveGroup me g) s = snd (LeaveGroup me g s)"
| "group_step (CallListMyGroups me) s = snd (ListMyGroups me s)"
| "group_step (CallListMembers me g) s = snd (ListMembers me g s)"

lemma preserves_groups_inv:
  assumes "refines groups_wf abs_clubs m spec" and "\<And>c r c'. clubs_ok c \<Longrightarrow> spec c = (r, c') \<Longrightarrow> clubs_ok c'"
  shows "groups_inv (db_tables s) \<Longrightarrow> groups_inv (db_tables (snd (m s)))"
proof -
  have "preserves (on_abs groups_wf abs_clubs clubs_ok) m" by (rule refines_preserves [OF assms])
  then show "groups_inv (db_tables s) \<Longrightarrow> groups_inv (db_tables (snd (m s)))"
    using preserves_snd [of "on_abs groups_wf abs_clubs clubs_ok"] by (simp add: groups_inv_def on_abs_def)
qed

lemma group_lists_read:
  "preserves I (ListMyGroups me)" "preserves I (ListMembers me g)"
  unfolding ListMyGroups_def ListMembers_def list_members_work_def GroupMembership_ListGroupsForPlayer_def
    GroupMembership_ListMembers_def GroupMembership_IsMember_def sql_ListGroupsForPlayer_def sql_ListGroupMembers_def
    sql_GroupMemberExists_def
  by (rule session_ro.run_preserves [where F = "\<lambda>_. I"];
      (rule triple_bind [where R = "\<lambda>_. I"] triple_query triple_return triple_fail triple_if | assumption)+)+

lemma group_step_inv: "groups_inv (db_tables s) \<Longrightarrow> groups_inv (db_tables (group_step call s))"
  by (cases call)
    (simp_all add: preserves_groups_inv [OF CreateGroup_refines group_specs_ok(1)]
      preserves_groups_inv [OF group_refines(1) group_specs_ok(2)]
      preserves_groups_inv [OF group_refines(2) group_specs_ok(3)]
      preserves_groups_inv [OF group_refines(3) group_specs_ok(4)]
      preserves_snd [OF group_lists_read(1)] preserves_snd [OF group_lists_read(2)])

section \<open>Runs without faults\<close>

lemmas group_repo_defs = Group_Find_def Group_Save_def Group_Delete_def GroupMembership_Save_def GroupMembership_Delete_def
  GroupMembership_IsMember_def sql_GetGroup_def sql_UpsertGroup_def sql_DeleteGroup_def sql_AddGroupMember_def
  sql_RemoveGroupMember_def sql_GroupMemberExists_def NewMembership_def tx_mapping_def

lemma create_group_work_clean:
  assumes "live False s" "has_player (db_tables s) me" "mid \<notin> gm_id ` set (group_members (db_tables s))"
    "Group_ID g = uid" "OwnerID g = me" "\<not> has_group (db_tables s) uid"
  shows "clean (create_group_work mid g me now) s"
  using assms by (auto simp: clean_def tx_eval create_group_work_def group_repo_defs has_group_def split: if_splits)

lemma other_group_works_clean:
  assumes "live False s" "has_player (db_tables s) me" "mid \<notin> gm_id ` set (group_members (db_tables s))"
  shows "clean (delete_group_work me g) s" "clean (join_group_work mid me g now) s" "clean (leave_group_work me g) s"
  using assms
  by (auto simp: clean_def tx_eval delete_group_work_def join_group_work_def leave_group_work_def group_repo_defs
      has_group_def no_match_iff find_None_iff dest: find_Some split: if_splits option.split)

section \<open>Listings\<close>

definition member_rows :: "tables \<Rightarrow> uuid \<Rightarrow> (uuid \<times> string option \<times> go_time) list" where
  "member_rows t g = concat (map (\<lambda>m.
     join_player t (gm_player_id m) (\<lambda>p. (p_id p, p_nickname p, gm_joined_at m)))
     (filter (\<lambda>m. gm_group_id m = g) (group_members t)))"

lemma member_rows_ids:
  assumes "groups_wf t"
  shows "map fst (member_rows t g) = map gm_player_id (filter (\<lambda>m. gm_group_id m = g) (group_members t))"
  unfolding member_rows_def
  by (rule map_concat_join) (use assms in \<open>auto intro!: join_player_ids simp: groups_wf_def\<close>)

lemma distinct_section: "distinct (map (\<lambda>m. (a m, b m)) ms) \<Longrightarrow> distinct (map b (filter (\<lambda>m. a m = g) ms))"
  by (induction ms) (auto simp: image_iff)

lemma member_rows_distinct:
  "groups_wf t \<Longrightarrow> distinct (map fst (member_rows t g))"
  unfolding member_rows_ids by (rule distinct_section) (simp add: groups_wf_def)

lemma member_rows_set:
  assumes "groups_wf t"
  shows "fst ` set (member_rows t g) = {p. (g, p) \<in> cl_members (abs_clubs t)}"
proof -
  have "fst ` set (member_rows t g) = set (map fst (member_rows t g))" by simp
  also have "\<dots> = {p. (g, p) \<in> cl_members (abs_clubs t)}"
    unfolding member_rows_ids [OF assms] by (auto simp: abs_clubs_def)
  finally show ?thesis .
qed

definition toMember :: "uuid \<times> string option \<times> go_time \<Rightarrow> Member" where
  "toMember = (\<lambda>(p, nick, joined). \<lparr>Member_PlayerID = p, Member_Nickname = nick, Member_JoinedAt = joined\<rparr>)"

lemma toMember_simps [simp]:
  "Member_PlayerID (toMember r) = fst r" "Member_JoinedAt (toMember r) = snd (snd r)" "Member_Nickname (toMember r) = fst (snd r)"
  by (simp_all add: toMember_def split: prod.split)

lemma ListMembers_outcome:
  assumes "quiet s"
  shows "outcome (ListMembers me g) s =
    (if (g, me) \<in> cl_members (abs_clubs (db_tables s))
     then Inr (map toMember (oldest_first (snd \<circ> snd) (member_rows (db_tables s) g))) else Inl (GroupE ErrNotMember), db_tables s)"
proof -
  have work: "list_members_work me g (begin_tx True s) = 
    (if (g, me) \<in> cl_members (abs_clubs (db_tables s))
     then Inr (map toMember (oldest_first (snd \<circ> snd) (member_rows (db_tables s) g))) else Inl (GroupE ErrNotMember), begin_tx True s)"
    using live_begin_tx [OF assms, of True]
    by (simp add: list_members_work_def GroupMembership_IsMember_def GroupMembership_ListMembers_def
        sql_GroupMemberExists_def sql_ListGroupMembers_def tx_eval member_exists member_rows_def toMember_def)
  show ?thesis
    using outcome_run_success [OF assms, of "list_members_work me g" True] outcome_run_error [OF assms, of "list_members_work me g" True]
      work live_begin_tx [OF assms, of True] by (auto simp: ListMembers_def RO_def split: if_splits)
qed

section \<open>Properties\<close>

definition sample_groups :: db where
  "sample_groups = (sample_db [1, 2, 3])\<lparr>db_tables := (db_tables (sample_db [1, 2, 3]))\<lparr>
     groups := [\<lparr>g_id = 9, g_name = ''clan'', g_owner_id = 1, g_founded_at = 4\<rparr>],
     group_members := [\<lparr>gm_id = 20, gm_group_id = 9, gm_player_id = 1, gm_joined_at = 4\<rparr>,
                       \<lparr>gm_id = 21, gm_group_id = 9, gm_player_id = 2, gm_joined_at = 3\<rparr>]\<rparr>\<rparr>"

lemma sample_groups_facts:
  "groups_inv (db_tables sample_groups)" "quiet sample_groups"
  "abs_clubs (db_tables sample_groups) = \<lparr>cl_owner = [9 \<mapsto> 1], cl_members = {(9, 1), (9, 2)}\<rparr>"
proof -
  have "RuneCountInString ''clan'' \<le> MaxNameLength" by code_simp
  then show "groups_inv (db_tables sample_groups)"
    by (simp add: sample_groups_def sample_simps groups_inv_def groups_wf_def has_player_def has_group_def clubs_ok_def abs_clubs_def)
qed (simp_all add: sample_groups_def sample_simps abs_clubs_def)

text \<open>
  C19. Whatever sequence of group calls runs, with whatever drawn ids and store faults: the owner of
  every group is a member of it, a player belongs to a group at most once, members and owners are
  existing players, members and messages belong to existing groups, and every name is non-empty and
  within its bound.
\<close>

theorem groups_inv_reachable:
  assumes "groups_inv (db_tables s)"
  shows "groups_inv (db_tables (fold group_step calls s))"
  using assms by (induction calls arbitrary: s) (simp_all add: group_step_inv)

theorem groups_inv_reachable_witness:
  "groups_inv (db_tables (fold group_step [CallLeaveGroup 1 9, CallJoinGroup 22 3 9 5, CallDeleteGroup 1 9] sample_groups))"
  by (rule groups_inv_reachable [OF sample_groups_facts(1)])

text \<open>
  C20. Without faults, for an existing player and fresh row ids, each call returns and stores exactly
  what the rules of groups say, on every branch: only the owner disbands a group and takes all its
  members with it, joining twice changes nothing, the owner cannot leave, and only a member can.
\<close>

theorem groups_exact:
  assumes "quiet s" and "groups_wf (db_tables s)" and "has_player (db_tables s) me"
    and "mid \<notin> gm_id ` set (group_members (db_tables s))" and "\<not> has_group (db_tables s) uid"
  shows "map_prod (\<lambda>r. r) abs_clubs (outcome (CreateGroup uid mid me name now) s)
        = Spec_CreateGroup uid me name now (abs_clubs (db_tables s))
    \<and> map_prod (\<lambda>r. r) abs_clubs (outcome (DeleteGroup me g) s) = Spec_DeleteGroup me g (abs_clubs (db_tables s))
    \<and> map_prod (\<lambda>r. r) abs_clubs (outcome (JoinGroup mid me g now) s) = Spec_JoinGroup me g (abs_clubs (db_tables s))
    \<and> map_prod (\<lambda>r. r) abs_clubs (outcome (LeaveGroup me g) s) = Spec_LeaveGroup me g (abs_clubs (db_tables s))"
proof -
  note live = live_begin_tx [OF assms(1), of False]
  have exact: "map_prod (\<lambda>r. r) abs_clubs (outcome (RW work) s) = spec (abs_clubs (db_tables s))"
    if "refines groups_wf abs_clubs (RW work) spec" "clean work (begin_tx False s)" for work :: "unit tx" and spec
    by (rule refines_exact [where ok = groups_wf]) (fact that assms)+
  have "map_prod (\<lambda>r. r) abs_clubs (outcome (CreateGroup uid mid me name now) s)
      = Spec_CreateGroup uid me name now (abs_clubs (db_tables s))"
  proof (cases "NewGroup uid me name now")
    case (Inl e)
    then show ?thesis by (simp add: CreateGroup_def Spec_CreateGroup_def outcome_fail)
  next
    case (Inr g)
    have "clean (create_group_work mid g me now) (begin_tx False s)"
      using create_group_work_clean [OF live] NewGroup_valid [OF Inr] assms(3-5) by simp
    moreover have run: "CreateGroup uid mid me name now = RW (create_group_work mid g me now)"
      using Inr by (simp add: CreateGroup_def)
    ultimately show ?thesis
      using refines_exact [where ok = groups_wf and view = abs_clubs] CreateGroup_refines [of uid mid me name now] assms(1,2)
      unfolding run by blast
  qed
  moreover have works: "clean (delete_group_work me g) (begin_tx False s)" "clean (join_group_work mid me g now) (begin_tx False s)"
      "clean (leave_group_work me g) (begin_tx False s)"
    using other_group_works_clean [OF live] assms(3,4) by simp_all
  ultimately show ?thesis
    using group_refines
    unfolding DeleteGroup_def JoinGroup_def LeaveGroup_def by (intro conjI exact) simp_all
qed

theorem groups_exact_witness:
  "fst (outcome (LeaveGroup 1 9) sample_groups) = Inl (GroupE ErrOwnerMustDelete)
   \<and> fst (outcome (DeleteGroup 1 9) sample_groups) = Inr ()"
proof -
  have pre: "groups_wf (db_tables sample_groups)" "has_player (db_tables sample_groups) 1"
    "23 \<notin> gm_id ` set (group_members (db_tables sample_groups))" "\<not> has_group (db_tables sample_groups) 10"
    using sample_groups_facts(1) by (simp_all add: groups_inv_def sample_groups_def sample_simps has_player_def has_group_def)
  show ?thesis
    using groups_exact [OF sample_groups_facts(2) pre, of "''x''" 0 9]
    by (simp add: sample_groups_facts(3) Spec_LeaveGroup_def Spec_DeleteGroup_def prod_eq_iff)
qed

text \<open>
  \<open>ListMembers\<close> tells a member of the group exactly who belongs to it, each player once with the
  player's nickname, in the order of joining, and tells anyone else \<open>ErrNotMember\<close>; it changes nothing.
\<close>

theorem ListMembers_exact:
  assumes "quiet s" and "groups_wf (db_tables s)"
  shows "((g, me) \<notin> cl_members (abs_clubs (db_tables s)) \<longrightarrow>
      outcome (ListMembers me g) s = (Inl (GroupE ErrNotMember), db_tables s)) \<and>
    ((g, me) \<in> cl_members (abs_clubs (db_tables s)) \<longrightarrow>
      (\<exists>ms. outcome (ListMembers me g) s = (Inr ms, db_tables s) \<and>
        Member_PlayerID ` set ms = {p. (g, p) \<in> cl_members (abs_clubs (db_tables s))} \<and>
        distinct (map Member_PlayerID ms) \<and> sorted_wrt (\<lambda>x y. Member_JoinedAt x \<le> Member_JoinedAt y) ms))"
proof -
  let ?rows = "oldest_first (snd \<circ> snd) (member_rows (db_tables s) g)"
  have "Member_PlayerID ` set (map toMember ?rows) = {p. (g, p) \<in> cl_members (abs_clubs (db_tables s))}"
    using member_rows_set [OF assms(2), of g] by (simp add: image_image)
  moreover have "distinct (map Member_PlayerID (map toMember ?rows))"
    using member_rows_distinct [OF assms(2), of g] by (simp add: comp_def)
  moreover have "sorted_wrt (\<lambda>x y. Member_JoinedAt x \<le> Member_JoinedAt y) (map toMember ?rows)"
    using oldest_first_sorted [of "snd \<circ> snd" "member_rows (db_tables s) g"] by (simp add: sorted_wrt_map)
  ultimately show ?thesis using ListMembers_outcome [OF assms(1), of me g] by auto
qed

theorem ListMembers_exact_witness:
  "\<exists>ms. outcome (ListMembers 2 9) sample_groups = (Inr ms, db_tables sample_groups) \<and> Member_PlayerID ` set ms = {1, 2}"
  using ListMembers_exact [OF sample_groups_facts(2), of 9 2] sample_groups_facts(1,3) by (auto simp: groups_inv_def)

end
