(* ===== verification/Chat.thy ===== *)
theory Chat
  imports Social Player_Groups
begin

text \<open>
  Direct messages and group chat: the domain package \<open>internal/domain/chat\<close>, the repository
  \<open>internal/infra/repository/chat.go\<close> over \<open>schema/db/queries/chat.sql\<close>, the in-process fan-out
  \<open>internal/infra/chatstream/inmem.go\<close>, the usecase \<open>internal/usecase/chat\<close> and its Connect handler
  \<open>internal/presentation/gateway/chat\<close>.

  The usecase reaches two other components through ports: \<open>Membership\<close>, which the group repository
  provides, and \<open>Broker\<close>, which the in-process fan-out provides. Each is a locale here
  (\<open>channel_members\<close>, \<open>broker_contract\<close>), interpreted on those definitions.
\<close>

section \<open>Domain\<close>

record Message =
  Message_ID :: uuid
  SenderID :: uuid
  RecipientID :: uuid
  Body :: string
  SentAt :: go_time

record ChannelMessage =
  ChannelMessage_ID :: uuid
  ChannelID :: uuid
  Channel_SenderID :: uuid
  Channel_Body :: string
  Channel_SentAt :: go_time

definition MaxBodyLength :: nat where "MaxBodyLength = 2000"

definition NewMessage :: "uuid \<Rightarrow> uuid \<Rightarrow> uuid \<Rightarrow> string \<Rightarrow> go_time \<Rightarrow> Message result" where
  "NewMessage uid sender recipient body now =
     (if sender = recipient then Inl (ChatE ErrSelfMessage)
      else if TrimSpace body = [] \<or> RuneCountInString body > MaxBodyLength then Inl (ChatE ErrInvalidBody)
      else Inr \<lparr>Message_ID = uid, SenderID = sender, RecipientID = recipient, Body = body, SentAt = now\<rparr>)"

definition NewChannelMessage :: "uuid \<Rightarrow> uuid \<Rightarrow> uuid \<Rightarrow> string \<Rightarrow> go_time \<Rightarrow> ChannelMessage result" where
  "NewChannelMessage uid channelID sender body now =
     (if TrimSpace body = [] \<or> RuneCountInString body > MaxBodyLength then Inl (ChatE ErrInvalidBody)
      else Inr \<lparr>ChannelMessage_ID = uid, ChannelID = channelID, Channel_SenderID = sender, Channel_Body = body,
                Channel_SentAt = now\<rparr>)"

function Conversation_from :: "nat \<Rightarrow> uuid \<Rightarrow> uuid \<Rightarrow> uuid \<times> uuid" where
  "Conversation_from i a b =
     (if i < 16 then
        if uuid_byte a i < uuid_byte b i then (a, b)
        else if uuid_byte a i > uuid_byte b i then (b, a)
        else Conversation_from (i + 1) a b
      else (a, b))"
  by auto
termination by (relation "measure (\<lambda>(i, _, _). 16 - i)") auto

declare Conversation_from.simps [simp del]

definition Conversation :: "uuid \<Rightarrow> uuid \<Rightarrow> uuid \<times> uuid" where
  "Conversation a b = Conversation_from 0 a b"

section \<open>Statements\<close>

definition sql_InsertDirectMessage :: "uuid \<Rightarrow> uuid \<Rightarrow> uuid \<Rightarrow> uuid \<Rightarrow> string \<Rightarrow> go_time \<Rightarrow> unit tx" where
  "sql_InsertDirectMessage uid low high sender body at = sql_exec (\<lambda>now t.
     if \<not> low < high \<or> \<not> (sender = low \<or> sender = high) then Inl check_violation
     else if uid \<in> dm_id ` set (direct_messages t) then Inl unique_violation
     else if \<not> has_player t low \<or> \<not> has_player t high \<or> \<not> has_player t sender then Inl foreign_key_violation
     else Inr ((), t\<lparr>direct_messages := direct_messages t @
       [\<lparr>dm_id = uid, dm_player_low = low, dm_player_high = high, dm_sender_id = sender, dm_body = body,
         dm_created_at = at\<rparr>]\<rparr>))"

definition sql_InsertChannelMessage :: "uuid \<Rightarrow> uuid \<Rightarrow> uuid \<Rightarrow> string \<Rightarrow> go_time \<Rightarrow> unit tx" where
  "sql_InsertChannelMessage uid ch sender body at = sql_exec (\<lambda>now t.
     if uid \<in> cm_id ` set (channel_messages t) then Inl unique_violation
     else if \<not> has_group t ch \<or> \<not> has_player t sender then Inl foreign_key_violation
     else Inr ((), t\<lparr>channel_messages := channel_messages t @
       [\<lparr>cm_id = uid, cm_channel_id = ch, cm_sender_id = sender, cm_body = body, cm_created_at = at\<rparr>]\<rparr>))"

text \<open>\<open>WHERE \<dots> AND created_at < before ORDER BY created_at DESC LIMIT lim\<close>.\<close>

definition history :: "('r \<Rightarrow> go_time) \<Rightarrow> go_time \<Rightarrow> nat \<Rightarrow> 'r list \<Rightarrow> 'r list" where
  "history created before lim rows = take lim (newest_first created (filter (\<lambda>r. created r < before) rows))"

definition in_conversation :: "uuid \<Rightarrow> uuid \<Rightarrow> direct_message_row \<Rightarrow> bool" where
  "in_conversation low high r \<longleftrightarrow> dm_player_low r = low \<and> dm_player_high r = high"

definition sql_ListConversation :: "uuid \<Rightarrow> uuid \<Rightarrow> go_time \<Rightarrow> int \<Rightarrow> direct_message_row list tx" where
  "sql_ListConversation low high before lim = stmt False (\<lambda>now t.
     if lim < 0 then Inl negative_limit
     else Inr (history dm_created_at before (nat lim) (filter (in_conversation low high) (direct_messages t)), t))"

definition sql_ListChannelMessages :: "uuid \<Rightarrow> go_time \<Rightarrow> int \<Rightarrow> channel_message_row list tx" where
  "sql_ListChannelMessages ch before lim = stmt False (\<lambda>now t.
     if lim < 0 then Inl negative_limit
     else Inr (history cm_created_at before (nat lim) (filter (\<lambda>r. cm_channel_id r = ch) (channel_messages t)), t))"

section \<open>Repository\<close>

text \<open>\<open>time.Date(9999, 1, 1, \<dots>)\<close> is 3651694 days after Go's zero instant.\<close>

definition farFuture :: go_time where
  "farFuture = 3651694 * 86400 * Second"

definition Chat_Save :: "Message \<Rightarrow> unit tx" where
  "Chat_Save m = (let (low, high) = Conversation (SenderID m) (RecipientID m) in
     sql_InsertDirectMessage (Message_ID m) low high (SenderID m) (Body m) (toTimestamptz (SentAt m)))"

definition Chat_SaveChannelMessage :: "ChannelMessage \<Rightarrow> unit tx" where
  "Chat_SaveChannelMessage m = sql_InsertChannelMessage (ChannelMessage_ID m) (ChannelID m) (Channel_SenderID m)
     (Channel_Body m) (toTimestamptz (Channel_SentAt m))"

definition channelMessageFromRow :: "channel_message_row \<Rightarrow> ChannelMessage" where
  "channelMessageFromRow r = \<lparr>ChannelMessage_ID = cm_id r, ChannelID = cm_channel_id r, Channel_SenderID = cm_sender_id r,
     Channel_Body = cm_body r, Channel_SentAt = cm_created_at r\<rparr>"

definition Chat_ListChannel :: "uuid \<Rightarrow> go_time \<Rightarrow> int \<Rightarrow> ChannelMessage list tx" where
  "Chat_ListChannel channelID before limit =
     (let before' = (if time_IsZero before then farFuture else before) in
      tx_bind (sql_ListChannelMessages channelID (toTimestamptz before') (int32_of limit))
        (\<lambda>rows. tx_return (map channelMessageFromRow rows)))"

definition messageFromRow :: "direct_message_row \<Rightarrow> Message" where
  "messageFromRow r = \<lparr>Message_ID = dm_id r, SenderID = dm_sender_id r,
     RecipientID = (if dm_sender_id r = dm_player_high r then dm_player_low r else dm_player_high r),
     Body = dm_body r, SentAt = dm_created_at r\<rparr>"

definition Chat_ListConversation :: "uuid \<Rightarrow> uuid \<Rightarrow> go_time \<Rightarrow> int \<Rightarrow> Message list tx" where
  "Chat_ListConversation a b before limit =
     (let before' = (if time_IsZero before then farFuture else before); (low, high) = Conversation a b in
      tx_bind (sql_ListConversation low high (toTimestamptz before') (int32_of limit))
        (\<lambda>rows. tx_return (map messageFromRow rows)))"

section \<open>The in-process fan-out\<close>

text \<open>
  Channels live in a heap of buffers and are named by their position. A send on a closed channel
  and a second close panic, which \<open>cs_panicked\<close> records.
\<close>

record chat_chan =
  cc_buf :: "ChannelMessage list"
  cc_closed :: bool

record ChatStream =
  cs_subscribers :: "uuid \<rightharpoonup> nat list"
  cs_chans :: "chat_chan list"
  cs_panicked :: bool

definition NewChatStream :: ChatStream where
  "NewChatStream = \<lparr>cs_subscribers = Map.empty, cs_chans = [], cs_panicked = False\<rparr>"

definition cs_cap :: nat where "cs_cap = 16"

definition subs_of :: "ChatStream \<Rightarrow> uuid \<Rightarrow> nat list" where
  "subs_of b ch = (case cs_subscribers b ch of None \<Rightarrow> [] | Some xs \<Rightarrow> xs)"

definition cs_send :: "ChannelMessage \<Rightarrow> nat \<Rightarrow> ChatStream \<Rightarrow> ChatStream" where
  "cs_send m a b = (let c = cs_chans b ! a in
     if cc_closed c then b\<lparr>cs_panicked := True\<rparr>
     else if length (cc_buf c) < cs_cap
     then b\<lparr>cs_chans := (cs_chans b)[a := c\<lparr>cc_buf := cc_buf c @ [m]\<rparr>]\<rparr>
     else b)"

definition ChatStream_Publish :: "ChannelMessage \<Rightarrow> ChatStream \<Rightarrow> unit result \<times> ChatStream" where
  "ChatStream_Publish m b = (Inr (), fold (cs_send m) (subs_of b (ChannelID m)) b)"

definition ChatStream_Subscribe :: "uuid \<Rightarrow> ChatStream \<Rightarrow> nat result \<times> ChatStream" where
  "ChatStream_Subscribe ch b = (let a = length (cs_chans b) in
     (Inr a, b\<lparr>cs_chans := cs_chans b @ [\<lparr>cc_buf = [], cc_closed = False\<rparr>],
               cs_subscribers := (cs_subscribers b)(ch \<mapsto> subs_of b ch @ [a])\<rparr>))"

definition cs_close :: "nat \<Rightarrow> ChatStream \<Rightarrow> ChatStream" where
  "cs_close a b = (let c = cs_chans b ! a in
     if cc_closed c then b\<lparr>cs_panicked := True\<rparr>
     else b\<lparr>cs_chans := (cs_chans b)[a := c\<lparr>cc_closed := True\<rparr>]\<rparr>)"

definition ChatStream_detach :: "uuid \<Rightarrow> nat \<Rightarrow> ChatStream \<Rightarrow> ChatStream" where
  "ChatStream_detach ch a b =
     (let b1 = (if a \<in> set (subs_of b ch)
                then cs_close a (b\<lparr>cs_subscribers := (cs_subscribers b)(ch \<mapsto> remove1 a (subs_of b ch))\<rparr>)
                else b)
      in if subs_of b1 ch = [] then b1\<lparr>cs_subscribers := (cs_subscribers b1)(ch := None)\<rparr> else b1)"

text \<open>The reader of a subscription takes the oldest buffered message.\<close>

definition cs_receive :: "nat \<Rightarrow> ChatStream \<Rightarrow> ChannelMessage option \<times> ChatStream" where
  "cs_receive a b = (case cc_buf (cs_chans b ! a) of
     [] \<Rightarrow> (None, b)
   | m # ms \<Rightarrow> (Some m, b\<lparr>cs_chans := (cs_chans b)[a := (cs_chans b ! a)\<lparr>cc_buf := ms\<rparr>]\<rparr>))"

section \<open>Usecase\<close>

record 'b Broker =
  broker_Publish :: "ChannelMessage \<Rightarrow> 'b \<Rightarrow> unit result \<times> 'b"
  broker_Subscribe :: "uuid \<Rightarrow> 'b \<Rightarrow> nat result \<times> 'b"

definition ChatStream_broker :: "ChatStream Broker" where
  "ChatStream_broker = \<lparr>broker_Publish = ChatStream_Publish, broker_Subscribe = ChatStream_Subscribe\<rparr>"

record 'b ChatUsecase =
  cu_members :: "uuid \<Rightarrow> uuid \<Rightarrow> bool tx"
  cu_broker :: "'b Broker"
  cu_DefaultLimit :: int
  cu_MaxLimit :: int

definition clampLimit :: "'b ChatUsecase \<Rightarrow> int \<Rightarrow> int" where
  "clampLimit u limit =
     (if limit \<le> 0 then cu_DefaultLimit u
      else if limit > cu_MaxLimit u then cu_MaxLimit u
      else limit)"

definition SendDirectMessage :: "uuid \<Rightarrow> uuid \<Rightarrow> uuid \<Rightarrow> string \<Rightarrow> go_time \<Rightarrow> Message tx" where
  "SendDirectMessage uid sender recipient body now =
     (case NewMessage uid sender recipient body now of
        Inl err \<Rightarrow> tx_fail err
      | Inr msg \<Rightarrow> tx_bind (RW (Chat_Save msg)) (\<lambda>_. tx_return msg))"

definition ListDirectMessages :: "'b ChatUsecase \<Rightarrow> uuid \<Rightarrow> uuid \<Rightarrow> go_time \<Rightarrow> int \<Rightarrow> Message list tx" where
  "ListDirectMessages u me other before limit = RO (Chat_ListConversation me other before (clampLimit u limit))"

definition post_work :: "'b ChatUsecase \<Rightarrow> uuid \<Rightarrow> ChannelMessage \<Rightarrow> unit tx" where
  "post_work u sender msg =
     tx_bind (cu_members u (ChannelID msg) sender) (\<lambda>member.
     if \<not> member then tx_fail (ChatE ErrNotChannelMember) else Chat_SaveChannelMessage msg)"

definition SendChannelMessage ::
    "'b ChatUsecase \<Rightarrow> uuid \<Rightarrow> uuid \<Rightarrow> uuid \<Rightarrow> string \<Rightarrow> go_time \<Rightarrow> db \<times> 'b \<Rightarrow> ChannelMessage result \<times> db \<times> 'b" where
  "SendChannelMessage u uid sender channelID body now w =
     (case NewChannelMessage uid channelID sender body now of
        Inl err \<Rightarrow> (Inl err, w)
      | Inr msg \<Rightarrow> (case RW (post_work u sender msg) (fst w) of
          (Inl err, s') \<Rightarrow> (Inl err, s', snd w)
        | (Inr _, s') \<Rightarrow> (Inr msg, s', snd (broker_Publish (cu_broker u) msg (snd w)))))"

definition SubscribeChannel :: "'b ChatUsecase \<Rightarrow> uuid \<Rightarrow> uuid \<Rightarrow> db \<times> 'b \<Rightarrow> nat result \<times> db \<times> 'b" where
  "SubscribeChannel u me channelID w =
     (case RO (cu_members u channelID me) (fst w) of
        (Inl err, s') \<Rightarrow> (Inl err, s', snd w)
      | (Inr member, s') \<Rightarrow>
          if \<not> member then (Inl (ChatE ErrNotChannelMember), s', snd w)
          else (case broker_Subscribe (cu_broker u) channelID (snd w) of (r, b') \<Rightarrow> (r, s', b')))"

definition list_channel_work :: "'b ChatUsecase \<Rightarrow> uuid \<Rightarrow> uuid \<Rightarrow> go_time \<Rightarrow> int \<Rightarrow> ChannelMessage list tx" where
  "list_channel_work u me channelID before limit =
     tx_bind (cu_members u channelID me) (\<lambda>member.
     if \<not> member then tx_fail (ChatE ErrNotChannelMember) else Chat_ListChannel channelID before limit)"

definition ListChannelMessages :: "'b ChatUsecase \<Rightarrow> uuid \<Rightarrow> uuid \<Rightarrow> go_time \<Rightarrow> int \<Rightarrow> ChannelMessage list tx" where
  "ListChannelMessages u me channelID before limit =
     RO (list_channel_work u me channelID before (clampLimit u limit))"

section \<open>Handlers\<close>

record MessagePb =
  MessagePb_Id :: string
  MessagePb_SenderId :: string
  MessagePb_RecipientId :: string
  MessagePb_Body :: string
  MessagePb_SentAt :: go_time

record ChannelMessagePb =
  ChannelMessagePb_Id :: string
  ChannelMessagePb_ChannelId :: string
  ChannelMessagePb_SenderId :: string
  ChannelMessagePb_Body :: string
  ChannelMessagePb_SentAt :: go_time

definition toMessagePb :: "(uuid \<Rightarrow> string) \<Rightarrow> Message \<Rightarrow> MessagePb" where
  "toMessagePb str m = \<lparr>MessagePb_Id = str (Message_ID m), MessagePb_SenderId = str (SenderID m),
     MessagePb_RecipientId = str (RecipientID m), MessagePb_Body = Body m, MessagePb_SentAt = SentAt m\<rparr>"

definition toChannelMessagePb :: "(uuid \<Rightarrow> string) \<Rightarrow> ChannelMessage \<Rightarrow> ChannelMessagePb" where
  "toChannelMessagePb str m = \<lparr>ChannelMessagePb_Id = str (ChannelMessage_ID m),
     ChannelMessagePb_ChannelId = str (ChannelID m), ChannelMessagePb_SenderId = str (Channel_SenderID m),
     ChannelMessagePb_Body = Channel_Body m, ChannelMessagePb_SentAt = Channel_SentAt m\<rparr>"

definition chat_toConnectError :: "go_error \<Rightarrow> connect_error" where
  "chat_toConnectError err =
     (if errors_Is err (ChatE ErrSelfMessage) \<or> errors_Is err (ChatE ErrInvalidBody) then (CodeInvalidArgument, err)
      else if errors_Is err (ChatE ErrNotChannelMember) then (CodeFailedPrecondition, err)
      else (CodeInternal, err))"

definition parseChannelID :: "(string \<Rightarrow> uuid option) \<Rightarrow> string \<Rightarrow> uuid response" where
  "parseChannelID parse raw = (case parsePlayerID parse raw of
     Inl _ \<Rightarrow> Inl (CodeInvalidArgument, ErrorString ''invalid channel id'') | Inr uid \<Rightarrow> Inr uid)"

definition before_of :: "go_time option \<Rightarrow> go_time" where
  "before_of before = (case before of None \<Rightarrow> 0 | Some t \<Rightarrow> t)"

definition Handler_SendDirectMessage ::
    "(string \<Rightarrow> uuid option) \<Rightarrow> (uuid \<Rightarrow> string) \<Rightarrow> uuid \<Rightarrow> ctx \<Rightarrow> string \<Rightarrow> string \<Rightarrow> go_time \<Rightarrow> db \<Rightarrow> MessagePb response \<times> db" where
  "Handler_SendDirectMessage parse str uid c rawRecipient body now s =
     or_return (requireAuth c) s (\<lambda>sender.
     or_return (parsePlayerID parse rawRecipient) s (\<lambda>recipient.
     respond chat_toConnectError (toMessagePb str) (SendDirectMessage uid sender recipient body now s)))"

definition Handler_ListDirectMessages ::
    "(string \<Rightarrow> uuid option) \<Rightarrow> (uuid \<Rightarrow> string) \<Rightarrow> 'b ChatUsecase \<Rightarrow> ctx \<Rightarrow> string \<Rightarrow> go_time option \<Rightarrow> int \<Rightarrow> db \<Rightarrow>
     MessagePb list response \<times> db" where
  "Handler_ListDirectMessages parse str u c rawOther before limit s =
     or_return (requireAuth c) s (\<lambda>me.
     or_return (parsePlayerID parse rawOther) s (\<lambda>other.
     respond chat_toConnectError (map (toMessagePb str)) (ListDirectMessages u me other (before_of before) limit s)))"

definition Handler_SendChannelMessage ::
    "(string \<Rightarrow> uuid option) \<Rightarrow> (uuid \<Rightarrow> string) \<Rightarrow> 'b ChatUsecase \<Rightarrow> uuid \<Rightarrow> ctx \<Rightarrow> string \<Rightarrow> string \<Rightarrow> go_time \<Rightarrow> db \<times> 'b \<Rightarrow>
     ChannelMessagePb response \<times> db \<times> 'b" where
  "Handler_SendChannelMessage parse str u uid c rawChannel body now w =
     or_return (requireAuth c) w (\<lambda>sender.
     or_return (parseChannelID parse rawChannel) w (\<lambda>channelID.
     respond chat_toConnectError (toChannelMessagePb str) (SendChannelMessage u uid sender channelID body now w)))"

definition Handler_ListChannelMessages ::
    "(string \<Rightarrow> uuid option) \<Rightarrow> (uuid \<Rightarrow> string) \<Rightarrow> 'b ChatUsecase \<Rightarrow> ctx \<Rightarrow> string \<Rightarrow> go_time option \<Rightarrow> int \<Rightarrow> db \<Rightarrow>
     ChannelMessagePb list response \<times> db" where
  "Handler_ListChannelMessages parse str u c rawChannel before limit s =
     or_return (requireAuth c) s (\<lambda>me.
     or_return (parseChannelID parse rawChannel) s (\<lambda>channelID.
     respond chat_toConnectError (map (toChannelMessagePb str))
       (ListChannelMessages u me channelID (before_of before) limit s)))"

text \<open>
  The streaming handler: after the subscription it sends each message it receives until a send
  fails or the channel is closed; \<open>received\<close> is what the channel yields and \<open>send\<close> the stream's
  \<open>Send\<close>.
\<close>

fun stream_messages :: "(ChannelMessagePb \<Rightarrow> go_error option) \<Rightarrow> (uuid \<Rightarrow> string) \<Rightarrow> ChannelMessage list \<Rightarrow> go_error option" where
  "stream_messages send str [] = None"
| "stream_messages send str (m # received) =
     (case send (toChannelMessagePb str m) of Some err \<Rightarrow> Some err | None \<Rightarrow> stream_messages send str received)"

definition Handler_SubscribeChannel ::
    "(string \<Rightarrow> uuid option) \<Rightarrow> 'b ChatUsecase \<Rightarrow> ctx \<Rightarrow> string \<Rightarrow> db \<times> 'b \<Rightarrow> nat response \<times> db \<times> 'b" where
  "Handler_SubscribeChannel parse u c rawChannel w =
     or_return (requireAuth c) w (\<lambda>me.
     or_return (parseChannelID parse rawChannel) w (\<lambda>channelID.
     respond chat_toConnectError (\<lambda>a. a) (SubscribeChannel u me channelID w)))"

section \<open>Paging through a history\<close>

lemma Conversation_from_OrderPair: "Conversation_from i a b = OrderPair_from i a b"
  by (induction i a b rule: Conversation_from.induct)
    (subst Conversation_from.simps, subst OrderPair_from.simps, simp)

lemma Conversation_eq: "Conversation a b = (min a b, max a b)"
  using OrderPair_eq [of a b] by (simp add: Conversation_def OrderPair_def Conversation_from_OrderPair)

lemma distinct_keys_pairwise: "distinct (map f xs) \<Longrightarrow> sorted_wrt (\<lambda>x y. f x \<noteq> f y) xs"
  by (induction xs) (auto simp: image_iff)

lemma sorted_wrt_both: "sorted_wrt P xs \<Longrightarrow> sorted_wrt Q xs \<Longrightarrow> sorted_wrt (\<lambda>x y. P x y \<and> Q x y) xs"
  by (induction xs) auto

lemma strictly_newest_first:
  fixes created :: "'r \<Rightarrow> go_time"
  assumes "distinct (map created rows)"
  shows "sorted_wrt (\<lambda>x y. created y < created x) (newest_first created rows)"
proof -
  have "sorted_wrt (\<lambda>x y. created x \<noteq> created y) (newest_first created rows)"
    by (rule distinct_keys_pairwise) (use assms in simp)
  from sorted_wrt_both [OF newest_first_sorted this] show ?thesis
    by (rule sorted_wrt_mono_rel [rotated]) auto
qed

lemma strictly_sorted_unique:
  fixes created :: "'r \<Rightarrow> go_time"
  assumes "sorted_wrt (\<lambda>x y. created y < created x) xs" "sorted_wrt (\<lambda>x y. created y < created x) ys" "set xs = set ys"
  shows "xs = ys"
proof -
  have "distinct zs" if "sorted_wrt (\<lambda>x y. created y < created x) zs" for zs
    using that by (induction zs) auto
  then have "mset xs = mset ys" using assms by (simp add: set_eq_iff_mset_eq_distinct)
  then show ?thesis by (rule sorted_wrt_unique [OF assms(1,2)]) simp
qed

lemma next_page:
  fixes created :: "'r \<Rightarrow> go_time"
  assumes "distinct (map created rows)" "xs @ ys = newest_first created (filter (\<lambda>r. created r < b) rows)" "xs \<noteq> []"
  shows "newest_first created (filter (\<lambda>r. created r < created (last xs)) rows) = ys"
proof -
  let ?c = "created (last xs)"
  have d: "distinct (map created (filter P rows))" for P using assms(1) by (rule distinct_map_filterI)
  have sorted: "sorted_wrt (\<lambda>x y. created y < created x) (xs @ ys)" unfolding assms(2) by (rule strictly_newest_first [OF d])
  have split: "xs = butlast xs @ [last xs]" using assms(3) by simp
  have lo: "created y < ?c" if "y \<in> set ys" for y
    using sorted that assms(3) by (auto simp: sorted_wrt_append)
  have hi: "\<not> created x < ?c" if "x \<in> set xs" for x
  proof -
    have "sorted_wrt (\<lambda>x y. created y < created x) (butlast xs @ [last xs])" using sorted split by (simp add: sorted_wrt_append)
    moreover have "x \<in> set (butlast xs @ [last xs])" using that split by simp
    ultimately show ?thesis by (auto simp: sorted_wrt_append)
  qed
  have set: "set (xs @ ys) = {r \<in> set rows. created r < b}" unfolding assms(2) by auto
  have cb: "?c < b" using set last_in_set [OF assms(3)] by auto
  have "{r \<in> set rows. created r < ?c} = set ys"
  proof (intro set_eqI iffI)
    fix r assume "r \<in> {r \<in> set rows. created r < ?c}"
    then have "r \<in> set (xs @ ys)" "r \<notin> set xs" using set cb hi by auto
    then show "r \<in> set ys" by simp
  next
    fix r assume "r \<in> set ys"
    then show "r \<in> {r \<in> set rows. created r < ?c}" using set lo by auto
  qed
  then show ?thesis
    by (intro strictly_sorted_unique [of created] strictly_newest_first d) (use sorted in \<open>auto simp: sorted_wrt_append\<close>)
qed

text \<open>
  How a client reads a whole history: page after page, each time passing the instant of the oldest
  message seen, until a page is empty.
\<close>

fun read_history :: "nat \<Rightarrow> (go_time \<Rightarrow> 'm list result) \<Rightarrow> ('m \<Rightarrow> go_time) \<Rightarrow> go_time \<Rightarrow> 'm list result" where
  "read_history 0 fetch at before = Inl (ErrorString ''out of fuel'')"
| "read_history (Suc n) fetch at before = (case fetch before of
     Inl e \<Rightarrow> Inl e
   | Inr ms \<Rightarrow> if ms = [] then Inr []
       else (case read_history n fetch at (at (last ms)) of Inl e \<Rightarrow> Inl e | Inr rest \<Rightarrow> Inr (ms @ rest)))"

definition cursor :: "go_time \<Rightarrow> go_time" where
  "cursor before = toTimestamptz (if time_IsZero before then farFuture else before)"

text \<open>Distinct instants that a \<open>TIMESTAMPTZ\<close> column holds, before the year 9999.\<close>

definition pageable :: "('r \<Rightarrow> go_time) \<Rightarrow> 'r list \<Rightarrow> bool" where
  "pageable created rows \<longleftrightarrow> distinct (map created rows) \<and>
     list_all (\<lambda>r. 0 < created r \<and> created r < farFuture \<and> toTimestamptz (created r) = created r) rows"

lemma pageable_cursor: "pageable created rows \<Longrightarrow> r \<in> set rows \<Longrightarrow> cursor (created r) = created r"
  by (auto simp: pageable_def cursor_def time_IsZero_def list_all_iff)

lemma read_history_pages:
  assumes fetch: "\<And>before. fetch before = Inr (map g (history created (cursor before) k rows))"
    and at: "\<And>r. at (g r) = created r" and rows: "pageable created rows" and k: "0 < k"
    and fuel: "length (filter (\<lambda>r. created r < cursor before) rows) < n"
  shows "read_history n fetch at before = Inr (map g (newest_first created (filter (\<lambda>r. created r < cursor before) rows)))"
  using fuel
proof (induction n arbitrary: before)
  case (Suc n)
  let ?all = "newest_first created (filter (\<lambda>r. created r < cursor before) rows)"
  let ?page = "take k ?all"
  have page: "fetch before = Inr (map g ?page)" by (simp add: fetch history_def)
  show ?case
  proof (cases "?page = []")
    case True
    then have "?all = []" using k by simp
    then show ?thesis using page by simp
  next
    case False
    let ?last = "last ?page"
    have mem: "?last \<in> set ?all" using last_in_set [OF False] by (meson in_set_takeD)
    then have row: "?last \<in> set rows" by simp
    have cur: "cursor (at (last (map g ?page))) = created ?last"
      using False pageable_cursor [OF rows row] by (simp add: last_map at)
    have rest: "newest_first created (filter (\<lambda>r. created r < created ?last) rows) = drop k ?all"
      by (rule next_page [where xs = ?page and b = "cursor before"]) (use rows False in \<open>simp_all add: pageable_def\<close>)
    have len: "length (newest_first created xs) = length xs" for xs by (simp add: newest_first_def)
    have "length (filter (\<lambda>r. created r < created ?last) rows) = length (drop k ?all)"
      using arg_cong [OF rest, of length] by (simp add: len)
    also have "\<dots> < n" using Suc.prems False k len [of "filter (\<lambda>r. created r < cursor before) rows"] by (cases ?all) auto
    finally have "read_history n fetch at (at (last (map g ?page))) = Inr (map g (drop k ?all))"
      using Suc.IH [of "at (last (map g ?page))"] unfolding cur rest by simp
    then show ?thesis using page False by (simp flip: map_append)
  qed
qed simp

lemma ListDirectMessages_outcome:
  assumes "quiet s" "0 \<le> clampLimit u limit" "clampLimit u limit < 2 ^ 31"
  shows "outcome (ListDirectMessages u me other before limit) s =
    (Inr (map messageFromRow (history dm_created_at (cursor before) (nat (clampLimit u limit))
       (filter (in_conversation (min me other) (max me other)) (direct_messages (db_tables s))))), db_tables s)"
  unfolding ListDirectMessages_def
proof (rule RO_outcome [OF assms(1)])
  note live = live_begin_tx [OF assms(1), of True]
  show "Chat_ListConversation me other before (clampLimit u limit) (begin_tx True s) =
     (Inr (map messageFromRow (history dm_created_at (cursor before) (nat (clampLimit u limit))
       (filter (in_conversation (min me other) (max me other)) (direct_messages (db_tables s))))), begin_tx True s)"
    using assms(2,3) live
    by (simp add: Chat_ListConversation_def Conversation_eq sql_ListConversation_def tx_eval stmt_eval int32_of_small cursor_def)
qed

section \<open>The fan-out delivers in order\<close>

definition open_chan :: "chat_chan list \<Rightarrow> nat \<Rightarrow> bool" where
  "open_chan cs a \<longleftrightarrow> a < length cs \<and> \<not> cc_closed (cs ! a)"

definition subs_ok :: "(uuid \<Rightarrow> nat list) \<Rightarrow> (nat \<Rightarrow> bool) \<Rightarrow> bool" where
  "subs_ok subs ok \<longleftrightarrow> (\<forall>ch. distinct (subs ch)) \<and> (\<forall>ch. \<forall>a \<in> set (subs ch). ok a) \<and>
     (\<forall>ch ch'. ch \<noteq> ch' \<longrightarrow> set (subs ch) \<inter> set (subs ch') = {})"

definition cs_inv :: "ChatStream \<Rightarrow> bool" where
  "cs_inv b \<longleftrightarrow> \<not> cs_panicked b \<and> subs_ok (subs_of b) (open_chan (cs_chans b))"

lemma subs_ok_mono: "subs_ok subs ok \<Longrightarrow> (\<And>a. ok a \<Longrightarrow> ok' a) \<Longrightarrow> subs_ok subs ok'"
  by (auto simp: subs_ok_def)

lemma subs_ok_add: "subs_ok subs ok \<Longrightarrow> \<not> ok a \<Longrightarrow> subs_ok (subs(ch := subs ch @ [a])) (\<lambda>x. ok x \<or> x = a)"
  by (fastforce simp: subs_ok_def)

lemma subs_ok_remove: "subs_ok subs ok \<Longrightarrow> subs_ok (subs(ch := remove1 a (subs ch))) (\<lambda>x. ok x \<and> (a \<in> set (subs ch) \<longrightarrow> x \<noteq> a))"
  unfolding subs_ok_def by (auto simp: set_remove1_eq) blast+

lemma subs_of_eqs:
  "subs_of (b\<lparr>cs_chans := cs\<rparr>) = subs_of b" "subs_of (b\<lparr>cs_panicked := p\<rparr>) = subs_of b"
  "subs_of (b\<lparr>cs_subscribers := (cs_subscribers b)(ch \<mapsto> xs)\<rparr>) = (subs_of b)(ch := xs)"
  "subs_of (b\<lparr>cs_subscribers := (cs_subscribers b)(ch := None)\<rparr>) = (subs_of b)(ch := [])"
  by (auto simp: subs_of_def fun_eq_iff)

definition cc_offer :: "ChannelMessage \<Rightarrow> chat_chan \<Rightarrow> chat_chan" where
  "cc_offer m c = (if length (cc_buf c) < cs_cap then c\<lparr>cc_buf := cc_buf c @ [m]\<rparr> else c)"

lemma fold_cs_send:
  assumes "distinct as" "\<forall>a \<in> set as. a < length (cs_chans b) \<and> \<not> cc_closed (cs_chans b ! a)"
  shows "fold (cs_send m) as b = b\<lparr>cs_chans := map (\<lambda>i. if i \<in> set as then cc_offer m (cs_chans b ! i) else cs_chans b ! i)
    [0..<length (cs_chans b)]\<rparr>"
  using assms
proof (induction as arbitrary: b)
  case Nil
  then show ?case by (simp add: map_nth)
next
  case (Cons a as)
  have one: "cs_send m a b = b\<lparr>cs_chans := (cs_chans b)[a := cc_offer m (cs_chans b ! a)]\<rparr>"
    using Cons.prems by (simp add: cs_send_def cc_offer_def Let_def)
  let ?b = "b\<lparr>cs_chans := (cs_chans b)[a := cc_offer m (cs_chans b ! a)]\<rparr>"
  have "fold (cs_send m) as ?b = ?b\<lparr>cs_chans := map (\<lambda>i. if i \<in> set as then cc_offer m (cs_chans ?b ! i) else cs_chans ?b ! i)
    [0..<length (cs_chans ?b)]\<rparr>"
    by (rule Cons.IH) (use Cons.prems in \<open>auto simp: nth_list_update\<close>)
  also have "\<dots> = b\<lparr>cs_chans := map (\<lambda>i. if i \<in> set (a # as) then cc_offer m (cs_chans b ! i) else cs_chans b ! i)
    [0..<length (cs_chans b)]\<rparr>"
    using Cons.prems by (auto simp: nth_list_update)
  finally show ?case using one by simp
qed

lemma Publish_chans:
  assumes "cs_inv b"
  shows "snd (ChatStream_Publish m b) = b\<lparr>cs_chans := map (\<lambda>i. if i \<in> set (subs_of b (ChannelID m)) then cc_offer m (cs_chans b ! i)
     else cs_chans b ! i) [0..<length (cs_chans b)]\<rparr>"
  using assms by (simp add: ChatStream_Publish_def fold_cs_send cs_inv_def subs_ok_def open_chan_def)

lemma Publish_inv:
  assumes "cs_inv b"
  shows "cs_inv (snd (ChatStream_Publish m b))"
proof -
  have "subs_ok (subs_of b) (open_chan (cs_chans b))" using assms by (simp add: cs_inv_def)
  then show ?thesis
    unfolding Publish_chans [OF assms] cs_inv_def subs_of_eqs
    by (elim subs_ok_mono [THEN conjI [rotated]]) (use assms in \<open>simp_all add: cs_inv_def open_chan_def cc_offer_def\<close>)
qed

lemma Subscribe_subs:
  "subs_of (snd (ChatStream_Subscribe ch b)) = (subs_of b)(ch := subs_of b ch @ [length (cs_chans b)])"
  by (auto simp: ChatStream_Subscribe_def Let_def subs_of_def fun_eq_iff)

lemma Subscribe_inv:
  assumes "cs_inv b"
  shows "cs_inv (snd (ChatStream_Subscribe ch b))"
proof -
  have "subs_ok ((subs_of b)(ch := subs_of b ch @ [length (cs_chans b)])) (\<lambda>x. open_chan (cs_chans b) x \<or> x = length (cs_chans b))"
    by (rule subs_ok_add) (use assms in \<open>simp add: cs_inv_def\<close>, simp add: open_chan_def)
  then have "subs_ok (subs_of (snd (ChatStream_Subscribe ch b))) (open_chan (cs_chans b @ [\<lparr>cc_buf = [], cc_closed = False\<rparr>]))"
    unfolding Subscribe_subs by (rule subs_ok_mono) (auto simp: open_chan_def nth_append)
  then show ?thesis using assms by (simp add: cs_inv_def ChatStream_Subscribe_def Let_def)
qed

lemma detach_eq:
  assumes "cs_inv b"
  shows "subs_of (ChatStream_detach ch a b) = (subs_of b)(ch := remove1 a (subs_of b ch))"
    and "cs_chans (ChatStream_detach ch a b) = (if a \<in> set (subs_of b ch)
       then (cs_chans b)[a := (cs_chans b ! a)\<lparr>cc_closed := True\<rparr>] else cs_chans b)"
    and "\<not> cs_panicked (ChatStream_detach ch a b)"
proof -
  have "\<not> cc_closed (cs_chans b ! a)" if "a \<in> set (subs_of b ch)"
    using assms that by (auto simp: cs_inv_def subs_ok_def open_chan_def)
  then have det: "ChatStream_detach ch a b =
     (let b1 = (if a \<in> set (subs_of b ch)
                then b\<lparr>cs_subscribers := (cs_subscribers b)(ch \<mapsto> remove1 a (subs_of b ch)), cs_chans := (cs_chans b)[a := (cs_chans b ! a)\<lparr>cc_closed := True\<rparr>]\<rparr>
                else b)
      in if subs_of b1 ch = [] then b1\<lparr>cs_subscribers := (cs_subscribers b1)(ch := None)\<rparr> else b1)"
    by (simp add: ChatStream_detach_def cs_close_def Let_def)
  show "subs_of (ChatStream_detach ch a b) = (subs_of b)(ch := remove1 a (subs_of b ch))"
    unfolding det by (auto simp: Let_def subs_of_eqs remove1_idem fun_upd_idem)
  show "cs_chans (ChatStream_detach ch a b) = (if a \<in> set (subs_of b ch)
       then (cs_chans b)[a := (cs_chans b ! a)\<lparr>cc_closed := True\<rparr>] else cs_chans b)"
    unfolding det by (simp add: Let_def)
  show "\<not> cs_panicked (ChatStream_detach ch a b)"
    using assms unfolding det by (simp add: Let_def cs_inv_def)
qed

lemma detach_inv:
  assumes "cs_inv b"
  shows "cs_inv (ChatStream_detach ch a b)"
proof -
  have "subs_ok ((subs_of b)(ch := remove1 a (subs_of b ch))) (\<lambda>x. open_chan (cs_chans b) x \<and> (a \<in> set (subs_of b ch) \<longrightarrow> x \<noteq> a))"
    by (rule subs_ok_remove) (use assms in \<open>simp add: cs_inv_def\<close>)
  then have "subs_ok ((subs_of b)(ch := remove1 a (subs_of b ch))) (open_chan (cs_chans (ChatStream_detach ch a b)))"
    by (rule subs_ok_mono) (auto simp: detach_eq [OF assms] open_chan_def nth_list_update)
  then show ?thesis by (simp add: cs_inv_def detach_eq [OF assms])
qed

lemma open_chan_take: "open_chan (cs[a := (cs ! a)\<lparr>cc_buf := ms\<rparr>]) = open_chan cs"
  unfolding open_chan_def fun_eq_iff by (metis (no_types, lifting) chat_chan.select_convs(2) chat_chan.surjective chat_chan.update_convs(1)
      length_list_update nth_list_update_eq nth_list_update_neq)

lemma receive_inv: "cs_inv b \<Longrightarrow> cs_inv (snd (cs_receive a b))"
  unfolding cs_inv_def by (simp add: cs_receive_def subs_of_eqs open_chan_take split: list.split)

text \<open>
  A run of the broker, with the history of every subscription kept apart from the broker's own table:
  the channel id its call of \<open>Subscribe\<close> was given, the Go channel the call returned, whether its context
  is still alive, what was published to that channel id meanwhile, and what its reader has taken. The goroutine of
  \<open>Subscribe\<close> detaches with the two values it captured.
\<close>

datatype stream_event = Pub ChannelMessage | Sub uuid | Cancel nat | Recv nat

record subscription =
  sb_channel :: uuid
  sb_handle :: nat
  sb_attached :: bool
  sb_posted :: "ChannelMessage list"
  sb_got :: "ChannelMessage list"

record stream_run =
  sr_stream :: ChatStream
  sr_subs :: "subscription list"

definition stream_start :: stream_run where
  "stream_start = \<lparr>sr_stream = NewChatStream, sr_subs = []\<rparr>"

definition post_to :: "ChannelMessage \<Rightarrow> subscription \<Rightarrow> subscription" where
  "post_to m s = (if sb_attached s \<and> sb_channel s = ChannelID m then s\<lparr>sb_posted := sb_posted s @ [m]\<rparr> else s)"

fun stream_step :: "stream_event \<Rightarrow> stream_run \<Rightarrow> stream_run" where
  "stream_step (Pub m) r =
     \<lparr>sr_stream = snd (ChatStream_Publish m (sr_stream r)), sr_subs = map (post_to m) (sr_subs r)\<rparr>"
| "stream_step (Sub channelID) r = (case ChatStream_Subscribe channelID (sr_stream r) of
     (Inl e, b) \<Rightarrow> r\<lparr>sr_stream := b\<rparr>
   | (Inr c, b) \<Rightarrow> \<lparr>sr_stream = b, sr_subs = sr_subs r @
       [\<lparr>sb_channel = channelID, sb_handle = c, sb_attached = True, sb_posted = [], sb_got = []\<rparr>]\<rparr>)"
| "stream_step (Cancel i) r = (if i < length (sr_subs r)
     then (let s = sr_subs r ! i in
       \<lparr>sr_stream = ChatStream_detach (sb_channel s) (sb_handle s) (sr_stream r), sr_subs = (sr_subs r)[i := s\<lparr>sb_attached := False\<rparr>]\<rparr>)
     else r)"
| "stream_step (Recv i) r = (if i < length (sr_subs r)
     then (let s = sr_subs r ! i in case cs_receive (sb_handle s) (sr_stream r) of
         (None, b) \<Rightarrow> r\<lparr>sr_stream := b\<rparr>
       | (Some m, b) \<Rightarrow> \<lparr>sr_stream = b, sr_subs = (sr_subs r)[i := s\<lparr>sb_got := sb_got s @ [m]\<rparr>]\<rparr>)
     else r)"

definition lane_ok :: "ChannelMessage list \<Rightarrow> ChannelMessage list \<Rightarrow> chat_chan \<Rightarrow> bool" where
  "lane_ok got posted c \<longleftrightarrow> subseq (got @ cc_buf c) posted \<and> length (cc_buf c) \<le> cs_cap \<and>
     prefix (take cs_cap posted) (got @ cc_buf c)"

lemma lane_ok_offer:
  assumes "lane_ok g p c"
  shows "lane_ok g (p @ [m]) (cc_offer m c)"
proof (cases "length (cc_buf c) < cs_cap")
  case True
  have sub: "subseq ((g @ cc_buf c) @ [m]) (p @ [m])"
    using assms by (intro list_emb_append_mono) (auto simp: lane_ok_def)
  have "prefix (take cs_cap (p @ [m])) ((g @ cc_buf c) @ [m])"
  proof (cases "cs_cap \<le> length p")
    case True
    have "prefix (take cs_cap p) ((g @ cc_buf c) @ [m])"
      by (rule prefix_prefix) (use assms in \<open>simp add: lane_ok_def\<close>)
    then show ?thesis using True by simp
  next
    case False
    then have "prefix p (g @ cc_buf c)" "subseq (g @ cc_buf c) p" using assms by (simp_all add: lane_ok_def)
    then have "p = g @ cc_buf c" by (meson prefix_imp_subseq subseq_order.antisym)
    then show ?thesis by (simp only: take_is_prefix)
  qed
  then show ?thesis using assms True sub by (auto simp: lane_ok_def cc_offer_def)
next
  case False
  have "length p \<ge> cs_cap"
  proof -
    have "length (cc_buf c) \<le> length (g @ cc_buf c)" by simp
    also have "\<dots> \<le> length p" using assms not_subseq_length not_less unfolding lane_ok_def by blast
    finally show ?thesis using False by simp
  qed
  then show ?thesis using assms False by (auto simp: lane_ok_def cc_offer_def)
qed

text \<open>Subscription \<open>i\<close> holds Go channel \<open>i\<close>, registered under its channel id, and nowhere else, while attached.\<close>

definition sub_ok :: "ChatStream \<Rightarrow> nat \<Rightarrow> subscription \<Rightarrow> bool" where
  "sub_ok b i s \<longleftrightarrow> sb_handle s = i \<and> (\<forall>ch. i \<in> set (subs_of b ch) \<longleftrightarrow> sb_attached s \<and> sb_channel s = ch) \<and>
     lane_ok (sb_got s) (sb_posted s) (cs_chans b ! i) \<and> (\<forall>m \<in> set (sb_posted s). ChannelID m = sb_channel s)"

definition stream_inv :: "stream_run \<Rightarrow> bool" where
  "stream_inv r \<longleftrightarrow> cs_inv (sr_stream r) \<and> length (sr_subs r) = length (cs_chans (sr_stream r)) \<and>
     (\<forall>i < length (sr_subs r). sub_ok (sr_stream r) i (sr_subs r ! i))"

lemma stream_inv_pub:
  assumes "stream_inv r"
  shows "stream_inv (stream_step (Pub m) r)"
proof -
  let ?b = "sr_stream r"
  have inv: "cs_inv ?b" using assms by (simp add: stream_inv_def)
  have "sub_ok (snd (ChatStream_Publish m ?b)) i (post_to m (sr_subs r ! i))" if "i < length (sr_subs r)" for i
    using assms that lane_ok_offer [of "sb_got (sr_subs r ! i)" "sb_posted (sr_subs r ! i)" "cs_chans ?b ! i" m]
    by (auto simp: stream_inv_def sub_ok_def post_to_def Publish_chans [OF inv] subs_of_eqs)
  then show ?thesis
    using assms Publish_inv [OF inv, of m] by (simp add: stream_inv_def Publish_chans [OF inv])
qed

lemma stream_inv_sub:
  assumes "stream_inv r"
  shows "stream_inv (stream_step (Sub ch) r)"
proof -
  let ?b = "sr_stream r" and ?n = "length (cs_chans (sr_stream r))"
  have inv: "cs_inv ?b" and len: "length (sr_subs r) = ?n" using assms by (simp_all add: stream_inv_def)
  have call: "ChatStream_Subscribe ch ?b = (Inr ?n, snd (ChatStream_Subscribe ch ?b))"
    and chans: "cs_chans (snd (ChatStream_Subscribe ch ?b)) = cs_chans ?b @ [\<lparr>cc_buf = [], cc_closed = False\<rparr>]"
    by (simp_all add: ChatStream_Subscribe_def Let_def)
  have notin: "?n \<notin> set (subs_of ?b ch')" for ch'
    using inv by (auto simp: cs_inv_def subs_ok_def open_chan_def)
  have "sub_ok (snd (ChatStream_Subscribe ch ?b)) i (sr_subs r ! i)" if "i < ?n" for i
    using assms that by (auto simp: stream_inv_def sub_ok_def Subscribe_subs chans nth_append)
  moreover have "sub_ok (snd (ChatStream_Subscribe ch ?b)) ?n
      \<lparr>sb_channel = ch, sb_handle = ?n, sb_attached = True, sb_posted = [], sb_got = []\<rparr>"
    using notin by (simp add: sub_ok_def Subscribe_subs chans lane_ok_def)
  moreover have "stream_step (Sub ch) r = \<lparr>sr_stream = snd (ChatStream_Subscribe ch ?b), sr_subs = sr_subs r @
       [\<lparr>sb_channel = ch, sb_handle = ?n, sb_attached = True, sb_posted = [], sb_got = []\<rparr>]\<rparr>"
    by (subst stream_step.simps, subst call) simp
  ultimately show ?thesis
    using len Subscribe_inv [OF inv, of ch] by (simp add: stream_inv_def chans nth_append less_Suc_eq)
qed

lemma chan_close_buf: "cc_buf ((cs[a := (cs ! a)\<lparr>cc_closed := True\<rparr>]) ! i) = cc_buf (cs ! i)"
  by (cases "a < length cs"; cases "a = i") (simp_all add: list_update_beyond)

lemma stream_inv_cancel:
  assumes "stream_inv r"
  shows "stream_inv (stream_step (Cancel i) r)"
proof (cases "i < length (sr_subs r)")
  case True
  let ?b = "sr_stream r" and ?s = "sr_subs r ! i"
  let ?d = "ChatStream_detach (sb_channel ?s) i ?b"
  have inv: "cs_inv ?b" and ok: "\<And>j. j < length (sr_subs r) \<Longrightarrow> sub_ok ?b j (sr_subs r ! j)" using assms by (simp_all add: stream_inv_def)
  have h: "sb_handle ?s = i" using ok [OF True] by (simp add: sub_ok_def)
  have buf: "length (cs_chans ?d) = length (cs_chans ?b)" "cc_buf (cs_chans ?d ! j) = cc_buf (cs_chans ?b ! j)" for j
    by (auto simp: detach_eq(2) [OF inv] chan_close_buf)
  have subs: "j \<in> set (subs_of ?d ch) \<longleftrightarrow> j \<in> set (subs_of ?b ch) \<and> \<not> (ch = sb_channel ?s \<and> j = i)" for j ch
    using inv by (auto simp: detach_eq(1) [OF inv] set_remove1_eq cs_inv_def subs_ok_def)
  have "sub_ok ?d j ((sr_subs r)[i := ?s\<lparr>sb_attached := False\<rparr>] ! j)" if "j < length (sr_subs r)" for j
    using ok [OF that] ok [OF True] that by (cases "j = i") (auto simp: sub_ok_def subs buf lane_ok_def)
  then show ?thesis
    using assms True detach_inv [OF inv] by (simp add: stream_inv_def Let_def buf h)
qed (use assms in simp)

lemma stream_inv_recv:
  assumes "stream_inv r"
  shows "stream_inv (stream_step (Recv i) r)"
proof (cases "i < length (sr_subs r) \<and> cc_buf (cs_chans (sr_stream r) ! i) \<noteq> []")
  case True
  then obtain m ms where buf: "cc_buf (cs_chans (sr_stream r) ! i) = m # ms" by (cases "cc_buf (cs_chans (sr_stream r) ! i)") auto
  have h: "sb_handle (sr_subs r ! i) = i" using assms True by (simp add: stream_inv_def sub_ok_def)
  have "cs_inv (snd (cs_receive i (sr_stream r)))" using assms by (simp add: stream_inv_def receive_inv)
  then show ?thesis
    using assms True buf h
    by (auto simp: stream_inv_def sub_ok_def cs_receive_def subs_of_eqs nth_list_update lane_ok_def Let_def)
next
  case False
  then have "stream_step (Recv i) r = r"
    using assms by (auto simp: cs_receive_def stream_inv_def sub_ok_def Let_def)
  then show ?thesis using assms by simp
qed

lemma stream_inv_step: "stream_inv r \<Longrightarrow> stream_inv (stream_step e r)"
  by (cases e) (use stream_inv_pub stream_inv_sub stream_inv_cancel stream_inv_recv in blast)+

lemma stream_inv_start: "stream_inv stream_start"
  by (simp add: stream_inv_def stream_start_def NewChatStream_def cs_inv_def subs_ok_def subs_of_def)

lemma stream_inv_fold: "stream_inv (fold stream_step es stream_start)"
proof -
  have "stream_inv r \<Longrightarrow> stream_inv (fold stream_step es r)" for r
    by (induction es arbitrary: r) (simp_all add: stream_inv_step)
  then show ?thesis using stream_inv_start by blast
qed

text \<open>The recorded subscriptions are the calls of \<open>Subscribe\<close>, in order.\<close>

lemma sub_channels_upd: "sb_channel s = sb_channel (subs ! i) \<Longrightarrow> map sb_channel (subs[i := s]) = map sb_channel subs"
  by (metis list_update_id map_update)

lemma stream_step_channels:
  "map sb_channel (sr_subs (stream_step e r)) = map sb_channel (sr_subs r) @ (case e of Sub ch \<Rightarrow> [ch] | _ \<Rightarrow> [])"
proof (cases e)
  case (Pub m)
  then show ?thesis by (simp add: post_to_def)
next
  case (Sub ch)
  then show ?thesis by (simp add: ChatStream_Subscribe_def Let_def)
qed (auto simp: Let_def sub_channels_upd split: prod.split option.split)

lemma stream_channels:
  "map sb_channel (sr_subs (fold stream_step es stream_start)) = concat (map (\<lambda>e. case e of Sub ch \<Rightarrow> [ch] | _ \<Rightarrow> []) es)"
proof -
  have "map sb_channel (sr_subs (fold stream_step es r)) = map sb_channel (sr_subs r) @ concat (map (\<lambda>e. case e of Sub ch \<Rightarrow> [ch] | _ \<Rightarrow> []) es)" for r
    by (induction es arbitrary: r) (simp_all add: stream_step_channels)
  then show ?thesis by (simp add: stream_start_def)
qed


section \<open>The ports of the usecase\<close>

text \<open>
  \<open>Membership\<close>: the answer is whether the groups say so, and asking changes nothing.
\<close>

locale channel_members =
  fixes isMember :: "uuid \<Rightarrow> uuid \<Rightarrow> bool tx"
  assumes reads: "tx_triple (\<lambda>t. t = t0) (isMember ch p)
      (\<lambda>b t. t = t0 \<and> b = ((ch, p) \<in> cl_members (abs_clubs t0))) (\<lambda>e t. t = t0 \<and> infra e)"
    and live_read: "live ro s \<Longrightarrow> isMember ch p s = (Inr ((ch, p) \<in> cl_members (abs_clubs (db_tables s))), s)"

interpretation group_members: channel_members GroupMembership_IsMember
proof
  show "tx_triple (\<lambda>t. t = t0) (GroupMembership_IsMember ch p)
      (\<lambda>b t. t = t0 \<and> b = ((ch, p) \<in> cl_members (abs_clubs t0))) (\<lambda>e t. t = t0 \<and> infra e)" for t0 ch p
    unfolding GroupMembership_IsMember_def sql_GroupMemberExists_def by (rule triple_query) (auto simp: member_exists)
  show "live ro s \<Longrightarrow> GroupMembership_IsMember ch p s = (Inr ((ch, p) \<in> cl_members (abs_clubs (db_tables s))), s)" for ro s ch p
    by (simp add: GroupMembership_IsMember_def sql_GroupMemberExists_def tx_eval member_exists)
qed

text \<open>
  \<open>Broker\<close>: \<open>visible\<close> are the messages some subscriber may still be handed. Publishing adds at most
  the message published, and subscribing adds none.
\<close>

locale broker_contract =
  fixes B :: "'b Broker" and visible :: "'b \<Rightarrow> ChannelMessage set"
  assumes publish_visible: "visible (snd (broker_Publish B m b)) \<subseteq> insert m (visible b)"
    and subscribe_visible: "visible (snd (broker_Subscribe B ch b)) = visible b"

definition pending_messages :: "ChatStream \<Rightarrow> ChannelMessage set" where
  "pending_messages b = (\<Union>c \<in> set (cs_chans b). set (cc_buf c))"

lemma pending_update:
  "set (cc_buf c) \<subseteq> X \<Longrightarrow> pending_messages (b\<lparr>cs_chans := (cs_chans b)[a := c]\<rparr>) \<subseteq> pending_messages b \<union> X"
  using set_update_subset_insert [of "cs_chans b" a c] by (fastforce simp: pending_messages_def)

lemma pending_cs_send: "pending_messages (cs_send m a b) \<subseteq> insert m (pending_messages b)"
proof (cases "a < length (cs_chans b)")
  case True
  then have "set (cc_buf (cs_chans b ! a)) \<subseteq> pending_messages b"
    using nth_mem [OF True] by (auto simp: pending_messages_def intro!: bexI [of _ "cs_chans b ! a"])
  then have "pending_messages (b\<lparr>cs_chans := (cs_chans b)[a := (cs_chans b ! a)\<lparr>cc_buf := cc_buf (cs_chans b ! a) @ [m]\<rparr>]\<rparr>)
      \<subseteq> pending_messages b \<union> insert m (pending_messages b)"
    by (intro pending_update) auto
  then show ?thesis by (auto simp: cs_send_def Let_def pending_messages_def)
next
  case False
  then show ?thesis by (auto simp: cs_send_def Let_def pending_messages_def list_update_beyond)
qed

interpretation chat_stream: broker_contract ChatStream_broker pending_messages
proof
  have "pending_messages (fold (cs_send m) as b) \<subseteq> insert m (pending_messages b)" for m as b
    using pending_cs_send by (induction as arbitrary: b) fastforce+
  then show "pending_messages (snd (broker_Publish ChatStream_broker m b)) \<subseteq> insert m (pending_messages b)" for m b
    by (simp add: ChatStream_broker_def ChatStream_Publish_def)
  show "pending_messages (snd (broker_Subscribe ChatStream_broker ch b)) = pending_messages b" for ch b
    by (simp add: ChatStream_broker_def ChatStream_Subscribe_def Let_def pending_messages_def)
qed

lemma pending_detach: "pending_messages (ChatStream_detach ch a b) \<subseteq> pending_messages b"
proof -
  have "pending_messages (cs_close a b') \<subseteq> pending_messages b'" for b'
  proof (cases "a < length (cs_chans b')")
    case True
    then have "set (cc_buf (cs_chans b' ! a)) \<subseteq> pending_messages b'"
      using nth_mem [OF True] by (auto simp: pending_messages_def intro!: bexI [of _ "cs_chans b' ! a"])
    then show ?thesis
      using pending_update [of "(cs_chans b' ! a)\<lparr>cc_closed := True\<rparr>" "pending_messages b'" b' a]
      by (auto simp: cs_close_def Let_def pending_messages_def)
  qed (simp add: cs_close_def Let_def pending_messages_def list_update_beyond)
  from this [of "b\<lparr>cs_subscribers := (cs_subscribers b)(ch \<mapsto> remove1 a (subs_of b ch))\<rparr>"] show ?thesis
    by (auto simp: ChatStream_detach_def Let_def pending_messages_def)
qed

lemma pending_receive:
  assumes "a < length (cs_chans b)"
  shows "pending_messages (snd (cs_receive a b)) \<subseteq> pending_messages b"
proof (cases "cc_buf (cs_chans b ! a)")
  case (Cons m ms)
  then have "set ms \<subseteq> pending_messages b"
    using nth_mem [OF assms] by (force simp: pending_messages_def)
  then show ?thesis
    using pending_update [of "(cs_chans b ! a)\<lparr>cc_buf := ms\<rparr>" "pending_messages b" b a] Cons by (auto simp: cs_receive_def)
qed (simp add: cs_receive_def)

section \<open>Posting to a channel\<close>

definition stored :: "tables \<Rightarrow> ChannelMessage \<Rightarrow> bool" where
  "stored t m \<longleftrightarrow> m\<lparr>Channel_SentAt := toTimestamptz (Channel_SentAt m)\<rparr> \<in> channelMessageFromRow ` set (channel_messages t)"

definition by_member :: "tables \<Rightarrow> ChannelMessage \<Rightarrow> bool" where
  "by_member t m \<longleftrightarrow> (ChannelID m, Channel_SenderID m) \<in> cl_members (abs_clubs t)"

lemma SaveChannelMessage_triple:
  "tx_triple P (Chat_SaveChannelMessage m) (\<lambda>_ t. stored t m) (\<lambda>e _. infra e)"
  unfolding Chat_SaveChannelMessage_def sql_InsertChannelMessage_def
  by (rule triple_exec) (auto simp: stored_def channelMessageFromRow_def split: if_splits)

locale chat_service = channel_members "cu_members u" + broker_contract "cu_broker u" visible
  for u :: "'b ChatUsecase" and visible :: "'b \<Rightarrow> ChannelMessage set"
begin

lemma post_work_triple:
  assumes "Channel_SenderID m = sender"
  shows "tx_triple (\<lambda>t. t = t0) (post_work u sender m) (\<lambda>_ t. stored t m \<and> by_member t0 m)
    (\<lambda>e _. infra e \<or> e = ChatE ErrNotChannelMember \<and> \<not> by_member t0 m)"
  unfolding post_work_def
proof (rule triple_bind [where R = "\<lambda>member t. t = t0 \<and> member = by_member t0 m"], rule triple_tail [OF reads])
  fix member
  show "tx_triple (\<lambda>t. t = t0 \<and> member = by_member t0 m)
      (if \<not> member then tx_fail (ChatE ErrNotChannelMember) else Chat_SaveChannelMessage m)
      (\<lambda>_ t. stored t m \<and> by_member t0 m) (\<lambda>e _. infra e \<or> e = ChatE ErrNotChannelMember \<and> \<not> by_member t0 m)"
  proof (cases "member = by_member t0 m \<and> member")
    case True
    then show ?thesis by (auto intro!: triple_tail [OF SaveChannelMessage_triple])
  next
    case False
    then show ?thesis by (auto simp: tx_triple_def tx_fail_def)
  qed
qed (use assms in \<open>auto simp: by_member_def\<close>)

lemma SendChannelMessage_visible:
  assumes "SendChannelMessage u uid sender ch body now (s, b) = (r, s', b')"
  shows "visible b' \<subseteq> visible b \<union> {m. stored (db_tables s') m \<and> by_member (db_tables s) m}"
proof (cases "NewChannelMessage uid ch sender body now")
  case (Inl e)
  then show ?thesis using assms by (simp add: SendChannelMessage_def)
next
  case (Inr m)
  then have m: "Channel_SenderID m = sender" by (auto simp: NewChannelMessage_def split: if_splits)
  note post = session_rw.run_triple [OF post_work_triple [OF m, of "db_tables s"]]
  obtain x s1 where run: "RW (post_work u sender m) s = (x, s1)" by fastforce
  show ?thesis
  proof (cases x)
    case (Inr y)
    then have "stored (db_tables s1) m \<and> by_member (db_tables s) m"
      using tx_tripleD(1) [OF post, of s y s1] run by simp
    moreover have "s' = s1 \<and> b' = snd (broker_Publish (cu_broker u) m b)"
      using assms run Inr \<open>NewChannelMessage uid ch sender body now = Inr m\<close> by (simp add: SendChannelMessage_def)
    ultimately show ?thesis using publish_visible [of m b] by blast
  qed (use assms run Inr in \<open>simp add: SendChannelMessage_def\<close>)
qed

text \<open>Who is not a member of the channel changes nothing and is told nothing, whatever the store does.\<close>

lemma post_refused:
  assumes "(ch, me) \<notin> cl_members (abs_clubs (db_tables s))"
    and "SendChannelMessage u uid me ch body now (s, b) = (r, s', b')"
  shows "isl r \<and> db_tables s' = db_tables s \<and> b' = b"
proof (cases "NewChannelMessage uid ch me body now")
  case (Inl e)
  then have "r = Inl e \<and> s' = s \<and> b' = b" using assms(2) by (simp add: SendChannelMessage_def)
  then show ?thesis by simp
next
  case (Inr m)
  then have m: "Channel_SenderID m = me" "ChannelID m = ch" by (auto simp: NewChannelMessage_def split: if_splits)
  have no: "\<not> by_member (db_tables s) m" using assms(1) m by (simp add: by_member_def)
  note post = session_rw.run_triple [OF post_work_triple [OF m(1), of "db_tables s"]]
  obtain x s1 where run: "RW (post_work u me m) s = (x, s1)" by fastforce
  show ?thesis
  proof (cases x)
    case (Inl e)
    then have "db_tables s1 = db_tables s" using tx_tripleD(2) [OF post, of s e s1] run no by auto
    then show ?thesis using assms(2) run Inr Inl by (auto simp: SendChannelMessage_def)
  next
    case (Inr y)
    then show ?thesis using tx_tripleD(1) [OF post, of s y s1] run no by auto
  qed
qed

lemma subscribe_refused:
  assumes "(ch, me) \<notin> cl_members (abs_clubs (db_tables s))"
    and "SubscribeChannel u me ch (s, b) = (r, s', b')"
  shows "isl r \<and> db_tables s' = db_tables s \<and> b' = b"
proof -
  obtain x s1 where run: "RO (cu_members u ch me) s = (x, s1)" by fastforce
  note rd = session_ro.run_triple [OF reads [of "db_tables s" ch me]]
  have "db_tables s1 = db_tables s \<and> (\<forall>y. x = Inr y \<longrightarrow> \<not> y)"
    using tx_tripleD [OF rd, of s] run assms(1) by (cases x) auto
  then show ?thesis using assms(2) run by (cases x) (auto simp: SubscribeChannel_def)
qed

lemma list_refused:
  assumes "(ch, me) \<notin> cl_members (abs_clubs (db_tables s))"
    and "ListChannelMessages u me ch before limit s = (r, s')"
  shows "isl r \<and> db_tables s' = db_tables s"
proof -
  have work: "tx_triple (\<lambda>t. t = db_tables s) (list_channel_work u me ch before n) (\<lambda>_ _. False) (\<lambda>_ t. t = db_tables s)" for n
    unfolding list_channel_work_def
    by (rule triple_bind [where R = "\<lambda>member t. t = db_tables s \<and> \<not> member"], rule triple_tail [OF reads])
      (use assms(1) in \<open>auto simp: tx_triple_def tx_fail_def\<close>)
  show ?thesis
    using tx_tripleD [OF session_ro.run_triple [OF work [of "clampLimit u limit"]], of s] assms(2)
    by (cases r) (auto simp: ListChannelMessages_def)
qed

end

section \<open>Runs of the service\<close>

definition gateway_chat :: "int \<Rightarrow> int \<Rightarrow> ChatStream ChatUsecase" where
  "gateway_chat dflt mx = \<lparr>cu_members = GroupMembership_IsMember, cu_broker = ChatStream_broker,
     cu_DefaultLimit = dflt, cu_MaxLimit = mx\<rparr>"

interpretation gateway: chat_service "gateway_chat dflt mx" pending_messages for dflt mx
  using group_members.channel_members_axioms chat_stream.broker_contract_axioms
  by (simp add: chat_service_def gateway_chat_def)

datatype chat_call =
    CallSendDM uuid uuid uuid string go_time | CallPost uuid uuid uuid string go_time
  | CallSubscribe uuid uuid | CallListDM uuid uuid go_time int | CallListChannel uuid uuid go_time int
  | CallDetach uuid nat | CallReceive nat | CallGroup group_call

fun chat_step :: "ChatStream ChatUsecase \<Rightarrow> chat_call \<Rightarrow> db \<times> ChatStream \<Rightarrow> db \<times> ChatStream" where
  "chat_step u (CallSendDM uid a b body now) (s, k) = (snd (SendDirectMessage uid a b body now s), k)"
| "chat_step u (CallPost uid me ch body now) w = snd (SendChannelMessage u uid me ch body now w)"
| "chat_step u (CallSubscribe me ch) w = snd (SubscribeChannel u me ch w)"
| "chat_step u (CallListDM me other before n) (s, k) = (snd (ListDirectMessages u me other before n s), k)"
| "chat_step u (CallListChannel me ch before n) (s, k) = (snd (ListChannelMessages u me ch before n s), k)"
| "chat_step u (CallDetach ch a) (s, k) = (s, ChatStream_detach ch a k)"
| "chat_step u (CallReceive a) (s, k) = (s, if a < length (cs_chans k) then snd (cs_receive a k) else k)"
| "chat_step u (CallGroup c) (s, k) = (group_step c s, k)"

text \<open>The worlds a sequence of calls passes through, the first one included.\<close>

fun chat_worlds :: "ChatStream ChatUsecase \<Rightarrow> chat_call list \<Rightarrow> db \<times> ChatStream \<Rightarrow> (db \<times> ChatStream) list" where
  "chat_worlds u [] w = [w]"
| "chat_worlds u (c # cs) w = w # chat_worlds u cs (chat_step u c w)"

lemma chat_worlds_nonempty [simp]: "chat_worlds u cs w \<noteq> []"
  by (cases cs) simp_all

lemma hd_chat_worlds [simp]: "w \<in> set (chat_worlds u cs w)"
  by (cases cs) simp_all

lemma SubscribeChannel_pending:
  "pending_messages (snd (snd (SubscribeChannel (gateway_chat dflt mx) me ch (s, k)))) = pending_messages k"
proof -
  obtain x s1 where run: "RO (cu_members (gateway_chat dflt mx) ch me) s = (x, s1)" by fastforce
  obtain r k' where sub: "broker_Subscribe ChatStream_broker ch k = (r, k')" by fastforce
  have "cu_broker (gateway_chat dflt mx) = ChatStream_broker" by (simp add: gateway_chat_def)
  moreover have "pending_messages k' = pending_messages k" using chat_stream.subscribe_visible [of ch k] sub by simp
  ultimately show ?thesis using run sub by (cases x) (simp_all add: SubscribeChannel_def)
qed

lemma chat_step_pending:
  "pending_messages (snd (chat_step (gateway_chat dflt mx) c (s, k))) \<subseteq> pending_messages k \<union>
     {m. stored (db_tables (fst (chat_step (gateway_chat dflt mx) c (s, k)))) m \<and> by_member (db_tables s) m}"
proof (cases c)
  case (CallPost uid me ch body now)
  then show ?thesis
    using gateway.SendChannelMessage_visible [of dflt mx uid me ch body now s k]
    by (cases "SendChannelMessage (gateway_chat dflt mx) uid me ch body now (s, k)") auto
qed (use pending_detach SubscribeChannel_pending in \<open>auto split: if_splits dest: subsetD [OF pending_receive]\<close>)

definition seen_in :: "(db \<times> ChatStream) list \<Rightarrow> ChannelMessage \<Rightarrow> bool" where
  "seen_in ws m \<longleftrightarrow> (\<exists>w \<in> set ws. stored (db_tables (fst w)) m) \<and> (\<exists>w \<in> set ws. by_member (db_tables (fst w)) m)"

lemma chat_worlds_pending:
  "pending_messages (snd (last (chat_worlds (gateway_chat dflt mx) cs w))) \<subseteq>
     pending_messages (snd w) \<union> {m. seen_in (chat_worlds (gateway_chat dflt mx) cs w) m}"
proof (induction cs arbitrary: w)
  case (Cons c cs)
  obtain s k where w: "w = (s, k)" by fastforce
  let ?w = "chat_step (gateway_chat dflt mx) c w"
  have "pending_messages (snd ?w) \<subseteq> pending_messages k \<union> {m. seen_in (w # chat_worlds (gateway_chat dflt mx) cs ?w) m}"
    using chat_step_pending [of dflt mx c s k] hd_chat_worlds [of ?w] unfolding w by (fastforce simp: seen_in_def)
  moreover have "{m. seen_in (chat_worlds (gateway_chat dflt mx) cs ?w) m} \<subseteq>
      {m. seen_in (w # chat_worlds (gateway_chat dflt mx) cs ?w) m}"
    by (auto simp: seen_in_def)
  ultimately show ?case using Cons.IH [of ?w] w by auto
qed auto

lemma list_channel_outcome:
  assumes "quiet s" "(ch, me) \<in> cl_members (abs_clubs (db_tables s))"
    "0 \<le> clampLimit (gateway_chat dflt mx) limit" "clampLimit (gateway_chat dflt mx) limit < 2 ^ 31"
  shows "outcome (ListChannelMessages (gateway_chat dflt mx) me ch before limit) s =
    (Inr (map channelMessageFromRow (history cm_created_at (cursor before) (nat (clampLimit (gateway_chat dflt mx) limit))
       (filter (\<lambda>r. cm_channel_id r = ch) (channel_messages (db_tables s))))), db_tables s)"
  unfolding ListChannelMessages_def
proof (rule RO_outcome [OF assms(1)])
  note live = live_begin_tx [OF assms(1), of True]
  show "list_channel_work (gateway_chat dflt mx) me ch before (clampLimit (gateway_chat dflt mx) limit) (begin_tx True s) =
     (Inr (map channelMessageFromRow (history cm_created_at (cursor before) (nat (clampLimit (gateway_chat dflt mx) limit))
       (filter (\<lambda>r. cm_channel_id r = ch) (channel_messages (db_tables s))))), begin_tx True s)"
    using assms(2-) live gateway.live_read [OF live, of dflt mx ch me]
    by (simp add: list_channel_work_def Chat_ListChannel_def sql_ListChannelMessages_def tx_eval int32_of_small cursor_def)
qed

lemma all_before_farFuture: "pageable created rows \<Longrightarrow> filter (\<lambda>r. created r < cursor 0) rows = rows"
  by (auto simp: pageable_def cursor_def time_IsZero_def list_all_iff farFuture_def toTimestamptz_def Second_def
      intro!: filter_True)

lemma SendDirectMessage_stores:
  assumes "SendDirectMessage uid a b body now s = (Inr m, s')"
  shows "a \<noteq> b \<and> SenderID m = a \<and> RecipientID m = b \<and> Body m = body \<and>
    (\<exists>r \<in> set (direct_messages (db_tables s')). in_conversation (min a b) (max a b) r \<and>
       messageFromRow r = m\<lparr>SentAt := toTimestamptz (SentAt m)\<rparr>)"
proof -
  obtain m' where new: "NewMessage uid a b body now = Inr m'"
    using assms by (cases "NewMessage uid a b body now") (auto simp: SendDirectMessage_def tx_fail_def)
  then have ab: "a \<noteq> b" and m': "SenderID m' = a" "RecipientID m' = b" "Body m' = body"
    by (auto simp: NewMessage_def split: if_splits)
  obtain x where run: "RW (Chat_Save m') s = (Inr x, s')" "m = m'"
    using assms new by (auto simp: SendDirectMessage_def tx_bind_def tx_return_def split: prod.splits sum.splits)
  have "tx_triple (\<lambda>_. True) (Chat_Save m')
     (\<lambda>_ t. \<exists>r \<in> set (direct_messages t). in_conversation (min a b) (max a b) r \<and>
       messageFromRow r = m'\<lparr>SentAt := toTimestamptz (SentAt m')\<rparr>) (\<lambda>_ _. True)"
    unfolding Chat_Save_def Conversation_eq m' sql_InsertDirectMessage_def Let_def prod.case
    by (rule triple_exec) (use ab m' in \<open>auto simp: in_conversation_def messageFromRow_def min_def max_def split: if_splits\<close>)
  from tx_tripleD(1) [OF session_rw.run_triple [OF this] _ run(1)] show ?thesis using ab m' run(2) by simp
qed

section \<open>Properties\<close>

text \<open>
  C23. Where no two messages of the conversation or channel have the same instant, the whole history is reached by
  paging: for a conversation, and for a channel the caller belongs to, reading page after page with the
  instant of the oldest message seen as the cursor returns every message exactly once, newest first,
  whatever the page size. (Of messages with equal instants a page may skip some, see
  \<open>paging_skips_equal_instants\<close>.)
\<close>

theorem chat_history_complete:
  assumes "u = gateway_chat dflt mx" and "quiet s" and "1 \<le> clampLimit u limit" and "clampLimit u limit < 2 ^ 31"
    and "rows = filter (in_conversation (min me other) (max me other)) (direct_messages (db_tables s))"
    and "posts = filter (\<lambda>r. cm_channel_id r = ch) (channel_messages (db_tables s))"
    and "pageable dm_created_at rows" and "pageable cm_created_at posts"
    and "(ch, me) \<in> cl_members (abs_clubs (db_tables s))"
    and "length rows < n" and "length posts < n"
  shows "read_history n (\<lambda>before. fst (outcome (ListDirectMessages u me other before limit) s)) SentAt 0
      = Inr (map messageFromRow (newest_first dm_created_at rows))
    \<and> read_history n (\<lambda>before. fst (outcome (ListChannelMessages u me ch before limit) s)) Channel_SentAt 0
      = Inr (map channelMessageFromRow (newest_first cm_created_at posts))"
proof
  have pos: "0 < nat (clampLimit u limit)" "0 \<le> clampLimit u limit" using assms(3) by auto
  note dm = ListDirectMessages_outcome [OF assms(2) pos(2) assms(4), of me other, folded assms(5)]
  have "length (filter (\<lambda>r. dm_created_at r < cursor 0) rows) < n"
    using all_before_farFuture [OF assms(7)] assms(10) by simp
  from read_history_pages [where g = messageFromRow and created = dm_created_at and k = "nat (clampLimit u limit)"
      and fetch = "\<lambda>before. fst (outcome (ListDirectMessages u me other before limit) s)" and at = SentAt,
      OF _ _ assms(7) pos(1) this] dm
  show "read_history n (\<lambda>before. fst (outcome (ListDirectMessages u me other before limit) s)) SentAt 0
      = Inr (map messageFromRow (newest_first dm_created_at rows))"
    by (simp add: all_before_farFuture [OF assms(7)] messageFromRow_def)
  note cm = list_channel_outcome [OF assms(2,9), of dflt mx limit, folded assms(1) assms(6), OF pos(2) assms(4)]
  have "length (filter (\<lambda>r. cm_created_at r < cursor 0) posts) < n"
    using all_before_farFuture [OF assms(8)] assms(11) by simp
  from read_history_pages [where g = channelMessageFromRow and created = cm_created_at and k = "nat (clampLimit u limit)"
      and fetch = "\<lambda>before. fst (outcome (ListChannelMessages u me ch before limit) s)" and at = Channel_SentAt,
      OF _ _ assms(8) pos(1) this] cm
  show "read_history n (\<lambda>before. fst (outcome (ListChannelMessages u me ch before limit) s)) Channel_SentAt 0
      = Inr (map channelMessageFromRow (newest_first cm_created_at posts))"
    by (simp add: all_before_farFuture [OF assms(8)] channelMessageFromRow_def)
qed

definition sample_chat :: db where
  "sample_chat = sample_groups\<lparr>db_tables := (db_tables sample_groups)\<lparr>
     direct_messages := [\<lparr>dm_id = 31, dm_player_low = 1, dm_player_high = 2, dm_sender_id = 1, dm_body = ''hi'', dm_created_at = 5000\<rparr>,
                         \<lparr>dm_id = 32, dm_player_low = 1, dm_player_high = 2, dm_sender_id = 2, dm_body = ''yo'', dm_created_at = 7000\<rparr>],
     channel_messages := [\<lparr>cm_id = 41, cm_channel_id = 9, cm_sender_id = 2, cm_body = ''all'', cm_created_at = 6000\<rparr>]\<rparr>\<rparr>"

lemma sample_chat_facts:
  "quiet sample_chat" "(9, 1) \<in> cl_members (abs_clubs (db_tables sample_chat))"
  "db_tables sample_chat = (db_tables sample_groups)\<lparr>direct_messages := direct_messages (db_tables sample_chat),
     channel_messages := channel_messages (db_tables sample_chat)\<rparr>"
  by (simp_all add: sample_chat_def sample_groups_def sample_simps abs_clubs_def)

theorem chat_history_complete_witness:
  "read_history 3 (\<lambda>before. fst (outcome (ListDirectMessages (gateway_chat 50 200) 1 2 before 1) sample_chat)) SentAt 0
     = Inr (map messageFromRow (rev (direct_messages (db_tables sample_chat))))"
proof -
  have rows: "filter (in_conversation (min 1 2) (max 1 2)) (direct_messages (db_tables sample_chat)) = direct_messages (db_tables sample_chat)"
    "filter (\<lambda>r. cm_channel_id r = 9) (channel_messages (db_tables sample_chat)) = channel_messages (db_tables sample_chat)"
    by (simp_all add: sample_chat_def in_conversation_def min_def max_def)
  have "newest_first dm_created_at (direct_messages (db_tables sample_chat)) = rev (direct_messages (db_tables sample_chat))"
    by (simp add: sample_chat_def newest_first_def sort_by_def)
  then show ?thesis
    using chat_history_complete [OF refl sample_chat_facts(1), of 50 200 1 _ 1 2 _ 9 3, OF _ _ rows [symmetric] _ _ sample_chat_facts(2)]
    by (simp add: clampLimit_def gateway_chat_def) (simp add: sample_chat_def pageable_def farFuture_def toTimestamptz_def Second_def)
qed

text \<open>
  A direct message that was reported as sent is read back by both participants: paging through the
  conversation from either side finds it, with its sender, recipient and body, and the instant the
  store keeps.
\<close>

theorem direct_message_roundtrip:
  assumes "SendDirectMessage uid a b body now s = (Inr m, s')"
    and "quiet s2" and "db_tables s2 = db_tables s'"
    and "1 \<le> clampLimit u limit" and "clampLimit u limit < 2 ^ 31"
    and "rows = filter (in_conversation (min a b) (max a b)) (direct_messages (db_tables s'))"
    and "pageable dm_created_at rows" and "length rows < n"
  shows "a \<noteq> b \<and> SenderID m = a \<and> RecipientID m = b \<and> Body m = body \<and>
    (\<exists>ms. m\<lparr>SentAt := toTimestamptz (SentAt m)\<rparr> \<in> set ms \<and>
      read_history n (\<lambda>before. fst (outcome (ListDirectMessages u a b before limit) s2)) SentAt 0 = Inr ms \<and>
      read_history n (\<lambda>before. fst (outcome (ListDirectMessages u b a before limit) s2)) SentAt 0 = Inr ms)"
proof -
  note st = SendDirectMessage_stores [OF assms(1)]
  have pos: "0 < nat (clampLimit u limit)" "0 \<le> clampLimit u limit" using assms(4) by auto
  have len: "length (filter (\<lambda>r. dm_created_at r < cursor 0) rows) < n"
    using all_before_farFuture [OF assms(7)] assms(8) by simp
  have "read_history n (\<lambda>before. fst (outcome (ListDirectMessages u x y before limit) s2)) SentAt 0
      = Inr (map messageFromRow (newest_first dm_created_at rows))" if "min x y = min a b" "max x y = max a b" for x y
  proof -
    have page: "fst (outcome (ListDirectMessages u x y before limit) s2) =
        Inr (map messageFromRow (history dm_created_at (cursor before) (nat (clampLimit u limit)) rows))" for before
      using ListDirectMessages_outcome [OF assms(2) pos(2) assms(5), of x y] assms(3) by (simp add: that assms(6))
    show ?thesis
      using read_history_pages [where g = messageFromRow and created = dm_created_at and k = "nat (clampLimit u limit)"
        and fetch = "\<lambda>before. fst (outcome (ListDirectMessages u x y before limit) s2)" and at = SentAt,
        OF page _ assms(7) pos(1) len]
      by (simp add: all_before_farFuture [OF assms(7)] messageFromRow_def)
  qed
  moreover have "m\<lparr>SentAt := toTimestamptz (SentAt m)\<rparr> \<in> set (map messageFromRow (newest_first dm_created_at rows))"
    using st unfolding assms(6) by force
  ultimately show ?thesis using st by (metis max.commute min.commute)
qed

theorem direct_message_roundtrip_witness:
  "\<exists>m s' ms. SendDirectMessage 33 1 3 ''gg'' 9000 sample_chat = (Inr m, s') \<and> Body m = ''gg'' \<and> RecipientID m = 3 \<and>
     m \<in> set ms \<and>
     read_history 2 (\<lambda>before. fst (outcome (ListDirectMessages (gateway_chat 50 200) 3 1 before 0) s')) SentAt 0 = Inr ms"
proof -
  let ?m = "\<lparr>Message_ID = 33, SenderID = 1, RecipientID = 3, Body = ''gg'', SentAt = 9000\<rparr>"
  let ?row = "\<lparr>dm_id = 33, dm_player_low = 1, dm_player_high = 3, dm_sender_id = 1, dm_body = ''gg'', dm_created_at = 9000\<rparr>"
  let ?s = "sample_chat\<lparr>db_tables := (db_tables sample_chat)\<lparr>direct_messages := direct_messages (db_tables sample_chat) @ [?row]\<rparr>\<rparr>"
  have run: "SendDirectMessage 33 1 3 ''gg'' 9000 sample_chat = (Inr ?m, ?s)" by code_simp
  have rows: "[?row] = filter (in_conversation (min 1 3) (max 1 3)) (direct_messages (db_tables ?s))"
    by (simp add: sample_chat_def in_conversation_def min_def max_def)
  have "quiet ?s" using sample_chat_facts(1) by (simp add: quiet_def)
  from direct_message_roundtrip [OF run this refl _ _ rows, of "gateway_chat 50 200" 0 2]
  show ?thesis
    using run by (simp add: clampLimit_def gateway_chat_def pageable_def farFuture_def toTimestamptz_def Second_def) blast
qed


text \<open>
  Two messages of one instant are where paging loses one: the second page starts strictly before the
  instant both share.
\<close>

lemma paging_skips_equal_instants:
  "read_history 3 (\<lambda>before. Inr (history snd (cursor before) 1 [(1 :: nat, 5000), (2, 5000)])) snd 0 = Inr [(1, 5000)]"
  by code_simp

text \<open>
  C21. A subscriber of a channel is only ever handed messages that were committed: whatever chat and
  group calls ran before, with whatever store faults, a message waiting in a subscription was in the
  channel's history in some state of the run, and its sender was a member of the channel.
\<close>

theorem fanout_committed:
  assumes "m \<in> pending_messages (snd (last (chat_worlds (gateway_chat dflt mx) calls (s, NewChatStream))))"
  shows "seen_in (chat_worlds (gateway_chat dflt mx) calls (s, NewChatStream)) m"
  using chat_worlds_pending [of dflt mx calls "(s, NewChatStream)"] assms
  by (auto simp: pending_messages_def NewChatStream_def)

theorem fanout_committed_witness:
  "\<exists>m. m \<in> pending_messages (snd (last (chat_worlds (gateway_chat 50 200) [CallSubscribe 1 9, CallPost 42 2 9 ''hey'' 8000] (sample_chat, NewChatStream))))
     \<and> seen_in (chat_worlds (gateway_chat 50 200) [CallSubscribe 1 9, CallPost 42 2 9 ''hey'' 8000] (sample_chat, NewChatStream)) m"
proof -
  let ?m = "\<lparr>ChannelMessage_ID = 42, ChannelID = 9, Channel_SenderID = 2, Channel_Body = ''hey'', Channel_SentAt = 8000\<rparr>"
  have "cs_chans (snd (last (chat_worlds (gateway_chat 50 200) [CallSubscribe 1 9, CallPost 42 2 9 ''hey'' 8000] (sample_chat, NewChatStream))))
      = [\<lparr>cc_buf = [?m], cc_closed = False\<rparr>]"
    by code_simp
  then have "?m \<in> pending_messages (snd (last (chat_worlds (gateway_chat 50 200) [CallSubscribe 1 9, CallPost 42 2 9 ''hey'' 8000] (sample_chat, NewChatStream))))"
    by (simp add: pending_messages_def)
  with fanout_committed [OF this] show ?thesis by blast
qed

text \<open>
  C24. Who does not belong to a channel cannot post to it, subscribe to it or read its history: each
  call fails, under any store faults, and leaves the tables and the subscriptions as they were.
\<close>

theorem channel_gate:
  assumes "(ch, me) \<notin> cl_members (abs_clubs (db_tables s))" and "u = gateway_chat dflt mx"
  shows "(\<forall>r s' b'. SendChannelMessage u uid me ch body now (s, b) = (r, s', b') \<longrightarrow> isl r \<and> db_tables s' = db_tables s \<and> b' = b)
    \<and> (\<forall>r s' b'. SubscribeChannel u me ch (s, b) = (r, s', b') \<longrightarrow> isl r \<and> db_tables s' = db_tables s \<and> b' = b)
    \<and> (\<forall>r s'. ListChannelMessages u me ch before limit s = (r, s') \<longrightarrow> isl r \<and> db_tables s' = db_tables s)"
  unfolding assms(2)
  by (intro conjI allI impI)
    (metis gateway.post_refused [OF assms(1)] gateway.subscribe_refused [OF assms(1)] gateway.list_refused [OF assms(1)])+

theorem channel_gate_witness:
  "fst (SendChannelMessage (gateway_chat 50 200) 43 3 9 ''x'' 0 (sample_chat, NewChatStream)) = Inl (ChatE ErrNotChannelMember)
   \<and> isl (fst (SubscribeChannel (gateway_chat 50 200) 3 9 (sample_chat, NewChatStream)))"
proof
  have "(9, 3) \<notin> cl_members (abs_clubs (db_tables sample_chat))"
    by (simp add: sample_chat_def sample_groups_def sample_simps abs_clubs_def)
  from channel_gate [OF this refl] show "isl (fst (SubscribeChannel (gateway_chat 50 200) 3 9 (sample_chat, NewChatStream)))"
    by (metis prod.collapse)
  show "fst (SendChannelMessage (gateway_chat 50 200) 43 3 9 ''x'' 0 (sample_chat, NewChatStream)) = Inl (ChatE ErrNotChannelMember)"
    by code_simp
qed

text \<open>
  C22. The fan-out never panics, and every call of \<open>Subscribe\<close> gets what was posted to the channel id it was given: what its
  reader has taken and still finds buffered in the Go channel the call returned is, in order and with nothing
  else, a part of the messages published with that channel id from the call to the end of its context. At most sixteen
  wait, and the first sixteen are never dropped.
\<close>

theorem chat_stream_delivery:
  assumes "r = fold stream_step es stream_start" and "s \<in> set (sr_subs r)"
  shows "map sb_channel (sr_subs r) = concat (map (\<lambda>e. case e of Sub ch \<Rightarrow> [ch] | _ \<Rightarrow> []) es) \<and>
    \<not> cs_panicked (sr_stream r) \<and>
    (\<forall>m \<in> set (sb_posted s). ChannelID m = sb_channel s) \<and>
    (let buffered = cc_buf (cs_chans (sr_stream r) ! sb_handle s) in
      length buffered \<le> 16 \<and> subseq (sb_got s @ buffered) (sb_posted s) \<and>
      prefix (take 16 (sb_posted s)) (sb_got s @ buffered))"
proof -
  obtain i where i: "i < length (sr_subs r)" "s = sr_subs r ! i" using assms(2) by (metis in_set_conv_nth)
  have "stream_inv r" using stream_inv_fold assms(1) by simp
  then have "sub_ok (sr_stream r) i s" "\<not> cs_panicked (sr_stream r)" using i by (simp_all add: stream_inv_def cs_inv_def)
  then show ?thesis using stream_channels [of es] assms(1) by (simp add: sub_ok_def lane_ok_def cs_cap_def Let_def)
qed

theorem chat_stream_delivery_witness:
  "\<exists>m s. sr_subs (fold stream_step [Sub 9, Pub (m :: ChannelMessage), Recv 0] stream_start) = [s] \<and> sb_channel s = 9 \<and> sb_got s = [m]"
proof -
  let ?m = "\<lparr>ChannelMessage_ID = 42, ChannelID = 9, Channel_SenderID = 2, Channel_Body = ''hey'', Channel_SentAt = 8000\<rparr>"
  let ?r = "fold stream_step [Sub 9, Pub ?m, Recv 0] stream_start"
  have chans: "cs_chans (sr_stream ?r) = [\<lparr>cc_buf = [], cc_closed = False\<rparr>]" by code_simp
  have subs: "map sb_posted (sr_subs ?r) = [[?m]]" "map sb_handle (sr_subs ?r) = [0]" by code_simp+
  then obtain s where s: "sr_subs ?r = [s]" "sb_posted s = [?m]" "sb_handle s = 0" by (auto simp: map_eq_Cons_conv)
  then have "s \<in> set (sr_subs ?r)" by simp
  from chat_stream_delivery [OF refl this] have "sb_got s = [?m] \<and> sb_channel s = 9"
    unfolding s chans by (auto simp: Let_def prefix_def subseq_singleton_left Cons_eq_append_conv)
  then show ?thesis using s(1) by blast
qed

end
