(* ===== verification/Valkey_Chat.thy ===== *)
theory Valkey_Chat
  imports Valkey_Stores Chat
begin

text \<open>
  The chat broker of a deployment with several replicas (\<open>internal/infra/chatstream/valkey.go\<close>): a message
  is appended to the stream of its channel, and each subscription has a goroutine that reads the
  stream from \<open>$\<close> on. Publishing trims the stream and lets it expire, so the server forgets: the locale
  \<open>chat_server\<close> states what a subscriber relies on of a server whose stream is only a tail of what was
  published, and the last section shows that publishers keep to it and runs both together.
\<close>


section \<open>The stream of a channel\<close>

record messageDTO =
  cd_ID :: string
  cd_ChannelID :: string
  cd_SenderID :: string
  cd_Body :: string
  cd_SentAt :: go_time

record chat_env =
  ce_str :: "uuid \<Rightarrow> string"
  ce_parse :: "string \<Rightarrow> go_error + uuid"
  ce_json :: "messageDTO json_codec"
  ce_ttl :: duration

definition NewValkeyChat :: "(uuid \<Rightarrow> string) \<Rightarrow> (string \<Rightarrow> go_error + uuid) \<Rightarrow> messageDTO json_codec \<Rightarrow> chat_env" where
  "NewValkeyChat str parse j = \<lparr>ce_str = str, ce_parse = parse, ce_json = j, ce_ttl = 600 * Second\<rparr>"

definition streamMaxLen :: nat where "streamMaxLen = 1000"

definition chat_streamKey :: "chat_env \<Rightarrow> uuid \<Rightarrow> string" where
  "chat_streamKey E channelID = ''vfx:chat:stream:'' @ ce_str E channelID"

definition marshalMessage :: "chat_env \<Rightarrow> ChannelMessage \<Rightarrow> go_error + string" where
  "marshalMessage E m = json_Marshal (ce_json E) \<lparr>cd_ID = ce_str E (ChannelMessage_ID m), cd_ChannelID = ce_str E (ChannelID m),
     cd_SenderID = ce_str E (Channel_SenderID m), cd_Body = Channel_Body m, cd_SentAt = Channel_SentAt m\<rparr>"

definition unmarshalMessage :: "chat_env \<Rightarrow> string \<Rightarrow> go_error + ChannelMessage" where
  "unmarshalMessage E raw = (case json_Unmarshal (ce_json E) raw of
     Inl e \<Rightarrow> Inl e
   | Inr dto \<Rightarrow> (case ce_parse E (cd_ID dto) of
       Inl e \<Rightarrow> Inl e
     | Inr mid \<Rightarrow> (case ce_parse E (cd_ChannelID dto) of
         Inl e \<Rightarrow> Inl e
       | Inr channelID \<Rightarrow> (case ce_parse E (cd_SenderID dto) of
           Inl e \<Rightarrow> Inl e
         | Inr senderID \<Rightarrow> Inr \<lparr>ChannelMessage_ID = mid, ChannelID = channelID, Channel_SenderID = senderID,
             Channel_Body = cd_Body dto, Channel_SentAt = cd_SentAt dto\<rparr>))))"

definition Chat_Publish :: "chat_env \<Rightarrow> ChannelMessage \<Rightarrow> go_error option vk" where
  "Chat_Publish E m = (case marshalMessage E m of
     Inl e \<Rightarrow> Ret (Some (Wrap ''chatstream: marshal message'' e))
   | Inr raw \<Rightarrow>
       and_then (do_err ''chatstream: xadd'' (XADD (chat_streamKey E (ChannelID m)) (Some streamMaxLen) [(''msg'', raw)]))
         (do_err ''chatstream: stream expire'' (EXPIRE (chat_streamKey E (ChannelID m)) (whole_seconds (ce_ttl E)))))"

text \<open>
  The goroutine of a subscription, with the messages it sends on the channel; it starts at \<open>FromNew\<close>, the
  \<open>$\<close> of the command. As for the queue, the context ends before read \<open>reads + 1\<close> or while send
  \<open>sends + 1\<close> waits, and \<open>chat_forward\<close> is the loop over the entries of one read.
\<close>

definition entry_message :: "chat_env \<Rightarrow> fields \<Rightarrow> go_error + ChannelMessage" where
  "entry_message E fs = unmarshalMessage E (case map_of fs ''msg'' of Some raw \<Rightarrow> raw | None \<Rightarrow> [])"

fun chat_forward :: "chat_env \<Rightarrow> nat \<Rightarrow> stream \<Rightarrow> stream_from \<Rightarrow> ChannelMessage list \<times> stream_from \<times> bool" where
  "chat_forward E sends [] lastID = ([], lastID, False)"
| "chat_forward E sends ((n, fs) # entries) lastID =
     (case entry_message E fs of
        Inl e \<Rightarrow> chat_forward E sends entries (After n)
      | Inr m \<Rightarrow>
          (case sends of
             0 \<Rightarrow> ([], After n, True)
           | Suc left \<Rightarrow> (case chat_forward E left entries (After n) of (ms, reached, stop) \<Rightarrow> (m # ms, reached, stop))))"

fun chat_subscriber :: "chat_env \<Rightarrow> uuid \<Rightarrow> nat \<Rightarrow> nat \<Rightarrow> stream_from \<Rightarrow> ChannelMessage list vk" where
  "chat_subscriber E channelID 0 sends lastID = Ret []"
| "chat_subscriber E channelID (Suc reads) sends lastID =
     Do (XREAD 64 (chat_streamKey E channelID) lastID) (\<lambda>r. case AsXRead r of
       Inl e \<Rightarrow> if IsValkeyNil e then chat_subscriber E channelID reads sends lastID else Ret []
     | Inr streams \<Rightarrow>
         (case chat_forward E sends (case map_of streams (chat_streamKey E channelID) of Some s \<Rightarrow> s | None \<Rightarrow> []) lastID of
            (ms, reached, stop) \<Rightarrow> if stop then Ret ms
              else vk_bind (chat_subscriber E channelID reads (sends - length ms) reached) (\<lambda>later. Ret (ms @ later))))"

text \<open>
  The broker the chat usecase is given: \<open>Publish\<close> runs on the client, \<open>Subscribe\<close> sends nothing and
  starts the goroutine of channel \<open>vb_started ! n\<close>.
\<close>

record 'v valkey_broker =
  vb_server :: 'v
  vb_started :: "uuid list"

definition Broker_Publish :: "'v vk_client \<Rightarrow> chat_env \<Rightarrow> ChannelMessage \<Rightarrow> 'v valkey_broker \<Rightarrow> unit result \<times> 'v valkey_broker" where
  "Broker_Publish client E m b = (case run_vk client (Chat_Publish E m) (vb_server b) of
     (Some e, v) \<Rightarrow> (Inl e, b\<lparr>vb_server := v\<rparr>)
   | (None, v) \<Rightarrow> (Inr (), b\<lparr>vb_server := v\<rparr>))"

definition Broker_Subscribe :: "uuid \<Rightarrow> 'v valkey_broker \<Rightarrow> nat result \<times> 'v valkey_broker" where
  "Broker_Subscribe channelID b = (Inr (length (vb_started b)), b\<lparr>vb_started := vb_started b @ [channelID]\<rparr>)"

definition Valkey_broker :: "'v vk_client \<Rightarrow> chat_env \<Rightarrow> 'v valkey_broker Broker" where
  "Valkey_broker client E = \<lparr>broker_Publish = Broker_Publish client E, broker_Subscribe = Broker_Subscribe\<rparr>"

section \<open>What a subscriber receives\<close>

text \<open>The messages of a stream: entries that do not decode are skipped.\<close>

definition messages_of :: "chat_env \<Rightarrow> stream \<Rightarrow> ChannelMessage list" where
  "messages_of E s = concat (map (\<lambda>(n, fs). case entry_message E fs of Inl e \<Rightarrow> [] | Inr m \<Rightarrow> [m]) s)"

lemma messages_of_simps [simp]:
  "messages_of E [] = []"
  "messages_of E ((n, fs) # s) = (case entry_message E fs of Inl e \<Rightarrow> [] | Inr m \<Rightarrow> [m]) @ messages_of E s"
  "messages_of E (s @ s') = messages_of E s @ messages_of E s'"
  by (simp_all add: messages_of_def)

definition reached_by :: "stream_from \<Rightarrow> stream \<Rightarrow> stream_from" where
  "reached_by pos s = (if s = [] then pos else After (fst (last s)))"

lemma chat_forward_sends:
  "chat_forward E sends entries pos = (ms, reached, stop) \<Longrightarrow>
     ms = take sends (messages_of E entries) \<and> stop = (sends < length (messages_of E entries)) \<and>
     (\<not> stop \<longrightarrow> reached = reached_by pos entries)"
proof (induction entries arbitrary: sends pos ms reached stop)
  case (Cons entry entries)
  obtain n fs where entry: "entry = (n, fs)" by (cases entry)
  have r: "reached_by (After n) entries = reached_by pos (entry # entries)" by (simp add: reached_by_def entry)
  show ?case
  proof (cases "entry_message E fs")
    case (Inl e)
    then show ?thesis using Cons.IH [of sends "After n"] Cons.prems r by (simp add: entry)
  next
    case (Inr m)
    then show ?thesis using Cons.IH [of "sends - 1" "After n"] Cons.prems r
      by (cases sends) (auto simp: entry split: prod.splits)
  qed
qed (simp add: reached_by_def)

text \<open>
  The server drops old entries of the stream: publishing trims it to about \<open>streamMaxLen\<close>, and the whole
  key is gone when nothing is published for the time to live. \<open>posted v\<close> is the history the stream forgets,
  every entry ever appended under the key; what the server still holds is a tail of it, with ids that grow.
\<close>

definition history_ok :: "string \<Rightarrow> stream \<Rightarrow> keyspace \<Rightarrow> bool" where
  "history_ok k h ks \<longleftrightarrow> is_stream ks k \<and> sorted_wrt (<) (map fst h) \<and> (\<forall>e \<in> set h. fst e \<le> ks_last ks) \<and>
     suffix (stream_at ks k) h"

definition lost :: "string \<Rightarrow> stream \<Rightarrow> keyspace \<Rightarrow> nat" where
  "lost k h ks = length h - length (stream_at ks k)"

lemma held_tail: "history_ok k h ks \<Longrightarrow> stream_at ks k = drop (lost k h ks) h"
  by (auto simp: history_ok_def lost_def suffix_def)

text \<open>What a subscriber relies on when it reads: others may have published, the server may have dropped entries.\<close>

locale chat_server =
  fixes client :: "'v vk_client" and obs :: "'v \<Rightarrow> keyspace" and posted :: "'v \<Rightarrow> stream" and k :: string
  assumes reads: "history_ok k (posted v) (obs v) \<Longrightarrow> client (XREAD 64 k pos) v = (r, v') \<Longrightarrow>
    \<exists>ks ch. history_ok k (posted v') ks \<and> prefix (posted v) (posted v') \<and> choice_ok ch (obs v) ks \<and>
      served ch (XREAD 64 k pos) ks r (obs v')"

text \<open>
  A steady pace: as long as \<open>calm\<close> holds, at most 64 entries are appended between two reads, and no entry
  goes but by trimming the stream to no less than \<open>streamMaxLen\<close>.
\<close>

definition paced :: "'v vk_client \<Rightarrow> ('v \<Rightarrow> keyspace) \<Rightarrow> ('v \<Rightarrow> stream) \<Rightarrow> string \<Rightarrow> ('v \<Rightarrow> bool) \<Rightarrow> bool" where
  "paced client obs posted k calm \<longleftrightarrow> (\<forall>pos v r v'. calm v \<longrightarrow> history_ok k (posted v) (obs v) \<longrightarrow>
     client (XREAD 64 k pos) v = (r, v') \<longrightarrow> calm v' \<and> length (posted v') \<le> length (posted v) + 64 \<and>
     lost k (posted v') (obs v') \<le> max (lost k (posted v) (obs v)) (length (posted v') - streamMaxLen))"

text \<open>The history up to a position: where \<open>$\<close> is found when the read begins, or the entry last read.\<close>

fun up_to :: "stream_from \<Rightarrow> stream \<Rightarrow> stream \<Rightarrow> bool" where
  "up_to From0 h a = False"
| "up_to FromNew h a = prefix h a"
| "up_to (After n) h a = (prefix a h \<and> a \<noteq> [] \<and> n = fst (last a))"

lemma up_to_later: "up_to pos h' a \<Longrightarrow> pos = FromNew \<Longrightarrow> prefix h h' \<Longrightarrow> up_to pos h a"
  by (auto intro: prefix_order.trans)

lemma up_to_unique:
  assumes "up_to (After n) h a" "up_to (After n) h b" "sorted_wrt (<) (map fst h)"
  shows "a = b"
proof -
  have "x = []" if "prefix (c @ x) h" "c \<noteq> []" "fst (last (c @ x)) = fst (last c)" for c x :: stream
  proof (rule ccontr)
    assume x: "x \<noteq> []"
    then have "last c \<in> set c" "last x \<in> set x" using that(2) by simp_all
    then have "fst (last c) < fst (last x)"
      using assms(3) that(1) by (auto simp: prefix_def sorted_wrt_append)
    then show False using that(3) x by simp
  qed
  then have ext: "d = c" if "prefix d h" "prefix c d" "c \<noteq> []" "fst (last d) = fst (last c)" for c d
    using that by (metis append_Nil2 prefix_def)
  have "prefix a b \<or> prefix b a" using assms(1,2) prefix_same_cases [of a h b] by auto
  then show ?thesis using assms(1,2) ext [of a b] ext [of b a] by auto
qed

text \<open>The entries after an id are a tail of the stream.\<close>

lemma entries_after_tail:
  assumes "sorted_wrt (<) (map fst s)"
  shows "\<exists>seen. s = seen @ entries_after n s \<and> (\<forall>e \<in> set seen. fst e \<le> n)"
  using assms
proof (induction s)
  case (Cons e s)
  show ?case
  proof (cases "n < fst e")
    case True
    then have "entries_after n (e # s) = e # s"
      using Cons.prems by (auto simp: entries_after_def filter_id_conv)
    then show ?thesis by (intro exI [of _ "[]"]) simp
  next
    case False
    obtain seen where s: "s = seen @ entries_after n s" "\<forall>x \<in> set seen. fst x \<le> n" using Cons by auto
    have "e # s = (e # seen) @ entries_after n (e # s) \<and> (\<forall>x \<in> set (e # seen). fst x \<le> n)"
      using False s by (simp add: entries_after_def) 
    then show ?thesis by blast
  qed
qed (simp add: entries_after_def)

lemma entries_after_drop:
  assumes "\<forall>e \<in> set a. fst e \<le> n" "\<forall>e \<in> set b. n < fst e"
  shows "entries_after n (drop m (a @ b)) = drop (m - length a) b"
proof -
  have "filter (\<lambda>e. n < fst e) (drop m a) = []" using assms(1) by (force simp: filter_empty_conv dest: in_set_dropD)
  moreover have "filter (\<lambda>e. n < fst e) (drop (m - length a) b) = drop (m - length a) b"
    using assms(2) by (force simp: filter_id_conv dest: in_set_dropD)
  ultimately show ?thesis by (simp add: entries_after_def)
qed

lemma old_in_prefix:
  assumes "prefix h h'" "h' = seen @ entries_after n h'" "\<forall>e \<in> set h. fst e \<le> n"
  shows "prefix h seen"
proof -
  have "prefix seen h'" using assms(2) by (metis prefixI)
  then consider "prefix h seen" | x where "h = seen @ x" "x \<noteq> []"
    using prefix_same_cases [OF assms(1)] by (metis append_Nil2 prefix_def)
  then show ?thesis
  proof cases
    case 2
    then have "prefix x (entries_after n h')" using assms(1,2) by (metis same_prefix_prefix)
    then have "hd x \<in> set (entries_after n h')" using 2 by (metis hd_in_set set_mono_prefix subsetD)
    moreover have "fst (hd x) \<le> n" using assms(3) 2 by simp
    ultimately show ?thesis by (simp add: entries_after_def)
  qed
qed

lemma streamMaxLen_64: "64 \<le> streamMaxLen"
  by (simp add: streamMaxLen_def)

locale chat_subscription = chat_server client obs posted k
  for client :: "'v vk_client" and obs :: "'v \<Rightarrow> keyspace" and posted :: "'v \<Rightarrow> stream" and k :: string +
  fixes E :: chat_env and channelID :: uuid
  assumes key: "k = chat_streamKey E channelID"
begin

definition ok :: "'v \<Rightarrow> bool" where "ok v = history_ok k (posted v) (obs v)"

definition gone :: "'v \<Rightarrow> nat" where "gone v = lost k (posted v) (obs v)"

text \<open>One read: the history divides at the position, and the reply is the first entries after it that are left.\<close>

lemma chat_read:
  assumes "client (XREAD 64 k pos) v = (r, v')" "ok v" "pos = FromNew \<or> up_to pos (posted v) a0"
  obtains a b where "ok v'" "prefix (posted v) (posted v')" "posted v' = a @ b" "up_to pos (posted v) a"
    and "(\<exists>e. r = ErrR e \<and> \<not> IsValkeyNil e) \<or>
      r = (let got = take 64 (drop (gone v' - length a) b) in if got = [] then NilR else StreamR [(k, got)])"
proof -
  obtain ks ch where h: "history_ok k (posted v') ks" "prefix (posted v) (posted v')" "choice_ok ch (obs v) ks"
    and s: "served ch (XREAD 64 k pos) ks r (obs v')"
    using reads [OF _ assms(1)] assms(2) by (auto simp: ok_def)
  have ks: "obs v' = ks" using s h(1) by (auto simp: served_def history_ok_def)
  have rep: "(\<exists>e. r = ErrR e \<and> \<not> IsValkeyNil e) \<or> r = read_stream ch 64 k pos ks"
    using s h(1) by (auto simp: served_def history_ok_def)
  have sorted: "sorted_wrt (<) (map fst (posted v'))" using h(1) by (simp add: history_ok_def)
  have held: "stream_at ks k = drop (gone v') (posted v')" using held_tail [OF h(1)] by (simp add: gone_def ks)
  obtain a b n where ab: "posted v' = a @ b" "up_to pos (posted v) a" "\<forall>e \<in> set a. fst e \<le> n" "\<forall>e \<in> set b. n < fst e"
    and n: "read_stream ch 64 k pos ks = (let got = take 64 (entries_after n (stream_at ks k)) in if got = [] then NilR else StreamR [(k, got)])"
  proof (cases pos)
    case FromNew
    obtain seen where seen: "posted v' = seen @ entries_after (ch_since ch) (posted v')" "\<forall>e \<in> set seen. fst e \<le> ch_since ch"
      using entries_after_tail [OF sorted] by blast
    have "\<forall>e \<in> set (posted v). fst e \<le> ch_since ch"
      using assms(2) h(3) by (auto simp: ok_def history_ok_def choice_ok_def)
    then have "prefix (posted v) seen"
      by (rule old_in_prefix [OF h(2) seen(1)])
    then show ?thesis
      using that [of seen _ "ch_since ch"] seen by (auto simp: FromNew read_stream_def entries_after_def Let_def)
  next
    case (After n)
    then have a0: "prefix a0 (posted v)" "a0 \<noteq> []" "n = fst (last a0)" using assms(3) by auto
    then obtain b where b: "posted v' = a0 @ b" using h(2) by (auto elim!: prefixE)
    have "\<forall>e \<in> set a0. fst e \<le> n"
      using sorted a0(2) unfolding a0(3) b by (induction a0) (auto simp: sorted_wrt_append less_imp_le)
    moreover have "\<forall>e \<in> set b. n < fst e" using sorted a0(2) unfolding a0(3) b by (auto simp: sorted_wrt_append)
    ultimately show ?thesis using that [of a0 b n] a0 b by (simp add: After read_stream_def)
  next
    case From0
    then show ?thesis using assms(3) by simp
  qed
  have "entries_after n (stream_at ks k) = drop (gone v' - length a) b"
    unfolding held ab(1) by (rule entries_after_drop [OF ab(3,4)])
  then show ?thesis
    by (intro that [OF _ h(2) ab(1,2)]) (use h(1) rep in \<open>simp_all only: ok_def ks n\<close>)
qed

lemma chat_subscriber_Suc:
  assumes "run_vk client (chat_subscriber E channelID (Suc reads) sends pos) v = (ms, v')"
    and "client (XREAD 64 k pos) v = (StreamR [(k, new)], v1)"
  shows "if sends < length (messages_of E new) then ms = take sends (messages_of E new) \<and> v' = v1
    else \<exists>later. ms = messages_of E new @ later \<and>
      run_vk client (chat_subscriber E channelID reads (sends - length (messages_of E new)) (reached_by pos new)) v1 = (later, v')"
proof -
  obtain now reached stop where f: "chat_forward E sends new pos = (now, reached, stop)" by (metis prod_cases3)
  note c = chat_forward_sends [OF f]
  show ?thesis
  proof (cases stop)
    case True
    then show ?thesis using assms f c by (simp add: key AsXRead_def)
  next
    case False
    then have now: "now = messages_of E new" "reached = reached_by pos new" "\<not> sends < length (messages_of E new)" using c by simp_all
    then show ?thesis using assms f False by (auto simp: key AsXRead_def run_vk_bind split: prod.splits)
  qed
qed

lemma chat_subscriber_skip:
  assumes "run_vk client (chat_subscriber E channelID (Suc reads) sends pos) v = (ms, v')"
  shows "client (XREAD 64 k pos) v = (NilR, v1) \<Longrightarrow> run_vk client (chat_subscriber E channelID reads sends pos) v1 = (ms, v')"
    and "client (XREAD 64 k pos) v = (ErrR e, v1) \<Longrightarrow> \<not> IsValkeyNil e \<Longrightarrow> ms = [] \<and> v' = v1"
  using assms by (simp_all add: key AsXRead_def IsValkeyNil_def)

text \<open>A subscriber is in reach of the end of the stream when all it has not read is left and trimming will not get there.\<close>

definition in_reach :: "stream_from \<Rightarrow> 'v \<Rightarrow> bool" where
  "in_reach pos v \<longleftrightarrow> (\<forall>a. pos \<noteq> FromNew \<and> up_to pos (posted v) a \<longrightarrow>
     gone v \<le> length a \<and> length (posted v) + 64 \<le> length a + streamMaxLen)"

lemma paced_read:
  assumes "paced client obs posted k calm" "calm v" "ok v" "in_reach pos v" "client (XREAD 64 k pos) v = (r, v')"
    and "prefix (posted v) (posted v')" "posted v' = a @ b" "up_to pos (posted v) a"
  shows "calm v' \<and> gone v' \<le> length a \<and> length b \<le> length (take 64 b) + streamMaxLen - 64"
proof -
  have p: "calm v'" "length (posted v') \<le> length (posted v) + 64"
    "gone v' \<le> max (gone v) (length (posted v') - streamMaxLen)"
    using assms(1-3,5) unfolding paced_def ok_def gone_def by blast+
  have le: "gone v \<le> length (posted v)" by (simp add: gone_def lost_def)
  have sum: "length (posted v') = length a + length b" using assms(7) by simp
  show ?thesis
  proof (cases "pos = FromNew")
    case True
    then have "length (posted v) \<le> length a" using assms(8) by (simp add: prefix_length_le)
    then show ?thesis using p le sum streamMaxLen_64 by auto
  next
    case False
    then have "gone v \<le> length a" "length (posted v) + 64 \<le> length a + streamMaxLen"
      using assms(4,8) by (auto simp: in_reach_def)
    then show ?thesis using p sum streamMaxLen_64 by auto
  qed
qed

text \<open>What a subscriber sends on, from any position: never an old message, none twice, none out of order; and no gap at a steady pace.\<close>

lemma subscriber_in_order:
  assumes "run_vk client (chat_subscriber E channelID reads sends pos) v = (ms, v')" "ok v"
    and "pos = FromNew \<or> up_to pos (posted v) a0"
  shows "\<exists>a new. posted v' = a @ new \<and> up_to pos (posted v) a \<and> subseq ms (messages_of E new) \<and>
    (paced client obs posted k calm \<and> calm v \<and> in_reach pos v \<longrightarrow> prefix ms (messages_of E new))"
  using assms
proof (induction reads arbitrary: sends pos v a0 ms)
  case 0
  have "\<exists>a new. posted v = a @ new \<and> up_to pos (posted v) a"
  proof (cases "pos = FromNew")
    case True
    then show ?thesis by (intro exI [of _ "posted v"] exI [of _ "[]"]) simp
  next
    case False
    then show ?thesis using 0 by (cases pos) (auto simp: prefix_def)
  qed
  then show ?case using 0 by auto
next
  case (Suc reads)
  obtain r v1 where r: "client (XREAD 64 k pos) v = (r, v1)" by fastforce
  obtain a b where g: "ok v1" "prefix (posted v) (posted v1)" "posted v1 = a @ b" "up_to pos (posted v) a"
    and rep: "(\<exists>e. r = ErrR e \<and> \<not> IsValkeyNil e) \<or>
      r = (let got = take 64 (drop (gone v1 - length a) b) in if got = [] then NilR else StreamR [(k, got)])"
    using chat_read [OF r Suc.prems(2,3)] by blast
  define skipped where "skipped = take (gone v1 - length a) b"
  define got where "got = take 64 (drop (gone v1 - length a) b)"
  define left where "left = drop 64 (drop (gone v1 - length a) b)"
  have b: "b = skipped @ got @ left" by (simp only: skipped_def got_def left_def append_take_drop_id)
  have steady: "calm v1 \<and> skipped = [] \<and> gone v1 \<le> length a \<and> length b + 64 \<le> length got + streamMaxLen"
    if "paced client obs posted k calm" "calm v" "in_reach pos v"
    using paced_read [OF that(1,2) Suc.prems(2) that(3) r g(2,3,4)] streamMaxLen_64
    by (auto simp: skipped_def got_def)
  consider (err) e where "r = ErrR e" "\<not> IsValkeyNil e" | (quiet) "r = NilR" "got = []" | (some) "r = StreamR [(k, got)]" "got \<noteq> []"
    using rep by (auto simp: got_def Let_def split: if_splits)
  then show ?case
  proof cases
    case err
    then have "ms = [] \<and> v' = v1" using chat_subscriber_skip(2) [OF Suc.prems(1)] r by blast
    then show ?thesis using g by auto
  next
    case quiet
    then have run: "run_vk client (chat_subscriber E channelID reads sends pos) v1 = (ms, v')"
      using chat_subscriber_skip(1) [OF Suc.prems(1)] r by blast
    have at: "pos = FromNew \<or> up_to pos (posted v1) a" using g(3,4) by (cases pos) auto
    have reach: "calm v1 \<and> in_reach pos v1" if c: "paced client obs posted k calm" "calm v" "in_reach pos v"
    proof -
      have "length a' = length a" if "pos \<noteq> FromNew" "up_to pos (posted v1) a'" for a'
        using that at g(1) up_to_unique [of _ "posted v1" a' a] by (cases pos) (auto simp: ok_def history_ok_def)
      then show ?thesis using steady [OF c] quiet(2) g(3) by (auto simp: in_reach_def)
    qed
    obtain a' new where "posted v' = a' @ new" "up_to pos (posted v1) a'" "subseq ms (messages_of E new)"
      "paced client obs posted k calm \<and> calm v1 \<and> in_reach pos v1 \<longrightarrow> prefix ms (messages_of E new)"
      using Suc.IH [OF run g(1) at] by blast
    moreover have "up_to pos (posted v) a'" if "up_to pos (posted v1) a'"
    proof (cases "pos = FromNew")
      case True
      then show ?thesis using up_to_later that g(2) by blast
    next
      case False
      then have "a' = a" using that at g(1) up_to_unique by (cases pos) (auto simp: ok_def history_ok_def)
      then show ?thesis using g(4) by simp
    qed
    ultimately show ?thesis using reach by blast
  next
    case some
    show ?thesis
    proof (cases "sends < length (messages_of E got)")
      case True
      then have ms: "ms = take sends (messages_of E got)" "v' = v1"
        using chat_subscriber_Suc [OF Suc.prems(1)] r some by auto
      have p: "prefix ms (messages_of E (got @ left))" unfolding ms(1)
        by (metis messages_of_simps(3) prefix_order.trans prefixI take_is_prefix)
      then have "subseq ms (messages_of E b)" unfolding b by (simp add: subseq_drop_many prefix_imp_subseq)
      then show ?thesis using g(3,4) ms(2) p steady b by (metis append_Nil)
    next
      case False
      let ?a = "a @ skipped @ got"
      have n: "reached_by pos got = After (fst (last ?a))" using some(2) by (simp add: reached_by_def)
      obtain later where l: "ms = messages_of E got @ later"
        "run_vk client (chat_subscriber E channelID reads (sends - length (messages_of E got)) (After (fst (last ?a)))) v1 = (later, v')"
        using chat_subscriber_Suc [OF Suc.prems(1)] r some False n by auto
      have at: "up_to (After (fst (last ?a))) (posted v1) ?a" using some(2) g(3) b by simp
      then obtain a' new where new: "posted v' = a' @ new" "up_to (After (fst (last ?a))) (posted v1) a'" "subseq later (messages_of E new)"
        "paced client obs posted k calm \<and> calm v1 \<and> in_reach (After (fst (last ?a))) v1 \<longrightarrow> prefix later (messages_of E new)"
        using Suc.IH [OF l(2) g(1)] by blast
      have uniq: "a' = ?a" if "up_to (After (fst (last ?a))) (posted v1) a'" for a'
        using up_to_unique [OF that at] g(1) by (simp add: ok_def history_ok_def)
      have "posted v' = a @ (skipped @ got @ new)" using new(1) uniq [OF new(2)] by simp
      moreover have "subseq ms (messages_of E (skipped @ got @ new))"
        unfolding l(1) messages_of_simps(3) by (rule subseq_drop_many) (simp add: subseq_append' new(3))
      moreover have "prefix ms (messages_of E (skipped @ got @ new))" if c: "paced client obs posted k calm" "calm v" "in_reach pos v"
      proof -
        have "in_reach (After (fst (last ?a))) v1"
          unfolding in_reach_def using steady [OF c] g(3) uniq b by fastforce
        then show ?thesis using new(4) c(1) steady [OF c] by (simp add: l(1))
      qed
      ultimately show ?thesis using g(4) by blast
    qed
  qed
qed

text \<open>At a steady pace a subscriber whose reads do not fail and whose receiver keeps receiving gets what it has not read.\<close>

lemma subscriber_complete:
  assumes "run_vk client (chat_subscriber E channelID reads sends (After (fst (last c)))) v = (ms, v')" "ok v"
    and "posted v = c @ rest @ extra" "c \<noteq> []" "in_reach (After (fst (last c))) v"
    and steady: "paced client obs posted k calm" "reads_well client obs k calm" and "calm v"
    and "length rest \<le> 64 * reads" "length (messages_of E rest) \<le> sends"
  shows "prefix (messages_of E rest) ms"
  using assms(1-5,8-)
proof (induction reads arbitrary: sends c v rest extra ms)
  case (Suc reads)
  let ?pos = "After (fst (last c))"
  obtain r v1 where r: "client (XREAD 64 k ?pos) v = (r, v1)" by fastforce
  have at: "up_to ?pos (posted v) c" using Suc.prems(3,4) by simp
  have okD: "ok w \<Longrightarrow> sorted_wrt (<) (map fst (posted w)) \<and> stream_ok k (obs w)" for w
    by (auto simp: ok_def history_ok_def stream_ok_def sorted_wrt_append suffix_def)
  obtain a b where g: "ok v1" "prefix (posted v) (posted v1)" "posted v1 = a @ b" "up_to ?pos (posted v) a"
    and rep: "(\<exists>e. r = ErrR e \<and> \<not> IsValkeyNil e) \<or>
      r = (let got = take 64 (drop (gone v1 - length a) b) in if got = [] then NilR else StreamR [(k, got)])"
    using chat_read [OF r Suc.prems(2)] at by blast
  have a: "a = c" using up_to_unique [OF g(4) at] okD [OF Suc.prems(2)] by simp
  have well: "\<forall>e. r \<noteq> ErrR e" using steady(2) Suc.prems(2,6) okD r by (auto simp: reads_well_def)
  note p = paced_read [OF steady(1) Suc.prems(6,2,5) r g(2,3,4)]
  obtain more where more: "b = rest @ extra @ more"
    using g(2,3) Suc.prems(3) by (auto simp: a prefix_def)
  let ?got = "take 64 b"
  have got: "r = (if ?got = [] then NilR else StreamR [(k, ?got)])" using rep well p by (simp add: Let_def)
  show ?case
  proof (cases "?got = []")
    case True
    then show ?thesis using more by simp
  next
    case False
    have all: "messages_of E b = messages_of E ?got @ messages_of E (drop 64 b)"
      by (metis append_take_drop_id messages_of_simps(3))
    show ?thesis
    proof (cases "sends < length (messages_of E ?got)")
      case True
      then have "ms = take sends (messages_of E b)"
        using chat_subscriber_Suc [OF Suc.prems(1)] r got False all by auto
      then show ?thesis using Suc.prems(8) by (simp add: more)
    next
      case sent: False
      let ?c = "c @ ?got"
      have n: "reached_by ?pos ?got = After (fst (last ?c))" using False by (simp add: reached_by_def)
      obtain later where l: "ms = messages_of E ?got @ later"
        "run_vk client (chat_subscriber E channelID reads (sends - length (messages_of E ?got)) (After (fst (last ?c)))) v1 = (later, v')"
        using chat_subscriber_Suc [OF Suc.prems(1)] r got False sent n by auto
      show ?thesis
      proof (cases "length rest \<le> 64")
        case True
        then show ?thesis by (simp add: l(1) more)
      next
        case long: False
        have rest: "messages_of E rest = messages_of E ?got @ messages_of E (drop 64 rest)"
          using long by (simp add: more) (metis append_take_drop_id messages_of_simps(3))
        have st: "posted v1 = ?c @ drop 64 rest @ extra @ more" using g(3) long by (simp add: a more)
        have "up_to (After (fst (last ?c))) (posted v1) ?c" using False g(3) a by (simp add: take_is_prefix)
        then have "a' = ?c" if "up_to (After (fst (last ?c))) (posted v1) a'" for a'
          using up_to_unique [OF that] okD [OF g(1)] by blast
        then have reach: "in_reach (After (fst (last ?c))) v1"
          using p streamMaxLen_64 unfolding in_reach_def g(3) a by fastforce
        have "prefix (messages_of E (drop 64 rest)) later"
          by (rule Suc.IH [OF l(2) g(1) st _ reach]) (use False p Suc.prems(7,8) rest in auto)
        then show ?thesis by (simp add: rest l(1))
      qed
    qed
  qed
qed auto

end

section \<open>Publishers and subscribers together\<close>

lemma published_decodes:
  assumes "marshalMessage E m = Inr raw" "\<And>u. ce_parse E (ce_str E u) = Inr u"
    and "\<And>d. json_Marshal (ce_json E) d = Inr raw \<Longrightarrow> json_Unmarshal (ce_json E) raw = Inr d"
  shows "entry_message E [(''msg'', raw)] = Inr m"
  using assms by (simp add: entry_message_def unmarshalMessage_def marshalMessage_def)

text \<open>
  A server with publishers: what happens before each read of the subscriber, and while it waits. \<open>Post m n\<close> runs \<open>Publish\<close>
  on a server that trims up to \<open>n\<close> entries when it may, \<open>Lapse k\<close> is the expiry of a key that has a time to live.
  Beside the keys the server keeps the history of every stream.
\<close>

datatype chat_event = Post ChannelMessage nat | Lapse string

type_synonym live_chat = "keyspace \<times> (string \<Rightarrow> stream) \<times> (chat_event list \<times> chat_event list) list"

definition trimming :: "nat \<Rightarrow> keyspace vk_client" where
  "trimming n c ks = vk_effect ((calm_choice ks)\<lparr>ch_trim := n\<rparr>) c ks"

definition publish_one :: "chat_env \<Rightarrow> ChannelMessage \<Rightarrow> nat \<Rightarrow> keyspace \<Rightarrow> keyspace" where
  "publish_one E m n ks = snd (run_vk (trimming n) (Chat_Publish E m) ks)"

fun chat_act :: "chat_env \<Rightarrow> chat_event \<Rightarrow> keyspace \<times> (string \<Rightarrow> stream) \<Rightarrow> keyspace \<times> (string \<Rightarrow> stream)" where
  "chat_act E (Post m n) (ks, h) =
     (let ks' = publish_one E m n ks; k = chat_streamKey E (ChannelID m)
      in (ks', if ks_last ks' = ks_last ks then h else h(k := h k @ [last (stream_at ks' k)])))"
| "chat_act E (Lapse k) (ks, h) = (if ttl_at ks k = None then ks else drop_key k ks, h)"

fun live_client :: "chat_env \<Rightarrow> live_chat vk_client" where
  "live_client E c (ks, h, []) = (case vk_effect (calm_choice ks) c ks of (r, ks') \<Rightarrow> (r, (ks', h, [])))"
| "live_client E c (ks, h, (early, late) # rest) =
     (let (ks1, h1) = fold (chat_act E) early (ks, h); (ks2, h2) = fold (chat_act E) late (ks1, h1)
      in case vk_effect ((calm_choice ks2)\<lparr>ch_since := ks_last ks1\<rparr>) c ks2 of (r, ks') \<Rightarrow> (r, (ks', h2, rest)))"

lemma expire_stream:
  assumes "0 < ttl"
  shows "stream_at (snd (expire_key k ttl ks)) k' = stream_at ks k'" "is_stream (snd (expire_key k ttl ks)) k' = is_stream ks k'"
    "ks_last (snd (expire_key k ttl ks)) = ks_last ks"
  using assms by (auto simp: expire_key_def put_key_def stream_at_def is_stream_def split: option.split)

lemma append_at:
  "stream_at (append_stream ch k (Some m) fs ks) k' = (if k' = k
     then drop (min (ch_trim ch) (length (stream_at ks k) + 1 - m)) (stream_at ks k @ [(ch_id ch, fs)]) else stream_at ks k')"
  "is_stream (append_stream ch k (Some m) fs ks) k' \<longleftrightarrow> k' = k \<or> is_stream ks k'"
  "ks_last (append_stream ch k (Some m) fs ks) = ch_id ch"
  by (simp_all add: append_stream_def Let_def) (simp_all add: put_key_def stream_at_def is_stream_def)

lemma publish_one_cases:
  assumes "0 < whole_seconds (ce_ttl E)" and "k = chat_streamKey E (ChannelID m)"
  obtains "publish_one E m n ks = ks"
  | entry cut where "fst entry = Suc (ks_last ks)" "cut \<le> length (stream_at ks k) + 1 - streamMaxLen" "is_stream ks k"
      "ks_last (publish_one E m n ks) = Suc (ks_last ks)"
      "stream_at (publish_one E m n ks) k = drop cut (stream_at ks k @ [entry])"
      "\<And>k'. k' \<noteq> k \<Longrightarrow> stream_at (publish_one E m n ks) k' = stream_at ks k'"
      "\<And>k'. is_stream (publish_one E m n ks) k' = is_stream ks k'"
proof (cases "publish_one E m n ks = ks")
  case False
  let ?ch = "(calm_choice ks)\<lparr>ch_trim := n\<rparr>"
  obtain raw where p: "is_stream ks k" "publish_one E m n ks = snd (expire_key k (1000 * whole_seconds (ce_ttl E))
      (append_stream ?ch k (Some streamMaxLen) [(''msg'', raw)] ks))"
    using False assms(2)
    by (auto simp: publish_one_def trimming_def Chat_Publish_def and_then_def do_err_def reply_Error_def calm_choice_def split_beta
        split: sum.splits option.splits if_splits)
  show ?thesis
    by (rule that(2) [of "(Suc (ks_last ks), [(''msg'', raw)])" "min n (length (stream_at ks k) + 1 - streamMaxLen)"])
      (use assms(1) p(1) in \<open>auto simp: p(2) expire_stream append_at calm_choice_def\<close>)
qed (rule that(1))

definition posts_only :: "chat_event \<Rightarrow> bool" where
  "posts_only e = (case e of Post m n \<Rightarrow> True | Lapse k \<Rightarrow> False)"

definition chat_later :: "string \<Rightarrow> keyspace \<times> (string \<Rightarrow> stream) \<Rightarrow> keyspace \<times> (string \<Rightarrow> stream) \<Rightarrow> bool \<Rightarrow> nat \<Rightarrow> bool" where
  "chat_later k s s' still n \<longleftrightarrow> history_ok k (snd s' k) (fst s') \<and> prefix (snd s k) (snd s' k) \<and> ks_last (fst s) \<le> ks_last (fst s') \<and>
     length (snd s' k) \<le> length (snd s k) + n \<and>
     (still \<longrightarrow> lost k (snd s' k) (fst s') \<le> max (lost k (snd s k) (fst s)) (length (snd s' k) - streamMaxLen))"

lemma post_later:
  assumes "0 < whole_seconds (ce_ttl E)" and ok: "history_ok k (h k) ks"
  shows "chat_later k (ks, h) (chat_act E (Post m n) (ks, h)) True 1"
proof (cases rule: publish_one_cases [OF assms(1) refl, of m n ks])
  case 1
  then show ?thesis using ok by (simp add: chat_later_def Let_def)
next
  case (2 entry cut)
  let ?k = "chat_streamKey E (ChannelID m)"
  have cut: "cut \<le> length (stream_at ks ?k)" using 2(2) by (simp add: streamMaxLen_def)
  then have last: "last (stream_at (publish_one E m n ks) ?k) = entry" by (simp add: 2(5))
  show ?thesis
  proof (cases "k = ?k")
    case True
    have suf: "suffix (drop cut (stream_at ks k) @ [entry]) (h k @ [entry])"
      using ok suffix_order.trans [OF suffix_drop [of cut "stream_at ks k"], of "h k"] by (simp add: history_ok_def)
    have "length (stream_at ks k) \<le> length (h k)" using ok by (auto simp: history_ok_def dest: suffix_length_le)
    then have "lost k (h k @ [entry]) (publish_one E m n ks) \<le> max (lost k (h k) ks) (length (h k @ [entry]) - streamMaxLen)"
      using cut 2(2,5) True by (auto simp: lost_def)
    moreover have "history_ok k (h k @ [entry]) (publish_one E m n ks)"
      using ok suf cut 2 True by (fastforce simp: history_ok_def sorted_wrt_append le_Suc_eq less_Suc_eq_le)
    ultimately show ?thesis using 2(4) last True by (simp add: chat_later_def Let_def)
  next
    case False
    then show ?thesis using ok 2 by (fastforce simp: chat_later_def history_ok_def lost_def Let_def)
  qed
qed

lemma lapse_later:
  assumes "history_ok k (h k) ks"
  shows "chat_later k (ks, h) (chat_act E (Lapse k') (ks, h)) False 1"
  using assms by (auto simp: chat_later_def history_ok_def drop_key_def stream_at_def is_stream_def)

lemma chat_act_later:
  assumes "0 < whole_seconds (ce_ttl E)" "history_ok k (snd s k) (fst s)"
  shows "chat_later k s (chat_act E a s) (posts_only a) 1"
proof (cases a)
  case (Post m n)
  then show ?thesis using post_later [OF assms(1), of k "snd s" "fst s" m n] assms(2) by (simp add: posts_only_def)
next
  case (Lapse k')
  then show ?thesis using lapse_later [of k "snd s" "fst s" E k'] assms(2) by (simp add: posts_only_def)
qed

lemma chat_later_trans:
  "chat_later k a b q n \<Longrightarrow> chat_later k b c q' n' \<Longrightarrow> chat_later k a c (q \<and> q') (n + n')"
  unfolding chat_later_def by (auto dest: prefix_length_le intro: prefix_order.trans)

lemma chat_acts_later:
  assumes "0 < whole_seconds (ce_ttl E)" "history_ok k (snd s k) (fst s)"
  shows "chat_later k s (fold (chat_act E) as s) (list_all posts_only as) (length as)"
  using assms(2)
proof (induction as arbitrary: s)
  case (Cons a as)
  have one: "chat_later k s (chat_act E a s) (posts_only a) 1" by (rule chat_act_later [OF assms(1) Cons.prems])
  then have "chat_later k (chat_act E a s) (fold (chat_act E) as (chat_act E a s)) (list_all posts_only as) (length as)"
    by (intro Cons.IH) (simp add: chat_later_def)
  from chat_later_trans [OF one this] show ?case by simp
qed (simp add: chat_later_def)

definition live_posted :: "string \<Rightarrow> live_chat \<Rightarrow> stream" where
  "live_posted k v = fst (snd v) k"

text \<open>A quiet script: nothing expires, and at most 64 messages come between two reads.\<close>

definition quiet_script :: "live_chat \<Rightarrow> bool" where
  "quiet_script v = list_all (\<lambda>(early, late). list_all posts_only (early @ late) \<and> length (early @ late) \<le> 64) (snd (snd v))"

lemma live_read:
  assumes "0 < whole_seconds (ce_ttl E)" "history_ok k (live_posted k v) (fst v)" "live_client E (XREAD 64 k pos) v = (r, v')"
  shows "\<exists>ch. history_ok k (live_posted k v') (fst v') \<and> prefix (live_posted k v) (live_posted k v') \<and> choice_ok ch (fst v) (fst v') \<and>
      served ch (XREAD 64 k pos) (fst v') r (fst v') \<and>
      (quiet_script v \<longrightarrow> quiet_script v' \<and> length (live_posted k v') \<le> length (live_posted k v) + 64 \<and>
        lost k (live_posted k v') (fst v') \<le> max (lost k (live_posted k v) (fst v)) (length (live_posted k v') - streamMaxLen))"
proof (cases "(E, XREAD 64 k pos, v)" rule: live_client.cases)
  case (1 E' c' ks h)
  then show ?thesis using assms
    by (intro exI [of _ "calm_choice ks"]) (auto simp: live_posted_def choice_ok_def calm_choice_def served_def)
next
  case (2 E' c' ks h early late rest)
  obtain ks1 h1 where s1: "fold (chat_act E) early (ks, h) = (ks1, h1)" by fastforce
  obtain ks2 h2 where s2: "fold (chat_act E) late (ks1, h1) = (ks2, h2)" by fastforce
  have l1: "chat_later k (ks, h) (ks1, h1) (list_all posts_only early) (length early)"
    using chat_acts_later [OF assms(1), of k "(ks, h)" early] assms(2) 2 s1 by (simp add: live_posted_def)
  then have l2: "chat_later k (ks1, h1) (ks2, h2) (list_all posts_only late) (length late)"
    using chat_acts_later [OF assms(1), of k "(ks1, h1)" late] s2 by (simp add: chat_later_def)
  note l = chat_later_trans [OF l1 l2]
  have v': "v' = (ks2, h2, rest)" "(r, ks2) = vk_effect ((calm_choice ks2)\<lparr>ch_since := ks_last ks1\<rparr>) (XREAD 64 k pos) ks2"
    using assms(3) 2 s1 s2 by auto
  show ?thesis
    using l l1 l2 v' 2
    by (intro exI [of _ "(calm_choice ks2)\<lparr>ch_since := ks_last ks1\<rparr>"])
      (auto simp: chat_later_def live_posted_def choice_ok_def calm_choice_def served_def quiet_script_def)
qed

lemma live_server: "0 < whole_seconds (ce_ttl E) \<Longrightarrow> chat_server (live_client E) fst (live_posted k) k"
  by unfold_locales (metis live_read)

lemma live_paced: "0 < whole_seconds (ce_ttl E) \<Longrightarrow> paced (live_client E) fst (live_posted k) k quiet_script"
  unfolding paced_def by (metis live_read)

text \<open>An instance: messages of one player in one channel, carried by their text.\<close>

definition text_message :: "string \<Rightarrow> ChannelMessage" where
  "text_message body = \<lparr>ChannelMessage_ID = 1, ChannelID = 9, Channel_SenderID = 3, Channel_Body = body, Channel_SentAt = 0\<rparr>"

definition text_chat :: chat_env where
  "text_chat = NewValkeyChat unary_str unary_parse \<lparr>json_Marshal = (\<lambda>d. Inr (cd_Body d)),
     json_Unmarshal = (\<lambda>raw. Inr \<lparr>cd_ID = unary_str 1, cd_ChannelID = unary_str 9, cd_SenderID = unary_str 3,
       cd_Body = raw, cd_SentAt = 0\<rparr>)\<rparr>"

lemma chat_ttl: "whole_seconds (600 * Second) = 600"
  by code_simp

interpretation text_sub: chat_subscription "live_client text_chat" fst "live_posted (chat_streamKey text_chat 9)" "chat_streamKey text_chat 9" text_chat 9
  by (intro chat_subscription.intro live_server chat_subscription_axioms.intro)
    (simp_all add: text_chat_def NewValkeyChat_def chat_ttl)

text \<open>
  C39. A chat subscriber never sees an old message, a message twice or messages out of order, whatever others
  publish, whatever the server trims and whenever the stream expires: what it has sent on is a subsequence of the
  messages appended to its channel's stream after the subscription began. At a steady pace, at most 64
  messages between two reads and no expiry, trimming to \<open>streamMaxLen\<close> opens no gap: it is then an
  initial part of them, and from an entry it has reached on, with all after it still in the stream and trimming not
  near it, a subscriber whose reads do not fail and whose receiver keeps receiving gets every message it had
  not read.
\<close>

theorem chat_subscriber_gapless:
  assumes "chat_server client obs posted (chat_streamKey E ch)" "history_ok (chat_streamKey E ch) (posted v) (obs v)"
    and "run_vk client (chat_subscriber E ch reads sends pos) v = (ms, v')"
  shows "(pos = FromNew \<longrightarrow> (\<exists>seen new. posted v' = seen @ new \<and> prefix (posted v) seen \<and> subseq ms (messages_of E new) \<and>
      (paced client obs posted (chat_streamKey E ch) calm \<and> calm v \<longrightarrow> prefix ms (messages_of E new)))) \<and>
    (\<forall>c rest. posted v = c @ rest \<and> c \<noteq> [] \<and> pos = After (fst (last c)) \<longrightarrow>
      (\<exists>new. posted v' = c @ new \<and> subseq ms (messages_of E new) \<and>
        (paced client obs posted (chat_streamKey E ch) calm \<and> calm v \<and>
           lost (chat_streamKey E ch) (posted v) (obs v) \<le> length c \<and> length rest + 64 \<le> streamMaxLen \<longrightarrow>
         prefix ms (messages_of E new) \<and>
         (reads_well client obs (chat_streamKey E ch) calm \<and> length rest \<le> 64 * reads \<and> length (messages_of E rest) \<le> sends \<longrightarrow>
            prefix (messages_of E rest) ms))))"
proof (intro conjI impI allI)
  have sub: "chat_subscription client obs posted (chat_streamKey E ch) E ch"
    using assms(1) by (simp add: chat_subscription_def chat_subscription_axioms_def)
  note ok = chat_subscription.ok_def [OF sub] and reach = chat_subscription.in_reach_def [OF sub] and gone = chat_subscription.gone_def [OF sub]
  have v: "chat_subscription.ok obs posted (chat_streamKey E ch) v" using assms(2) by (simp add: ok)
  note order = chat_subscription.subscriber_in_order [OF sub assms(3) v, where calm = calm]
  show "\<exists>seen new. posted v' = seen @ new \<and> prefix (posted v) seen \<and> subseq ms (messages_of E new) \<and>
      (paced client obs posted (chat_streamKey E ch) calm \<and> calm v \<longrightarrow> prefix ms (messages_of E new))" if "pos = FromNew"
    using order that by (auto simp: reach)
  show "\<exists>new. posted v' = c @ new \<and> subseq ms (messages_of E new) \<and>
        (paced client obs posted (chat_streamKey E ch) calm \<and> calm v \<and>
           lost (chat_streamKey E ch) (posted v) (obs v) \<le> length c \<and> length rest + 64 \<le> streamMaxLen \<longrightarrow>
         prefix ms (messages_of E new) \<and>
         (reads_well client obs (chat_streamKey E ch) calm \<and> length rest \<le> 64 * reads \<and> length (messages_of E rest) \<le> sends \<longrightarrow>
            prefix (messages_of E rest) ms))"
    if c: "posted v = c @ rest \<and> c \<noteq> [] \<and> pos = After (fst (last c))" for c rest
  proof -
    have at: "up_to pos (posted v) c" using c by simp
    have uniq: "a = c" if "up_to pos (posted v) a" for a
      using up_to_unique that at c assms(2) by (auto simp: history_ok_def)
    have near: "chat_subscription.in_reach obs posted (chat_streamKey E ch) pos v"
      if "lost (chat_streamKey E ch) (posted v) (obs v) \<le> length c" "length rest + 64 \<le> streamMaxLen"
      unfolding reach gone
    proof (intro allI impI)
      fix a
      assume "pos \<noteq> FromNew \<and> up_to pos (posted v) a"
      then have "a = c" using uniq by blast
      moreover have "length (posted v) = length c + length rest" using c by simp
      ultimately show "lost (chat_streamKey E ch) (posted v) (obs v) \<le> length a \<and> length (posted v) + 64 \<le> length a + streamMaxLen"
        using that by simp
    qed
    obtain new where new: "posted v' = c @ new" "subseq ms (messages_of E new)"
      "paced client obs posted (chat_streamKey E ch) calm \<and> calm v \<and> chat_subscription.in_reach obs posted (chat_streamKey E ch) pos v \<longrightarrow>
         prefix ms (messages_of E new)"
      using order [OF disjI2 [OF at]] uniq by blast
    show ?thesis
      using new near c chat_subscription.subscriber_complete [OF sub _ v, of reads sends c ms v' rest "[]" calm] assms(3) by auto
  qed
qed

lemma text_entry [simp]: "entry_message text_chat [(''msg'', body)] = Inr (text_message body)"
  by (simp add: entry_message_def unmarshalMessage_def text_chat_def NewValkeyChat_def unary_parse_def unary_str_def text_message_def)

lemma empty_stream [simp]: "stream_at empty_keyspace k = []" "is_stream empty_keyspace k" "ks_last empty_keyspace = 0"
  by (simp_all add: empty_keyspace_def stream_at_def is_stream_def)

definition chat_hello :: live_chat where
  "chat_hello = (empty_keyspace, (\<lambda>_. []), [([], [Post (text_message ''a'') 5, Post (text_message ''b'') 0]), ([Post (text_message ''c'') 1], [])])"

lemma publish_text:
  assumes "is_stream ks (chat_streamKey text_chat 9)" "length (stream_at ks (chat_streamKey text_chat 9)) < 1000"
  shows "stream_at (publish_one text_chat (text_message body) n ks) (chat_streamKey text_chat 9) =
      stream_at ks (chat_streamKey text_chat 9) @ [(Suc (ks_last ks), [(''msg'', body)])]"
    "is_stream (publish_one text_chat (text_message body) n ks) (chat_streamKey text_chat 9)"
    "ks_last (publish_one text_chat (text_message body) n ks) = Suc (ks_last ks)"
    "ttl_at (publish_one text_chat (text_message body) n ks) (chat_streamKey text_chat 9) = Some 600000"
proof -
  let ?k = "chat_streamKey text_chat 9" and ?ch = "(calm_choice ks)\<lparr>ch_trim := n\<rparr>"
  have p: "publish_one text_chat (text_message body) n ks = snd (expire_key ?k 600000 (append_stream ?ch ?k (Some streamMaxLen) [(''msg'', body)] ks))"
    using assms(1) by (simp add: publish_one_def trimming_def Chat_Publish_def and_then_def do_err_def reply_Error_def split_beta
        marshalMessage_def text_chat_def NewValkeyChat_def text_message_def chat_ttl calm_choice_def chat_streamKey_def)
  show "stream_at (publish_one text_chat (text_message body) n ks) ?k = stream_at ks ?k @ [(Suc (ks_last ks), [(''msg'', body)])]"
    "is_stream (publish_one text_chat (text_message body) n ks) ?k"
    "ks_last (publish_one text_chat (text_message body) n ks) = Suc (ks_last ks)"
    using assms(2) by (simp_all add: p expire_stream append_at streamMaxLen_def calm_choice_def)
  show "ttl_at (publish_one text_chat (text_message body) n ks) ?k = Some 600000"
    by (simp add: p expire_key_def append_stream_def put_key_def ttl_at_def Let_def)
qed

lemma dropped_stream [simp]: "stream_at (drop_key k ks) k = []" "is_stream (drop_key k ks) k" "ks_last (drop_key k ks) = ks_last ks"
  by (simp_all add: drop_key_def stream_at_def is_stream_def)

lemma text_key: "chat_streamKey text_chat (ChannelID (text_message body)) = chat_streamKey text_chat 9"
  by (simp add: text_message_def)

lemmas chat_run_simps = numeral_eq_Suc read_stream_def entries_after_def publish_text text_key calm_choice_def AsXRead_def run_vk_bind
  split_beta IsValkeyNil_def Let_def

theorem chat_subscriber_gapless_witness:
  "\<exists>seen new. live_posted (chat_streamKey text_chat 9)
       (snd (run_vk (live_client text_chat) (chat_subscriber text_chat 9 2 5 FromNew) chat_hello)) = seen @ new \<and>
     prefix (map text_message [''a'', ''b'', ''c'']) (messages_of text_chat new)"
proof -
  let ?k = "chat_streamKey text_chat 9" and ?c = "live_client text_chat"
  let ?run = "run_vk ?c (chat_subscriber text_chat 9 2 5 FromNew) chat_hello"
  have run: "fst ?run = map text_message [''a'', ''b'', ''c'']"
    by (simp add: chat_hello_def chat_run_simps)
  have ok: "history_ok ?k (live_posted ?k chat_hello) (fst chat_hello)" and calm: "quiet_script chat_hello"
    by (simp_all add: history_ok_def live_posted_def chat_hello_def quiet_script_def posts_only_def)
  have "paced ?c fst (live_posted ?k) ?k quiet_script"
    by (rule live_paced) (simp add: text_chat_def NewValkeyChat_def chat_ttl)
  then show ?thesis
    using mp [OF conjunct1 [OF chat_subscriber_gapless [OF text_sub.chat_server_axioms ok surjective_pairing [of ?run], where calm = quiet_script]] refl] calm
    unfolding run by blast
qed

text \<open>
  Without the pace there are gaps. Before the first message is received, the position is again \<open>$\<close> on each read: a message
  published after one read has timed out and before the next has begun is in the stream and is never
  delivered. Nor is one delivered that is followed by nothing until the key has expired.
\<close>

lemma dollar_gap:
  "let w = run_vk (live_client text_chat) (chat_subscriber text_chat 9 3 5 FromNew)
         (empty_keyspace, (\<lambda>_. []), [([], []), ([Post (text_message ''lost'') 0], []), ([], [])])
   in fst w = [] \<and> messages_of text_chat (live_posted (chat_streamKey text_chat 9) (snd w)) = [text_message ''lost'']"
  by (simp add: chat_run_simps live_posted_def)

lemma lapse_gap:
  "let w = run_vk (live_client text_chat) (chat_subscriber text_chat 9 2 5 FromNew)
         (empty_keyspace, (\<lambda>_. []), [([], [Post (text_message ''a'') 0]),
            ([Post (text_message ''lost'') 0, Lapse (chat_streamKey text_chat 9), Post (text_message ''b'') 0], [])])
   in fst w = map text_message [''a'', ''b''] \<and>
     messages_of text_chat (live_posted (chat_streamKey text_chat 9) (snd w)) = map text_message [''a'', ''lost'', ''b'']"
  by (simp add: chat_run_simps live_posted_def)

end
