(* ===== verification/Storage.thy ===== *)
theory Storage
  imports Connect
begin

text \<open>
  File storage: the domain package \<open>internal/domain/storage\<close>, the metadata repositories
  \<open>internal/infra/repository/storage.go\<close> over \<open>schema/db/queries/storage.sql\<close>, the usecase
  \<open>internal/usecase/storage\<close> with its \<open>BlobStore\<close> port, and the two Connect handlers of
  \<open>internal/presentation/gateway/storage\<close>.

  The object store is a record of operations on a state of its own; what the service relies on is
  the locale \<open>blob_store\<close>, interpreted on the in-memory store of \<open>internal/testutils/fakeblob\<close>.
  The lemmas show that no sequence of calls leaves a player over the quota, that players cannot reach
  each other's files or objects, and what a commit, a read and a deletion return.
\<close>

section \<open>Domain\<close>

definition MaxFilenameLength :: nat where
  "MaxFilenameLength = 256"

definition MaxFileSize :: "64 word" where
  "MaxFileSize = push_bit 20 25"

record File =
  File_Filename :: string
  File_Size :: "64 word"
  File_Hash :: string
  File_ModifiedAt :: go_time

definition ValidateFilename :: "string \<Rightarrow> unit result" where
  "ValidateFilename name =
     (if name = [] \<or> RuneCountInString name > MaxFilenameLength then Inl (StorageE ErrInvalidFilename)
      else if \<not> ValidString name then Inl (StorageE ErrInvalidFilename)
      else if name = ''.'' \<or> name = ''..'' then Inl (StorageE ErrInvalidFilename)
      else if TrimSpace name \<noteq> name then Inl (StorageE ErrInvalidFilename)
      else if list_ex (\<lambda>r. r = 47 \<or> r = 92 \<or> IsControl r) (range_runes name) then Inl (StorageE ErrInvalidFilename)
      else Inr ())"

definition ValidateSize :: "64 word \<Rightarrow> unit result" where
  "ValidateSize n = (if n > MaxFileSize then Inl (StorageE ErrFileTooLarge) else Inr ())"

definition NewFile :: "string \<Rightarrow> 64 word \<Rightarrow> string \<Rightarrow> go_time \<Rightarrow> File result" where
  "NewFile filename n hash modifiedAt =
     (case ValidateFilename filename of
        Inl err \<Rightarrow> Inl err
      | Inr _ \<Rightarrow> (case ValidateSize n of
          Inl err \<Rightarrow> Inl err
        | Inr _ \<Rightarrow> Inr \<lparr>File_Filename = filename, File_Size = n, File_Hash = hash, File_ModifiedAt = modifiedAt\<rparr>))"

section \<open>Statements\<close>

definition is_file :: "uuid \<Rightarrow> string \<Rightarrow> player_file_row \<Rightarrow> bool" where
  "is_file owner filename r \<longleftrightarrow> pf_owner_id r = owner \<and> pf_filename r = filename"

definition sql_GetPlayerFile :: "uuid \<Rightarrow> string \<Rightarrow> player_file_row tx" where
  "sql_GetPlayerFile owner filename = sql_one (\<lambda>t. List.find (is_file owner filename) (player_files t))"

text \<open>\<open>ORDER BY filename\<close> compares in the collation of the database, a parameter.\<close>

definition sql_ListPlayerFiles :: "(string \<Rightarrow> string \<Rightarrow> bool) \<Rightarrow> uuid \<Rightarrow> string \<Rightarrow> player_file_row list tx" where
  "sql_ListPlayerFiles collate owner pre = sql_query (\<lambda>t. sort_by (\<lambda>a b. collate (pf_filename a) (pf_filename b))
     (filter (\<lambda>r. pf_owner_id r = owner \<and> take (length pre) (pf_filename r) = pre) (player_files t)))"

definition sql_UpsertPlayerFile :: "uuid \<Rightarrow> uuid \<Rightarrow> string \<Rightarrow> int \<Rightarrow> string \<Rightarrow> go_time \<Rightarrow> unit tx" where
  "sql_UpsertPlayerFile uid owner filename n hash at = sql_exec (\<lambda>now t.
     case List.find (is_file owner filename) (player_files t) of
       Some _ \<Rightarrow> Inr ((), t\<lparr>player_files := map (\<lambda>r. if is_file owner filename r
           then r\<lparr>pf_size := n, pf_hash := hash, pf_modified_at := at\<rparr> else r) (player_files t)\<rparr>)
     | None \<Rightarrow>
         if uid \<in> pf_id ` set (player_files t) then Inl unique_violation
         else if \<not> has_player t owner then Inl foreign_key_violation
         else Inr ((), t\<lparr>player_files := player_files t @ [\<lparr>pf_id = uid, pf_owner_id = owner, pf_filename = filename,
           pf_size = n, pf_hash = hash, pf_modified_at = at, pf_created_at = now\<rparr>]\<rparr>))"

definition sql_DeletePlayerFile :: "uuid \<Rightarrow> string \<Rightarrow> unit tx" where
  "sql_DeletePlayerFile owner filename = sql_exec (\<lambda>now t.
     Inr ((), t\<lparr>player_files := filter (\<lambda>r. \<not> is_file owner filename r) (player_files t)\<rparr>))"

text \<open>\<open>SUM\<close> of \<open>BIGINT\<close> is exact; the cast back to \<open>BIGINT\<close> fails out of its range.\<close>

definition owner_files :: "tables \<Rightarrow> uuid \<Rightarrow> player_file_row list" where
  "owner_files t owner = filter (\<lambda>r. pf_owner_id r = owner) (player_files t)"

definition owner_total :: "tables \<Rightarrow> uuid \<Rightarrow> int" where
  "owner_total t owner = sum_list (map pf_size (owner_files t owner))"

definition sql_PlayerStorageUsage :: "uuid \<Rightarrow> (int \<times> nat) tx" where
  "sql_PlayerStorageUsage owner = stmt False (\<lambda>now t.
     if owner_total t owner < - (2 ^ 63) \<or> owner_total t owner \<ge> 2 ^ 63 then Inl (PgError ''22003'')
     else Inr ((owner_total t owner, length (owner_files t owner)), t))"

definition sql_ListTitleFiles :: "(string \<Rightarrow> string \<Rightarrow> bool) \<Rightarrow> string list \<Rightarrow> title_file_row list tx" where
  "sql_ListTitleFiles collate tags = sql_query (\<lambda>t. sort_by (\<lambda>a b. collate (tf_filename a) (tf_filename b))
     (filter (\<lambda>r. set tags \<subseteq> set (tf_tags r)) (title_files t)))"

definition sql_GetTitleFile :: "string \<Rightarrow> title_file_row tx" where
  "sql_GetTitleFile filename = sql_one (\<lambda>t. List.find (\<lambda>r. tf_filename r = filename) (title_files t))"

definition sql_UpsertTitleFile :: "uuid \<Rightarrow> string \<Rightarrow> int \<Rightarrow> string \<Rightarrow> string list \<Rightarrow> go_time \<Rightarrow> unit tx" where
  "sql_UpsertTitleFile uid filename n hash tags at = sql_exec (\<lambda>now t.
     if filename \<in> tf_filename ` set (title_files t)
     then Inr ((), t\<lparr>title_files := map (\<lambda>r. if tf_filename r = filename
           then r\<lparr>tf_size := n, tf_hash := hash, tf_tags := tags, tf_modified_at := at\<rparr> else r) (title_files t)\<rparr>)
     else if uid \<in> tf_id ` set (title_files t) then Inl unique_violation
     else Inr ((), t\<lparr>title_files := title_files t @ [\<lparr>tf_id = uid, tf_filename = filename, tf_size = n, tf_hash = hash,
           tf_tags = tags, tf_modified_at = at, tf_created_at = now\<rparr>]\<rparr>))"

definition sql_DeleteTitleFile :: "string \<Rightarrow> unit tx" where
  "sql_DeleteTitleFile filename = sql_exec (\<lambda>now t.
     Inr ((), t\<lparr>title_files := filter (\<lambda>r. tf_filename r \<noteq> filename) (title_files t)\<rparr>))"

section \<open>Repositories\<close>

definition playerFileToDomain :: "player_file_row \<Rightarrow> File" where
  "playerFileToDomain row = \<lparr>File_Filename = pf_filename row, File_Size = word_of_int (pf_size row), File_Hash = pf_hash row,
     File_ModifiedAt = pf_modified_at row\<rparr>"

definition titleFileToDomain :: "title_file_row \<Rightarrow> File" where
  "titleFileToDomain row = \<lparr>File_Filename = tf_filename row, File_Size = word_of_int (tf_size row), File_Hash = tf_hash row,
     File_ModifiedAt = tf_modified_at row\<rparr>"

definition PlayerFile_GetFile :: "uuid \<Rightarrow> string \<Rightarrow> File tx" where
  "PlayerFile_GetFile owner filename =
     tx_bind (tx_mapping (DbE ErrNoRows) (StorageE ErrFileNotFound) (sql_GetPlayerFile owner filename))
       (\<lambda>row. tx_return (playerFileToDomain row))"

definition PlayerFile_ListFiles :: "(string \<Rightarrow> string \<Rightarrow> bool) \<Rightarrow> uuid \<Rightarrow> string \<Rightarrow> File list tx" where
  "PlayerFile_ListFiles collate owner pre =
     tx_bind (sql_ListPlayerFiles collate owner pre) (\<lambda>rows. tx_return (map playerFileToDomain rows))"

definition PlayerFile_SaveFile :: "uuid \<Rightarrow> uuid \<Rightarrow> File \<Rightarrow> unit tx" where
  "PlayerFile_SaveFile uid owner f =
     sql_UpsertPlayerFile uid owner (File_Filename f) (sint (File_Size f)) (File_Hash f) (toTimestamptz (File_ModifiedAt f))"

definition PlayerFile_DeleteFile :: "uuid \<Rightarrow> string \<Rightarrow> unit tx" where
  "PlayerFile_DeleteFile owner filename = sql_DeletePlayerFile owner filename"

definition PlayerFile_Usage :: "uuid \<Rightarrow> (64 word \<times> int) tx" where
  "PlayerFile_Usage owner =
     tx_bind (sql_PlayerStorageUsage owner) (\<lambda>(total, n). tx_return (word_of_int total, int n))"

text \<open>A nil slice of tags is written as the empty array.\<close>

definition tags_or_empty :: "string list option \<Rightarrow> string list" where
  "tags_or_empty tags = (case tags of None \<Rightarrow> [] | Some ts \<Rightarrow> ts)"

definition TitleFile_ListFiles :: "(string \<Rightarrow> string \<Rightarrow> bool) \<Rightarrow> string list option \<Rightarrow> File list tx" where
  "TitleFile_ListFiles collate tags =
     tx_bind (sql_ListTitleFiles collate (tags_or_empty tags)) (\<lambda>rows. tx_return (map titleFileToDomain rows))"

definition TitleFile_GetFile :: "string \<Rightarrow> File tx" where
  "TitleFile_GetFile filename =
     tx_bind (tx_mapping (DbE ErrNoRows) (StorageE ErrFileNotFound) (sql_GetTitleFile filename))
       (\<lambda>row. tx_return (titleFileToDomain row))"

definition TitleFile_DeleteFile :: "string \<Rightarrow> unit tx" where
  "TitleFile_DeleteFile filename = sql_DeleteTitleFile filename"

definition TitleFile_SaveFile :: "uuid \<Rightarrow> File \<Rightarrow> string list option \<Rightarrow> unit tx" where
  "TitleFile_SaveFile uid f tags =
     sql_UpsertTitleFile uid (File_Filename f) (sint (File_Size f)) (File_Hash f) (tags_or_empty tags) (toTimestamptz (File_ModifiedAt f))"

section \<open>The object store\<close>

record SignedURL =
  URL :: string
  URL_Method :: string
  URL_Headers :: "string \<rightharpoonup> string"
  URL_Expires :: go_time

record ObjectAttrs =
  Attrs_Size :: "64 word"
  Attrs_Hash :: string

text \<open>The operations of \<open>BlobStore\<close> on the state \<open>'b\<close> of the store.\<close>

record 'b BlobStore =
  blob_SignUpload :: "string \<Rightarrow> duration \<Rightarrow> 'b \<Rightarrow> SignedURL result \<times> 'b"
  blob_SignDownload :: "string \<Rightarrow> duration \<Rightarrow> 'b \<Rightarrow> SignedURL result \<times> 'b"
  blob_Upload :: "string \<Rightarrow> string \<Rightarrow> string \<Rightarrow> 'b \<Rightarrow> unit result \<times> 'b"
  blob_Stat :: "string \<Rightarrow> 'b \<Rightarrow> ObjectAttrs result \<times> 'b"
  blob_Delete :: "string \<Rightarrow> 'b \<Rightarrow> unit result \<times> 'b"

section \<open>Usecase\<close>

record StorageConfig =
  PlayerDataPrefix :: string
  TitlePrefix :: string
  URLTTL :: duration
  MaxBytesPerPlayer :: "64 word"
  MaxFilesPerPlayer :: int

record 'b StorageUsecase =
  su_blobs :: "'b BlobStore"
  su_cfg :: StorageConfig
  su_str :: "uuid \<Rightarrow> string"
  su_collate :: "string \<Rightarrow> string \<Rightarrow> bool"

text \<open>Code that calls the database session and the object store in turn.\<close>

type_synonym ('b, 'a) io = "db \<times> 'b \<Rightarrow> 'a result \<times> db \<times> 'b"

definition io_return :: "'a \<Rightarrow> ('b, 'a) io" where
  "io_return x w = (Inr x, w)"

definition io_check :: "'a result \<Rightarrow> ('a \<Rightarrow> ('b, 'c) io) \<Rightarrow> ('b, 'c) io" where
  "io_check r f w = (case r of Inl err \<Rightarrow> (Inl err, w) | Inr x \<Rightarrow> f x w)"

definition io_session :: "'a tx \<Rightarrow> ('a \<Rightarrow> ('b, 'c) io) \<Rightarrow> ('b, 'c) io" where
  "io_session m f = (\<lambda>(s, b). case m s of (Inl err, s') \<Rightarrow> (Inl err, s', b) | (Inr x, s') \<Rightarrow> f x (s', b))"

definition io_blob :: "('b \<Rightarrow> 'a result \<times> 'b) \<Rightarrow> ('a result \<Rightarrow> ('b, 'c) io) \<Rightarrow> ('b, 'c) io" where
  "io_blob m f = (\<lambda>(s, b). case m b of (r, b') \<Rightarrow> f r (s, b'))"

lemmas io_defs = io_return_def io_check_def io_session_def io_blob_def

definition playerKey :: "'b StorageUsecase \<Rightarrow> uuid \<Rightarrow> string \<Rightarrow> string" where
  "playerKey u owner filename = path_Join [PlayerDataPrefix (su_cfg u), su_str u owner, filename]"

definition titleKey :: "'b StorageUsecase \<Rightarrow> string \<Rightarrow> string" where
  "titleKey u filename = path_Join [TitlePrefix (su_cfg u), filename]"

definition over_quota :: "StorageConfig \<Rightarrow> 64 word \<Rightarrow> int \<Rightarrow> 64 word \<Rightarrow> unit tx" where
  "over_quota cfg used n sz =
     (if used + sz > MaxBytesPerPlayer cfg \<or> n > MaxFilesPerPlayer cfg then tx_fail (StorageE ErrQuotaExceeded) else tx_return ())"

definition checkQuota :: "StorageConfig \<Rightarrow> uuid \<Rightarrow> string \<Rightarrow> 64 word \<Rightarrow> unit tx" where
  "checkQuota cfg owner filename sz =
     tx_bind (PlayerFile_Usage owner) (\<lambda>(total, n).
     tx_bind (tx_optional (StorageE ErrFileNotFound) (PlayerFile_GetFile owner filename)) (\<lambda>existing.
     case existing of
       Some f \<Rightarrow> over_quota cfg (total - File_Size f) n sz
     | None \<Rightarrow> over_quota cfg total (n + 1) sz))"

definition QueryPlayerFiles :: "'b StorageUsecase \<Rightarrow> uuid \<Rightarrow> string \<Rightarrow> ('b, File list) io" where
  "QueryPlayerFiles u owner pre = io_session (RO (PlayerFile_ListFiles (su_collate u) owner pre)) io_return"

definition ReadPlayerFile :: "'b StorageUsecase \<Rightarrow> uuid \<Rightarrow> string \<Rightarrow> ('b, File \<times> SignedURL) io" where
  "ReadPlayerFile u owner filename =
     io_check (ValidateFilename filename) (\<lambda>_.
     io_session (RO (PlayerFile_GetFile owner filename)) (\<lambda>file.
     io_blob (blob_SignDownload (su_blobs u) (playerKey u owner filename) (URLTTL (su_cfg u))) (\<lambda>r.
     io_check r (\<lambda>url. io_return (file, url)))))"

definition WritePlayerFile :: "'b StorageUsecase \<Rightarrow> uuid \<Rightarrow> string \<Rightarrow> 64 word \<Rightarrow> ('b, SignedURL) io" where
  "WritePlayerFile u owner filename sz =
     io_check (ValidateFilename filename) (\<lambda>_.
     io_check (ValidateSize sz) (\<lambda>_.
     io_session (RO (checkQuota (su_cfg u) owner filename sz)) (\<lambda>_.
     io_blob (blob_SignUpload (su_blobs u) (playerKey u owner filename) (URLTTL (su_cfg u))) (\<lambda>r.
     io_check r io_return))))"

definition commit_work :: "StorageConfig \<Rightarrow> uuid \<Rightarrow> uuid \<Rightarrow> string \<Rightarrow> File \<Rightarrow> unit tx" where
  "commit_work cfg uid owner filename file =
     tx_bind (checkQuota cfg owner filename (File_Size file)) (\<lambda>_. PlayerFile_SaveFile uid owner file)"

definition CommitPlayerFile :: "'b StorageUsecase \<Rightarrow> uuid \<Rightarrow> uuid \<Rightarrow> string \<Rightarrow> go_time \<Rightarrow> ('b, File) io" where
  "CommitPlayerFile u uid owner filename now =
     io_check (ValidateFilename filename) (\<lambda>_.
     io_blob (blob_Stat (su_blobs u) (playerKey u owner filename)) (\<lambda>r.
     io_check (case r of
         Inl err \<Rightarrow> Inl (if errors_Is err (StorageE ErrObjectNotFound) then StorageE ErrUploadIncomplete else err)
       | Inr attrs \<Rightarrow> Inr attrs) (\<lambda>attrs.
     io_check (NewFile filename (Attrs_Size attrs) (Attrs_Hash attrs) now) (\<lambda>file.
     io_session (RW (commit_work (su_cfg u) uid owner filename file)) (\<lambda>_. io_return file)))))"

definition delete_player_work :: "uuid \<Rightarrow> string \<Rightarrow> unit tx" where
  "delete_player_work owner filename =
     tx_bind (PlayerFile_GetFile owner filename) (\<lambda>_. PlayerFile_DeleteFile owner filename)"

definition DeletePlayerFile :: "'b StorageUsecase \<Rightarrow> uuid \<Rightarrow> string \<Rightarrow> ('b, unit) io" where
  "DeletePlayerFile u owner filename =
     io_check (ValidateFilename filename) (\<lambda>_.
     io_session (RW (delete_player_work owner filename)) (\<lambda>_.
     io_blob (blob_Delete (su_blobs u) (playerKey u owner filename)) (\<lambda>_. io_return ())))"

definition QueryTitleFiles :: "'b StorageUsecase \<Rightarrow> string list option \<Rightarrow> ('b, File list) io" where
  "QueryTitleFiles u tags = io_session (RO (TitleFile_ListFiles (su_collate u) tags)) io_return"

definition PublishTitleFile :: "'b StorageUsecase \<Rightarrow> uuid \<Rightarrow> string \<Rightarrow> string list option \<Rightarrow> string \<Rightarrow> string \<Rightarrow> go_time \<Rightarrow> ('b, File) io" where
  "PublishTitleFile u uid filename tags data contentType now =
     io_check (ValidateFilename filename) (\<lambda>_.
     io_check (ValidateSize (of_nat (length data))) (\<lambda>_.
     io_blob (blob_Upload (su_blobs u) (titleKey u filename) data contentType) (\<lambda>r. io_check r (\<lambda>_.
     io_blob (blob_Stat (su_blobs u) (titleKey u filename)) (\<lambda>r. io_check r (\<lambda>attrs.
     io_check (NewFile filename (Attrs_Size attrs) (Attrs_Hash attrs) now) (\<lambda>file.
     io_session (RW (TitleFile_SaveFile uid file tags)) (\<lambda>_. io_return file))))))))"

definition delete_title_work :: "string \<Rightarrow> unit tx" where
  "delete_title_work filename = tx_bind (TitleFile_GetFile filename) (\<lambda>_. TitleFile_DeleteFile filename)"

definition DeleteTitleFile :: "'b StorageUsecase \<Rightarrow> string \<Rightarrow> ('b, unit) io" where
  "DeleteTitleFile u filename =
     io_check (ValidateFilename filename) (\<lambda>_.
     io_session (RW (delete_title_work filename)) (\<lambda>_.
     io_blob (blob_Delete (su_blobs u) (titleKey u filename)) (\<lambda>_. io_return ())))"

definition ReadTitleFile :: "'b StorageUsecase \<Rightarrow> string \<Rightarrow> ('b, File \<times> SignedURL) io" where
  "ReadTitleFile u filename =
     io_check (ValidateFilename filename) (\<lambda>_.
     io_session (RO (TitleFile_GetFile filename)) (\<lambda>file.
     io_blob (blob_SignDownload (su_blobs u) (titleKey u filename) (URLTTL (su_cfg u))) (\<lambda>r.
     io_check r (\<lambda>url. io_return (file, url)))))"

section \<open>Handlers\<close>

record FileMetadataPb =
  FileMetadataPb_Filename :: string
  FileMetadataPb_Size :: "64 word"
  FileMetadataPb_Hash :: string
  FileMetadataPb_ModifiedAt :: go_time

definition toFileMetadataPb :: "File \<Rightarrow> FileMetadataPb" where
  "toFileMetadataPb f = \<lparr>FileMetadataPb_Filename = File_Filename f, FileMetadataPb_Size = File_Size f,
     FileMetadataPb_Hash = File_Hash f, FileMetadataPb_ModifiedAt = File_ModifiedAt f\<rparr>"

definition toFileMetadataListPb :: "File list \<Rightarrow> FileMetadataPb list" where
  "toFileMetadataListPb files = map toFileMetadataPb files"

definition storage_toConnectError :: "go_error \<Rightarrow> connect_error" where
  "storage_toConnectError err =
     (if errors_Is err (StorageE ErrInvalidFilename) \<or> errors_Is err (StorageE ErrFileTooLarge) then (CodeInvalidArgument, err)
      else if errors_Is err (StorageE ErrFileNotFound) then (CodeNotFound, err)
      else if errors_Is err (StorageE ErrQuotaExceeded) then (CodeResourceExhausted, err)
      else if errors_Is err (StorageE ErrUploadIncomplete) then (CodeFailedPrecondition, err)
      else (CodeInternal, err))"

type_synonym ReadFileResponse = "FileMetadataPb \<times> string \<times> go_time"

definition readFileResponse :: "File \<times> SignedURL \<Rightarrow> ReadFileResponse" where
  "readFileResponse = (\<lambda>(file, url). (toFileMetadataPb file, URL url, URL_Expires url))"

definition PlayerData_QueryFiles :: "'b StorageUsecase \<Rightarrow> ctx \<Rightarrow> string \<Rightarrow> db \<times> 'b \<Rightarrow> FileMetadataPb list response \<times> db \<times> 'b" where
  "PlayerData_QueryFiles u c pre w = or_return (requireAuth c) w (\<lambda>owner.
     respond storage_toConnectError toFileMetadataListPb (QueryPlayerFiles u owner pre w))"

definition PlayerData_ReadFile :: "'b StorageUsecase \<Rightarrow> ctx \<Rightarrow> string \<Rightarrow> db \<times> 'b \<Rightarrow> ReadFileResponse response \<times> db \<times> 'b" where
  "PlayerData_ReadFile u c filename w = or_return (requireAuth c) w (\<lambda>owner.
     respond storage_toConnectError readFileResponse (ReadPlayerFile u owner filename w))"

definition PlayerData_WriteFile ::
    "'b StorageUsecase \<Rightarrow> ctx \<Rightarrow> string \<Rightarrow> 64 word \<Rightarrow> db \<times> 'b \<Rightarrow> (string \<times> (string \<rightharpoonup> string) \<times> go_time) response \<times> db \<times> 'b" where
  "PlayerData_WriteFile u c filename sz w = or_return (requireAuth c) w (\<lambda>owner.
     respond storage_toConnectError (\<lambda>url. (URL url, URL_Headers url, URL_Expires url)) (WritePlayerFile u owner filename sz w))"

definition PlayerData_CommitFile ::
    "'b StorageUsecase \<Rightarrow> uuid \<Rightarrow> ctx \<Rightarrow> string \<Rightarrow> go_time \<Rightarrow> db \<times> 'b \<Rightarrow> FileMetadataPb response \<times> db \<times> 'b" where
  "PlayerData_CommitFile u uid c filename now w = or_return (requireAuth c) w (\<lambda>owner.
     respond storage_toConnectError toFileMetadataPb (CommitPlayerFile u uid owner filename now w))"

definition PlayerData_DeleteFile :: "'b StorageUsecase \<Rightarrow> ctx \<Rightarrow> string \<Rightarrow> db \<times> 'b \<Rightarrow> unit response \<times> db \<times> 'b" where
  "PlayerData_DeleteFile u c filename w = or_return (requireAuth c) w (\<lambda>owner.
     respond storage_toConnectError (\<lambda>x. x) (DeletePlayerFile u owner filename w))"

definition Title_QueryFiles :: "'b StorageUsecase \<Rightarrow> ctx \<Rightarrow> string list option \<Rightarrow> db \<times> 'b \<Rightarrow> FileMetadataPb list response \<times> db \<times> 'b" where
  "Title_QueryFiles u c tags w = or_return (requireAuth c) w (\<lambda>_.
     respond storage_toConnectError toFileMetadataListPb (QueryTitleFiles u tags w))"

definition Title_ReadFile :: "'b StorageUsecase \<Rightarrow> ctx \<Rightarrow> string \<Rightarrow> db \<times> 'b \<Rightarrow> ReadFileResponse response \<times> db \<times> 'b" where
  "Title_ReadFile u c filename w = or_return (requireAuth c) w (\<lambda>_.
     respond storage_toConnectError readFileResponse (ReadTitleFile u filename w))"

section \<open>Contract of the object store\<close>

text \<open>
  \<open>objects b k\<close> is what the store in state \<open>b\<close> holds at key \<open>k\<close>. \<open>Stat\<close> reports it and says \<open>ErrObjectNotFound\<close>
  only of an empty key; signing changes nothing; an upload and a deletion touch their key only, and a
  deletion that returned without an error has emptied it.
\<close>

locale blob_store =
  fixes blobs :: "'b BlobStore" and objects :: "'b \<Rightarrow> string \<Rightarrow> ObjectAttrs option"
  assumes stat: "blob_Stat blobs k b = (Inr a, b') \<Longrightarrow> objects b k = Some a"
    and stat_missing: "blob_Stat blobs k b = (Inl e, b') \<Longrightarrow> errors_Is e (StorageE ErrObjectNotFound) \<Longrightarrow> objects b k = None"
    and stat_reads: "objects (snd (blob_Stat blobs k b)) = objects b"
    and sign_reads: "objects (snd (blob_SignUpload blobs k d b)) = objects b" "objects (snd (blob_SignDownload blobs k d b)) = objects b"
    and upload_key: "k' \<noteq> k \<Longrightarrow> objects (snd (blob_Upload blobs k data ct b)) k' = objects b k'"
    and delete_key: "k' \<noteq> k \<Longrightarrow> objects (snd (blob_Delete blobs k b)) k' = objects b k'"
    and deleted: "blob_Delete blobs k b = (Inr r, b') \<Longrightarrow> objects b' k = None"

section \<open>The in-memory object store\<close>

record FakeBlob =
  fb_objects :: "string \<rightharpoonup> ObjectAttrs"
  fb_DeleteErr :: "go_error option"

definition NewFakeBlob :: FakeBlob where
  "NewFakeBlob = \<lparr>fb_objects = Map.empty, fb_DeleteErr = None\<rparr>"

definition fake_Put :: "string \<Rightarrow> ObjectAttrs \<Rightarrow> FakeBlob \<Rightarrow> FakeBlob" where
  "fake_Put key attrs b = b\<lparr>fb_objects := (fb_objects b)(key \<mapsto> attrs)\<rparr>"

definition fake_Has :: "string \<Rightarrow> FakeBlob \<Rightarrow> bool" where
  "fake_Has key b \<longleftrightarrow> fb_objects b key \<noteq> None"

text \<open>\<open>hash/fnv\<close>'s 64-bit FNV-1a and \<open>strconv.FormatUint(\<dots>, 16)\<close>.\<close>

definition fnv64a :: "string \<Rightarrow> 64 word" where
  "fnv64a data = fold (\<lambda>c h. (xor h (of_nat (of_char c))) * 1099511628211) data 14695981039346656037"

fun format_hex :: "nat \<Rightarrow> string" where
  "format_hex n = (if n < 16 then [''0123456789abcdef'' ! n] else format_hex (n div 16) @ [''0123456789abcdef'' ! (n mod 16)])"

declare format_hex.simps [simp del]

definition fake_SignUpload :: "go_time \<Rightarrow> string \<Rightarrow> duration \<Rightarrow> FakeBlob \<Rightarrow> SignedURL result \<times> FakeBlob" where
  "fake_SignUpload now key ttl b = (Inr \<lparr>URL = ''https://blob.test/'' @ key, URL_Method = ''PUT'', URL_Headers = Map.empty,
     URL_Expires = now + ttl\<rparr>, b)"

definition fake_SignDownload :: "go_time \<Rightarrow> string \<Rightarrow> duration \<Rightarrow> FakeBlob \<Rightarrow> SignedURL result \<times> FakeBlob" where
  "fake_SignDownload now key ttl b = (Inr \<lparr>URL = ''https://blob.test/'' @ key, URL_Method = ''GET'', URL_Headers = Map.empty,
     URL_Expires = now + ttl\<rparr>, b)"

definition fake_Upload :: "string \<Rightarrow> string \<Rightarrow> string \<Rightarrow> FakeBlob \<Rightarrow> unit result \<times> FakeBlob" where
  "fake_Upload key data contentType b = (Inr (), fake_Put key
     \<lparr>Attrs_Size = of_nat (length data), Attrs_Hash = format_hex (unat (fnv64a data))\<rparr> b)"

definition fake_Stat :: "string \<Rightarrow> FakeBlob \<Rightarrow> ObjectAttrs result \<times> FakeBlob" where
  "fake_Stat key b = (case fb_objects b key of
     None \<Rightarrow> (Inl (StorageE ErrObjectNotFound), b) | Some attrs \<Rightarrow> (Inr attrs, b))"

definition fake_Delete :: "string \<Rightarrow> FakeBlob \<Rightarrow> unit result \<times> FakeBlob" where
  "fake_Delete key b = (case fb_DeleteErr b of
     Some err \<Rightarrow> (Inl err, b) | None \<Rightarrow> (Inr (), b\<lparr>fb_objects := (fb_objects b)(key := None)\<rparr>))"

definition fake_blobs :: "go_time \<Rightarrow> FakeBlob BlobStore" where
  "fake_blobs now = \<lparr>blob_SignUpload = fake_SignUpload now, blob_SignDownload = fake_SignDownload now, blob_Upload = fake_Upload,
     blob_Stat = fake_Stat, blob_Delete = fake_Delete\<rparr>"

interpretation fakeblob: blob_store "fake_blobs now" fb_objects for now
  by unfold_locales (auto simp: fake_blobs_def fake_Stat_def fake_SignUpload_def fake_SignDownload_def fake_Upload_def
      fake_Put_def fake_Delete_def split: option.splits)

section \<open>Rows and totals\<close>

definition row_ok :: "tables \<Rightarrow> player_file_row \<Rightarrow> bool" where
  "row_ok t r \<longleftrightarrow> has_player t (pf_owner_id r) \<and> ValidateFilename (pf_filename r) = Inr () \<and>
     0 \<le> pf_size r \<and> pf_size r \<le> uint MaxFileSize"

definition files_ok :: "tables \<Rightarrow> bool" where
  "files_ok t \<longleftrightarrow> distinct (map (\<lambda>r. (pf_owner_id r, pf_filename r)) (player_files t)) \<and> (\<forall>r \<in> set (player_files t). row_ok t r)"

definition within_quota :: "StorageConfig \<Rightarrow> tables \<Rightarrow> bool" where
  "within_quota cfg t \<longleftrightarrow> (\<forall>owner. owner_files t owner \<noteq> [] \<longrightarrow>
     owner_total t owner \<le> uint (MaxBytesPerPlayer cfg) \<and> int (length (owner_files t owner)) \<le> MaxFilesPerPlayer cfg)"

definition replaced :: "tables \<Rightarrow> uuid \<Rightarrow> string \<Rightarrow> player_file_row option" where
  "replaced t owner filename = List.find (is_file owner filename) (player_files t)"

definition total_after :: "tables \<Rightarrow> uuid \<Rightarrow> string \<Rightarrow> int \<Rightarrow> int" where
  "total_after t owner filename n = owner_total t owner - (case replaced t owner filename of Some r \<Rightarrow> pf_size r | None \<Rightarrow> 0) + n"

definition count_after :: "tables \<Rightarrow> uuid \<Rightarrow> string \<Rightarrow> int" where
  "count_after t owner filename = int (length (owner_files t owner)) + (case replaced t owner filename of Some r \<Rightarrow> 0 | None \<Rightarrow> 1)"

definition fits :: "StorageConfig \<Rightarrow> tables \<Rightarrow> uuid \<Rightarrow> string \<Rightarrow> 64 word \<Rightarrow> bool" where
  "fits cfg t owner filename sz \<longleftrightarrow> total_after t owner filename (uint sz) \<le> uint (MaxBytesPerPlayer cfg) \<and>
     count_after t owner filename \<le> MaxFilesPerPlayer cfg"

lemma total_bounds:
  assumes "files_ok t"
  shows "0 \<le> owner_total t owner" "replaced t owner filename = Some r \<Longrightarrow> 0 \<le> pf_size r \<and> pf_size r \<le> owner_total t owner"
proof -
  have nonneg: "0 \<le> pf_size r" if "r \<in> set (player_files t)" for r
    using assms that by (simp add: files_ok_def row_ok_def)
  then show "0 \<le> owner_total t owner"
    by (auto simp: owner_total_def owner_files_def intro!: sum_list_nonneg)
  assume "replaced t owner filename = Some r"
  then have r: "r \<in> set (player_files t)" "pf_owner_id r = owner"
    by (auto simp: replaced_def is_file_def dest: find_Some)
  then have "pf_size r \<in> set (map pf_size (owner_files t owner))" by (auto simp: owner_files_def)
  then show "0 \<le> pf_size r \<and> pf_size r \<le> owner_total t owner"
    using nonneg r(1) member_le_sum_list [of "pf_size r" "map pf_size (owner_files t owner)"] 
    unfolding owner_total_def by (auto simp: owner_files_def)
qed

text \<open>An upsert replaces the row of its key or adds one.\<close>

definition put_file :: "uuid \<Rightarrow> uuid \<Rightarrow> string \<Rightarrow> int \<Rightarrow> string \<Rightarrow> go_time \<Rightarrow> go_time \<Rightarrow> tables \<Rightarrow> tables" where
  "put_file uid owner filename n hash at now t = t\<lparr>player_files :=
     (case replaced t owner filename of
        Some _ \<Rightarrow> map (\<lambda>r. if is_file owner filename r then r\<lparr>pf_size := n, pf_hash := hash, pf_modified_at := at\<rparr> else r) (player_files t)
      | None \<Rightarrow> player_files t @ [\<lparr>pf_id = uid, pf_owner_id = owner, pf_filename = filename, pf_size = n, pf_hash = hash,
          pf_modified_at = at, pf_created_at = now\<rparr>])\<rparr>"

lemma upsert_put:
  "sql_UpsertPlayerFile uid owner filename n hash at = sql_exec (\<lambda>now t.
     if replaced t owner filename = None \<and> uid \<in> pf_id ` set (player_files t) then Inl unique_violation
     else if replaced t owner filename = None \<and> \<not> has_player t owner then Inl foreign_key_violation
     else Inr ((), put_file uid owner filename n hash at now t))"
  unfolding sql_UpsertPlayerFile_def by (rule arg_cong [where f = sql_exec]) (auto simp: fun_eq_iff put_file_def replaced_def split: option.split)

lemma update_rows:
  assumes "distinct (map (\<lambda>r. (pf_owner_id r, pf_filename r)) rows)" "List.find (is_file owner filename) rows = Some r"
  shows "sum_list (map pf_size (filter (\<lambda>r. pf_owner_id r = owner)
      (map (\<lambda>r. if is_file owner filename r then r\<lparr>pf_size := n, pf_hash := hash, pf_modified_at := at\<rparr> else r) rows)))
    = sum_list (map pf_size (filter (\<lambda>r. pf_owner_id r = owner) rows)) - pf_size r + n"
  using assms
proof (induction rows)
  case (Cons x rows)
  show ?case
  proof (cases "is_file owner filename x")
    case True
    then have "map (\<lambda>r. if is_file owner filename r then r\<lparr>pf_size := n, pf_hash := hash, pf_modified_at := at\<rparr> else r) rows = rows"
      using Cons.prems(1) by (intro map_idI) (force simp: is_file_def image_iff)
    then show ?thesis using True Cons.prems(2) by (simp add: is_file_def)
  next
    case False
    then show ?thesis using Cons by auto
  qed
qed simp

lemma filter_map_same: "(\<And>x. P (f x) = P x) \<Longrightarrow> filter P (map f xs) = map f (filter P xs)"
  by (simp add: filter_map comp_def)

lemma put_file_owner:
  assumes "files_ok t"
  shows "owner_total (put_file uid owner filename n hash at now t) owner = total_after t owner filename n"
    "int (length (owner_files (put_file uid owner filename n hash at now t) owner)) = count_after t owner filename"
proof -
  have d: "distinct (map (\<lambda>r. (pf_owner_id r, pf_filename r)) (player_files t))" using assms by (simp add: files_ok_def)
  show "owner_total (put_file uid owner filename n hash at now t) owner = total_after t owner filename n"
    using update_rows [OF d, of owner filename]
    by (auto simp: owner_total_def owner_files_def put_file_def total_after_def replaced_def split: option.split)
  show "int (length (owner_files (put_file uid owner filename n hash at now t) owner)) = count_after t owner filename"
    by (simp add: owner_files_def put_file_def count_after_def filter_map_same split: option.split)
qed

lemma put_file_other: "p \<noteq> owner \<Longrightarrow> owner_files (put_file uid owner filename n hash at now t) p = owner_files t p"
proof -
  assume p: "p \<noteq> owner"
  have "filter (\<lambda>r. pf_owner_id r = p) (map (\<lambda>r. if is_file owner filename r then r\<lparr>pf_size := n, pf_hash := hash, pf_modified_at := at\<rparr> else r) rows)
      = filter (\<lambda>r. pf_owner_id r = p) rows" for rows
    using p by (induction rows) (auto simp: is_file_def)
  then show ?thesis using p by (auto simp: owner_files_def put_file_def split: option.split)
qed

lemma put_file_ok:
  assumes "files_ok t" "ValidateFilename filename = Inr ()" "0 \<le> n" "n \<le> uint MaxFileSize"
    and "replaced t owner filename = None \<longrightarrow> has_player t owner"
  shows "files_ok (put_file uid owner filename n hash at now t)"
proof -
  let ?upd = "\<lambda>r. if is_file owner filename r then r\<lparr>pf_size := n, pf_hash := hash, pf_modified_at := at\<rparr> else r"
  have players: "has_player (put_file uid owner filename n hash at now t) = has_player t"
    by (rule has_player_cong) (simp add: put_file_def)
  have row: "row_ok (put_file uid owner filename n hash at now t) = row_ok t" by (simp add: row_ok_def fun_eq_iff players)
  show ?thesis
  proof (cases "replaced t owner filename")
    case None
    then have "(owner, filename) \<notin> (\<lambda>r. (pf_owner_id r, pf_filename r)) ` set (player_files t)"
      by (auto simp: replaced_def find_None_iff is_file_def)
    moreover have "row_ok t \<lparr>pf_id = uid, pf_owner_id = owner, pf_filename = filename, pf_size = n, pf_hash = hash,
          pf_modified_at = at, pf_created_at = now\<rparr>"
      using assms None by (simp add: row_ok_def)
    moreover have "player_files (put_file uid owner filename n hash at now t) = player_files t @ [\<lparr>pf_id = uid, pf_owner_id = owner,
        pf_filename = filename, pf_size = n, pf_hash = hash, pf_modified_at = at, pf_created_at = now\<rparr>]"
      using None by (simp add: put_file_def)
    ultimately show ?thesis using assms(1) by (simp add: files_ok_def row)
  next
    case (Some r)
    have keys: "(\<lambda>r. (pf_owner_id r, pf_filename r)) \<circ> ?upd = (\<lambda>r. (pf_owner_id r, pf_filename r))" by (auto simp: fun_eq_iff)
    have "\<forall>r \<in> set (map ?upd (player_files t)). row_ok t r"
      using assms(1-4) by (auto simp: files_ok_def row_ok_def)
    moreover have "player_files (put_file uid owner filename n hash at now t) = map ?upd (player_files t)"
      using Some by (simp add: put_file_def)
    ultimately show ?thesis using assms(1) by (simp only: files_ok_def row map_map keys simp_thms)
  qed
qed

text \<open>Without wrap-around the quota check is the comparison it means.\<close>

definition quota_words :: "StorageConfig \<Rightarrow> tables \<Rightarrow> uuid \<Rightarrow> string \<Rightarrow> 64 word \<Rightarrow> bool" where
  "quota_words cfg t owner filename sz \<longleftrightarrow>
     word_of_int (owner_total t owner) - (case replaced t owner filename of Some r \<Rightarrow> word_of_int (pf_size r) | None \<Rightarrow> 0) + sz
       \<le> MaxBytesPerPlayer cfg \<and> count_after t owner filename \<le> MaxFilesPerPlayer cfg"

lemma uint_MaxFileSize: "uint MaxFileSize = 26214400"
  by (simp add: MaxFileSize_def push_bit_eq_mult)

lemma quota_words_fits:
  assumes "files_ok t" "owner_total t owner + uint sz < 2 ^ 64"
  shows "quota_words cfg t owner filename sz = fits cfg t owner filename sz"
proof -
  let ?freed = "case replaced t owner filename of Some r \<Rightarrow> pf_size r | None \<Rightarrow> 0"
  have freed: "0 \<le> ?freed" "?freed \<le> owner_total t owner"
    using total_bounds [OF assms(1), of owner] by (auto split: option.split)
  have "word_of_int (owner_total t owner) - (case replaced t owner filename of Some r \<Rightarrow> word_of_int (pf_size r) | None \<Rightarrow> 0) + sz
      = (word_of_int (total_after t owner filename (uint sz)) :: 64 word)"
    by (simp add: total_after_def split: option.split)
  moreover have "0 \<le> total_after t owner filename (uint sz)" "total_after t owner filename (uint sz) < 2 ^ 64"
    using freed assms(2) uint_ge_0 [of sz] unfolding total_after_def by linarith+
  then have "uint (word_of_int (total_after t owner filename (uint sz)) :: 64 word) = total_after t owner filename (uint sz)"
    by (simp add: uint_word_of_int)
  ultimately show ?thesis by (simp add: quota_words_def fits_def word_le_def)
qed


section \<open>The quota check and the commit, under any store\<close>

lemma GetFile_triple:
  "tx_triple (\<lambda>t. t = t0) (tx_optional (StorageE ErrFileNotFound) (PlayerFile_GetFile owner filename))
     (\<lambda>r t. t = t0 \<and> r = map_option playerFileToDomain (replaced t0 owner filename)) (\<lambda>_ _. True)"
  unfolding tx_optional_def
proof (rule triple_catch [where F = "\<lambda>e t. t = t0 \<and> (errors_Is e (StorageE ErrFileNotFound) \<longrightarrow> replaced t0 owner filename = None)"])
  have "tx_triple (\<lambda>t. t = t0) (tx_mapping (DbE ErrNoRows) (StorageE ErrFileNotFound) (sql_GetPlayerFile owner filename))
     (\<lambda>row t. t = t0 \<and> replaced t0 owner filename = Some row)
     (\<lambda>e t. t = t0 \<and> (errors_Is e (StorageE ErrFileNotFound) \<longrightarrow> replaced t0 owner filename = None))"
    unfolding tx_mapping_def sql_GetPlayerFile_def
    by (rule triple_catch [where F = "\<lambda>e t. t = t0 \<and> (\<exists>d. e = DbE d) \<and> (errors_Is e (DbE ErrNoRows) \<longrightarrow> replaced t0 owner filename = None)"],
        rule triple_lookup) (auto simp: replaced_def intro!: triple_if triple_fail)
  then show "tx_triple (\<lambda>t. t = t0) (tx_bind (PlayerFile_GetFile owner filename) (\<lambda>x. tx_return (Some x)))
     (\<lambda>r t. t = t0 \<and> r = map_option playerFileToDomain (replaced t0 owner filename))
     (\<lambda>e t. t = t0 \<and> (errors_Is e (StorageE ErrFileNotFound) \<longrightarrow> replaced t0 owner filename = None))"
    unfolding PlayerFile_GetFile_def
    by (intro triple_bind [where R = "\<lambda>f t. t = t0 \<and> map_option playerFileToDomain (replaced t0 owner filename) = Some f"])
      (auto intro!: triple_bind triple_return)
qed (auto intro!: triple_if triple_return triple_fail)

lemma checkQuota_triple:
  "tx_triple (\<lambda>t. t = t0) (checkQuota cfg owner filename sz) (\<lambda>_ t. t = t0 \<and> quota_words cfg t0 owner filename sz) (\<lambda>_ _. True)"
  unfolding checkQuota_def
proof (rule triple_bind [where R = "\<lambda>u t. t = t0 \<and> u = (word_of_int (owner_total t0 owner), int (length (owner_files t0 owner)))"])
  show "tx_triple (\<lambda>t. t = t0) (PlayerFile_Usage owner)
     (\<lambda>u t. t = t0 \<and> u = (word_of_int (owner_total t0 owner), int (length (owner_files t0 owner)))) (\<lambda>_ _. True)"
    unfolding PlayerFile_Usage_def sql_PlayerStorageUsage_def
    by (rule triple_bind [where R = "\<lambda>r t. t = t0 \<and> r = (owner_total t0 owner, length (owner_files t0 owner))"], rule triple_stmt)
      (auto intro!: triple_return split: if_splits)
  show "tx_triple (\<lambda>t. t = t0 \<and> u = (word_of_int (owner_total t0 owner), int (length (owner_files t0 owner))))
     (case u of (tot, n) \<Rightarrow> tx_bind (tx_optional (StorageE ErrFileNotFound) (PlayerFile_GetFile owner filename))
        (\<lambda>existing. case existing of Some f \<Rightarrow> over_quota cfg (tot - File_Size f) n sz | None \<Rightarrow> over_quota cfg tot (n + 1) sz))
     (\<lambda>_ t. t = t0 \<and> quota_words cfg t0 owner filename sz) (\<lambda>_ _. True)" for u
  proof (cases "u = (word_of_int (owner_total t0 owner), int (length (owner_files t0 owner)))")
    case True
    have "tx_triple (\<lambda>t. t = t0 \<and> r = map_option playerFileToDomain (replaced t0 owner filename))
       (case r of Some f \<Rightarrow> over_quota cfg (word_of_int (owner_total t0 owner) - File_Size f) (int (length (owner_files t0 owner))) sz
        | None \<Rightarrow> over_quota cfg (word_of_int (owner_total t0 owner)) (int (length (owner_files t0 owner)) + 1) sz)
       (\<lambda>_ t. t = t0 \<and> quota_words cfg t0 owner filename sz) (\<lambda>_ _. True)" for r
      by (auto simp: tx_triple_def over_quota_def tx_return_def tx_fail_def quota_words_def count_after_def playerFileToDomain_def not_less
          split: option.split)
    then show ?thesis
      unfolding True by (auto intro!: triple_bind [OF GetFile_triple])
  qed (simp add: tx_triple_def)
qed

lemma triple_pointwise: "(\<And>t0. P t0 \<Longrightarrow> tx_triple (\<lambda>t. t = t0) m Q E) \<Longrightarrow> tx_triple P m Q E"
  unfolding tx_triple_def by simp

lemma sint_small: "n \<le> MaxFileSize \<Longrightarrow> sint n = uint n"
  unfolding sint_uint
  by (rule signed_take_bit_int_eq_self)
    (use order_trans [OF _ uint_ge_0 [of n]] in \<open>simp_all add: word_le_def uint_MaxFileSize\<close>)

text \<open>What every sequence of calls keeps of the tables.\<close>

definition storage_inv :: "StorageConfig \<Rightarrow> tables \<Rightarrow> bool" where
  "storage_inv cfg t \<longleftrightarrow> files_ok t \<and> within_quota cfg t"

lemma storage_inv_cong:
  assumes "player_files t' = player_files t" "players t' = players t"
  shows "storage_inv cfg t' = storage_inv cfg t"
  using assms has_player_cong [OF assms(2)]
  by (simp add: storage_inv_def files_ok_def row_ok_def within_quota_def owner_files_def owner_total_def)

lemma storage_inv_titles [simp]: "storage_inv cfg (t\<lparr>title_files := ts\<rparr>) = storage_inv cfg t"
  by (rule storage_inv_cong) simp_all

lemma within_quota_total:
  assumes "files_ok t" "within_quota cfg t"
  shows "owner_total t owner \<le> uint (MaxBytesPerPlayer cfg)"
  using assms(2) by (cases "owner_files t owner = []") (auto simp: within_quota_def owner_total_def)

lemma put_file_inv:
  assumes "storage_inv cfg t" "ValidateFilename filename = Inr ()" "sz \<le> MaxFileSize"
    and "uint (MaxBytesPerPlayer cfg) + uint MaxFileSize < 2 ^ 64" "quota_words cfg t owner filename sz"
    and "replaced t owner filename = None \<longrightarrow> has_player t owner"
  shows "storage_inv cfg (put_file uid owner filename (sint sz) hash at now t)"
proof -
  have ok: "files_ok t" "within_quota cfg t" using assms(1) by (auto simp: storage_inv_def)
  have sz: "0 \<le> uint sz" "uint sz \<le> uint MaxFileSize" "sint sz = uint sz"
    using assms(3) sint_small by (auto simp: word_le_def)
  have "fits cfg t owner filename sz"
    using quota_words_fits [OF ok(1), of owner sz cfg filename] within_quota_total [OF ok, of owner] sz(2) assms(4,5) by simp
  then have "within_quota cfg (put_file uid owner filename (sint sz) hash at now t)"
    unfolding within_quota_def
    using ok(2) put_file_owner [OF ok(1), of uid owner filename "uint sz" hash at now] put_file_other [of _ owner uid filename "uint sz" hash at now t]
    by (auto simp: sz(3) fits_def within_quota_def owner_total_def split: if_splits) metis+
  then show ?thesis
    using put_file_ok [OF ok(1) assms(2), of "sint sz" owner] sz assms(6) by (simp add: storage_inv_def)
qed

lemma commit_work_inv:
  assumes "NewFile filename n hash now = Inr file" "uint (MaxBytesPerPlayer cfg) + uint MaxFileSize < 2 ^ 64"
  shows "tx_triple (storage_inv cfg) (commit_work cfg uid owner filename file) (\<lambda>_. storage_inv cfg) (\<lambda>_ _. True)"
proof (rule triple_pointwise)
  fix t0 assume inv: "storage_inv cfg t0"
  have f: "ValidateFilename filename = Inr ()" "File_Size file \<le> MaxFileSize" "File_Filename file = filename"
    using assms(1) by (auto simp: NewFile_def ValidateSize_def split: sum.splits if_splits)
  show "tx_triple (\<lambda>t. t = t0) (commit_work cfg uid owner filename file) (\<lambda>_. storage_inv cfg) (\<lambda>_ _. True)"
    unfolding commit_work_def
  proof (rule triple_bind [OF checkQuota_triple])
    show "tx_triple (\<lambda>t. t = t0 \<and> quota_words cfg t0 owner filename (File_Size file)) (PlayerFile_SaveFile uid owner file) (\<lambda>_. storage_inv cfg) (\<lambda>_ _. True)"
      unfolding PlayerFile_SaveFile_def upsert_put f(3)
      by (rule triple_exec) (auto split: if_splits intro!: put_file_inv [OF inv f(1,2) assms(2)])
  qed
qed

lemma PlayerFile_GetFile_preserves: "preserves I (PlayerFile_GetFile owner filename)"
  unfolding PlayerFile_GetFile_def sql_GetPlayerFile_def
  by (rule triple_bind [where R = "\<lambda>_. I"], rule triple_mapping [where E = "\<lambda>_. I"], rule triple_one) (auto intro!: triple_return)

definition drop_file :: "uuid \<Rightarrow> string \<Rightarrow> tables \<Rightarrow> tables" where
  "drop_file owner filename t = t\<lparr>player_files := filter (\<lambda>r. \<not> is_file owner filename r) (player_files t)\<rparr>"

lemma drop_file_files: "owner_files (drop_file owner filename t) p = filter (\<lambda>r. \<not> is_file owner filename r) (owner_files t p)"
  by (simp add: drop_file_def owner_files_def conj_commute)

lemma drop_file_other: "p \<noteq> owner \<Longrightarrow> owner_files (drop_file owner filename t) p = owner_files t p"
  unfolding drop_file_files by (rule filter_True) (auto simp: owner_files_def is_file_def)

lemma DeleteFile_drop: "PlayerFile_DeleteFile owner filename = sql_exec (\<lambda>now t. Inr ((), drop_file owner filename t))"
  by (simp add: PlayerFile_DeleteFile_def sql_DeletePlayerFile_def drop_file_def)

lemma sum_list_filter_le: "(\<And>x. x \<in> set xs \<Longrightarrow> 0 \<le> f x) \<Longrightarrow> sum_list (map f (filter P xs)) \<le> (sum_list (map f xs) :: int)"
  by (induction xs) (auto intro: add_increasing)

lemma drop_file_inv:
  assumes "storage_inv cfg t"
  shows "storage_inv cfg (drop_file owner filename t)"
proof -
  have ok: "files_ok t" "within_quota cfg t" using assms by (auto simp: storage_inv_def)
  have players: "has_player (drop_file owner filename t) = has_player t" by (rule has_player_cong) (simp add: drop_file_def)
  have "files_ok (drop_file owner filename t)"
    using ok(1) by (auto simp: files_ok_def row_ok_def players) (auto simp: drop_file_def intro: distinct_map_filterI)
  moreover have "owner_total (drop_file owner filename t) p \<le> owner_total t p" for p
    unfolding owner_total_def drop_file_files
    by (rule sum_list_filter_le) (use ok(1) in \<open>auto simp: owner_files_def files_ok_def row_ok_def\<close>)
  moreover have "length (owner_files (drop_file owner filename t) p) \<le> length (owner_files t p)" for p
    by (simp add: drop_file_files)
  ultimately show ?thesis
    using ok(2) unfolding storage_inv_def within_quota_def by (metis drop_file_files filter.simps(1) of_nat_le_iff order_trans)
qed

lemma delete_work_inv: "tx_triple (storage_inv cfg) (delete_player_work owner filename) (\<lambda>_. storage_inv cfg) (\<lambda>_ _. True)"
  unfolding delete_player_work_def DeleteFile_drop
  by (rule triple_bind [where R = "\<lambda>_. storage_inv cfg"], rule tx_triple_weaken [OF PlayerFile_GetFile_preserves [where I = "storage_inv cfg"]])
    (auto intro!: triple_exec simp: drop_file_inv)

lemma TitleFile_GetFile_preserves: "preserves I (TitleFile_GetFile filename)"
  unfolding TitleFile_GetFile_def sql_GetTitleFile_def
  by (rule triple_bind [where R = "\<lambda>_. I"], rule triple_mapping [where E = "\<lambda>_. I"], rule triple_one) (auto intro!: triple_return)

lemma title_works_keep:
  assumes "\<And>t ts. I (t\<lparr>title_files := ts\<rparr>) = I t"
  shows "tx_triple I (TitleFile_SaveFile uid f tags) (\<lambda>_. I) (\<lambda>_ _. True)"
    and "tx_triple I (delete_title_work filename) (\<lambda>_. I) (\<lambda>_ _. True)"
proof -
  show "tx_triple I (TitleFile_SaveFile uid f tags) (\<lambda>_. I) (\<lambda>_ _. True)"
    unfolding TitleFile_SaveFile_def sql_UpsertTitleFile_def
    by (rule triple_exec) (auto split: if_splits simp: assms)
  show "tx_triple I (delete_title_work filename) (\<lambda>_. I) (\<lambda>_ _. True)"
    unfolding delete_title_work_def TitleFile_DeleteFile_def sql_DeleteTitleFile_def
    by (rule triple_bind [where R = "\<lambda>_. I"], rule tx_triple_weaken [OF TitleFile_GetFile_preserves [where I = I]])
      (auto intro!: triple_exec simp: assms)
qed

section \<open>Calls in sequence\<close>

text \<open>\<open>ClientTransfer\<close> is what clients do to the object store over signed URLs, about which nothing is known.\<close>

datatype 'b storage_call =
    CallQueryPlayer uuid string | CallRead uuid string | CallWrite uuid string "64 word" | CallCommit uuid uuid string go_time
  | CallDelete uuid string | CallQueryTitle "string list option" | CallPublish uuid string "string list option" string string go_time
  | CallDeleteTitle string | CallReadTitle string | ClientTransfer "'b \<Rightarrow> 'b"

fun storage_step :: "'b StorageUsecase \<Rightarrow> 'b storage_call \<Rightarrow> db \<times> 'b \<Rightarrow> db \<times> 'b" where
  "storage_step u (CallQueryPlayer p pre) w = snd (QueryPlayerFiles u p pre w)"
| "storage_step u (CallRead p f) w = snd (ReadPlayerFile u p f w)"
| "storage_step u (CallWrite p f sz) w = snd (WritePlayerFile u p f sz w)"
| "storage_step u (CallCommit uid p f now) w = snd (CommitPlayerFile u uid p f now w)"
| "storage_step u (CallDelete p f) w = snd (DeletePlayerFile u p f w)"
| "storage_step u (CallQueryTitle tags) w = snd (QueryTitleFiles u tags w)"
| "storage_step u (CallPublish uid f tags data ct now) w = snd (PublishTitleFile u uid f tags data ct now w)"
| "storage_step u (CallDeleteTitle f) w = snd (DeleteTitleFile u f w)"
| "storage_step u (CallReadTitle f) w = snd (ReadTitleFile u f w)"
| "storage_step u (ClientTransfer g) w = (fst w, g (snd w))"

definition io_keeps :: "(tables \<Rightarrow> bool) \<Rightarrow> ('b, 'a) io \<Rightarrow> bool" where
  "io_keeps I m \<longleftrightarrow> (\<forall>w. I (db_tables (fst w)) \<longrightarrow> I (db_tables (fst (snd (m w)))))"

lemma keeps_return: "io_keeps I (io_return x)"
  by (simp add: io_keeps_def io_return_def)

lemma keeps_check: "(\<And>x. r = Inr x \<Longrightarrow> io_keeps I (f x)) \<Longrightarrow> io_keeps I (io_check r f)"
  by (cases r) (auto simp: io_keeps_def io_check_def)

lemma keeps_blob: "(\<And>r. io_keeps I (f r)) \<Longrightarrow> io_keeps I (io_blob m f)"
  by (auto simp: io_keeps_def io_blob_def split: prod.split)

lemma keeps_session: "preserves I m \<Longrightarrow> (\<And>x. io_keeps I (f x)) \<Longrightarrow> io_keeps I (io_session m f)"
  unfolding io_keeps_def io_session_def
  by (auto split: prod.split sum.split dest: tx_tripleD)

lemmas keeps_rules = keeps_return keeps_check keeps_blob keeps_session

lemma RO_keeps: "preserves I (RO (PlayerFile_GetFile owner filename))" "preserves I (RO (TitleFile_GetFile filename))"
  "preserves I (RO (PlayerFile_ListFiles collate owner pre))" "preserves I (RO (TitleFile_ListFiles collate tags))"
  by (auto intro!: session_ro.run_preserves PlayerFile_GetFile_preserves TitleFile_GetFile_preserves
      triple_bind [where R = "\<lambda>_. I"] triple_query triple_return
      simp: PlayerFile_ListFiles_def TitleFile_ListFiles_def sql_ListPlayerFiles_def sql_ListTitleFiles_def)

lemma RO_checkQuota_keeps: "preserves I (RO (checkQuota cfg owner filename sz))"
  by (rule session_ro.run_preserves, rule triple_pointwise, rule tx_triple_weaken [OF checkQuota_triple]) auto

text \<open>The player a call acts for.\<close>

fun acting :: "'b storage_call \<Rightarrow> uuid option" where
  "acting (CallQueryPlayer p pre) = Some p"
| "acting (CallRead p f) = Some p"
| "acting (CallWrite p f sz) = Some p"
| "acting (CallCommit uid p f now) = Some p"
| "acting (CallDelete p f) = Some p"
| "acting _ = None"

lemma keepsD: "io_keeps I m \<Longrightarrow> I (db_tables (fst w)) \<Longrightarrow> I (db_tables (fst (snd (m w))))"
  unfolding io_keeps_def by blast

text \<open>A predicate that the two transactions on player files and every change of title files keep is kept by every call.\<close>

lemma storage_step_keeps:
  assumes commit: "\<And>uid p f n h now file. acting c = Some p \<Longrightarrow> NewFile f n h now = Inr file \<Longrightarrow>
      tx_triple I (commit_work (su_cfg u) uid p f file) (\<lambda>_. I) (\<lambda>_ _. True)"
    and delete: "\<And>p f. acting c = Some p \<Longrightarrow> tx_triple I (delete_player_work p f) (\<lambda>_. I) (\<lambda>_ _. True)"
    and titles: "\<And>t ts. I (t\<lparr>title_files := ts\<rparr>) = I t" and before: "I (db_tables (fst w))"
  shows "I (db_tables (fst (storage_step u c w)))"
proof -
  have "io_keeps I (CommitPlayerFile u uid p f now)" if "acting c = Some p" for uid p f now
    unfolding CommitPlayerFile_def by (intro keeps_rules session_rw.run_preserves) (rule commit [OF that])
  moreover have "io_keeps I (DeletePlayerFile u p f)" if "acting c = Some p" for p f
    unfolding DeletePlayerFile_def by (intro keeps_rules session_rw.run_preserves) (rule delete [OF that])
  moreover have "io_keeps I (PublishTitleFile u uid f tags data ct now)" for uid f tags data ct now
    unfolding PublishTitleFile_def by (intro keeps_rules session_rw.run_preserves) (rule title_works_keep(1) [OF titles])
  moreover have "io_keeps I (DeleteTitleFile u f)" for f
    unfolding DeleteTitleFile_def by (intro keeps_rules session_rw.run_preserves) (rule title_works_keep(2) [OF titles])
  moreover have "io_keeps I (QueryPlayerFiles u p pre)" "io_keeps I (ReadPlayerFile u p f)" "io_keeps I (WritePlayerFile u p f sz)"
      "io_keeps I (QueryTitleFiles u tags)" "io_keeps I (ReadTitleFile u f)" for p pre f sz tags
    unfolding QueryPlayerFiles_def ReadPlayerFile_def WritePlayerFile_def QueryTitleFiles_def ReadTitleFile_def
    by (intro keeps_rules RO_keeps RO_checkQuota_keeps)+
  ultimately show ?thesis
    using before by (cases c) (auto intro: keepsD)
qed

lemma storage_step_inv:
  assumes "uint (MaxBytesPerPlayer (su_cfg u)) + uint MaxFileSize < 2 ^ 64" "storage_inv (su_cfg u) (db_tables (fst w))"
  shows "storage_inv (su_cfg u) (db_tables (fst (storage_step u c w)))"
  by (rule storage_step_keeps [OF commit_work_inv [OF _ assms(1)] delete_work_inv storage_inv_titles assms(2)])

lemma storage_step_others:
  assumes "acting c \<noteq> Some p" "owner_files (db_tables (fst w)) p = rows"
  shows "owner_files (db_tables (fst (storage_step u c w))) p = rows"
proof (rule storage_step_keeps [where I = "\<lambda>t. owner_files t p = rows" and c = c])
  fix uid q f n h now fl assume q: "acting c = Some q"
  then have "q \<noteq> p" using assms(1) by auto
  show "tx_triple (\<lambda>t. owner_files t p = rows) (commit_work (su_cfg u) uid q f fl) (\<lambda>_ t. owner_files t p = rows) (\<lambda>_ _. True)"
    unfolding commit_work_def PlayerFile_SaveFile_def upsert_put
    by (rule triple_pointwise, rule triple_bind [OF checkQuota_triple], rule triple_exec)
      (use \<open>q \<noteq> p\<close> put_file_other in \<open>auto split: if_splits\<close>)
  show "tx_triple (\<lambda>t. owner_files t p = rows) (delete_player_work q f) (\<lambda>_ t. owner_files t p = rows) (\<lambda>_ _. True)"
    unfolding delete_player_work_def DeleteFile_drop
    by (rule triple_bind [where R = "\<lambda>_ t. owner_files t p = rows"], rule tx_triple_weaken [OF PlayerFile_GetFile_preserves [where I = "\<lambda>t. owner_files t p = rows"]])
      (use \<open>q \<noteq> p\<close> drop_file_other in \<open>auto intro!: triple_exec\<close>)
qed (use assms(2) in \<open>auto simp: owner_files_def\<close>)

section \<open>Keys\<close>

lemma valid_filename_plain:
  assumes "ValidateFilename f = Inr ()"
  shows "plain_elem f"
proof -
  have "CHR ''/'' \<notin> set f"
  proof
    assume "CHR ''/'' \<in> set f"
    then have "47 \<in> set (range_runes f)" using ascii_rune [of "CHR ''/''" f] by simp
    then show False using assms by (auto simp: ValidateFilename_def list_ex_iff split: if_splits)
  qed
  then show ?thesis using assms by (auto simp: plain_elem_def ValidateFilename_def split: if_splits)
qed

text \<open>
  The textual form of an id is one path element, and different ids have different forms: what the
  keys rely on of \<open>uuid.UUID.String\<close>.
\<close>

definition uuid_elem :: "(uuid \<Rightarrow> string) \<Rightarrow> bool" where
  "uuid_elem str \<longleftrightarrow> inj str \<and> (\<forall>p. plain_elem (str p))"

lemma playerKey_inject:
  assumes "uuid_elem (su_str u)" "ValidateFilename f = Inr ()" "ValidateFilename f' = Inr ()"
    and "playerKey u p f = playerKey u p' f'"
  shows "p = p' \<and> f = f'"
  using path_Join_inject [of "su_str u p" f "su_str u p'" f' "PlayerDataPrefix (su_cfg u)"] assms valid_filename_plain
  by (auto simp: playerKey_def uuid_elem_def inj_eq)

text \<open>What a call leaves of the objects under keys it does not name.\<close>

definition spares :: "('b \<Rightarrow> string \<Rightarrow> ObjectAttrs option) \<Rightarrow> string set \<Rightarrow> ('b, 'a) io \<Rightarrow> bool" where
  "spares objects K m \<longleftrightarrow> (\<forall>w. \<forall>k \<in> K. objects (snd (snd (m w))) k = objects (snd w) k)"

lemma spares_return: "spares objects K (io_return x)"
  by (simp add: spares_def io_return_def)

lemma spares_check: "(\<And>x. r = Inr x \<Longrightarrow> spares objects K (f x)) \<Longrightarrow> spares objects K (io_check r f)"
  by (cases r) (auto simp: spares_def io_check_def)

lemma spares_session: "(\<And>x. spares objects K (f x)) \<Longrightarrow> spares objects K (io_session m f)"
  by (auto simp: spares_def io_session_def split: prod.split sum.split)

lemma spares_blob: "(\<And>b k. k \<in> K \<Longrightarrow> objects (snd (m b)) k = objects b k) \<Longrightarrow> (\<And>r. spares objects K (f r)) \<Longrightarrow> spares objects K (io_blob m f)"
  by (auto simp: spares_def io_blob_def split: prod.split) (metis snd_conv)

lemmas spares_rules = spares_return spares_check spares_session spares_blob

lemma sparesD: "spares objects K m \<Longrightarrow> k \<in> K \<Longrightarrow> objects (snd (snd (m w))) k = objects (snd w) k"
  unfolding spares_def by blast

context blob_store
begin

lemma player_calls_spare:
  assumes "su_blobs u = blobs" "uuid_elem (su_str u)" "acting c = Some q" "q \<noteq> p" "ValidateFilename f = Inr ()"
  shows "objects (snd (storage_step u c w)) (playerKey u p f) = objects (snd w) (playerKey u p f)"
proof -
  let ?K = "{playerKey u p f}"
  have key: "playerKey u p f \<noteq> playerKey u q g" if "ValidateFilename g = Inr ()" for g
    using playerKey_inject [OF assms(2,5) that, of p q] assms(4) by auto
  have "spares objects ?K (QueryPlayerFiles u q pre)" "spares objects ?K (ReadPlayerFile u q g)" "spares objects ?K (WritePlayerFile u q g sz)"
      "spares objects ?K (CommitPlayerFile u uid q g now)" for pre g sz uid now
    unfolding QueryPlayerFiles_def ReadPlayerFile_def WritePlayerFile_def CommitPlayerFile_def
    by (intro spares_rules; simp add: assms(1) sign_reads stat_reads)+
  moreover have "spares objects ?K (DeletePlayerFile u q g)" for g
    unfolding DeletePlayerFile_def
    by (intro spares_rules) (auto simp: assms(1) delete_key dest: key)
  ultimately show ?thesis
    using assms(3) by (cases c) (auto intro: sparesD [where K = ?K])
qed

end

section \<open>Commit, read, delete\<close>

lemma replaced_put:
  "replaced (put_file uid owner filename n hash at now t) owner filename =
     Some ((case replaced t owner filename of Some r \<Rightarrow> r\<lparr>pf_size := n, pf_hash := hash, pf_modified_at := at\<rparr>
       | None \<Rightarrow> \<lparr>pf_id = uid, pf_owner_id = owner, pf_filename = filename, pf_size = n, pf_hash = hash,
          pf_modified_at = at, pf_created_at = now\<rparr>))"
proof -
  have upd: "List.find (is_file owner filename) (map (\<lambda>r. if is_file owner filename r then r\<lparr>pf_size := n, pf_hash := hash, pf_modified_at := at\<rparr> else r) rows)
      = map_option (\<lambda>r. r\<lparr>pf_size := n, pf_hash := hash, pf_modified_at := at\<rparr>) (List.find (is_file owner filename) rows)" for rows
    by (induction rows) (auto simp: is_file_def)
  have app: "List.find P (rows @ [r]) = (case List.find P rows of Some x \<Rightarrow> Some x | None \<Rightarrow> if P r then Some r else None)" for P rows and r :: player_file_row
    by (induction rows) auto
  show ?thesis
  proof (cases "replaced t owner filename")
    case None
    then show ?thesis by (simp add: replaced_def put_file_def app) (simp add: is_file_def)
  next
    case (Some r)
    then show ?thesis by (simp add: replaced_def put_file_def upd)
  qed
qed

lemma put_file_read:
  assumes "sz \<le> MaxFileSize"
  shows "\<exists>row. replaced (put_file uid owner filename (sint sz) hash at now t) owner filename = Some row \<and>
    playerFileToDomain row = \<lparr>File_Filename = filename, File_Size = sz, File_Hash = hash, File_ModifiedAt = at\<rparr>"
proof -
  have "pf_filename r = filename" if "replaced t owner filename = Some r" for r
    using that by (auto simp: replaced_def is_file_def dest: find_Some)
  then show ?thesis
    using assms by (auto simp: replaced_put playerFileToDomain_def split: option.split)
qed

lemma commit_work_stores:
  assumes "File_Size file \<le> MaxFileSize" "File_Filename file = filename"
  shows "tx_triple (\<lambda>_. True) (commit_work cfg uid owner filename file)
    (\<lambda>_ t. \<exists>row. replaced t owner filename = Some row \<and> playerFileToDomain row =
      \<lparr>File_Filename = filename, File_Size = File_Size file, File_Hash = File_Hash file, File_ModifiedAt = toTimestamptz (File_ModifiedAt file)\<rparr>)
    (\<lambda>_ _. True)"
proof (rule triple_pointwise)
  fix t0
  show "tx_triple (\<lambda>t. t = t0) (commit_work cfg uid owner filename file)
    (\<lambda>_ t. \<exists>row. replaced t owner filename = Some row \<and> playerFileToDomain row =
      \<lparr>File_Filename = filename, File_Size = File_Size file, File_Hash = File_Hash file, File_ModifiedAt = toTimestamptz (File_ModifiedAt file)\<rparr>)
    (\<lambda>_ _. True)"
    unfolding commit_work_def PlayerFile_SaveFile_def upsert_put assms(2)
    by (rule triple_bind [OF checkQuota_triple], rule triple_exec)
      (auto split: if_splits intro!: put_file_read [OF assms(1)])
qed

lemma CommitPlayerFile_Inr:
  assumes "CommitPlayerFile u uid p f now (s, b) = (Inr fl, s', b')"
  obtains attrs where "ValidateFilename f = Inr ()" "blob_Stat (su_blobs u) (playerKey u p f) b = (Inr attrs, b')"
    "NewFile f (Attrs_Size attrs) (Attrs_Hash attrs) now = Inr fl" "RW (commit_work (su_cfg u) uid p f fl) s = (Inr (), s')"
proof -
  obtain r b1 where st: "blob_Stat (su_blobs u) (playerKey u p f) b = (r, b1)" by fastforce
  show thesis
    using assms that st
    by (auto simp: CommitPlayerFile_def io_defs split: sum.splits prod.splits)
qed

lemma NewFile_Inr:
  "NewFile f n h now = Inr fl \<longleftrightarrow> ValidateFilename f = Inr () \<and> n \<le> MaxFileSize \<and>
     fl = \<lparr>File_Filename = f, File_Size = n, File_Hash = h, File_ModifiedAt = now\<rparr>"
  by (auto simp: NewFile_def ValidateSize_def not_less split: sum.split)

lemma GetFile_run:
  assumes "quiet s"
  shows "outcome (RO (PlayerFile_GetFile p f)) s =
    (case replaced (db_tables s) p f of Some row \<Rightarrow> Inr (playerFileToDomain row) | None \<Rightarrow> Inl (StorageE ErrFileNotFound), db_tables s)"
proof (rule RO_outcome [OF assms])
  show "PlayerFile_GetFile p f (begin_tx True s) = (case replaced (db_tables s) p f of Some row \<Rightarrow> Inr (playerFileToDomain row) | None \<Rightarrow> Inl (StorageE ErrFileNotFound), begin_tx True s)"
    using live_begin_tx [OF assms, of True]
    by (auto simp: PlayerFile_GetFile_def sql_GetPlayerFile_def replaced_def tx_mapping_def tx_eval split: option.split)
qed

lemma ReadPlayerFile_run:
  assumes "quiet s" "ValidateFilename f = Inr ()"
  shows "fst (ReadPlayerFile u p f (s, b)) = (case replaced (db_tables s) p f of
      None \<Rightarrow> Inl (StorageE ErrFileNotFound)
    | Some row \<Rightarrow> map_sum (\<lambda>e. e) (Pair (playerFileToDomain row)) (fst (blob_SignDownload (su_blobs u) (playerKey u p f) (URLTTL (su_cfg u)) b)))"
proof -
  obtain r s' where run: "RO (PlayerFile_GetFile p f) s = (r, s')" by fastforce
  then have "r = (case replaced (db_tables s) p f of Some row \<Rightarrow> Inr (playerFileToDomain row) | None \<Rightarrow> Inl (StorageE ErrFileNotFound))"
    using GetFile_run [OF assms(1), of p f] by (simp add: outcome_def)
  then show ?thesis
    using run assms(2) by (auto simp: ReadPlayerFile_def io_defs split: option.split prod.split sum.split)
qed

lemma DeletePlayerFile_run:
  assumes "quiet s" "ValidateFilename f = Inr ()" "replaced (db_tables s) p f \<noteq> None"
  shows "\<exists>s'. DeletePlayerFile u p f (s, b) = (Inr (), s', snd (blob_Delete (su_blobs u) (playerKey u p f) b)) \<and>
    db_tables s' = drop_file p f (db_tables s)"
proof -
  have "delete_player_work p f (begin_tx False s) = (Inr (), (begin_tx False s)\<lparr>db_tables := drop_file p f (db_tables s)\<rparr>)"
    using live_begin_tx [OF assms(1), of False] assms(3)
    by (auto simp: delete_player_work_def DeleteFile_drop PlayerFile_GetFile_def sql_GetPlayerFile_def replaced_def tx_mapping_def tx_eval)
  moreover have "live False ((begin_tx False s)\<lparr>db_tables := drop_file p f (db_tables s)\<rparr>)"
    using live_begin_tx [OF assms(1), of False] by simp
  ultimately have "RW (delete_player_work p f) s = (Inr (), (begin_tx False s)\<lparr>db_tables := drop_file p f (db_tables s), db_tx := None\<rparr>)"
    using Session_run_success [OF assms(1), of "delete_player_work p f" False "()"] by (simp add: RW_def)
  then show ?thesis
    using assms(2) by (auto simp: DeletePlayerFile_def io_defs split: prod.split)
qed

lemma replaced_drop: "replaced (drop_file p f t) p f = None"
  by (auto simp: replaced_def drop_file_def find_None_iff)

lemma checkQuota_run:
  assumes "live ro s" "files_ok (db_tables s)" "owner_total (db_tables s) owner < 2 ^ 63"
  shows "checkQuota cfg owner filename sz s =
    (if quota_words cfg (db_tables s) owner filename sz then Inr () else Inl (StorageE ErrQuotaExceeded), s)"
proof -
  let ?t = "db_tables s"
  have usage: "PlayerFile_Usage owner s = (Inr (word_of_int (owner_total ?t owner), int (length (owner_files ?t owner))), s)"
    using assms(1,3) total_bounds(1) [OF assms(2), of owner]
    by (simp add: PlayerFile_Usage_def sql_PlayerStorageUsage_def tx_eval)
  have get: "tx_optional (StorageE ErrFileNotFound) (PlayerFile_GetFile owner filename) s
      = (Inr (map_option playerFileToDomain (replaced ?t owner filename)), s)"
    using assms(1)
    by (auto simp: tx_optional_def PlayerFile_GetFile_def sql_GetPlayerFile_def replaced_def tx_mapping_def tx_eval split: option.split)
  show ?thesis
    by (auto simp: checkQuota_def tx_bind_def usage get over_quota_def tx_return_def tx_fail_def quota_words_def count_after_def
        playerFileToDomain_def not_less split: option.split)
qed

text \<open>What a commit returns and stores, on every branch.\<close>

definition Spec_Commit :: "'b StorageUsecase \<Rightarrow> uuid \<Rightarrow> uuid \<Rightarrow> string \<Rightarrow> go_time \<Rightarrow> db \<times> 'b \<Rightarrow> File result \<times> tables" where
  "Spec_Commit u uid p f now = (\<lambda>(s, b).
     if ValidateFilename f \<noteq> Inr () then (Inl (StorageE ErrInvalidFilename), db_tables s)
     else case fst (blob_Stat (su_blobs u) (playerKey u p f) b) of
       Inl e \<Rightarrow> (Inl (if errors_Is e (StorageE ErrObjectNotFound) then StorageE ErrUploadIncomplete else e), db_tables s)
     | Inr attrs \<Rightarrow>
         if uint (Attrs_Size attrs) > 25 * 2 ^ 20 then (Inl (StorageE ErrFileTooLarge), db_tables s)
         else if \<not> fits (su_cfg u) (db_tables s) p f (Attrs_Size attrs) then (Inl (StorageE ErrQuotaExceeded), db_tables s)
         else (Inr \<lparr>File_Filename = f, File_Size = Attrs_Size attrs, File_Hash = Attrs_Hash attrs, File_ModifiedAt = now\<rparr>,
           put_file uid p f (uint (Attrs_Size attrs)) (Attrs_Hash attrs) (toTimestamptz now) (db_now s) (db_tables s)))"

lemma commit_work_run:
  assumes "quiet s" "files_ok (db_tables s)" "owner_total (db_tables s) p + uint MaxFileSize < 2 ^ 63" "has_player (db_tables s) p"
    and "uid \<notin> pf_id ` set (player_files (db_tables s))" "sz \<le> MaxFileSize"
  shows "outcome (RW (commit_work cfg uid p f \<lparr>File_Filename = f, File_Size = sz, File_Hash = h, File_ModifiedAt = now\<rparr>)) s =
    (if fits cfg (db_tables s) p f sz then (Inr (), put_file uid p f (uint sz) h (toTimestamptz now) (db_now s) (db_tables s))
     else (Inl (StorageE ErrQuotaExceeded), db_tables s))"
proof -
  let ?file = "\<lparr>File_Filename = f, File_Size = sz, File_Hash = h, File_ModifiedAt = now\<rparr>"
  let ?t' = "put_file uid p f (uint sz) h (toTimestamptz now) (db_now s) (db_tables s)"
  note live = live_begin_tx [OF assms(1), of False]
  have sz: "uint sz \<le> uint MaxFileSize" "sint sz = uint sz" using assms(6) sint_small by (auto simp: word_le_def)
  have quota: "checkQuota cfg p f sz (begin_tx False s) = (if fits cfg (db_tables s) p f sz then Inr () else Inl (StorageE ErrQuotaExceeded), begin_tx False s)"
    using checkQuota_run [OF live, of p cfg f sz] quota_words_fits [OF assms(2), of p sz cfg f] assms(2,3) sz(1) by (simp add: uint_MaxFileSize)
  show ?thesis
  proof (cases "fits cfg (db_tables s) p f sz")
    case True
    have "commit_work cfg uid p f ?file (begin_tx False s) = (Inr (), (begin_tx False s)\<lparr>db_tables := ?t'\<rparr>)"
      using live assms(4,5) True quota by (simp add: commit_work_def PlayerFile_SaveFile_def upsert_put tx_eval sz(2) tx_bind_def)
    then show ?thesis
      using outcome_run_success [OF assms(1), of "commit_work cfg uid p f ?file" False "()"] live True by (simp add: RW_def)
  next
    case False
    have "commit_work cfg uid p f ?file (begin_tx False s) = (Inl (StorageE ErrQuotaExceeded), begin_tx False s)"
      using False quota by (simp add: commit_work_def tx_bind_def)
    then show ?thesis using outcome_run_error [OF assms(1)] False by (simp add: RW_def)
  qed
qed

text \<open>
  C30. \<open>CommitPlayerFile\<close> is exact. For an existing player on a store without faults, within the invariant
  and below 2^63 bytes in all, it returns and stores what the rules of storage say on every branch: the
  name is checked first, then that the upload is there, then its size as the object store reports it, then
  the quota with the replaced file's bytes and slot freed; a rejected commit changes no metadata.
\<close>

theorem CommitPlayerFile_exact:
  assumes "quiet s" and "files_ok (db_tables s)" and "owner_total (db_tables s) p + uint MaxFileSize < 2 ^ 63"
    and "has_player (db_tables s) p" and "uid \<notin> pf_id ` set (player_files (db_tables s))"
  shows "(case CommitPlayerFile u uid p f now (s, b) of (r, s', b') \<Rightarrow> (r, db_tables s')) = Spec_Commit u uid p f now (s, b)"
proof (cases "ValidateFilename f = Inr ()")
  case False
  then show ?thesis
    by (auto simp: CommitPlayerFile_def Spec_Commit_def io_defs ValidateFilename_def)
next
  case valid: True
  obtain r b1 where st: "blob_Stat (su_blobs u) (playerKey u p f) b = (r, b1)" by fastforce
  show ?thesis
  proof (cases r)
    case (Inl e)
    then show ?thesis using valid st by (simp add: CommitPlayerFile_def Spec_Commit_def io_defs)
  next
    case (Inr attrs)
    show ?thesis
    proof (cases "Attrs_Size attrs \<le> MaxFileSize")
      case True
      let ?file = "\<lparr>File_Filename = f, File_Size = Attrs_Size attrs, File_Hash = Attrs_Hash attrs, File_ModifiedAt = now\<rparr>"
      have new: "NewFile f (Attrs_Size attrs) (Attrs_Hash attrs) now = Inr ?file" using valid True by (simp add: NewFile_Inr)
      obtain r2 s2 where run: "RW (commit_work (su_cfg u) uid p f ?file) s = (r2, s2)" by fastforce
      then show ?thesis
        using commit_work_run [OF assms True, of "su_cfg u" f "Attrs_Hash attrs" now] True
        by (auto simp: CommitPlayerFile_def Spec_Commit_def io_defs valid st Inr new outcome_def word_le_def uint_MaxFileSize split: if_splits)
    next
      case False
      then have "NewFile f (Attrs_Size attrs) (Attrs_Hash attrs) now = Inl (StorageE ErrFileTooLarge)"
        by (simp add: NewFile_def valid ValidateSize_def not_le)
      then show ?thesis
        using False by (simp add: CommitPlayerFile_def Spec_Commit_def io_defs valid st Inr word_le_def uint_MaxFileSize)
    qed
  qed
qed


text \<open>
  C27. As long as calls run one after the other, and the configured maximum and 25 MiB together stay below
  2^64, no player is over the quota. Whatever calls run in whatever order, with any failures of the
  database and any behaviour of the object store and of the clients uploading to it: every file row belongs
  to an existing player, has a valid name, at most one row per player and name, and a size of at most 25 MiB;
  and the sizes of a player's files add up to at most \<open>MaxBytesPerPlayer\<close>, in at most \<open>MaxFilesPerPlayer\<close> files.
  The bound on the maximum keeps the 64-bit sum of the check from wrapping; commits that overlap can exceed
  the quota, see \<open>quota_race\<close>.
\<close>

theorem storage_within_quota:
  assumes "uint (MaxBytesPerPlayer (su_cfg u)) + uint MaxFileSize < 2 ^ 64" and "storage_inv (su_cfg u) (db_tables (fst w))"
  shows "storage_inv (su_cfg u) (db_tables (fst (fold (storage_step u) calls w)))"
  using assms(2) by (induction calls arbitrary: w) (simp_all add: storage_step_inv [OF assms(1)])

text \<open>
  C28. Players are isolated from each other. Whatever calls other players make, in any order and with any
  failures, a player's file rows stay as they are, and so does every object under the player's keys, given
  an object store that touches no key but the one it is called with; and no key another player can name is
  a key of this player.
\<close>

theorem players_isolated:
  assumes "blob_store (su_blobs u) objects" and "uuid_elem (su_str u)"
    and "\<forall>c \<in> set calls. \<exists>q. acting c = Some q \<and> q \<noteq> p" and "ValidateFilename f = Inr ()"
  shows "owner_files (db_tables (fst (fold (storage_step u) calls w))) p = owner_files (db_tables (fst w)) p \<and>
    objects (snd (fold (storage_step u) calls w)) (playerKey u p f) = objects (snd w) (playerKey u p f) \<and>
    (\<forall>q g. ValidateFilename g = Inr () \<and> q \<noteq> p \<longrightarrow> playerKey u q g \<noteq> playerKey u p f)"
proof -
  have "owner_files (db_tables (fst (fold (storage_step u) calls w))) p = owner_files (db_tables (fst w)) p \<and>
      objects (snd (fold (storage_step u) calls w)) (playerKey u p f) = objects (snd w) (playerKey u p f)"
    using assms(3)
  proof (induction calls arbitrary: w)
    case (Cons c calls)
    then obtain q where q: "acting c = Some q" "q \<noteq> p" by auto
    then show ?case
      using Cons storage_step_others [of c p w _ u] blob_store.player_calls_spare [OF assms(1) refl assms(2) q assms(4), of w] by simp
  qed simp
  then show ?thesis using playerKey_inject [OF assms(2) _ assms(4)] by blast
qed

text \<open>
  C29. A committed file can be read until it is deleted. When \<open>CommitPlayerFile\<close> returns, under whatever
  failures, the file it returned carries the size and hash the object store reported, and a later read on a
  working database returns that file, its instant kept to the microsecond, with the download URL of its key.
  A deletion then succeeds whatever the object store answers, and from then on the file is not found.
\<close>

theorem commit_read_delete:
  assumes "CommitPlayerFile u uid p f now (s, b) = (Inr fl, s', b')" and "quiet s2" and "db_tables s2 = db_tables s'"
  shows "(\<exists>attrs. fst (blob_Stat (su_blobs u) (playerKey u p f) b) = Inr attrs \<and> File_Size fl = Attrs_Size attrs \<and> File_Hash fl = Attrs_Hash attrs) \<and>
    fst (ReadPlayerFile u p f (s2, b2)) = map_sum (\<lambda>e. e) (Pair (fl\<lparr>File_ModifiedAt := toTimestamptz now\<rparr>))
      (fst (blob_SignDownload (su_blobs u) (playerKey u p f) (URLTTL (su_cfg u)) b2)) \<and>
    (\<exists>s3. DeletePlayerFile u p f (s2, b2) = (Inr (), s3, snd (blob_Delete (su_blobs u) (playerKey u p f) b2)) \<and>
       (\<forall>s4 b4. quiet s4 \<and> db_tables s4 = db_tables s3 \<longrightarrow> fst (ReadPlayerFile u p f (s4, b4)) = Inl (StorageE ErrFileNotFound)))"
proof -
  obtain attrs where c: "ValidateFilename f = Inr ()" "blob_Stat (su_blobs u) (playerKey u p f) b = (Inr attrs, b')"
      "NewFile f (Attrs_Size attrs) (Attrs_Hash attrs) now = Inr fl" "RW (commit_work (su_cfg u) uid p f fl) s = (Inr (), s')"
    using CommitPlayerFile_Inr [OF assms(1)] .
  have fl: "Attrs_Size attrs \<le> MaxFileSize" "fl = \<lparr>File_Filename = f, File_Size = Attrs_Size attrs, File_Hash = Attrs_Hash attrs, File_ModifiedAt = now\<rparr>"
    using c(3) by (auto simp: NewFile_Inr)
  have "tx_triple (\<lambda>_. True) (commit_work (su_cfg u) uid p f fl)
     (\<lambda>_ t. \<exists>row. replaced t p f = Some row \<and> playerFileToDomain row = fl\<lparr>File_ModifiedAt := toTimestamptz now\<rparr>) (\<lambda>_ _. True)"
    using commit_work_stores [of fl f "su_cfg u" uid p] fl by simp
  from tx_tripleD(1) [OF session_rw.run_triple [OF this] TrueI c(4)]
  obtain row where row: "replaced (db_tables s2) p f = Some row" "playerFileToDomain row = fl\<lparr>File_ModifiedAt := toTimestamptz now\<rparr>"
    using assms(3) by auto
  have read: "fst (ReadPlayerFile u p f (s2, b2)) = map_sum (\<lambda>e. e) (Pair (fl\<lparr>File_ModifiedAt := toTimestamptz now\<rparr>))
      (fst (blob_SignDownload (su_blobs u) (playerKey u p f) (URLTTL (su_cfg u)) b2))"
    using ReadPlayerFile_run [OF assms(2) c(1), of u p b2] row by simp
  obtain s3 where s3: "DeletePlayerFile u p f (s2, b2) = (Inr (), s3, snd (blob_Delete (su_blobs u) (playerKey u p f) b2))"
      "db_tables s3 = drop_file p f (db_tables s2)"
    using DeletePlayerFile_run [OF assms(2) c(1), of p u b2] row(1) by auto
  have "fst (ReadPlayerFile u p f (s4, b4)) = Inl (StorageE ErrFileNotFound)" if "quiet s4" "db_tables s4 = db_tables s3" for s4 b4
    using ReadPlayerFile_run [OF that(1) c(1), of u p b4] that(2) s3(2) by (simp add: replaced_drop)
  then show ?thesis using read s3(1) c(2) fl(2) by auto
qed

text \<open>A small deployment, for concrete instances.\<close>

definition sample_storage :: "FakeBlob StorageUsecase" where
  "sample_storage = \<lparr>su_blobs = fake_blobs 0, su_cfg = \<lparr>PlayerDataPrefix = ''players'', TitlePrefix = ''titles'', URLTTL = 60,
     MaxBytesPerPlayer = 100, MaxFilesPerPlayer = 2\<rparr>, su_str = unary_str, su_collate = (\<lambda>a b. length a < length b)\<rparr>"

definition sample_save :: ObjectAttrs where
  "sample_save = \<lparr>Attrs_Size = 60, Attrs_Hash = ''h''\<rparr>"

definition sample_upload :: FakeBlob where
  "sample_upload = fake_Put (playerKey sample_storage 1 ''b'') sample_save
     (fake_Put (playerKey sample_storage 1 ''a'') sample_save NewFakeBlob)"

lemma unary_elem: "uuid_elem unary_str"
  by (auto simp: uuid_elem_def unary_str_def inj_def word_unat_eq_iff plain_elem_def)

lemma sample_storage_inv: "storage_inv (su_cfg sample_storage) (db_tables (sample_db [1, 2]))" "quiet (sample_db [1, 2])"
  "has_player (db_tables (sample_db [1, 2])) 1"
  by (simp_all add: sample_simps storage_inv_def files_ok_def within_quota_def owner_files_def has_player_def)

lemma sample_names: "ValidateFilename ''a'' = Inr ()"
proof -
  have "decode_all ''a'' = [(97, 1)]"
    by (simp add: decode_all.simps DecodeRune_def byte_at_def)
  moreover have "TrimSpace ''a'' = ''a''"
    by (simp add: TrimSpace_def TrimLeft.simps TrimRight.simps DecodeLastRune_def DecodeRune_def byte_at_def IsSpace_def in_range_def)
  ultimately show ?thesis
    by (simp add: ValidateFilename_def RuneCountInString_def ValidString_def range_runes_def IsControl_def in_range_def MaxFilenameLength_def)
qed

lemma sample_stat: "blob_Stat (su_blobs sample_storage) (playerKey sample_storage 1 ''a'') sample_upload = (Inr sample_save, sample_upload)"
  by (simp add: sample_storage_def fake_blobs_def fake_Stat_def sample_upload_def fake_Put_def playerKey_def)

lemma sample_fits:
  "files_ok (db_tables (sample_db [1, 2]))" "owner_total (db_tables (sample_db [1, 2])) 1 + uint MaxFileSize < 2 ^ 63"
  "7 \<notin> pf_id ` set (player_files (db_tables (sample_db [1, 2])))" "fits (su_cfg sample_storage) (db_tables (sample_db [1, 2])) 1 ''a'' 60"
  by (simp_all add: sample_simps files_ok_def owner_total_def owner_files_def uint_MaxFileSize fits_def total_after_def count_after_def
      replaced_def sample_storage_def)

theorem storage_within_quota_witness:
  "storage_inv (su_cfg sample_storage) (db_tables (fst (fold (storage_step sample_storage)
     [CallCommit 7 1 ''a'' 5000, CallCommit 8 1 ''b'' 6000, ClientTransfer (\<lambda>b. b), CallDelete 1 ''a''] (sample_db [1, 2], sample_upload))))"
  by (rule storage_within_quota) (use sample_storage_inv(1) in \<open>simp_all add: uint_MaxFileSize, simp add: sample_storage_def\<close>)

theorem players_isolated_witness:
  "owner_files (db_tables (fst (fold (storage_step sample_storage) [CallCommit 7 1 ''a'' 5000, CallDelete 1 ''a''] (sample_db [1, 2], sample_upload)))) 2
     = owner_files (db_tables (sample_db [1, 2])) 2"
proof -
  have "blob_store (su_blobs sample_storage) fb_objects"
    using fakeblob.blob_store_axioms [of 0] by (simp add: sample_storage_def)
  moreover have "uuid_elem (su_str sample_storage)" using unary_elem by (simp add: sample_storage_def)
  ultimately show ?thesis
    using players_isolated [of sample_storage fb_objects "[CallCommit 7 1 ''a'' 5000, CallDelete 1 ''a'']" 2 "''a''" "(sample_db [1, 2], sample_upload)"]
      sample_names by simp
qed

lemma sample_commit:
  obtains fl s' b' where "CommitPlayerFile sample_storage 7 1 ''a'' 5000 (sample_db [1, 2], sample_upload) = (Inr fl, s', b')"
proof -
  let ?file = "\<lparr>File_Filename = ''a'', File_Size = 60, File_Hash = ''h'', File_ModifiedAt = 5000\<rparr>"
  have "60 \<le> MaxFileSize" by (simp add: word_le_def uint_MaxFileSize)
  then have "fst (outcome (RW (commit_work (su_cfg sample_storage) 7 1 ''a'' ?file)) (sample_db [1, 2])) = Inr ()"
    using commit_work_run [OF sample_storage_inv(2) sample_fits(1,2) sample_storage_inv(3) sample_fits(3)] sample_fits(4) by simp
  then obtain s' where "RW (commit_work (su_cfg sample_storage) 7 1 ''a'' ?file) (sample_db [1, 2]) = (Inr (), s')"
    by (metis outcome_def fst_conv prod.collapse)
  moreover have "NewFile ''a'' 60 ''h'' 5000 = Inr ?file" using \<open>60 \<le> MaxFileSize\<close> sample_names by (simp add: NewFile_Inr)
  ultimately show thesis
    using that by (auto simp: CommitPlayerFile_def io_defs sample_names sample_stat sample_save_def)
qed

theorem commit_read_delete_witness:
  "\<exists>fl s' b' url. CommitPlayerFile sample_storage 7 1 ''a'' 5000 (sample_db [1, 2], sample_upload) = (Inr fl, s', b') \<and>
     File_Size fl = 60 \<and> fst (ReadPlayerFile sample_storage 1 ''a'' (s'\<lparr>db_faults := [], db_tx := None\<rparr>, b')) = Inr (fl\<lparr>File_ModifiedAt := 5000\<rparr>, url)"
proof -
  obtain fl s' b' where run: "CommitPlayerFile sample_storage 7 1 ''a'' 5000 (sample_db [1, 2], sample_upload) = (Inr fl, s', b')"
    using sample_commit .
  have q: "quiet (s'\<lparr>db_faults := [], db_tx := None\<rparr>)" "db_tables (s'\<lparr>db_faults := [], db_tx := None\<rparr>) = db_tables s'"
    by (simp_all add: quiet_def)
  have sign: "\<exists>url. fst (blob_SignDownload (su_blobs sample_storage) k d b) = Inr url" for k d b
    by (simp add: sample_storage_def fake_blobs_def fake_SignDownload_def)
  have "toTimestamptz 5000 = 5000" by (simp add: toTimestamptz_def)
  with commit_read_delete [OF run q, of b'] sample_stat
    sign [of "playerKey sample_storage 1 ''a''" "URLTTL (su_cfg sample_storage)" b']
  have "File_Size fl = 60 \<and> (\<exists>url. fst (ReadPlayerFile sample_storage 1 ''a'' (s'\<lparr>db_faults := [], db_tx := None\<rparr>, b')) = Inr (fl\<lparr>File_ModifiedAt := 5000\<rparr>, url))"
    by (auto simp: sample_save_def)
  then show ?thesis using run by blast
qed

theorem CommitPlayerFile_exact_witness:
  "fst (CommitPlayerFile sample_storage 7 1 ''a'' 5000 (sample_db [1, 2], sample_upload)) =
     Inr \<lparr>File_Filename = ''a'', File_Size = 60, File_Hash = ''h'', File_ModifiedAt = 5000\<rparr>"
proof -
  have "fst (Spec_Commit sample_storage 7 1 ''a'' 5000 (sample_db [1, 2], sample_upload)) =
     Inr \<lparr>File_Filename = ''a'', File_Size = 60, File_Hash = ''h'', File_ModifiedAt = 5000\<rparr>"
    using sample_fits(4) by (simp add: Spec_Commit_def sample_names sample_stat sample_save_def)
  with CommitPlayerFile_exact [OF sample_storage_inv(2) sample_fits(1,2) sample_storage_inv(3) sample_fits(3), of sample_storage "''a''" 5000 sample_upload]
  show ?thesis by (cases "CommitPlayerFile sample_storage 7 1 ''a'' 5000 (sample_db [1, 2], sample_upload)") (auto dest: arg_cong [where f = fst])
qed

text \<open>
  The quota is checked and the row written in one transaction, but at the default isolation level two
  commits may both check before either writes: each passes, and together they exceed the quota.
\<close>

lemma quota_race:
  "fst (RW (checkQuota (su_cfg sample_storage) 1 ''a'' 60) (sample_db [1, 2])) = Inr ()"
  "fst (RW (checkQuota (su_cfg sample_storage) 1 ''b'' 60) (sample_db [1, 2])) = Inr ()"
  "\<not> owner_total (put_file 8 1 ''b'' 60 ''h'' 0 0 (put_file 7 1 ''a'' 60 ''h'' 0 0 (db_tables (sample_db [1, 2])))) 1
     \<le> uint (MaxBytesPerPlayer (su_cfg sample_storage))"
  by code_simp+

end
