(* ===== verification/Token.thy ===== *)
theory Token
  imports Prelude "HOL-Library.Countable"
begin

unbundle bit_operations_syntax

text \<open>
  Access, session and refresh tokens (\<open>internal/infra/token/token.go\<close>). The JWT library is the argument
  \<open>jwt_lib\<close>: signing a set of claims with a key, and parsing, which asks a key function for the key of
  the signing method named in the token, checks the signature and the expiry, and gives the claims.
  \<open>jwt_ok\<close> is what the program relies on of the two: parsing a token that was signed with the key the
  key function returns gives the signed claims until they expire, and an error from then on. The claims
  the program signs hold ids and current instants; \<open>jwt_ok\<close> does not single them out.
  \<open>jwt_claims\<close> is the JSON object a token carries, with the fields the two claim structs name; a
  field absent from the object leaves the zero value in the struct it is decoded into. Expiry is in
  whole seconds, to which the library truncates instants.

  The hash of a refresh token is SHA-256, written out in \<open>sha256\<close>; the random source is an argument.
\<close>

section \<open>SHA-256 and hex\<close>

definition string_bytes :: "string \<Rightarrow> bytes" where
  "string_bytes s = map (\<lambda>c. of_nat (of_char c)) s"

definition hex_digit :: "nat \<Rightarrow> char" where
  "hex_digit n = (if n < 10 then char_of (48 + n) else char_of (87 + n))"

definition hex_EncodeToString :: "bytes \<Rightarrow> string" where
  "hex_EncodeToString bs = concat (map (\<lambda>b. [hex_digit (unat b div 16), hex_digit (unat b mod 16)]) bs)"

type_synonym w32 = "32 word"

text \<open>
  The constants are defined, as in the standard, from the first 64 primes: the leading 32 bits of the
  fractional parts of their cube roots, and of the square roots of the first eight for the initial state.
\<close>

definition small_primes :: "int list" where
  "small_primes = filter (\<lambda>p. list_all (\<lambda>d. p mod d \<noteq> 0) [2..p - 1]) [2..311]"

definition integer_root :: "nat \<Rightarrow> int \<Rightarrow> int" where
  "integer_root k n = fold (\<lambda>b r. if (r + 2 ^ b) ^ k \<le> n then r + 2 ^ b else r) (rev [0..<40]) 0"

definition sha_k :: "w32 list" where
  "sha_k = map (\<lambda>p. of_int (integer_root 3 (p * 2 ^ 96))) small_primes"

definition sha_iv :: "w32 list" where
  "sha_iv = map (\<lambda>p. of_int (integer_root 2 (p * 2 ^ 64))) (take 8 small_primes)"

definition rotr :: "nat \<Rightarrow> w32 \<Rightarrow> w32" where
  "rotr n x = word_rotr n x"

definition sha_pad :: "bytes \<Rightarrow> bytes" where
  "sha_pad m = m @ [0x80] @ replicate ((119 - length m mod 64) mod 64) 0 @
     map (\<lambda>i. of_nat ((8 * length m) div 256 ^ (7 - i))) [0..<8]"

fun be_words :: "bytes \<Rightarrow> w32 list" where
  "be_words (a # b # c # d # rest) =
     (push_bit 24 (ucast a) OR push_bit 16 (ucast b) OR push_bit 8 (ucast c) OR ucast d) # be_words rest"
| "be_words _ = []"

definition sha_extend :: "w32 list \<Rightarrow> w32 list" where
  "sha_extend w =
     (let n = length w; x = w ! (n - 15); y = w ! (n - 2);
          s0 = rotr 7 x XOR rotr 18 x XOR drop_bit 3 x;
          s1 = rotr 17 y XOR rotr 19 y XOR drop_bit 10 y
      in w @ [w ! (n - 16) + s0 + w ! (n - 7) + s1])"

definition sha_round :: "w32 list \<Rightarrow> w32 \<times> w32 \<Rightarrow> w32 list" where
  "sha_round st kw =
     (case st of [a, b, c, d, e, f, g, h] \<Rightarrow>
        (let s1 = rotr 6 e XOR rotr 11 e XOR rotr 25 e;
             ch = (e AND f) XOR (NOT e AND g);
             t1 = h + s1 + ch + fst kw + snd kw;
             s0 = rotr 2 a XOR rotr 13 a XOR rotr 22 a;
             maj = (a AND b) XOR (a AND c) XOR (b AND c)
         in [t1 + (s0 + maj), a, b, c, d + t1, e, f, g])
      | _ \<Rightarrow> st)"

definition sha_block :: "w32 list \<Rightarrow> w32 list \<Rightarrow> w32 list" where
  "sha_block st blk = map2 (+) st (foldl sha_round st (zip sha_k ((sha_extend ^^ 48) blk)))"

definition chunks :: "nat \<Rightarrow> 'a list \<Rightarrow> 'a list list" where
  "chunks n xs = map (\<lambda>i. take n (drop (n * i) xs)) [0..<length xs div n]"

definition sha256 :: "bytes \<Rightarrow> bytes" where
  "sha256 m =
     concat (map (\<lambda>w. map (\<lambda>i. ucast (drop_bit (24 - 8 * i) w)) [0..<4])
       (foldl sha_block sha_iv (chunks 16 (be_words (sha_pad m)))))"

section \<open>Claims\<close>

record jwt_claims =
  j_sub :: uuid
  j_mid :: "string option"
  j_mps :: "string list"
  j_iat :: int
  j_exp :: int

datatype jwt_method = SigningMethodHMAC string | OtherMethod string

record jwt_lib =
  jwt_SignedString :: "jwt_claims \<Rightarrow> bytes \<Rightarrow> string result"
  jwt_ParseWithClaims :: "go_time \<Rightarrow> string \<Rightarrow> (jwt_method \<Rightarrow> bytes result) \<Rightarrow> jwt_claims result"
  jwt_NewNumericDate :: "go_time \<Rightarrow> int"

record AccessClaims =
  access_PlayerID :: uuid
  access_IssuedAt :: int
  access_ExpiresAt :: int

record SessionClaims =
  session_PlayerID :: uuid
  MatchID :: string
  MatchPlayers :: "string list"
  session_IssuedAt :: int
  session_ExpiresAt :: int

definition access_json :: "AccessClaims \<Rightarrow> jwt_claims" where
  "access_json c = \<lparr>j_sub = access_PlayerID c, j_mid = None, j_mps = [],
     j_iat = access_IssuedAt c, j_exp = access_ExpiresAt c\<rparr>"

definition session_json :: "SessionClaims \<Rightarrow> jwt_claims" where
  "session_json c = \<lparr>j_sub = session_PlayerID c, j_mid = Some (MatchID c), j_mps = MatchPlayers c,
     j_iat = session_IssuedAt c, j_exp = session_ExpiresAt c\<rparr>"

definition json_access :: "jwt_claims \<Rightarrow> AccessClaims" where
  "json_access j = \<lparr>access_PlayerID = j_sub j, access_IssuedAt = j_iat j, access_ExpiresAt = j_exp j\<rparr>"

definition json_session :: "jwt_claims \<Rightarrow> SessionClaims" where
  "json_session j = \<lparr>session_PlayerID = j_sub j, MatchID = (case j_mid j of Some s \<Rightarrow> s | None \<Rightarrow> []),
     MatchPlayers = j_mps j, session_IssuedAt = j_iat j, session_ExpiresAt = j_exp j\<rparr>"

section \<open>The signer\<close>

record Signer =
  secret :: bytes

definition NewSigner :: "string \<Rightarrow> Signer" where
  "NewSigner s = \<lparr>secret = string_bytes s\<rparr>"

definition wrap_err :: "string \<Rightarrow> 'a result \<Rightarrow> 'a result" where
  "wrap_err m r = (case r of Inl e \<Rightarrow> Inl (Wrap m e) | Inr x \<Rightarrow> Inr x)"

definition SignAccess :: "jwt_lib \<Rightarrow> Signer \<Rightarrow> uuid \<Rightarrow> go_time \<Rightarrow> duration \<Rightarrow> string result" where
  "SignAccess J s playerID now ttl =
     wrap_err ''token: sign'' (jwt_SignedString J
       (access_json \<lparr>access_PlayerID = playerID, access_IssuedAt = jwt_NewNumericDate J now,
          access_ExpiresAt = jwt_NewNumericDate J (now + ttl)\<rparr>) (secret s))"

definition SignSession :: "jwt_lib \<Rightarrow> Signer \<Rightarrow> uuid \<Rightarrow> string \<Rightarrow> string list \<Rightarrow> go_time \<Rightarrow> duration \<Rightarrow> string result" where
  "SignSession J s playerID matchID matchPlayers now ttl =
     wrap_err ''token: sign session'' (jwt_SignedString J
       (session_json \<lparr>session_PlayerID = playerID, MatchID = matchID, MatchPlayers = matchPlayers,
          session_IssuedAt = jwt_NewNumericDate J now, session_ExpiresAt = jwt_NewNumericDate J (now + ttl)\<rparr>)
       (secret s))"

definition hmac_key :: "Signer \<Rightarrow> jwt_method \<Rightarrow> bytes result" where
  "hmac_key s m = (case m of
     SigningMethodHMAC _ \<Rightarrow> Inr (secret s)
   | OtherMethod alg \<Rightarrow> Inl (ErrorString (''unexpected signing method '' @ alg)))"

definition VerifySession :: "jwt_lib \<Rightarrow> Signer \<Rightarrow> go_time \<Rightarrow> string \<Rightarrow> SessionClaims result" where
  "VerifySession J s now tokenStr =
     wrap_err ''token: verify session'' (map_sum id json_session (jwt_ParseWithClaims J now tokenStr (hmac_key s)))"

definition Verify :: "jwt_lib \<Rightarrow> Signer \<Rightarrow> go_time \<Rightarrow> string \<Rightarrow> AccessClaims result" where
  "Verify J s now tokenStr =
     wrap_err ''token: verify'' (map_sum id json_access (jwt_ParseWithClaims J now tokenStr (hmac_key s)))"

section \<open>Refresh tokens\<close>

record Refresh =
  Raw :: string
  Hash :: bytes

definition HashRefresh :: "string \<Rightarrow> bytes" where
  "HashRefresh raw = sha256 (string_bytes raw)"

text \<open>\<open>random\<close> is what \<open>rand.Read\<close> did with the 32-byte buffer.\<close>

definition NewRefresh :: "bytes result \<Rightarrow> Refresh result" where
  "NewRefresh random =
     (case random of
        Inl err \<Rightarrow> Inl (Wrap ''token: random'' err)
      | Inr buf \<Rightarrow> (let raw = hex_EncodeToString buf in Inr \<lparr>Raw = raw, Hash = HashRefresh raw\<rparr>))"

section \<open>What the code relies on of the library\<close>

definition unexpired :: "go_time \<Rightarrow> jwt_claims \<Rightarrow> bool" where
  "unexpired now c \<longleftrightarrow> now < j_exp c * Second"

definition jwt_ok :: "jwt_lib \<Rightarrow> bool" where
  "jwt_ok J \<longleftrightarrow>
     (\<forall>t. jwt_NewNumericDate J t = t div Second) \<and>
     (\<forall>c key tok keyfunc now. jwt_SignedString J c key = Inr tok \<and> keyfunc (SigningMethodHMAC ''HS256'') = Inr key \<longrightarrow>
        (if unexpired now c then jwt_ParseWithClaims J now tok keyfunc = Inr c
         else isl (jwt_ParseWithClaims J now tok keyfunc)))"

lemma jwt_parse_signed:
  assumes "jwt_ok J" "jwt_SignedString J c (secret s) = Inr tok"
  shows "unexpired now c \<Longrightarrow> jwt_ParseWithClaims J now tok (hmac_key s) = Inr c"
    and "\<not> unexpired now c \<Longrightarrow> isl (jwt_ParseWithClaims J now tok (hmac_key s))"
  using assms by (simp_all add: jwt_ok_def hmac_key_def)

lemma wrap_err_simps [simp]:
  "wrap_err m r = Inr x \<longleftrightarrow> r = Inr x" "isl (wrap_err m r) \<longleftrightarrow> isl r"
  by (simp_all add: wrap_err_def split: sum.splits)

lemma json_roundtrip [simp]: "json_access (access_json a) = a" "json_session (session_json c) = c"
  by (simp_all add: json_access_def access_json_def json_session_def session_json_def)

lemma isl_map_sum [simp]: "isl (map_sum f g r) \<longleftrightarrow> isl r"
  by (cases r) simp_all

text \<open>An access token decodes into session claims that name no match.\<close>

lemma json_session_access [simp]: "MatchID (json_session (access_json a)) = []"
  by (simp add: json_session_def access_json_def)

text \<open>A library that behaves as documented: a token is a number that codes the claims and the key.\<close>

definition claims_tuple :: "jwt_claims \<Rightarrow> nat \<times> string option \<times> string list \<times> int \<times> int" where
  "claims_tuple c = (unat (j_sub c), j_mid c, j_mps c, j_iat c, j_exp c)"

definition tuple_claims :: "nat \<times> string option \<times> string list \<times> int \<times> int \<Rightarrow> jwt_claims" where
  "tuple_claims t = (case t of (u, m, ps, i, e) \<Rightarrow> \<lparr>j_sub = of_nat u, j_mid = m, j_mps = ps, j_iat = i, j_exp = e\<rparr>)"

lemma tuple_claims_inverse [simp]: "tuple_claims (claims_tuple c) = c"
  by (simp add: tuple_claims_def claims_tuple_def)

definition numbered_jwt :: jwt_lib where
  "numbered_jwt =
     \<lparr>jwt_SignedString = \<lambda>c key. Inr (replicate (to_nat (claims_tuple c, map unat key)) (CHR ''x'')),
      jwt_ParseWithClaims = \<lambda>now tok keyfunc.
        (let (t, key) = from_nat (length tok) :: (nat \<times> string option \<times> string list \<times> int \<times> int) \<times> nat list in
         case keyfunc (SigningMethodHMAC ''HS256'') of
           Inl e \<Rightarrow> Inl e
         | Inr key' \<Rightarrow> if map unat key' = key \<and> unexpired now (tuple_claims t) then Inr (tuple_claims t)
                      else Inl (ErrorString ''token is invalid'')),
      jwt_NewNumericDate = \<lambda>t. t div Second\<rparr>"

lemma jwt_ok_numbered: "jwt_ok numbered_jwt"
  by (auto simp: jwt_ok_def numbered_jwt_def)

section \<open>Refresh tokens\<close>

lemma of_char_hex_digit: "n < 16 \<Longrightarrow> of_char (hex_digit n) = (if n < 10 then 48 + n else 87 + n)"
  by (simp add: hex_digit_def of_char_of)

lemma hex_digit_inj:
  assumes "m < 16" "n < 16" "hex_digit m = hex_digit n"
  shows "m = n"
proof -
  have "(if m < 10 then 48 + m else 87 + m) = (if n < 10 then 48 + n else 87 + n :: nat)"
    using assms of_char_hex_digit [of m] of_char_hex_digit [of n] by metis
  then show ?thesis by (simp split: if_splits)
qed

lemma hex_length [simp]: "length (hex_EncodeToString bs) = 2 * length bs"
  by (induction bs) (simp_all add: hex_EncodeToString_def)

lemma hex_inj: "hex_EncodeToString bs = hex_EncodeToString bs' \<Longrightarrow> bs = bs'"
proof (induction bs arbitrary: bs')
  case Nil
  then show ?case by (cases bs') (simp_all add: hex_EncodeToString_def)
next
  case (Cons b bs)
  then obtain b' bs'' where bs': "bs' = b' # bs''" by (cases bs') (simp_all add: hex_EncodeToString_def)
  have lt: "unat b < 256" "unat b' < 256" using unsigned_less [of b] unsigned_less [of b'] by simp_all
  have "unat b div 16 = unat b' div 16" "unat b mod 16 = unat b' mod 16" "hex_EncodeToString bs = hex_EncodeToString bs''"
    using Cons.prems lt by (auto simp: bs' hex_EncodeToString_def intro!: hex_digit_inj)
  then show ?case using Cons.IH bs' by (metis div_mult_mod_eq word_unat_eq_iff)
qed

lemma length_sha_iv: "length sha_iv = 8"
proof -
  let ?prime = "\<lambda>p. list_all (\<lambda>d. p mod d \<noteq> 0) [2..p - 1 :: int]"
  have "[2..311] = [2..19] @ [19 + 1..311::int]" by (rule upto_split2) simp_all
  then have "8 \<le> length (filter ?prime [2..311]) \<longleftrightarrow> 8 \<le> length (filter ?prime [2..19]) + length (filter ?prime [19 + 1..311])"
    by (simp only: filter_append length_append)
  moreover have "length (filter ?prime [2..19]) = 8" by code_simp
  ultimately have "8 \<le> length small_primes" by (simp only: small_primes_def)
  then show ?thesis by (simp add: sha_iv_def)
qed

lemma length_sha_round: "length st = 8 \<Longrightarrow> length (sha_round st kw) = 8"
  by (auto simp: sha_round_def Let_def split: list.splits)

text \<open>\<open>len(HashRefresh(raw))\<close> is 32, the size of the column it is stored in.\<close>

lemma length_HashRefresh: "length (HashRefresh raw) = 32"
proof -
  have rounds: "length (foldl sha_round st kws) = 8" if "length st = 8" for st kws
    using that by (induction kws arbitrary: st) (simp_all add: length_sha_round)
  have "length (foldl sha_block st bs) = 8" if "length st = 8" for st bs
    using that by (induction bs arbitrary: st) (simp_all add: sha_block_def rounds)
  then have "length (foldl sha_block sha_iv bs) = 8" for bs by (simp add: length_sha_iv)
  moreover have "length (concat (map (\<lambda>w. map (\<lambda>i. ucast (drop_bit (24 - 8 * i) w)) [0..<4]) ws) :: bytes) = 4 * length ws"
    for ws :: "w32 list" by (induction ws) simp_all
  ultimately show ?thesis by (simp add: HashRefresh_def sha256_def)
qed

section \<open>Properties\<close>

text \<open>
  Both kinds of token carry the player id in the same field and are signed with the same secret, so a
  session token is also accepted where an access token is expected.
\<close>

lemma session_token_is_access_token:
  assumes "jwt_ok J" "SignSession J s p mid mps issued ttl = Inr tok" "now < (issued + ttl) div Second * Second"
  shows "map_sum id access_PlayerID (Verify J s now tok) = Inr p"
proof -
  have date: "jwt_NewNumericDate J t = t div Second" for t using assms(1) by (simp add: jwt_ok_def)
  let ?c = "session_json \<lparr>session_PlayerID = p, MatchID = mid, MatchPlayers = mps,
    session_IssuedAt = issued div Second, session_ExpiresAt = (issued + ttl) div Second\<rparr>"
  have "jwt_SignedString J ?c (secret s) = Inr tok" using assms(2) by (simp add: SignSession_def date)
  then have "jwt_ParseWithClaims J now tok (hmac_key s) = Inr ?c"
    by (rule jwt_parse_signed(1) [OF assms(1)]) (simp add: unexpired_def session_json_def assms(3))
  then show ?thesis by (simp add: Verify_def wrap_err_def json_access_def session_json_def)
qed

end
