(* ===== verification/Cloud_Blobs.thy ===== *)
theory Cloud_Blobs
  imports Storage Token
begin

text \<open>
  The object store of a deployment: the adapter over Cloud Storage (\<open>internal/infra/blobstore/gcs.go\<close>).
  The client library is an argument; the locale \<open>gcs_service\<close> states what it documents, is interpreted
  on a service with a script of failures, and gives the contract \<open>blob_store\<close>, so what \<open>Storage\<close> proves
  over that contract holds of the deployed store.
\<close>


section \<open>The client library\<close>

record SignedURLOptions =
  opt_Method :: string
  opt_Expires :: go_time
  opt_Scheme :: string
  opt_GoogleAccessID :: string
  opt_PrivateKey :: "string option"
  opt_Insecure :: bool

record gcs_attrs =
  ga_Size :: int
  ga_MD5 :: bytes

definition ErrObjectNotExist :: go_error where
  "ErrObjectNotExist = ErrorString ''storage: object doesn't exist''"

text \<open>
  The calls the adapter makes, each with the bucket and the key, on the state \<open>'b\<close> of the service. A
  writer is created with a content type, written to and closed.
\<close>

record 'b gcs_client =
  gcs_SignedURL :: "string \<Rightarrow> string \<Rightarrow> SignedURLOptions \<Rightarrow> 'b \<Rightarrow> string result \<times> 'b"
  writer_Write :: "string \<Rightarrow> string \<Rightarrow> string \<Rightarrow> string \<Rightarrow> 'b \<Rightarrow> go_error option \<times> 'b"
  writer_Close :: "string \<Rightarrow> string \<Rightarrow> string \<Rightarrow> 'b \<Rightarrow> go_error option \<times> 'b"
  object_Attrs :: "string \<Rightarrow> string \<Rightarrow> 'b \<Rightarrow> gcs_attrs result \<times> 'b"
  object_Delete :: "string \<Rightarrow> string \<Rightarrow> 'b \<Rightarrow> go_error option \<times> 'b"

section \<open>The adapter\<close>

record gcs_signer =
  accessID :: string
  privateKey :: "string option"

record 'b GCS =
  gcs_conn :: "'b gcs_client"
  gcs_bucket :: string
  gcs_signing :: gcs_signer

record GCSConfig =
  Bucket :: string
  Emulated :: bool

text \<open>
  \<open>generated\<close> is what generating an RSA key gave, in the PEM text the code encodes it to. The second
  component of \<open>NewGCS\<close> says whether the client is open when it returns; the cleanup closes it.
\<close>

definition ephemeralSigningKey :: "string result \<Rightarrow> string result" where
  "ephemeralSigningKey generated = (case generated of
     Inl err \<Rightarrow> Inl (Wrap ''blobstore: generate signing key'' err) | Inr key \<Rightarrow> Inr key)"

definition NewGCS :: "'b gcs_client result \<Rightarrow> string result \<Rightarrow> GCSConfig \<Rightarrow> 'b GCS result \<times> bool" where
  "NewGCS newClient generated cfg = (case newClient of
     Inl err \<Rightarrow> (Inl (Wrap ''blobstore: new client'' err), False)
   | Inr client \<Rightarrow>
       let g = \<lparr>gcs_conn = client, gcs_bucket = Bucket cfg, gcs_signing = \<lparr>accessID = [], privateKey = None\<rparr>\<rparr> in
       if Emulated cfg then
         (case ephemeralSigningKey generated of
            Inl genErr \<Rightarrow> (Inl genErr, False)
          | Inr key \<Rightarrow> (Inr (g\<lparr>gcs_signing := \<lparr>accessID = ''vfx-local-signer@example.com'', privateKey = Some key\<rparr>\<rparr>), True))
       else (Inr g, True))"

definition sign_options :: "'b GCS \<Rightarrow> go_time \<Rightarrow> string \<Rightarrow> SignedURLOptions" where
  "sign_options g expires meth =
     (let opts = \<lparr>opt_Method = meth, opt_Expires = expires, opt_Scheme = ''V4'', opt_GoogleAccessID = [], opt_PrivateKey = None,
        opt_Insecure = False\<rparr>
      in case privateKey (gcs_signing g) of
           None \<Rightarrow> opts
         | Some pk \<Rightarrow> opts\<lparr>opt_GoogleAccessID := accessID (gcs_signing g), opt_PrivateKey := Some pk, opt_Insecure := True\<rparr>)"

definition gcs_sign :: "'b GCS \<Rightarrow> go_time \<Rightarrow> string \<Rightarrow> string \<Rightarrow> duration \<Rightarrow> 'b \<Rightarrow> SignedURL result \<times> 'b" where
  "gcs_sign g now key meth ttl b =
     (let expires = now + ttl in
      case gcs_SignedURL (gcs_conn g) (gcs_bucket g) key (sign_options g expires meth) b of
        (Inl err, b') \<Rightarrow> (Inl (Wrap (''blobstore: sign '' @ meth) err), b')
      | (Inr u, b') \<Rightarrow> (Inr \<lparr>URL = u, URL_Method = meth, URL_Headers = Map.empty, URL_Expires = expires\<rparr>, b'))"

definition gcs_SignUpload :: "'b GCS \<Rightarrow> go_time \<Rightarrow> string \<Rightarrow> duration \<Rightarrow> 'b \<Rightarrow> SignedURL result \<times> 'b" where
  "gcs_SignUpload g now key ttl = gcs_sign g now key ''PUT'' ttl"

definition gcs_SignDownload :: "'b GCS \<Rightarrow> go_time \<Rightarrow> string \<Rightarrow> duration \<Rightarrow> 'b \<Rightarrow> SignedURL result \<times> 'b" where
  "gcs_SignDownload g now key ttl = gcs_sign g now key ''GET'' ttl"

definition gcs_Upload :: "'b GCS \<Rightarrow> string \<Rightarrow> string \<Rightarrow> string \<Rightarrow> 'b \<Rightarrow> unit result \<times> 'b" where
  "gcs_Upload g key data contentType b =
     (case writer_Write (gcs_conn g) (gcs_bucket g) key contentType data b of
        (Some err, b1) \<Rightarrow> (Inl (Wrap ''blobstore: upload write'' err), snd (writer_Close (gcs_conn g) (gcs_bucket g) key contentType b1))
      | (None, b1) \<Rightarrow>
          (case writer_Close (gcs_conn g) (gcs_bucket g) key contentType b1 of
             (Some err, b2) \<Rightarrow> (Inl (Wrap ''blobstore: upload close'' err), b2)
           | (None, b2) \<Rightarrow> (Inr (), b2)))"

definition toObjectAttrs :: "gcs_attrs \<Rightarrow> ObjectAttrs" where
  "toObjectAttrs a = \<lparr>Attrs_Size = of_int (ga_Size a), Attrs_Hash = hex_EncodeToString (ga_MD5 a)\<rparr>"

definition gcs_Stat :: "'b GCS \<Rightarrow> string \<Rightarrow> 'b \<Rightarrow> ObjectAttrs result \<times> 'b" where
  "gcs_Stat g key b = (case object_Attrs (gcs_conn g) (gcs_bucket g) key b of
     (Inl err, b') \<Rightarrow> (Inl (if errors_Is err ErrObjectNotExist then StorageE ErrObjectNotFound else Wrap ''blobstore: stat'' err), b')
   | (Inr attrs, b') \<Rightarrow> (Inr (toObjectAttrs attrs), b'))"

definition gcs_Delete :: "'b GCS \<Rightarrow> string \<Rightarrow> 'b \<Rightarrow> unit result \<times> 'b" where
  "gcs_Delete g key b = (case object_Delete (gcs_conn g) (gcs_bucket g) key b of
     (Some err, b') \<Rightarrow> (if errors_Is err ErrObjectNotExist then Inr () else Inl (Wrap ''blobstore: delete'' err), b')
   | (None, b') \<Rightarrow> (Inr (), b'))"

definition GCS_blobs :: "'b GCS \<Rightarrow> go_time \<Rightarrow> 'b BlobStore" where
  "GCS_blobs g now = \<lparr>blob_SignUpload = gcs_SignUpload g now, blob_SignDownload = gcs_SignDownload g now,
     blob_Upload = gcs_Upload g, blob_Stat = gcs_Stat g, blob_Delete = gcs_Delete g\<rparr>"

section \<open>What the adapter relies on, and what it provides\<close>

text \<open>
  \<open>held b bucket key\<close> is the object the service holds. Attributes are those of the object, and
  \<open>ErrObjectNotExist\<close> is reported only when there is none; a deletion that succeeded, or that found nothing,
  leaves none; calls for one object leave the others alone, and signing leaves all of them alone. The library does not
  know the errors of the storage usecase.
\<close>

locale gcs_service =
  fixes C :: "'b gcs_client" and held :: "'b \<Rightarrow> string \<Rightarrow> string \<Rightarrow> gcs_attrs option"
  assumes attrs: "object_Attrs C bu k b = (Inr a, b') \<Longrightarrow> held b bu k = Some a"
    and attrs_missing: "object_Attrs C bu k b = (Inl e, b') \<Longrightarrow> errors_Is e ErrObjectNotExist \<Longrightarrow> held b bu k = None"
    and attrs_foreign: "object_Attrs C bu k b = (Inl e, b') \<Longrightarrow> \<not> errors_Is e (StorageE ErrObjectNotFound)"
    and attrs_reads: "held (snd (object_Attrs C bu k b)) = held b"
    and sign_reads: "held (snd (gcs_SignedURL C bu k opts b)) = held b"
    and write_key: "k' \<noteq> k \<Longrightarrow> held (snd (writer_Write C bu k ct data b)) bu k' = held b bu k'"
    and close_key: "k' \<noteq> k \<Longrightarrow> held (snd (writer_Close C bu k ct b)) bu k' = held b bu k'"
    and delete_key: "k' \<noteq> k \<Longrightarrow> held (snd (object_Delete C bu k b)) bu k' = held b bu k'"
    and deleted: "object_Delete C bu k b = (r, b') \<Longrightarrow> (\<forall>e. r = Some e \<longrightarrow> errors_Is e ErrObjectNotExist) \<Longrightarrow> held b' bu k = None"
begin

lemma blob_contract:
  assumes "gcs_conn g = C"
  shows "blob_store (GCS_blobs g now) (\<lambda>b k. map_option toObjectAttrs (held b (gcs_bucket g) k))"
proof
  fix k k' ct data d b b' a e r
  show "blob_Stat (GCS_blobs g now) k b = (Inr a, b') \<Longrightarrow> map_option toObjectAttrs (held b (gcs_bucket g) k) = Some a"
    using attrs by (auto simp: GCS_blobs_def gcs_Stat_def assms split: prod.splits sum.splits)
  show "blob_Stat (GCS_blobs g now) k b = (Inl e, b') \<Longrightarrow> errors_Is e (StorageE ErrObjectNotFound) \<Longrightarrow>
      map_option toObjectAttrs (held b (gcs_bucket g) k) = None"
    using attrs_missing attrs_foreign by (auto simp: GCS_blobs_def gcs_Stat_def assms split: prod.splits sum.splits if_splits)
  show "(\<lambda>k'. map_option toObjectAttrs (held (snd (blob_Stat (GCS_blobs g now) k b)) (gcs_bucket g) k')) =
      (\<lambda>k'. map_option toObjectAttrs (held b (gcs_bucket g) k'))"
    using attrs_reads [of "gcs_bucket g" k b] by (auto simp: GCS_blobs_def gcs_Stat_def assms split: prod.splits sum.splits)
  have sign: "held (snd (gcs_sign g now k meth d b)) = held b" for meth
    using sign_reads [of "gcs_bucket g" k "sign_options g (now + d) meth" b]
    by (auto simp: gcs_sign_def Let_def assms split: prod.splits sum.splits)
  show "(\<lambda>k'. map_option toObjectAttrs (held (snd (blob_SignUpload (GCS_blobs g now) k d b)) (gcs_bucket g) k')) =
      (\<lambda>k'. map_option toObjectAttrs (held b (gcs_bucket g) k'))"
    "(\<lambda>k'. map_option toObjectAttrs (held (snd (blob_SignDownload (GCS_blobs g now) k d b)) (gcs_bucket g) k')) =
      (\<lambda>k'. map_option toObjectAttrs (held b (gcs_bucket g) k'))"
    by (simp_all add: GCS_blobs_def gcs_SignUpload_def gcs_SignDownload_def sign)
  show "k' \<noteq> k \<Longrightarrow> map_option toObjectAttrs (held (snd (blob_Delete (GCS_blobs g now) k b)) (gcs_bucket g) k') =
      map_option toObjectAttrs (held b (gcs_bucket g) k')"
    using delete_key [of k' k "gcs_bucket g" b] by (auto simp: GCS_blobs_def gcs_Delete_def assms split: prod.splits option.splits)
  show "blob_Delete (GCS_blobs g now) k b = (Inr r, b') \<Longrightarrow> map_option toObjectAttrs (held b' (gcs_bucket g) k) = None"
    using deleted [of "gcs_bucket g" k b] by (auto simp: GCS_blobs_def gcs_Delete_def assms split: prod.splits option.splits if_splits)
  show "k' \<noteq> k \<Longrightarrow> map_option toObjectAttrs (held (snd (blob_Upload (GCS_blobs g now) k data ct b)) (gcs_bucket g) k') =
      map_option toObjectAttrs (held b (gcs_bucket g) k')"
  proof -
    assume ne: "k' \<noteq> k"
    obtain r1 b1 where w: "writer_Write C (gcs_bucket g) k ct data b = (r1, b1)" by fastforce
    obtain r2 b2 where c: "writer_Close C (gcs_bucket g) k ct b1 = (r2, b2)" by fastforce
    have "held b2 (gcs_bucket g) k' = held b (gcs_bucket g) k'"
      using write_key [OF ne, of "gcs_bucket g" ct data b] close_key [OF ne, of "gcs_bucket g" ct b1] w c by simp
    then show ?thesis using w c by (simp add: GCS_blobs_def gcs_Upload_def assms split: option.split)
  qed
qed

end


text \<open>
  A service with a script of failures: a call whose turn it is to fail changes nothing. What is written
  becomes an object when the writer is closed.
\<close>

record sim_bucket =
  sb_objects :: "string \<times> string \<rightharpoonup> gcs_attrs"
  sb_written :: "string \<times> string \<Rightarrow> string"
  sb_faults :: "bool list"

definition rpc_failed :: go_error where
  "rpc_failed = ErrorString ''rpc error: code = Unavailable''"

definition faulty :: "'r \<Rightarrow> (sim_bucket \<Rightarrow> 'r \<times> sim_bucket) \<Rightarrow> sim_bucket \<Rightarrow> 'r \<times> sim_bucket" where
  "faulty failed m b = (case sb_faults b of True # fs \<Rightarrow> (failed, b\<lparr>sb_faults := fs\<rparr>)
     | _ \<Rightarrow> m (b\<lparr>sb_faults := drop 1 (sb_faults b)\<rparr>))"

definition sim_gcs :: "sim_bucket gcs_client" where
  "sim_gcs = \<lparr>
     gcs_SignedURL = (\<lambda>bu k opts. faulty (Inl rpc_failed) (\<lambda>b. (Inr (''https://storage.googleapis.com/'' @ bu @ ''/'' @ k), b))),
     writer_Write = (\<lambda>bu k ct data. faulty (Some rpc_failed) (\<lambda>b. (None, b\<lparr>sb_written := (sb_written b)((bu, k) := data)\<rparr>))),
     writer_Close = (\<lambda>bu k ct. faulty (Some rpc_failed) (\<lambda>b. (None, b\<lparr>sb_objects := (sb_objects b)((bu, k) \<mapsto>
        \<lparr>ga_Size = int (length (sb_written b (bu, k))), ga_MD5 = take 16 (string_bytes (sb_written b (bu, k)))\<rparr>)\<rparr>))),
     object_Attrs = (\<lambda>bu k. faulty (Inl rpc_failed) (\<lambda>b. (case sb_objects b (bu, k) of None \<Rightarrow> Inl ErrObjectNotExist | Some a \<Rightarrow> Inr a, b))),
     object_Delete = (\<lambda>bu k. faulty (Some rpc_failed) (\<lambda>b. if sb_objects b (bu, k) = None then (Some ErrObjectNotExist, b)
        else (None, b\<lparr>sb_objects := (sb_objects b)((bu, k) := None)\<rparr>)))\<rparr>"

interpretation sim_service: gcs_service sim_gcs "\<lambda>b bu k. sb_objects b (bu, k)"
  by unfold_locales
    (auto simp: sim_gcs_def faulty_def rpc_failed_def ErrObjectNotExist_def fun_eq_iff
       split: list.splits bool.splits option.splits if_splits)

text \<open>
  C0. The cloud object store meets the contract file storage is built on: over a client that behaves as
  documented, whichever of its calls fail, \<open>Stat\<close> reports the size and MD5 of the object and \<open>ErrObjectNotFound\<close>
  only when there is none, \<open>Delete\<close> of a missing object succeeds and no successful one leaves it, uploads and deletions
  touch their key only, and signed URLs carry the verb and the expiry that was asked for.
\<close>

theorem gcs_keeps_contract:
  assumes "gcs_service (gcs_conn g) held"
  shows "blob_store (GCS_blobs g now) (\<lambda>b k. map_option toObjectAttrs (held b (gcs_bucket g) k)) \<and>
    (\<forall>k ttl b u b'. (blob_SignUpload (GCS_blobs g now) k ttl b = (Inr u, b') \<longrightarrow> URL_Method u = ''PUT'' \<and> URL_Expires u = now + ttl) \<and>
      (blob_SignDownload (GCS_blobs g now) k ttl b = (Inr u, b') \<longrightarrow> URL_Method u = ''GET'' \<and> URL_Expires u = now + ttl))"
  using gcs_service.blob_contract [OF assms refl, of now]
  by (auto simp: GCS_blobs_def gcs_SignUpload_def gcs_SignDownload_def gcs_sign_def Let_def split: prod.splits sum.splits)

definition sample_gcs :: "sim_bucket GCS" where
  "sample_gcs = \<lparr>gcs_conn = sim_gcs, gcs_bucket = ''vfx'', gcs_signing = \<lparr>accessID = [], privateKey = None\<rparr>\<rparr>"

definition sample_bucket :: sim_bucket where
  "sample_bucket = \<lparr>sb_objects = [(''vfx'', ''title/motd'') \<mapsto> \<lparr>ga_Size = 2, ga_MD5 = [104, 105]\<rparr>], sb_written = (\<lambda>_. []),
     sb_faults = [False, False]\<rparr>"

theorem gcs_keeps_contract_witness:
  "fst (blob_Stat (GCS_blobs sample_gcs 0) ''title/motd'' sample_bucket) = Inr \<lparr>Attrs_Size = 2, Attrs_Hash = ''6869''\<rparr> \<and>
   sb_objects (snd (blob_Delete (GCS_blobs sample_gcs 0) ''title/motd'' sample_bucket)) (''vfx'', ''title/motd'') = None"
proof -
  have c: "blob_store (GCS_blobs sample_gcs 0) (\<lambda>b k. map_option toObjectAttrs (sb_objects b (gcs_bucket sample_gcs, k)))"
    using gcs_keeps_contract [of sample_gcs "\<lambda>b bu k. sb_objects b (bu, k)" 0] sim_service.gcs_service_axioms
    by (simp add: sample_gcs_def)
  have hex: "hex_EncodeToString [104, 105] = ''6869''" by code_simp
  have stat: "fst (blob_Stat (GCS_blobs sample_gcs 0) ''title/motd'' sample_bucket) = Inr \<lparr>Attrs_Size = 2, Attrs_Hash = ''6869''\<rparr>"
    by (simp add: GCS_blobs_def gcs_Stat_def sample_gcs_def sim_gcs_def faulty_def sample_bucket_def toObjectAttrs_def hex)
  obtain b' where d: "blob_Delete (GCS_blobs sample_gcs 0) ''title/motd'' sample_bucket = (Inr (), b')"
    by (simp add: GCS_blobs_def gcs_Delete_def sample_gcs_def sim_gcs_def faulty_def sample_bucket_def)
  have "gcs_bucket sample_gcs = ''vfx''" by (simp add: sample_gcs_def)
  then show ?thesis using stat blob_store.deleted [OF c d] by (simp add: d)
qed

text \<open>A construction that fails leaves no client open.\<close>

lemma NewGCS_no_leak: "NewGCS newClient generated cfg = (Inl err, opened) \<Longrightarrow> \<not> opened"
  by (auto simp: NewGCS_def Let_def split: sum.splits if_splits)

end
