(* ===== verification/Auth.thy ===== *)
theory Auth
  imports Connect Token
begin

text \<open>
  Accounts and sign-in: the player aggregate (\<open>internal/domain/player\<close>), its three repositories
  (\<open>internal/infra/repository\<close>), the usecase (\<open>internal/usecase/auth/auth.go\<close>) and the Connect handler
  (\<open>internal/presentation/gateway/auth\<close>).

  \<^item> The token issuer and the OIDC verifier are ports of the usecase and fields of its record here.
    \<open>signer_issuer\<close> is the issuer the program is wired with; what the usecase relies on of an issuer
    is the locale \<open>auth_issuer\<close>.
  \<^item> What a call draws at random (\<open>uuid.New\<close>, \<open>uuid.NewString\<close>, the bytes of a refresh token) is the
    argument \<open>draws\<close>; the second attempt of a login draws anew. Nothing is assumed of it, except that
    it is fresh in \<open>sign_in_exact\<close>: an id already in use is a unique violation, or an update for the upsert of
    a player.
  \<^item> \<open>now\<close> is the instant \<open>clock.Now\<close> reads from the request's context.
\<close>

section \<open>Domain\<close>

record Player =
  Player_ID :: uuid
  Nickname :: "string option"
  RegisteredAt :: go_time

record Identity =
  Identity_ID :: uuid
  Identity_PlayerID :: uuid
  Provider :: string
  ProviderUID :: string

record RefreshToken =
  RefreshToken_ID :: uuid
  RefreshToken_PlayerID :: uuid
  RefreshToken_Hash :: bytes
  ExpiresAt :: go_time
  RevokedAt :: "go_time option"

definition ProviderAnonymous :: string where "ProviderAnonymous = ''anonymous''"
definition ProviderGoogle :: string where "ProviderGoogle = ''google''"
definition ProviderApple :: string where "ProviderApple = ''apple''"

definition MaxNicknameLength :: nat where "MaxNicknameLength = 32"

definition validateNickname :: "string option \<Rightarrow> player_err option" where
  "validateNickname nickname =
     (case nickname of
        None \<Rightarrow> None
      | Some n \<Rightarrow> if TrimSpace n = [] then Some ErrInvalidNickname
                 else if RuneCountInString n > MaxNicknameLength then Some ErrInvalidNickname else None)"

definition NewPlayer :: "uuid \<Rightarrow> string option \<Rightarrow> go_time \<Rightarrow> Player result" where
  "NewPlayer uid nickname now =
     (case validateNickname nickname of
        Some e \<Rightarrow> Inl (PlayerE e)
      | None \<Rightarrow> Inr \<lparr>Player_ID = uid, Nickname = nickname, RegisteredAt = now\<rparr>)"

definition SetNickname :: "string option \<Rightarrow> Player \<Rightarrow> Player result" where
  "SetNickname nickname p =
     (case validateNickname nickname of Some e \<Rightarrow> Inl (PlayerE e) | None \<Rightarrow> Inr (p\<lparr>Nickname := nickname\<rparr>))"

definition NewIdentity :: "uuid \<Rightarrow> uuid \<Rightarrow> string \<Rightarrow> string \<Rightarrow> Identity" where
  "NewIdentity uid playerID provider providerUID =
     \<lparr>Identity_ID = uid, Identity_PlayerID = playerID, Provider = provider, ProviderUID = providerUID\<rparr>"

definition IsActive :: "RefreshToken \<Rightarrow> go_time \<Rightarrow> bool" where
  "IsActive rt now \<longleftrightarrow> (if RevokedAt rt \<noteq> None then False else ExpiresAt rt > now)"

section \<open>Statements\<close>

definition sql_GetPlayerByID :: "uuid \<Rightarrow> player_row tx" where
  "sql_GetPlayerByID uid = sql_one (\<lambda>t. find (\<lambda>r. p_id r = uid) (players t))"

definition sql_UpsertPlayer :: "uuid \<Rightarrow> string option \<Rightarrow> go_time \<Rightarrow> unit tx" where
  "sql_UpsertPlayer uid nickname registered = sql_exec (\<lambda>now t.
     if (case nickname of Some n \<Rightarrow> RuneCountInString n > 32 | None \<Rightarrow> False) then Inl string_truncation
     else if has_player t uid
     then Inr ((), t\<lparr>players := map (\<lambda>r. if p_id r = uid then r\<lparr>p_nickname := nickname, p_updated_at := now\<rparr> else r) (players t)\<rparr>)
     else Inr ((), t\<lparr>players := players t @
       [\<lparr>p_id = uid, p_nickname = nickname, p_registered_at = registered, p_updated_at = now\<rparr>]\<rparr>))"

definition is_identity :: "string \<Rightarrow> string \<Rightarrow> identity_row \<Rightarrow> bool" where
  "is_identity provider uid r \<longleftrightarrow> pi_provider r = provider \<and> pi_provider_uid r = uid"

definition sql_FindIdentity :: "string \<Rightarrow> string \<Rightarrow> identity_row tx" where
  "sql_FindIdentity provider uid = sql_one (\<lambda>t. find (is_identity provider uid) (player_identities t))"

definition sql_CreatePlayerIdentity :: "uuid \<Rightarrow> uuid \<Rightarrow> string \<Rightarrow> string \<Rightarrow> unit tx" where
  "sql_CreatePlayerIdentity uid playerID provider provider_uid = sql_exec (\<lambda>now t.
     if uid \<in> pi_id ` set (player_identities t) \<or> list_ex (is_identity provider provider_uid) (player_identities t)
     then Inl unique_violation
     else if \<not> has_player t playerID then Inl foreign_key_violation
     else Inr ((), t\<lparr>player_identities := player_identities t @
       [\<lparr>pi_id = uid, pi_player_id = playerID, pi_provider = provider, pi_provider_uid = provider_uid, pi_created_at = now\<rparr>]\<rparr>))"

definition sql_CreateRefreshToken :: "uuid \<Rightarrow> uuid \<Rightarrow> bytes \<Rightarrow> go_time \<Rightarrow> unit tx" where
  "sql_CreateRefreshToken uid playerID hash expires = sql_exec (\<lambda>now t.
     if uid \<in> rt_id ` set (refresh_tokens t) \<or> hash \<in> rt_token_hash ` set (refresh_tokens t) then Inl unique_violation
     else if \<not> has_player t playerID then Inl foreign_key_violation
     else Inr ((), t\<lparr>refresh_tokens := refresh_tokens t @
       [\<lparr>rt_id = uid, rt_player_id = playerID, rt_token_hash = hash, rt_expires_at = expires,
         rt_revoked_at = None, rt_created_at = now\<rparr>]\<rparr>))"

definition sql_FindRefreshTokenByHash :: "bytes \<Rightarrow> go_time \<Rightarrow> refresh_token_row tx" where
  "sql_FindRefreshTokenByHash hash at = sql_one (\<lambda>t.
     find (\<lambda>r. rt_token_hash r = hash \<and> rt_revoked_at r = None \<and> rt_expires_at r > at) (refresh_tokens t))"

definition revoke_rows :: "(refresh_token_row \<Rightarrow> bool) \<Rightarrow> go_time \<Rightarrow> refresh_token_row list \<Rightarrow> refresh_token_row list" where
  "revoke_rows sel at = map (\<lambda>r. if sel r \<and> rt_revoked_at r = None then r\<lparr>rt_revoked_at := Some at\<rparr> else r)"

definition sql_RevokeRefreshToken :: "uuid \<Rightarrow> go_time \<Rightarrow> nat tx" where
  "sql_RevokeRefreshToken uid at = sql_exec (\<lambda>now t.
     Inr (length (filter (\<lambda>r. rt_id r = uid \<and> rt_revoked_at r = None) (refresh_tokens t)),
          t\<lparr>refresh_tokens := revoke_rows (\<lambda>r. rt_id r = uid) at (refresh_tokens t)\<rparr>))"

definition sql_RevokeAllRefreshTokensForPlayer :: "uuid \<Rightarrow> go_time \<Rightarrow> unit tx" where
  "sql_RevokeAllRefreshTokensForPlayer playerID at = sql_exec (\<lambda>now t.
     Inr ((), t\<lparr>refresh_tokens := revoke_rows (\<lambda>r. rt_player_id r = playerID) at (refresh_tokens t)\<rparr>))"

section \<open>Repositories\<close>

fun isUniqueViolation :: "go_error \<Rightarrow> bool" where
  "isUniqueViolation (DbE e) = (e = unique_violation)"
| "isUniqueViolation (Wrap m e) = isUniqueViolation e"
| "isUniqueViolation _ = False"

definition playerFromRow :: "player_row \<Rightarrow> Player" where
  "playerFromRow r = \<lparr>Player_ID = p_id r, Nickname = p_nickname r, RegisteredAt = p_registered_at r\<rparr>"

definition Player_GetByID :: "uuid \<Rightarrow> Player tx" where
  "Player_GetByID uid = tx_bind (tx_mapping (DbE ErrNoRows) (PlayerE ErrPlayerNotFound) (sql_GetPlayerByID uid))
     (\<lambda>r. tx_return (playerFromRow r))"

definition Player_Save :: "Player \<Rightarrow> unit tx" where
  "Player_Save p = sql_UpsertPlayer (Player_ID p) (Nickname p) (toTimestamptz (RegisteredAt p))"

definition Identity_Find :: "string \<Rightarrow> string \<Rightarrow> Identity tx" where
  "Identity_Find provider uid =
     tx_bind (tx_mapping (DbE ErrNoRows) (PlayerE ErrIdentityNotFound) (sql_FindIdentity provider uid))
       (\<lambda>r. tx_return \<lparr>Identity_ID = pi_id r, Identity_PlayerID = pi_player_id r, Provider = pi_provider r,
                       ProviderUID = pi_provider_uid r\<rparr>)"

definition Identity_Save :: "Identity \<Rightarrow> unit tx" where
  "Identity_Save i =
     tx_catch (sql_CreatePlayerIdentity (Identity_ID i) (Identity_PlayerID i) (Provider i) (ProviderUID i))
       (\<lambda>e. if isUniqueViolation e then tx_fail (PlayerE ErrIdentityAlreadyLinked) else tx_fail e)"

definition RefreshToken_Create :: "RefreshToken \<Rightarrow> unit tx" where
  "RefreshToken_Create rt = sql_CreateRefreshToken (RefreshToken_ID rt) (RefreshToken_PlayerID rt)
     (RefreshToken_Hash rt) (toTimestamptz (ExpiresAt rt))"

definition RefreshToken_FindByHash :: "bytes \<Rightarrow> go_time \<Rightarrow> RefreshToken tx" where
  "RefreshToken_FindByHash hash now =
     tx_bind (tx_mapping (DbE ErrNoRows) (PlayerE ErrRefreshTokenInvalid)
                (sql_FindRefreshTokenByHash hash (toTimestamptz now)))
       (\<lambda>r. tx_return \<lparr>RefreshToken_ID = rt_id r, RefreshToken_PlayerID = rt_player_id r,
                       RefreshToken_Hash = rt_token_hash r, ExpiresAt = rt_expires_at r, RevokedAt = rt_revoked_at r\<rparr>)"

definition RefreshToken_Revoke :: "uuid \<Rightarrow> go_time \<Rightarrow> unit tx" where
  "RefreshToken_Revoke uid now =
     tx_bind (sql_RevokeRefreshToken uid (toTimestamptz now))
       (\<lambda>affected. if affected = 0 then tx_fail (PlayerE ErrRefreshTokenInvalid) else tx_return ())"

definition RefreshToken_RevokeAllForPlayer :: "uuid \<Rightarrow> go_time \<Rightarrow> unit tx" where
  "RefreshToken_RevokeAllForPlayer playerID now = sql_RevokeAllRefreshTokensForPlayer playerID (toTimestamptz now)"

section \<open>Usecase\<close>

record VerifiedIdentity =
  Subject :: string
  vi_Name :: string

record TokenIssuer =
  issuer_SignAccess :: "uuid \<Rightarrow> go_time \<Rightarrow> duration \<Rightarrow> string result"
  issuer_NewRefresh :: "bytes result \<Rightarrow> (string \<times> bytes) result"
  issuer_HashRefresh :: "string \<Rightarrow> bytes"

definition Signer_NewRefresh :: "bytes result \<Rightarrow> (string \<times> bytes) result" where
  "Signer_NewRefresh random = (case NewRefresh random of Inl err \<Rightarrow> Inl err | Inr r \<Rightarrow> Inr (Raw r, Hash r))"

definition signer_issuer :: "jwt_lib \<Rightarrow> Signer \<Rightarrow> TokenIssuer" where
  "signer_issuer J s = \<lparr>issuer_SignAccess = SignAccess J s, issuer_NewRefresh = Signer_NewRefresh,
     issuer_HashRefresh = HashRefresh\<rparr>"

record AuthUsecase =
  au_tokens :: TokenIssuer
  au_verifier :: "string \<Rightarrow> string \<Rightarrow> VerifiedIdentity result"
  accessTokenTTL :: duration
  refreshTokenTTL :: duration

record draws =
  draw_player :: uuid
  draw_identity :: uuid
  draw_token :: uuid
  draw_uid :: string
  draw_random :: "bytes result"

record LoginResult =
  AccessToken :: string
  RefreshTokenRaw :: string
  LoginPlayer :: Player

definition issueTokens :: "AuthUsecase \<Rightarrow> draws \<Rightarrow> uuid \<Rightarrow> go_time \<Rightarrow> (string \<times> string) tx" where
  "issueTokens u d playerID now =
     tx_bind (lift_result (issuer_SignAccess (au_tokens u) playerID now (accessTokenTTL u))) (\<lambda>accessToken.
     tx_bind (lift_result (issuer_NewRefresh (au_tokens u) (draw_random d))) (\<lambda>(refreshRaw, refreshHash).
     tx_bind (tx_wrap ''auth: create refresh token''
       (RefreshToken_Create \<lparr>RefreshToken_ID = draw_token d, RefreshToken_PlayerID = playerID,
          RefreshToken_Hash = refreshHash, ExpiresAt = now + refreshTokenTTL u, RevokedAt = None\<rparr>)) (\<lambda>_.
     tx_return (accessToken, refreshRaw))))"

definition create_player :: "draws \<Rightarrow> string \<Rightarrow> string \<Rightarrow> string option \<Rightarrow> go_time \<Rightarrow> Player tx" where
  "create_player d provider providerUID nickname now =
     tx_bind (lift_result (NewPlayer (draw_player d) nickname now)) (\<lambda>p.
     tx_bind (tx_wrap ''auth: save player'' (Player_Save p)) (\<lambda>_.
     tx_bind (tx_wrap ''auth: save identity''
       (Identity_Save (NewIdentity (draw_identity d) (Player_ID p) provider providerUID))) (\<lambda>_.
     tx_return p)))"

definition findOrCreateByIdentity :: "draws \<Rightarrow> string \<Rightarrow> string \<Rightarrow> string option \<Rightarrow> go_time \<Rightarrow> Player tx" where
  "findOrCreateByIdentity d provider providerUID nickname now =
     tx_bind (tx_optional (PlayerE ErrIdentityNotFound) (Identity_Find provider providerUID)) (\<lambda>existing.
     case existing of
       Some i \<Rightarrow> Player_GetByID (Identity_PlayerID i)
     | None \<Rightarrow> create_player d provider providerUID nickname now)"

definition findOrCreatePlayer :: "draws \<Rightarrow> string option \<Rightarrow> string option \<Rightarrow> go_time \<Rightarrow> Player tx" where
  "findOrCreatePlayer d deviceID nickname now =
     (case deviceID of
        None \<Rightarrow> create_player d ProviderAnonymous (draw_uid d) nickname now
      | Some dev \<Rightarrow> findOrCreateByIdentity d ProviderAnonymous dev nickname now)"

definition nicknameOrNil :: "string \<Rightarrow> string option" where
  "nicknameOrNil name =
     (let n = TrimSpace name in
      if n = [] \<or> RuneCountInString n > MaxNicknameLength then None else Some n)"

definition runLoginTx :: "(draws \<Rightarrow> 'a tx) \<Rightarrow> draws \<Rightarrow> draws \<Rightarrow> 'a tx" where
  "runLoginTx fn d d' = tx_catch (RW (fn d))
     (\<lambda>e. if errors_Is e (PlayerE ErrIdentityAlreadyLinked) then RW (fn d') else tx_fail e)"

definition login_work :: "AuthUsecase \<Rightarrow> (draws \<Rightarrow> Player tx) \<Rightarrow> go_time \<Rightarrow> draws \<Rightarrow> LoginResult tx" where
  "login_work u resolve now d =
     tx_bind (resolve d) (\<lambda>p.
     tx_bind (issueTokens u d (Player_ID p) now) (\<lambda>(accessToken, raw).
     tx_return \<lparr>AccessToken = accessToken, RefreshTokenRaw = raw, LoginPlayer = p\<rparr>))"

definition LoginAnonymous :: "AuthUsecase \<Rightarrow> draws \<Rightarrow> draws \<Rightarrow> string option \<Rightarrow> string option \<Rightarrow> go_time \<Rightarrow> LoginResult tx" where
  "LoginAnonymous u d d' deviceID nickname now =
     runLoginTx (login_work u (\<lambda>d. findOrCreatePlayer d deviceID nickname now) now) d d'"

definition LoginOIDC :: "AuthUsecase \<Rightarrow> draws \<Rightarrow> draws \<Rightarrow> string \<Rightarrow> string \<Rightarrow> go_time \<Rightarrow> LoginResult tx" where
  "LoginOIDC u d d' provider idToken now =
     (case au_verifier u provider idToken of
        Inl _ \<Rightarrow> tx_fail ErrInvalidCredential
      | Inr i \<Rightarrow> runLoginTx (login_work u (\<lambda>d.
          findOrCreateByIdentity d provider (Subject i) (nicknameOrNil (vi_Name i)) now) now) d d')"

definition link_work :: "uuid \<Rightarrow> uuid \<Rightarrow> string \<Rightarrow> string \<Rightarrow> Player tx" where
  "link_work uid playerID provider subject =
     tx_bind (tx_optional (PlayerE ErrIdentityNotFound) (Identity_Find provider subject)) (\<lambda>owner.
     case owner of
       Some i \<Rightarrow> if Identity_PlayerID i \<noteq> playerID then tx_fail (PlayerE ErrIdentityAlreadyLinked)
                 else Player_GetByID playerID
     | None \<Rightarrow>
         tx_bind (Player_GetByID playerID) (\<lambda>me.
         tx_bind (tx_wrap ''auth: link identity'' (Identity_Save (NewIdentity uid playerID provider subject))) (\<lambda>_.
         tx_return me)))"

definition LinkIdentity :: "AuthUsecase \<Rightarrow> uuid \<Rightarrow> uuid \<Rightarrow> string \<Rightarrow> string \<Rightarrow> Player tx" where
  "LinkIdentity u uid playerID provider idToken =
     (case au_verifier u provider idToken of
        Inl _ \<Rightarrow> tx_fail ErrInvalidCredential
      | Inr i \<Rightarrow> RW (link_work uid playerID provider (Subject i)))"

definition refresh_work :: "AuthUsecase \<Rightarrow> draws \<Rightarrow> string \<Rightarrow> go_time \<Rightarrow> LoginResult tx" where
  "refresh_work u d raw now =
     tx_bind (RefreshToken_FindByHash (issuer_HashRefresh (au_tokens u) raw) now) (\<lambda>rt.
     if \<not> IsActive rt now then tx_fail (PlayerE ErrRefreshTokenInvalid)
     else tx_bind (RefreshToken_Revoke (RefreshToken_ID rt) now) (\<lambda>_.
     tx_bind (Player_GetByID (RefreshToken_PlayerID rt)) (\<lambda>p.
     tx_bind (issueTokens u d (Player_ID p) now) (\<lambda>(accessToken, newRaw).
     tx_return \<lparr>AccessToken = accessToken, RefreshTokenRaw = newRaw, LoginPlayer = p\<rparr>))))"

definition Auth_Refresh :: "AuthUsecase \<Rightarrow> draws \<Rightarrow> string \<Rightarrow> go_time \<Rightarrow> LoginResult tx" where
  "Auth_Refresh u d raw now = RW (refresh_work u d raw now)"

definition Logout :: "uuid \<Rightarrow> go_time \<Rightarrow> unit tx" where
  "Logout playerID now = RW (RefreshToken_RevokeAllForPlayer playerID now)"

definition update_work :: "uuid \<Rightarrow> string option \<Rightarrow> Player tx" where
  "update_work playerID nickname =
     tx_bind (Player_GetByID playerID) (\<lambda>p.
     tx_bind (if nickname \<noteq> None then lift_result (SetNickname nickname p) else tx_return p) (\<lambda>p'.
     tx_bind (Player_Save p') (\<lambda>_. tx_return p')))"

definition UpdateProfile :: "uuid \<Rightarrow> string option \<Rightarrow> Player tx" where
  "UpdateProfile playerID nickname = RW (update_work playerID nickname)"

section \<open>Handlers\<close>

datatype ProviderPb = PROVIDER_UNSPECIFIED | PROVIDER_GOOGLE | PROVIDER_APPLE

datatype Credential = Anonymous "string option" "string option" | Oidc ProviderPb string | NoCredential

record PlayerPb =
  pb_Id :: string
  pb_Nickname :: "string option"
  pb_RegisteredAt :: go_time

definition toPlayerPb :: "(uuid \<Rightarrow> string) \<Rightarrow> Player \<Rightarrow> PlayerPb" where
  "toPlayerPb str p = \<lparr>pb_Id = str (Player_ID p), pb_Nickname = Nickname p, pb_RegisteredAt = RegisteredAt p\<rparr>"

definition toProvider :: "ProviderPb \<Rightarrow> string response" where
  "toProvider p = (case p of
     PROVIDER_GOOGLE \<Rightarrow> Inr ProviderGoogle
   | PROVIDER_APPLE \<Rightarrow> Inr ProviderApple
   | PROVIDER_UNSPECIFIED \<Rightarrow> Inl (CodeInvalidArgument, ErrorString ''unknown oidc provider''))"

definition auth_toConnectError :: "go_error \<Rightarrow> connect_error" where
  "auth_toConnectError err =
     (if errors_Is err (PlayerE ErrInvalidNickname) then (CodeInvalidArgument, err)
      else if errors_Is err (PlayerE ErrPlayerNotFound) then (CodeNotFound, err)
      else if errors_Is err (PlayerE ErrIdentityNotFound) then (CodeNotFound, err)
      else if errors_Is err (PlayerE ErrRefreshTokenInvalid) then (CodeUnauthenticated, err)
      else if errors_Is err ErrInvalidCredential then (CodeUnauthenticated, err)
      else if errors_Is err (PlayerE ErrIdentityAlreadyLinked) then (CodeAlreadyExists, err)
      else (CodeInternal, err))"

definition toLoginPb :: "(uuid \<Rightarrow> string) \<Rightarrow> LoginResult \<Rightarrow> string \<times> string \<times> PlayerPb" where
  "toLoginPb str r = (AccessToken r, RefreshTokenRaw r, toPlayerPb str (LoginPlayer r))"

definition Handler_Login :: "(uuid \<Rightarrow> string) \<Rightarrow> AuthUsecase \<Rightarrow> draws \<Rightarrow> draws \<Rightarrow> Credential \<Rightarrow> go_time \<Rightarrow> db \<Rightarrow>
    (string \<times> string \<times> PlayerPb) response \<times> db" where
  "Handler_Login str u d d' cred now s =
     (case cred of
        Anonymous deviceID nickname \<Rightarrow>
          respond auth_toConnectError (toLoginPb str) (LoginAnonymous u d d' deviceID nickname now s)
      | Oidc prov idToken \<Rightarrow> or_return (toProvider prov) s (\<lambda>provider.
          respond auth_toConnectError (toLoginPb str) (LoginOIDC u d d' provider idToken now s))
      | NoCredential \<Rightarrow> (Inl (CodeInvalidArgument, ErrorString ''credential is required''), s))"

definition Handler_LinkIdentity :: "(uuid \<Rightarrow> string) \<Rightarrow> AuthUsecase \<Rightarrow> uuid \<Rightarrow> ctx \<Rightarrow> (ProviderPb \<times> string) option \<Rightarrow> db \<Rightarrow>
    PlayerPb response \<times> db" where
  "Handler_LinkIdentity str u uid c oidc s =
     or_return (requireAuth c) s (\<lambda>playerID.
       case oidc of
         None \<Rightarrow> (Inl (CodeInvalidArgument, ErrorString ''oidc credential is required''), s)
       | Some (prov, idToken) \<Rightarrow> or_return (toProvider prov) s (\<lambda>provider.
           respond auth_toConnectError (toPlayerPb str) (LinkIdentity u uid playerID provider idToken s)))"

definition Handler_Refresh :: "AuthUsecase \<Rightarrow> draws \<Rightarrow> string \<Rightarrow> go_time \<Rightarrow> db \<Rightarrow> (string \<times> string) response \<times> db" where
  "Handler_Refresh u d refreshToken now s =
     (if refreshToken = [] then (Inl (CodeInvalidArgument, ErrorString ''refresh_token is required''), s)
      else respond auth_toConnectError (\<lambda>r. (AccessToken r, RefreshTokenRaw r)) (Auth_Refresh u d refreshToken now s))"

definition Handler_Logout :: "ctx \<Rightarrow> go_time \<Rightarrow> db \<Rightarrow> unit response \<times> db" where
  "Handler_Logout c now s =
     or_return (requireAuth c) s (\<lambda>playerID. respond auth_toConnectError id (Logout playerID now s))"

definition Handler_UpdateProfile :: "(uuid \<Rightarrow> string) \<Rightarrow> ctx \<Rightarrow> string option \<Rightarrow> db \<Rightarrow> PlayerPb response \<times> db" where
  "Handler_UpdateProfile str c nickname s =
     or_return (requireAuth c) s (\<lambda>playerID.
       respond auth_toConnectError (toPlayerPb str) (UpdateProfile playerID nickname s))"

section \<open>The account tables\<close>

definition auth_inv :: "tables \<Rightarrow> bool" where
  "auth_inv t \<longleftrightarrow>
     distinct (map p_id (players t)) \<and>
     distinct (map (\<lambda>r. (pi_provider r, pi_provider_uid r)) (player_identities t)) \<and>
     (\<forall>r \<in> set (player_identities t). has_player t (pi_player_id r)) \<and>
     distinct (map rt_id (refresh_tokens t)) \<and> distinct (map rt_token_hash (refresh_tokens t)) \<and>
     (\<forall>r \<in> set (refresh_tokens t). has_player t (rt_player_id r)) \<and>
     (\<forall>r \<in> set (players t). validateNickname (p_nickname r) = None)"

text \<open>
  What never goes back: players and identities stay, and so do refresh tokens, which keep their hash
  and owner, and once revoked stay revoked.
\<close>

definition token_le :: "refresh_token_row \<Rightarrow> refresh_token_row \<Rightarrow> bool" where
  "token_le r r' \<longleftrightarrow> rt_id r' = rt_id r \<and> rt_token_hash r' = rt_token_hash r \<and> rt_player_id r' = rt_player_id r \<and>
     rt_expires_at r' = rt_expires_at r \<and> (rt_revoked_at r \<noteq> None \<longrightarrow> rt_revoked_at r' = rt_revoked_at r)"

definition auth_le :: "tables \<Rightarrow> tables \<Rightarrow> bool" where
  "auth_le t t' \<longleftrightarrow>
     set (player_identities t) \<subseteq> set (player_identities t') \<and> p_id ` set (players t) \<subseteq> p_id ` set (players t') \<and>
     (\<forall>r \<in> set (refresh_tokens t). \<exists>r' \<in> set (refresh_tokens t'). token_le r r')"

lemma auth_le_refl [simp]: "auth_le t t"
  by (auto simp: auth_le_def token_le_def)

lemma token_le_trans: "token_le a b \<Longrightarrow> token_le b c \<Longrightarrow> token_le a c"
  by (auto simp: token_le_def)

lemma auth_le_trans: "auth_le a b \<Longrightarrow> auth_le b c \<Longrightarrow> auth_le a c"
  unfolding auth_le_def by (meson subset_trans token_le_trans)

definition auth_from :: "tables \<Rightarrow> tables \<Rightarrow> bool" where
  "auth_from t0 t \<longleftrightarrow> auth_inv t \<and> auth_le t0 t"

lemma auth_fromI: "auth_from t0 t \<Longrightarrow> auth_inv t' \<Longrightarrow> auth_le t t' \<Longrightarrow> auth_from t0 t'"
  by (auto simp: auth_from_def intro: auth_le_trans)

section \<open>Statements keep the invariant\<close>

lemma auth_inv_players:
  assumes "auth_inv t" "map p_id ps = map p_id (players t) @ new" "distinct (map p_id ps)"
    "\<forall>r \<in> set ps. validateNickname (p_nickname r) = None"
  shows "auth_from t (t\<lparr>players := ps\<rparr>)"
proof -
  have "p_id ` set ps = p_id ` set (players t) \<union> set new" by (metis assms(2) set_append set_map)
  then show ?thesis
    using assms by (auto simp: auth_from_def auth_inv_def auth_le_def has_player_def token_le_def)
qed

lemma upsert_inv:
  assumes "auth_inv t" "validateNickname nick = None"
  shows "auth_from t (t\<lparr>players := map (\<lambda>r. if p_id r = uid then r\<lparr>p_nickname := nick, p_updated_at := now\<rparr> else r) (players t)\<rparr>)"
    and "\<not> has_player t uid \<Longrightarrow> auth_from t (t\<lparr>players := players t @
       [\<lparr>p_id = uid, p_nickname = nick, p_registered_at = reg, p_updated_at = now\<rparr>]\<rparr>)"
proof -
  have ids: "map p_id (map (\<lambda>r. if p_id r = uid then r\<lparr>p_nickname := nick, p_updated_at := now\<rparr> else r) ps) = map p_id ps"
    for ps by (induction ps) auto
  show "auth_from t (t\<lparr>players := map (\<lambda>r. if p_id r = uid then r\<lparr>p_nickname := nick, p_updated_at := now\<rparr> else r) (players t)\<rparr>)"
    by (rule auth_inv_players [where new = "[]"], rule assms(1), unfold ids)
       (use assms in \<open>auto simp: auth_inv_def\<close>)
  assume "\<not> has_player t uid"
  then show "auth_from t (t\<lparr>players := players t @
       [\<lparr>p_id = uid, p_nickname = nick, p_registered_at = reg, p_updated_at = now\<rparr>]\<rparr>)"
    by (intro auth_inv_players [where new = "[uid]"]) (use assms in \<open>auto simp: auth_inv_def has_player_def\<close>)
qed

lemma identity_inv:
  assumes "auth_inv t" "\<not> list_ex (is_identity prov uid) (player_identities t)" "has_player t p"
  shows "auth_from t (t\<lparr>player_identities := player_identities t @
       [\<lparr>pi_id = i, pi_player_id = p, pi_provider = prov, pi_provider_uid = uid, pi_created_at = now\<rparr>]\<rparr>)"
  using assms
  by (auto simp: auth_from_def auth_inv_def auth_le_def has_player_def token_le_def list_ex_iff is_identity_def)

lemma token_inv:
  assumes "auth_inv t" "i \<notin> rt_id ` set (refresh_tokens t)" "h \<notin> rt_token_hash ` set (refresh_tokens t)" "has_player t p"
  shows "auth_from t (t\<lparr>refresh_tokens := refresh_tokens t @
       [\<lparr>rt_id = i, rt_player_id = p, rt_token_hash = h, rt_expires_at = e, rt_revoked_at = None, rt_created_at = now\<rparr>]\<rparr>)"
  using assms by (auto simp: auth_from_def auth_inv_def auth_le_def has_player_def token_le_def)

lemma revoke_rows_frame [simp]:
  "map rt_id (revoke_rows sel at rs) = map rt_id rs" "map rt_token_hash (revoke_rows sel at rs) = map rt_token_hash rs"
  "map rt_player_id (revoke_rows sel at rs) = map rt_player_id rs"
  by (induction rs) (auto simp: revoke_rows_def)

definition revoke_row :: "(refresh_token_row \<Rightarrow> bool) \<Rightarrow> go_time \<Rightarrow> refresh_token_row \<Rightarrow> refresh_token_row" where
  "revoke_row sel at r = (if sel r \<and> rt_revoked_at r = None then r\<lparr>rt_revoked_at := Some at\<rparr> else r)"

lemma revoke_rows_set: "set (revoke_rows sel at rs) = revoke_row sel at ` set rs"
  by (simp add: revoke_rows_def revoke_row_def [abs_def])

lemma revoke_row_simps:
  "rt_player_id (revoke_row sel at r) = rt_player_id r" "sel r \<Longrightarrow> \<exists>w. rt_revoked_at (revoke_row sel at r) = Some w"
  by (auto simp: revoke_row_def)

lemma revoke_row_le: "token_le r (revoke_row sel at r)"
  by (simp add: token_le_def revoke_row_def)

lemma revoke_inv:
  assumes "auth_inv t"
  shows "auth_from t (t\<lparr>refresh_tokens := revoke_rows sel at (refresh_tokens t)\<rparr>)"
proof -
  have "\<exists>r' \<in> set (revoke_rows sel at (refresh_tokens t)). token_le r r'" if "r \<in> set (refresh_tokens t)" for r
    using that revoke_row_le unfolding revoke_rows_set by blast
  moreover have "\<forall>r \<in> set (revoke_rows sel at (refresh_tokens t)). has_player t (rt_player_id r)"
    using assms by (auto simp: revoke_rows_set revoke_row_def auth_inv_def)
  ultimately show ?thesis using assms by (auto simp: auth_from_def auth_inv_def auth_le_def has_player_def)
qed

text \<open>
  The statements of the repositories, as triples: each keeps \<open>auth_from t0\<close>, and says what it found or
  stored.
\<close>

lemma GetByID_triple:
  "tx_triple (auth_from t0) (Player_GetByID uid)
     (\<lambda>p t. auth_from t0 t \<and> Player_ID p = uid \<and> has_player t uid \<and> validateNickname (Nickname p) = None)
     (\<lambda>_. auth_from t0)"
  unfolding Player_GetByID_def
  by (rule triple_bind [OF triple_mapping [where E = "\<lambda>_. auth_from t0"
        and Q = "\<lambda>r t. auth_from t0 t \<and> r \<in> set (players t) \<and> p_id r = uid"]])
     (auto simp: sql_GetPlayerByID_def playerFromRow_def has_player_def auth_from_def auth_inv_def
       intro!: triple_one triple_return dest!: find_Some)

lemma has_player_mono: "auth_from t t' \<Longrightarrow> has_player t p \<Longrightarrow> has_player t' p"
  by (auto simp: auth_from_def auth_le_def has_player_def)

lemma Player_Save_triple:
  assumes "validateNickname (Nickname p) = None"
  shows "tx_triple (auth_from t0) (Player_Save p) (\<lambda>_ t. auth_from t0 t \<and> has_player t (Player_ID p)) (\<lambda>_. auth_from t0)"
  unfolding Player_Save_def sql_UpsertPlayer_def
proof (rule triple_exec)
  fix now t x t'
  assume t: "auth_from t0 t" and r: "(if (case Nickname p of Some n \<Rightarrow> RuneCountInString n > 32 | None \<Rightarrow> False) then Inl string_truncation
     else if has_player t (Player_ID p)
     then Inr ((), t\<lparr>players := map (\<lambda>r. if p_id r = Player_ID p then r\<lparr>p_nickname := Nickname p, p_updated_at := now\<rparr> else r) (players t)\<rparr>)
     else Inr ((), t\<lparr>players := players t @
       [\<lparr>p_id = Player_ID p, p_nickname = Nickname p, p_registered_at = toTimestamptz (RegisteredAt p), p_updated_at = now\<rparr>]\<rparr>)) = Inr (x, t')"
  have inv: "auth_inv t" using t by (simp add: auth_from_def)
  have "auth_from t t' \<and> has_player t' (Player_ID p)"
  proof (cases "has_player t (Player_ID p)")
    case True
    then have "auth_from t t'" using r upsert_inv(1) [OF inv assms, of "Player_ID p" now] by (auto split: if_splits)
    then show ?thesis using has_player_mono True by blast
  next
    case False
    then show ?thesis using r upsert_inv(2) [OF inv assms False] by (auto simp: has_player_def split: if_splits)
  qed
  then show "auth_from t0 t' \<and> has_player t' (Player_ID p)"
    using auth_fromI [OF t, of t'] by (auto simp: auth_from_def)
qed


definition linked :: "tables \<Rightarrow> string \<Rightarrow> string \<Rightarrow> uuid \<Rightarrow> bool" where
  "linked t provider uid p \<longleftrightarrow> (\<exists>r \<in> set (player_identities t). is_identity provider uid r \<and> pi_player_id r = p)"

lemma linked_unique: "auth_inv t \<Longrightarrow> linked t provider uid p \<Longrightarrow> linked t provider uid q \<Longrightarrow> p = q"
proof -
  assume inv: "auth_inv t" and "linked t provider uid p" "linked t provider uid q"
  then obtain r r' where r: "r \<in> set (player_identities t)" "r' \<in> set (player_identities t)"
    "pi_provider r = pi_provider r'" "pi_provider_uid r = pi_provider_uid r'" "pi_player_id r = p" "pi_player_id r' = q"
    by (auto simp: linked_def is_identity_def)
  have "inj_on (\<lambda>r. (pi_provider r, pi_provider_uid r)) (set (player_identities t))"
    using inv by (simp add: auth_inv_def distinct_map)
  then have "r = r'" using r(1-4) by (auto dest: inj_onD)
  then show ?thesis using r by simp
qed

lemma linked_mono: "auth_le t t' \<Longrightarrow> linked t provider uid p \<Longrightarrow> linked t' provider uid p"
  by (auto simp: linked_def auth_le_def)

lemma Identity_Find_triple:
  "tx_triple (auth_from t0) (Identity_Find provider uid)
     (\<lambda>i t. auth_from t0 t \<and> linked t provider uid (Identity_PlayerID i)) (\<lambda>_. auth_from t0)"
  unfolding Identity_Find_def
  by (rule triple_bind [OF triple_mapping [where E = "\<lambda>_. auth_from t0"
        and Q = "\<lambda>r t. auth_from t0 t \<and> r \<in> set (player_identities t) \<and> is_identity provider uid r"]])
     (auto simp: sql_FindIdentity_def linked_def intro!: triple_one triple_return dest!: find_Some)

lemma Identity_Save_triple:
  "tx_triple (auth_from t0) (Identity_Save (NewIdentity i p provider uid))
     (\<lambda>_ t. auth_from t0 t \<and> linked t provider uid p) (\<lambda>_. auth_from t0)"
  unfolding Identity_Save_def sql_CreatePlayerIdentity_def
proof (rule triple_catch [where F = "\<lambda>_. auth_from t0"], rule triple_exec)
  fix now t x t'
  assume t: "auth_from t0 t" and r: "(if Identity_ID (NewIdentity i p provider uid) \<in> pi_id ` set (player_identities t)
       \<or> list_ex (is_identity (Provider (NewIdentity i p provider uid)) (ProviderUID (NewIdentity i p provider uid))) (player_identities t)
     then Inl unique_violation
     else if \<not> has_player t (Identity_PlayerID (NewIdentity i p provider uid)) then Inl foreign_key_violation
     else Inr ((), t\<lparr>player_identities := player_identities t @
       [\<lparr>pi_id = Identity_ID (NewIdentity i p provider uid), pi_player_id = Identity_PlayerID (NewIdentity i p provider uid),
         pi_provider = Provider (NewIdentity i p provider uid), pi_provider_uid = ProviderUID (NewIdentity i p provider uid),
         pi_created_at = now\<rparr>]\<rparr>)) = Inr (x, t')"
  have "auth_inv t" using t by (simp add: auth_from_def)
  note add = identity_inv [OF this, of provider uid p i now]
  have "auth_from t t' \<and> linked t' provider uid p"
    using r add by (auto simp: NewIdentity_def linked_def is_identity_def split: if_splits)
  then show "auth_from t0 t' \<and> linked t' provider uid p"
    using auth_fromI [OF t, of t'] by (auto simp: auth_from_def)
qed (auto intro!: triple_if triple_fail)

definition token_row :: "tables \<Rightarrow> bytes \<Rightarrow> (refresh_token_row \<Rightarrow> bool) \<Rightarrow> bool" where
  "token_row t h P \<longleftrightarrow> (\<exists>r \<in> set (refresh_tokens t). rt_token_hash r = h \<and> P r)"

lemma FindByHash_triple:
  "tx_triple (auth_from t0) (RefreshToken_FindByHash h now)
     (\<lambda>rt t. auth_from t0 t \<and> RefreshToken_Hash rt = h \<and>
        token_row t h (\<lambda>r. rt_id r = RefreshToken_ID rt \<and> rt_player_id r = RefreshToken_PlayerID rt \<and> rt_revoked_at r = None
           \<and> rt_expires_at r = ExpiresAt rt))
     (\<lambda>_. auth_from t0)"
  unfolding RefreshToken_FindByHash_def
  by (rule triple_bind [OF triple_mapping [where E = "\<lambda>_. auth_from t0"
        and Q = "\<lambda>r t. auth_from t0 t \<and> r \<in> set (refresh_tokens t) \<and> rt_token_hash r = h \<and> rt_revoked_at r = None"]])
     (auto simp: sql_FindRefreshTokenByHash_def token_row_def intro!: triple_one triple_return dest!: find_Some)

lemma Revoke_triple:
  "tx_triple (\<lambda>t. auth_from t0 t \<and> token_row t h (\<lambda>r. rt_id r = i)) (RefreshToken_Revoke i now)
     (\<lambda>_ t. auth_from t0 t \<and> token_row t h (\<lambda>r. rt_revoked_at r \<noteq> None)) (\<lambda>_. auth_from t0)"
  unfolding RefreshToken_Revoke_def sql_RevokeRefreshToken_def
proof (rule triple_affected)
  fix t assume t: "auth_from t0 t \<and> token_row t h (\<lambda>r. rt_id r = i)"
  let ?t = "t\<lparr>refresh_tokens := revoke_rows (\<lambda>r. rt_id r = i) (toTimestamptz now) (refresh_tokens t)\<rparr>"
  have "auth_from t ?t" using t by (intro revoke_inv) (simp add: auth_from_def)
  then have t': "auth_from t0 ?t" using t auth_fromI [of t0 t ?t] by (auto simp: auth_from_def)
  obtain r where r: "r \<in> set (refresh_tokens t)" "rt_token_hash r = h" "rt_id r = i" using t by (auto simp: token_row_def)
  have "token_row ?t h (\<lambda>r. rt_revoked_at r \<noteq> None)"
    unfolding token_row_def
    by (rule bexI [of _ "revoke_row (\<lambda>r. rt_id r = i) (toTimestamptz now) r"])
       (use r in \<open>auto simp: revoke_row_def revoke_rows_set\<close>)
  then show "auth_from t0 ?t \<and> token_row ?t h (\<lambda>r. rt_revoked_at r \<noteq> None)" using t' by simp
  show "auth_from t0 ?t" by (rule t')
qed auto

lemma Create_triple:
  "tx_triple (auth_from t0) (RefreshToken_Create rt)
     (\<lambda>_ t. auth_from t0 t \<and> token_row t (RefreshToken_Hash rt)
        (\<lambda>r. rt_revoked_at r = None \<and> rt_player_id r = RefreshToken_PlayerID rt \<and> rt_expires_at r = toTimestamptz (ExpiresAt rt)))
     (\<lambda>_. auth_from t0)"
  unfolding RefreshToken_Create_def sql_CreateRefreshToken_def
proof (rule triple_exec)
  fix now t x t'
  assume t: "auth_from t0 t" and r: "(if RefreshToken_ID rt \<in> rt_id ` set (refresh_tokens t)
       \<or> RefreshToken_Hash rt \<in> rt_token_hash ` set (refresh_tokens t) then Inl unique_violation
     else if \<not> has_player t (RefreshToken_PlayerID rt) then Inl foreign_key_violation
     else Inr ((), t\<lparr>refresh_tokens := refresh_tokens t @
       [\<lparr>rt_id = RefreshToken_ID rt, rt_player_id = RefreshToken_PlayerID rt, rt_token_hash = RefreshToken_Hash rt,
         rt_expires_at = toTimestamptz (ExpiresAt rt), rt_revoked_at = None, rt_created_at = now\<rparr>]\<rparr>)) = Inr (x, t')"
  have "auth_inv t" using t by (simp add: auth_from_def)
  note add = token_inv [OF this, of "RefreshToken_ID rt" "RefreshToken_Hash rt" "RefreshToken_PlayerID rt"
      "toTimestamptz (ExpiresAt rt)" now]
  show "auth_from t0 t' \<and> token_row t' (RefreshToken_Hash rt)
        (\<lambda>r. rt_revoked_at r = None \<and> rt_player_id r = RefreshToken_PlayerID rt \<and> rt_expires_at r = toTimestamptz (ExpiresAt rt))"
    using r add auth_fromI [OF t, of t'] by (auto simp: auth_from_def token_row_def split: if_splits)
qed

lemma RevokeAll_triple: "preserves (auth_from t0) (RefreshToken_RevokeAllForPlayer p now)"
  unfolding RefreshToken_RevokeAllForPlayer_def sql_RevokeAllRefreshTokensForPlayer_def
proof (rule triple_exec)
  fix now' t x t'
  assume t: "auth_from t0 t" and "Inr ((), t\<lparr>refresh_tokens := revoke_rows (\<lambda>r. rt_player_id r = p) (toTimestamptz now) (refresh_tokens t)\<rparr>) = Inr (x, t')"
  moreover have "auth_inv t" using t by (simp add: auth_from_def)
  ultimately show "auth_from t0 t'"
    using auth_fromI [OF t] revoke_inv [of t "\<lambda>r. rt_player_id r = p" "toTimestamptz now"] by (auto simp: auth_from_def)
qed

section \<open>Operations\<close>

lemma triple_stable:
  assumes m: "\<And>t1. tx_triple (auth_from t1) m (\<lambda>x t. auth_from t1 t \<and> R x t) (\<lambda>_. auth_from t1)"
    and K: "\<And>t t'. K t \<Longrightarrow> auth_le t t' \<Longrightarrow> K t'"
  shows "tx_triple (\<lambda>t. auth_from t0 t \<and> K t) m (\<lambda>x t. auth_from t0 t \<and> K t \<and> R x t) (\<lambda>_. auth_from t0)"
  unfolding tx_triple_def
proof (intro allI impI)
  fix s :: db assume s: "auth_from t0 (db_tables s) \<and> K (db_tables s)"
  let ?t = "db_tables s"
  have P: "auth_from ?t ?t" using s by (simp add: auth_from_def)
  obtain r s' where r: "m s = (r, s')" by fastforce
  have "auth_from t0 t" if "auth_from ?t t" for t using s that auth_fromI [of t0 ?t t] by (auto simp: auth_from_def)
  moreover have "K t" if "auth_from ?t t" for t using s that K by (auto simp: auth_from_def)
  ultimately show "case m s of (Inr x, s') \<Rightarrow> auth_from t0 (db_tables s') \<and> K (db_tables s') \<and> R x (db_tables s')
    | (Inl e, s') \<Rightarrow> auth_from t0 (db_tables s')"
    using tx_tripleD [OF m P] r by (cases r) auto
qed

lemma RW_triple:
  assumes "\<And>t1. tx_triple (auth_from t1) w (\<lambda>x t. auth_from t1 t \<and> R x t) (\<lambda>_. auth_from t1)"
  shows "tx_triple (auth_from t0) (RW w) (\<lambda>x t. auth_from t0 t \<and> R x t) (\<lambda>_. auth_from t0)"
  by (rule tx_triple_weaken [OF session_rw.run_triple [OF assms]]) auto

definition active_token :: "AuthUsecase \<Rightarrow> tables \<Rightarrow> string \<Rightarrow> uuid \<Rightarrow> bool" where
  "active_token u t raw p \<longleftrightarrow> token_row t (issuer_HashRefresh (au_tokens u) raw) (\<lambda>r. rt_revoked_at r = None \<and> rt_player_id r = p)"

definition revoked_token :: "AuthUsecase \<Rightarrow> tables \<Rightarrow> string \<Rightarrow> bool" where
  "revoked_token u t raw \<longleftrightarrow> token_row t (issuer_HashRefresh (au_tokens u) raw) (\<lambda>r. rt_revoked_at r \<noteq> None)"

lemma revoked_mono: "revoked_token u t raw \<Longrightarrow> auth_le t t' \<Longrightarrow> revoked_token u t' raw"
  unfolding revoked_token_def token_row_def auth_le_def token_le_def by metis

lemma revoked_not_active: "auth_inv t \<Longrightarrow> revoked_token u t raw \<Longrightarrow> \<not> active_token u t raw p"
proof
  assume inv: "auth_inv t" and "revoked_token u t raw" "active_token u t raw p"
  then obtain r r' where r: "r \<in> set (refresh_tokens t)" "r' \<in> set (refresh_tokens t)"
    "rt_token_hash r = rt_token_hash r'" "rt_revoked_at r \<noteq> None" "rt_revoked_at r' = None"
    by (auto simp: revoked_token_def active_token_def token_row_def)
  have "inj_on rt_token_hash (set (refresh_tokens t))" using inv by (simp add: auth_inv_def distinct_map)
  then have "r = r'" using r(1-3) by (metis inj_onD)
  then show False using r(4,5) by simp
qed

lemma bind_lift [simp]:
  "tx_bind (lift_result (Inl e)) f = tx_fail e" "tx_bind (lift_result (Inr x)) f = f x"
  by (simp_all add: fun_eq_iff tx_bind_def lift_result_def tx_fail_def tx_return_def)

locale auth_issuer =
  fixes u :: AuthUsecase
  assumes refresh_hash: "issuer_NewRefresh (au_tokens u) random = Inr (raw, hash) \<Longrightarrow>
    hash = issuer_HashRefresh (au_tokens u) raw"
begin

lemma issueTokens_triple:
  "tx_triple (auth_from t0) (issueTokens u d p now)
     (\<lambda>x t. auth_from t0 t \<and> active_token u t (snd x) p) (\<lambda>_. auth_from t0)"
proof (cases "issuer_SignAccess (au_tokens u) p now (accessTokenTTL u)")
  case (Inr tok)
  show ?thesis
  proof (cases "issuer_NewRefresh (au_tokens u) (draw_random d)")
    case refresh: (Inr r)
    then have "snd r = issuer_HashRefresh (au_tokens u) (fst r)" by (metis prod.collapse refresh_hash)
    then show ?thesis unfolding issueTokens_def Inr refresh bind_lift case_prod_beta
      by (intro triple_step [OF triple_wrap [OF Create_triple]] triple_return)
         (auto simp: active_token_def token_row_def)
  qed (simp add: issueTokens_def Inr triple_fail)
qed (simp add: issueTokens_def triple_fail)

lemma login_work_triple:
  assumes "\<And>t1. tx_triple (auth_from t1) (resolve d) (\<lambda>p t. auth_from t1 t \<and> K p t) (\<lambda>_. auth_from t1)"
    and K: "\<And>p t t'. K p t \<Longrightarrow> auth_le t t' \<Longrightarrow> K p t'"
  shows "tx_triple (auth_from t0) (login_work u resolve now d)
    (\<lambda>r t. auth_from t0 t \<and> K (LoginPlayer r) t \<and> active_token u t (RefreshTokenRaw r) (Player_ID (LoginPlayer r))) (\<lambda>_. auth_from t0)"
  unfolding login_work_def
  by (rule triple_bind [OF assms(1)], rule triple_bind [OF triple_stable [OF issueTokens_triple]])
     (auto intro!: triple_return intro: K split: prod.split)

end

lemma create_player_triple:
  "tx_triple (auth_from t0) (create_player d provider uid nick now)
     (\<lambda>p t. auth_from t0 t \<and> linked t provider uid (Player_ID p)) (\<lambda>_. auth_from t0)"
proof (cases "NewPlayer (draw_player d) nick now")
  case (Inr p)
  then have valid: "validateNickname (Nickname p) = None" by (auto simp: NewPlayer_def split: option.splits)
  have save: "tx_triple (\<lambda>t. auth_from t0 t \<and> has_player t (Player_ID p))
      (tx_wrap msg (Identity_Save (NewIdentity i (Player_ID p) provider uid)))
      (\<lambda>_ t. auth_from t0 t \<and> linked t provider uid (Player_ID p)) (\<lambda>_. auth_from t0)" for msg i
    by (rule triple_wrap, rule tx_triple_weaken [OF Identity_Save_triple]) auto
  show ?thesis unfolding create_player_def Inr bind_lift
    by (rule triple_step [OF triple_wrap [OF Player_Save_triple [OF valid]]], rule triple_step [OF save], rule triple_return)
       auto
qed (simp add: create_player_def triple_fail)

lemma GetByID_linked:
  "tx_triple (\<lambda>t. auth_from t0 t \<and> linked t provider uid i) (Player_GetByID i)
     (\<lambda>p t. auth_from t0 t \<and> linked t provider uid (Player_ID p)) (\<lambda>_. auth_from t0)"
  by (rule tx_triple_weaken [OF triple_stable [where K = "\<lambda>t. linked t provider uid i", OF GetByID_triple]])
     (auto intro: linked_mono)

lemma findOrCreateByIdentity_triple:
  "tx_triple (auth_from t0) (findOrCreateByIdentity d provider uid nick now)
     (\<lambda>p t. auth_from t0 t \<and> linked t provider uid (Player_ID p)) (\<lambda>_. auth_from t0)"
  unfolding findOrCreateByIdentity_def
  by (rule triple_bind [OF triple_optional [OF Identity_Find_triple]])
     (auto split: option.split intro: create_player_triple GetByID_linked)

lemma runLoginTx_triple:
  assumes "\<And>d t1. tx_triple (auth_from t1) (fn d) (\<lambda>x t. auth_from t1 t \<and> R x t) (\<lambda>_. auth_from t1)"
  shows "tx_triple (auth_from t0) (runLoginTx fn d d') (\<lambda>x t. auth_from t0 t \<and> R x t) (\<lambda>_. auth_from t0)"
  unfolding runLoginTx_def
  by (rule triple_catch [OF RW_triple [OF assms]]) (auto intro!: triple_if triple_fail RW_triple [OF assms])

lemma findOrCreatePlayer_triple:
  "tx_triple (auth_from t0) (findOrCreatePlayer d device nick now)
     (\<lambda>p t. auth_from t0 t \<and> (\<forall>dev. device = Some dev \<longrightarrow> linked t ProviderAnonymous dev (Player_ID p))) (\<lambda>_. auth_from t0)"
  by (cases device)
     (auto simp: findOrCreatePlayer_def intro: findOrCreateByIdentity_triple tx_triple_weaken [OF create_player_triple])

context auth_issuer
begin

lemma LoginAnonymous_triple:
  "tx_triple (auth_from t0) (LoginAnonymous u d d' device nick now)
     (\<lambda>r t. auth_from t0 t \<and> (\<forall>dev. device = Some dev \<longrightarrow> linked t ProviderAnonymous dev (Player_ID (LoginPlayer r)))
        \<and> active_token u t (RefreshTokenRaw r) (Player_ID (LoginPlayer r)))
     (\<lambda>_. auth_from t0)"
  unfolding LoginAnonymous_def
  by (rule runLoginTx_triple, rule login_work_triple [OF findOrCreatePlayer_triple]) (blast intro: linked_mono)

lemma LoginOIDC_triple:
  "tx_triple (auth_from t0) (LoginOIDC u d d' provider idToken now)
     (\<lambda>r t. auth_from t0 t \<and> (\<forall>i. au_verifier u provider idToken = Inr i \<longrightarrow> linked t provider (Subject i) (Player_ID (LoginPlayer r)))
        \<and> active_token u t (RefreshTokenRaw r) (Player_ID (LoginPlayer r)))
     (\<lambda>_. auth_from t0)"
proof (cases "au_verifier u provider idToken")
  case (Inr i)
  show ?thesis unfolding LoginOIDC_def Inr sum.case
    by (rule tx_triple_weaken [OF runLoginTx_triple [OF login_work_triple [OF findOrCreateByIdentity_triple linked_mono]]]) auto
qed (simp add: LoginOIDC_def triple_fail)

lemma refresh_work_triple:
  "tx_triple (auth_from t0) (refresh_work u d raw now)
     (\<lambda>r t. auth_from t0 t \<and> revoked_token u t raw \<and> active_token u t (RefreshTokenRaw r) (Player_ID (LoginPlayer r)))
     (\<lambda>_. auth_from t0)"
proof -
  let ?h = "issuer_HashRefresh (au_tokens u) raw"
  have revoke: "tx_triple (\<lambda>t. auth_from t0 t \<and> RefreshToken_Hash rt = ?h \<and>
        token_row t ?h (\<lambda>r. rt_id r = RefreshToken_ID rt \<and> rt_player_id r = RefreshToken_PlayerID rt \<and> rt_revoked_at r = None
           \<and> rt_expires_at r = ExpiresAt rt)) (RefreshToken_Revoke (RefreshToken_ID rt) now)
     (\<lambda>_ t. auth_from t0 t \<and> revoked_token u t raw) (\<lambda>_. auth_from t0)" for rt
    by (rule tx_triple_weaken [OF Revoke_triple [where h = ?h]]) (auto simp: revoked_token_def token_row_def)
  have get: "tx_triple (\<lambda>t. auth_from t0 t \<and> revoked_token u t raw) (Player_GetByID i)
      (\<lambda>_ t. auth_from t0 t \<and> revoked_token u t raw) (\<lambda>_. auth_from t0)" for i
    by (rule tx_triple_weaken [OF triple_stable [where K = "\<lambda>t. revoked_token u t raw", OF GetByID_triple]])
       (auto intro: revoked_mono)
  have issue: "tx_triple (\<lambda>t. auth_from t0 t \<and> revoked_token u t raw) (issueTokens u d i now)
      (\<lambda>x t. auth_from t0 t \<and> revoked_token u t raw \<and> active_token u t (snd x) i) (\<lambda>_. auth_from t0)" for i
    by (rule triple_stable [OF issueTokens_triple]) (auto intro: revoked_mono)
  show ?thesis unfolding refresh_work_def
    by (rule triple_bind [OF FindByHash_triple], rule triple_if, rule triple_fail, blast,
        rule triple_bind [OF revoke], rule triple_bind [OF get], rule triple_bind [OF issue])
       (auto intro!: triple_return split: prod.split)
qed

lemma Refresh_triple:
  "tx_triple (auth_from t0) (Auth_Refresh u d raw now)
     (\<lambda>r t. auth_from t0 t \<and> revoked_token u t raw \<and> active_token u t (RefreshTokenRaw r) (Player_ID (LoginPlayer r)))
     (\<lambda>_. auth_from t0)"
  unfolding Auth_Refresh_def by (rule RW_triple [OF refresh_work_triple])

end

interpretation signer: auth_issuer "u\<lparr>au_tokens := signer_issuer J s\<rparr>" for u J s
  by unfold_locales (auto simp: signer_issuer_def Signer_NewRefresh_def NewRefresh_def Let_def split: sum.splits)

lemma revoked_refused:
  "tx_triple (\<lambda>t. auth_inv t \<and> revoked_token u t raw) (Auth_Refresh u d raw now) (\<lambda>_ _. False) (\<lambda>_ _. True)"
proof -
  let ?h = "issuer_HashRefresh (au_tokens u) raw"
  have "tx_triple (\<lambda>t. auth_inv t \<and> revoked_token u t raw) (RefreshToken_FindByHash ?h now) (\<lambda>_ _. False) (\<lambda>_ _. True)"
    unfolding tx_triple_def
  proof (intro allI impI)
    fix s :: db assume s: "auth_inv (db_tables s) \<and> revoked_token u (db_tables s) raw"
    let ?t = "db_tables s"
    have f: "auth_from ?t ?t" using s by (simp add: auth_from_def)
    have "False" if "RefreshToken_FindByHash ?h now s = (Inr rt, s')" for rt s'
    proof -
      have a: "auth_from ?t (db_tables s')" "active_token u (db_tables s') raw (RefreshToken_PlayerID rt)"
        using tx_tripleD(1) [OF FindByHash_triple f that] by (auto simp: active_token_def token_row_def)
      then have "revoked_token u (db_tables s') raw" using s revoked_mono by (auto simp: auth_from_def)
      then show False using revoked_not_active [of "db_tables s'" u raw] a by (auto simp: auth_from_def)
    qed
    then show "case RefreshToken_FindByHash ?h now s of (Inr x, s') \<Rightarrow> False | (Inl e, s') \<Rightarrow> True"
      by (auto split: prod.split sum.split)
  qed
  then have "tx_triple (\<lambda>t. auth_inv t \<and> revoked_token u t raw) (refresh_work u d raw now) (\<lambda>_ _. False) (\<lambda>_ _. True)"
    unfolding refresh_work_def by (rule triple_bind) (simp add: tx_triple_def)
  then show ?thesis unfolding Auth_Refresh_def
    by (rule tx_triple_weaken [OF session_rw.run_triple]) auto
qed

lemma link_work_triple:
  "tx_triple (auth_from t0) (link_work uid p provider subject)
     (\<lambda>_ t. auth_from t0 t \<and> linked t provider subject p) (\<lambda>_. auth_from t0)"
proof -
  have get: "tx_triple (\<lambda>t. auth_from t0 t \<and> linked t provider subject q) (Player_GetByID q)
      (\<lambda>_ t. auth_from t0 t \<and> linked t provider subject q) (\<lambda>_. auth_from t0)" for q
    by (rule tx_triple_weaken [OF triple_stable [where K = "\<lambda>t. linked t provider subject q", OF GetByID_triple]])
       (auto intro: linked_mono)
  have save: "tx_triple (\<lambda>t. auth_from t0 t \<and> C t) (tx_wrap msg (Identity_Save (NewIdentity uid p provider subject)))
      (\<lambda>_ t. auth_from t0 t \<and> linked t provider subject p) (\<lambda>_. auth_from t0)" for msg C
    by (rule triple_wrap, rule tx_triple_weaken [OF Identity_Save_triple]) auto
  have save: "tx_triple (auth_from t0) (tx_bind (Player_GetByID p) (\<lambda>me. tx_bind (tx_wrap msg
      (Identity_Save (NewIdentity uid p provider subject))) (\<lambda>_. tx_return me)))
      (\<lambda>_ t. auth_from t0 t \<and> linked t provider subject p) (\<lambda>_. auth_from t0)" for msg
    by (rule triple_bind [OF GetByID_triple], rule triple_bind [OF save], rule triple_return)
  show ?thesis unfolding link_work_def
    by (rule triple_bind [OF triple_optional [OF Identity_Find_triple]])
       (auto split: option.split intro: save get intro!: triple_fail)
qed

lemma LinkIdentity_triple:
  "tx_triple (auth_from t0) (LinkIdentity u uid p provider idToken)
     (\<lambda>_ t. auth_from t0 t \<and> (\<forall>i. au_verifier u provider idToken = Inr i \<longrightarrow> linked t provider (Subject i) p)) (\<lambda>_. auth_from t0)"
proof (cases "au_verifier u provider idToken")
  case (Inr i)
  then show ?thesis
    using RW_triple [OF link_work_triple, of t0 uid p provider "Subject i"] by (simp add: LinkIdentity_def)
qed (simp add: LinkIdentity_def triple_fail)

definition all_revoked :: "tables \<Rightarrow> uuid \<Rightarrow> bool" where
  "all_revoked t p \<longleftrightarrow> (\<forall>r \<in> set (refresh_tokens t). rt_player_id r = p \<longrightarrow> rt_revoked_at r \<noteq> None)"

lemma Logout_triple:
  "tx_triple (auth_from t0) (Logout p now) (\<lambda>_ t. auth_from t0 t \<and> all_revoked t p) (\<lambda>_. auth_from t0)"
  unfolding Logout_def
proof (rule RW_triple)
  fix t1
  show "tx_triple (auth_from t1) (RefreshToken_RevokeAllForPlayer p now) (\<lambda>x t. auth_from t1 t \<and> all_revoked t p) (\<lambda>_. auth_from t1)"
    unfolding RefreshToken_RevokeAllForPlayer_def sql_RevokeAllRefreshTokensForPlayer_def
  proof (rule triple_exec)
    fix now' t x t'
    assume t: "auth_from t1 t" and eq: "Inr ((), t\<lparr>refresh_tokens := revoke_rows (\<lambda>r. rt_player_id r = p) (toTimestamptz now) (refresh_tokens t)\<rparr>) = Inr (x, t')"
    have t': "t' = t\<lparr>refresh_tokens := revoke_rows (\<lambda>r. rt_player_id r = p) (toTimestamptz now) (refresh_tokens t)\<rparr>"
      using eq by simp
    have "auth_from t t'" unfolding t' by (rule revoke_inv) (use t in \<open>simp add: auth_from_def\<close>)
    then have "auth_from t1 t'" using auth_fromI [OF t] by (simp add: auth_from_def)
    moreover have "all_revoked t' p" by (simp add: t' all_revoked_def revoke_rows_set revoke_row_simps)
    ultimately show "auth_from t1 t' \<and> all_revoked t' p" ..
  qed
qed

lemma UpdateProfile_triple:
  "tx_triple (auth_from t0) (UpdateProfile p nick) (\<lambda>q t. auth_from t0 t \<and> Player_ID q = p) (\<lambda>_. auth_from t0)"
  unfolding UpdateProfile_def
proof (rule RW_triple)
  fix t1
  have set_nick: "tx_triple (\<lambda>t. auth_from t1 t \<and> Player_ID q = p \<and> has_player t p \<and> validateNickname (Nickname q) = None)
     (if nick \<noteq> None then lift_result (SetNickname nick q) else tx_return q)
     (\<lambda>q' t. auth_from t1 t \<and> Player_ID q' = p \<and> validateNickname (Nickname q') = None) (\<lambda>_. auth_from t1)" for q
    by (cases nick) (auto simp: SetNickname_def lift_result_def split: option.splits intro!: triple_return triple_fail)
  have save: "tx_triple (\<lambda>t. auth_from t1 t \<and> Player_ID q = p \<and> validateNickname (Nickname q) = None) (Player_Save q)
     (\<lambda>_ t. auth_from t1 t \<and> Player_ID q = p) (\<lambda>_. auth_from t1)" for q
    by (cases "validateNickname (Nickname q) = None \<and> Player_ID q = p")
       (auto intro: tx_triple_weaken [OF Player_Save_triple], simp_all add: tx_triple_def)
  show "tx_triple (auth_from t1) (update_work p nick) (\<lambda>q t. auth_from t1 t \<and> Player_ID q = p) (\<lambda>_. auth_from t1)"
    unfolding update_work_def
    by (rule triple_bind [OF GetByID_triple], rule triple_bind [OF set_nick], rule triple_bind [OF save], rule triple_return) simp
qed

section \<open>Calls in sequence\<close>

datatype auth_call =
    CallLoginAnonymous draws draws "string option" "string option" go_time
  | CallLoginOIDC draws draws string string go_time
  | CallLink uuid uuid string string
  | CallRefresh draws string go_time
  | CallLogout uuid go_time
  | CallUpdate uuid "string option"

fun auth_step :: "AuthUsecase \<Rightarrow> auth_call \<Rightarrow> db \<Rightarrow> db" where
  "auth_step u (CallLoginAnonymous d d' device nick now) s = snd (LoginAnonymous u d d' device nick now s)"
| "auth_step u (CallLoginOIDC d d' provider tok now) s = snd (LoginOIDC u d d' provider tok now s)"
| "auth_step u (CallLink uid p provider tok) s = snd (LinkIdentity u uid p provider tok s)"
| "auth_step u (CallRefresh d raw now) s = snd (Auth_Refresh u d raw now s)"
| "auth_step u (CallLogout p now) s = snd (Logout p now s)"
| "auth_step u (CallUpdate p nick) s = snd (UpdateProfile p nick s)"

lemma triple_from_snd:
  "tx_triple (auth_from t0) m (\<lambda>x t. auth_from t0 t \<and> R x t) (\<lambda>_. auth_from t0) \<Longrightarrow>
   auth_from t0 (db_tables s) \<Longrightarrow> auth_from t0 (db_tables (snd (m s)))"
  by (cases "m s"; cases "fst (m s)") (auto dest: tx_tripleD)

context auth_issuer
begin

lemma auth_step_from: "auth_from t0 (db_tables s) \<Longrightarrow> auth_from t0 (db_tables (auth_step u c s))"
  by (cases c)
     (simp_all add: triple_from_snd [OF LoginAnonymous_triple] triple_from_snd [OF LoginOIDC_triple]
       triple_from_snd [OF LinkIdentity_triple] triple_from_snd [OF Refresh_triple] triple_from_snd [OF Logout_triple]
       triple_from_snd [OF UpdateProfile_triple])

lemma auth_steps_from: "auth_from t0 (db_tables s) \<Longrightarrow> auth_from t0 (db_tables (fold (auth_step u) calls s))"
  by (induction calls arbitrary: s) (simp_all add: auth_step_from)

lemma steps_after:
  assumes "auth_inv (db_tables s)"
  shows "auth_inv (db_tables (fold (auth_step u) calls s))" "auth_le (db_tables s) (db_tables (fold (auth_step u) calls s))"
  using auth_steps_from [of "db_tables s" s calls] assms by (simp_all add: auth_from_def)

lemma refused_after_revoke:
  assumes "auth_inv (db_tables s)" "revoked_token u (db_tables s) raw"
  shows "isl (fst (Auth_Refresh u d raw now (fold (auth_step u) calls s)))"
proof -
  let ?s = "fold (auth_step u) calls s"
  have "auth_inv (db_tables ?s) \<and> revoked_token u (db_tables ?s) raw"
    using steps_after [OF assms(1)] revoked_mono [OF assms(2)] by blast
  from tx_tripleD(1) [OF revoked_refused this, of d now] show ?thesis
    by (cases "Auth_Refresh u d raw now ?s"; cases "fst (Auth_Refresh u d raw now ?s)") auto
qed

end

lemma all_revoked_token:
  assumes "all_revoked t p" "token_row t (issuer_HashRefresh (au_tokens u) raw) (\<lambda>r. rt_player_id r = p)"
  shows "revoked_token u t raw"
  using assms unfolding all_revoked_def token_row_def revoked_token_def by blast

section \<open>Sign-in on a working store\<close>

text \<open>
  What a sign-in with an account of a provider does to the tables, for drawn ids \<open>d\<close>, an issued pair of tokens and the
  store's clock: a linked account gets its player and one more refresh token, an unknown one a new player with the
  nickname, the identity and the token, unless the nickname is not valid.
\<close>

definition new_token :: "draws \<Rightarrow> bytes \<Rightarrow> go_time \<Rightarrow> go_time \<Rightarrow> uuid \<Rightarrow> refresh_token_row" where
  "new_token d hash expires at p = \<lparr>rt_id = draw_token d, rt_player_id = p, rt_token_hash = hash,
     rt_expires_at = expires, rt_revoked_at = None, rt_created_at = at\<rparr>"

definition new_identity :: "uuid \<Rightarrow> go_time \<Rightarrow> string \<Rightarrow> string \<Rightarrow> uuid \<Rightarrow> identity_row" where
  "new_identity i at provider subject p = \<lparr>pi_id = i, pi_player_id = p, pi_provider = provider,
     pi_provider_uid = subject, pi_created_at = at\<rparr>"

definition signed_in :: "draws \<Rightarrow> (uuid \<Rightarrow> string) \<Rightarrow> string \<Rightarrow> bytes \<Rightarrow> go_time \<Rightarrow> go_time \<Rightarrow> string \<Rightarrow> string \<Rightarrow>
    string option \<Rightarrow> go_time \<Rightarrow> tables \<Rightarrow> LoginResult result \<times> tables \<Rightarrow> bool" where
  "signed_in d access raw hash expires at provider subject nickname now t out \<longleftrightarrow>
     (\<forall>row \<in> set (players t). linked t provider subject (p_id row) \<longrightarrow>
        out = (Inr \<lparr>AccessToken = access (p_id row), RefreshTokenRaw = raw, LoginPlayer = playerFromRow row\<rparr>,
          t\<lparr>refresh_tokens := refresh_tokens t @ [new_token d hash expires at (p_id row)]\<rparr>)) \<and>
     ((\<forall>p. \<not> linked t provider subject p) \<longrightarrow> out = (case validateNickname nickname of
          Some e \<Rightarrow> (Inl (PlayerE e), t)
        | None \<Rightarrow> (Inr \<lparr>AccessToken = access (draw_player d), RefreshTokenRaw = raw,
              LoginPlayer = \<lparr>Player_ID = draw_player d, Nickname = nickname, RegisteredAt = now\<rparr>\<rparr>,
            t\<lparr>players := players t @ [\<lparr>p_id = draw_player d, p_nickname = nickname,
                p_registered_at = toTimestamptz now, p_updated_at = at\<rparr>],
              player_identities := player_identities t @ [new_identity (draw_identity d) at provider subject (draw_player d)],
              refresh_tokens := refresh_tokens t @ [new_token d hash expires at (draw_player d)]\<rparr>)))"

definition fresh_draws :: "draws \<Rightarrow> bytes \<Rightarrow> tables \<Rightarrow> bool" where
  "fresh_draws d hash t \<longleftrightarrow> \<not> has_player t (draw_player d) \<and> draw_identity d \<notin> pi_id ` set (player_identities t) \<and>
     draw_token d \<notin> rt_id ` set (refresh_tokens t) \<and> hash \<notin> rt_token_hash ` set (refresh_tokens t)"

lemma find_identity:
  assumes "auth_inv t"
  shows "linked t provider uid p \<Longrightarrow> \<exists>r. find (is_identity provider uid) (player_identities t) = Some r \<and> pi_player_id r = p"
    and "(\<forall>p. \<not> linked t provider uid p) \<Longrightarrow> find (is_identity provider uid) (player_identities t) = None"
proof -
  assume l: "linked t provider uid p"
  then obtain r where r: "find (is_identity provider uid) (player_identities t) = Some r"
    by (cases "find (is_identity provider uid) (player_identities t)") (auto simp: linked_def find_None_iff)
  then have "linked t provider uid (pi_player_id r)" using find_Some [OF r] by (auto simp: linked_def)
  then show "\<exists>r. find (is_identity provider uid) (player_identities t) = Some r \<and> pi_player_id r = p"
    using linked_unique [OF assms l] r by blast
next
  assume "\<forall>p. \<not> linked t provider uid p"
  then show "find (is_identity provider uid) (player_identities t) = None"
    by (auto simp: linked_def find_None_iff)
qed

lemma find_player:
  assumes "auth_inv t" "row \<in> set (players t)"
  shows "find (\<lambda>r. p_id r = p_id row) (players t) = Some row" "has_player t (p_id row)"
proof -
  have "inj_on p_id (set (players t))" using assms(1) by (simp add: auth_inv_def distinct_map)
  moreover obtain r where r: "find (\<lambda>r. p_id r = p_id row) (players t) = Some r"
    using assms(2) by (cases "find (\<lambda>r. p_id r = p_id row) (players t)") (auto simp: find_None_iff)
  ultimately show "find (\<lambda>r. p_id r = p_id row) (players t) = Some row"
    using find_Some [OF r] assms(2) by (metis inj_onD)
  show "has_player t (p_id row)" using assms(2) by (auto simp: has_player_def)
qed

lemma Identity_Find_eval:
  assumes "live False s" "auth_inv (db_tables s)"
  shows "linked (db_tables s) provider uid p \<Longrightarrow> \<exists>i. tx_optional (PlayerE ErrIdentityNotFound) (Identity_Find provider uid) s = (Inr (Some i), s)
      \<and> Identity_PlayerID i = p"
    and "(\<forall>p. \<not> linked (db_tables s) provider uid p) \<Longrightarrow>
      tx_optional (PlayerE ErrIdentityNotFound) (Identity_Find provider uid) s = (Inr None, s)"
proof -
  note defs = tx_optional_def Identity_Find_def sql_FindIdentity_def tx_mapping_def tx_eval
  assume "linked (db_tables s) provider uid p"
  then obtain r where "find (is_identity provider uid) (player_identities (db_tables s)) = Some r" "pi_player_id r = p"
    using find_identity(1) [OF assms(2)] by blast
  then show "\<exists>i. tx_optional (PlayerE ErrIdentityNotFound) (Identity_Find provider uid) s = (Inr (Some i), s) \<and> Identity_PlayerID i = p"
    using assms(1) by (simp add: defs)
next
  assume "\<forall>p. \<not> linked (db_tables s) provider uid p"
  then show "tx_optional (PlayerE ErrIdentityNotFound) (Identity_Find provider uid) s = (Inr None, s)"
    using find_identity(2) [OF assms(2)] assms(1)
    by (simp add: tx_optional_def Identity_Find_def sql_FindIdentity_def tx_mapping_def tx_eval)
qed

lemma GetByID_eval:
  assumes "live False s" "auth_inv (db_tables s)"
  shows "row \<in> set (players (db_tables s)) \<Longrightarrow> Player_GetByID (p_id row) s = (Inr (playerFromRow row), s)"
    and "\<not> has_player (db_tables s) p \<Longrightarrow> Player_GetByID p s = (Inl (PlayerE ErrPlayerNotFound), s)"
proof -
  show "row \<in> set (players (db_tables s)) \<Longrightarrow> Player_GetByID (p_id row) s = (Inr (playerFromRow row), s)"
    using find_player [OF assms(2)] assms(1)
    by (simp add: Player_GetByID_def sql_GetPlayerByID_def tx_mapping_def tx_eval)
  assume "\<not> has_player (db_tables s) p"
  then have "find (\<lambda>r. p_id r = p) (players (db_tables s)) = None" by (auto simp: has_player_def find_None_iff)
  then show "Player_GetByID p s = (Inl (PlayerE ErrPlayerNotFound), s)"
    using assms(1) by (simp add: Player_GetByID_def sql_GetPlayerByID_def tx_mapping_def tx_eval)
qed

lemma issueTokens_eval:
  assumes "live False s" "issuer_SignAccess (au_tokens u) p now (accessTokenTTL u) = Inr access"
    and "issuer_NewRefresh (au_tokens u) (draw_random d) = Inr (raw, hash)" "has_player (db_tables s) p"
    and "draw_token d \<notin> rt_id ` set (refresh_tokens (db_tables s))" "hash \<notin> rt_token_hash ` set (refresh_tokens (db_tables s))"
  shows "issueTokens u d p now s = (Inr (access, raw), s\<lparr>db_tables := (db_tables s)\<lparr>refresh_tokens := refresh_tokens (db_tables s) @
     [new_token d hash (toTimestamptz (now + refreshTokenTTL u)) (db_now s) p]\<rparr>\<rparr>)"
  using assms
  by (auto simp: issueTokens_def lift_result_def tx_wrap_def RefreshToken_Create_def sql_CreateRefreshToken_def new_token_def tx_eval)

lemma create_player_eval:
  assumes "live False s" "fresh_draws d hash (db_tables s)" "\<forall>p. \<not> linked (db_tables s) provider uid p"
  shows "create_player d provider uid nickname now s = (case validateNickname nickname of
      Some e \<Rightarrow> (Inl (PlayerE e), s)
    | None \<Rightarrow> (Inr \<lparr>Player_ID = draw_player d, Nickname = nickname, RegisteredAt = now\<rparr>,
        s\<lparr>db_tables := (db_tables s)\<lparr>players := players (db_tables s) @ [\<lparr>p_id = draw_player d, p_nickname = nickname,
            p_registered_at = toTimestamptz now, p_updated_at = db_now s\<rparr>],
          player_identities := player_identities (db_tables s) @ [new_identity (draw_identity d) (db_now s) provider uid (draw_player d)]\<rparr>\<rparr>))"
proof (cases "validateNickname nickname")
  case (Some e)
  then show ?thesis by (simp add: create_player_def NewPlayer_def lift_result_def tx_eval)
next
  case None
  then have short: "\<not> (case nickname of Some n \<Rightarrow> RuneCountInString n > 32 | None \<Rightarrow> False)"
    by (auto simp: validateNickname_def MaxNicknameLength_def split: option.splits if_splits)
  have new: "\<not> list_ex (is_identity provider uid) (player_identities (db_tables s))"
    using assms(3) by (auto simp: linked_def list_ex_iff)
  show ?thesis
    using assms(1,2) None short new
    by (simp add: create_player_def NewPlayer_def lift_result_def tx_wrap_def Player_Save_def sql_UpsertPlayer_def Identity_Save_def
        sql_CreatePlayerIdentity_def NewIdentity_def new_identity_def fresh_draws_def has_player_def tx_eval)
qed

text \<open>Finding or creating the player, then issuing the tokens, in one transaction.\<close>

lemma login_eval:
  assumes q: "quiet s" and inv: "auth_inv (db_tables s)" and f: "fresh_draws d hash (db_tables s)"
    and acc: "\<And>p. issuer_SignAccess (au_tokens u) p now (accessTokenTTL u) = Inr (access p)"
    and ref: "issuer_NewRefresh (au_tokens u) (draw_random d) = Inr (raw, hash)"
  shows "signed_in d access raw hash (toTimestamptz (now + refreshTokenTTL u)) (db_now s) provider subject nickname now (db_tables s)
    (outcome (runLoginTx (login_work u (\<lambda>d. findOrCreateByIdentity d provider subject nickname now) now) d d') s)"
proof -
  let ?s = "begin_tx False s" and ?t = "db_tables s" and ?x = "toTimestamptz (now + refreshTokenTTL u)"
  let ?work = "login_work u (\<lambda>d. findOrCreateByIdentity d provider subject nickname now) now"
  have live: "live False ?s" "db_tables ?s = ?t" "db_now ?s = db_now s"
    using q by simp_all
  have tok: "draw_token d \<notin> rt_id ` set (refresh_tokens ?t)" "hash \<notin> rt_token_hash ` set (refresh_tokens ?t)"
    using f by (simp_all add: fresh_draws_def)
  have ok: "outcome (runLoginTx ?work d d') s = (Inr x, db_tables s1)" if "?work d ?s = (Inr x, s1)" "live False s1" for x s1
    using Session_run_success [OF q, of "?work d" False x s1] that by (simp add: runLoginTx_def RW_def outcome_def tx_eval)
  have known: "outcome (runLoginTx ?work d d') s =
      (Inr \<lparr>AccessToken = access (p_id row), RefreshTokenRaw = raw, LoginPlayer = playerFromRow row\<rparr>,
       ?t\<lparr>refresh_tokens := refresh_tokens ?t @ [new_token d hash ?x (db_now s) (p_id row)]\<rparr>)"
    if row: "row \<in> set (players ?t)" "linked ?t provider subject (p_id row)" for row
  proof -
    obtain i where i: "tx_optional (PlayerE ErrIdentityNotFound) (Identity_Find provider subject) ?s = (Inr (Some i), ?s)" "Identity_PlayerID i = p_id row"
      using Identity_Find_eval(1) [OF live(1), unfolded live(2), OF inv row(2)] by blast
    have "?work d ?s = (Inr \<lparr>AccessToken = access (p_id row), RefreshTokenRaw = raw, LoginPlayer = playerFromRow row\<rparr>,
        ?s\<lparr>db_tables := ?t\<lparr>refresh_tokens := refresh_tokens ?t @ [new_token d hash ?x (db_now s) (p_id row)]\<rparr>\<rparr>)"
      using i GetByID_eval(1) [OF live(1), of row] inv row(1) live
        issueTokens_eval [OF live(1) acc ref, of "p_id row"] find_player(2) [OF inv row(1)] tok
      by (simp add: login_work_def findOrCreateByIdentity_def tx_eval playerFromRow_def)
    from ok [OF this] show ?thesis using live by simp
  qed
  have unknown: "outcome (runLoginTx ?work d d') s = (case validateNickname nickname of
          Some e \<Rightarrow> (Inl (PlayerE e), ?t)
        | None \<Rightarrow> (Inr \<lparr>AccessToken = access (draw_player d), RefreshTokenRaw = raw,
              LoginPlayer = \<lparr>Player_ID = draw_player d, Nickname = nickname, RegisteredAt = now\<rparr>\<rparr>,
            ?t\<lparr>players := players ?t @ [\<lparr>p_id = draw_player d, p_nickname = nickname,
                p_registered_at = toTimestamptz now, p_updated_at = db_now s\<rparr>],
              player_identities := player_identities ?t @ [new_identity (draw_identity d) (db_now s) provider subject (draw_player d)],
              refresh_tokens := refresh_tokens ?t @ [new_token d hash ?x (db_now s) (draw_player d)]\<rparr>))"
    if none: "\<forall>p. \<not> linked ?t provider subject p"
  proof -
    have find: "findOrCreateByIdentity d provider subject nickname now ?s = create_player d provider subject nickname now ?s"
      using Identity_Find_eval(2) [OF live(1)] inv none live(2) by (simp add: findOrCreateByIdentity_def tx_eval)
    note new = create_player_eval [OF live(1), of d hash provider subject nickname now, unfolded live, OF f none]
    show ?thesis
    proof (cases "validateNickname nickname")
      case (Some e)
      then have "?work d ?s = (Inl (PlayerE e), ?s)" using find new by (simp add: login_work_def tx_eval)
      moreover have "e = ErrInvalidNickname" using Some by (auto simp: validateNickname_def split: option.splits if_splits)
      ultimately show ?thesis
        using Session_run_error [OF q, of "?work d" False "PlayerE e" ?s] Some
        by (simp add: runLoginTx_def RW_def outcome_def tx_eval)
    next
      case None
      let ?p = "\<lparr>p_id = draw_player d, p_nickname = nickname, p_registered_at = toTimestamptz now, p_updated_at = db_now s\<rparr>"
      let ?t1 = "?t\<lparr>players := players ?t @ [?p],
          player_identities := player_identities ?t @ [new_identity (draw_identity d) (db_now s) provider subject (draw_player d)]\<rparr>"
      have "live False (?s\<lparr>db_tables := ?t1\<rparr>)" using live by simp
      from issueTokens_eval [OF this acc ref, of "draw_player d"]
      have "?work d ?s = (Inr \<lparr>AccessToken = access (draw_player d), RefreshTokenRaw = raw,
              LoginPlayer = \<lparr>Player_ID = draw_player d, Nickname = nickname, RegisteredAt = now\<rparr>\<rparr>,
          ?s\<lparr>db_tables := ?t1\<lparr>refresh_tokens := refresh_tokens ?t @ [new_token d hash ?x (db_now s) (draw_player d)]\<rparr>\<rparr>)"
        using find new None tok live by (simp add: login_work_def tx_eval has_player_def)
      from ok [OF this] show ?thesis using live None by simp
    qed
  qed
  show ?thesis unfolding signed_in_def using known unknown by blast
qed


lemma link_eval:
  assumes q: "quiet s" and inv: "auth_inv (db_tables s)" and i: "uid \<notin> pi_id ` set (player_identities (db_tables s))"
  shows "linked (db_tables s) provider subject p \<Longrightarrow> p \<noteq> me \<Longrightarrow>
      outcome (RW (link_work uid me provider subject)) s = (Inl (PlayerE ErrIdentityAlreadyLinked), db_tables s)"
    and "row \<in> set (players (db_tables s)) \<Longrightarrow> p_id row = me \<Longrightarrow> linked (db_tables s) provider subject me \<Longrightarrow>
      outcome (RW (link_work uid me provider subject)) s = (Inr (playerFromRow row), db_tables s)"
    and "(\<forall>p. \<not> linked (db_tables s) provider subject p) \<Longrightarrow> \<not> has_player (db_tables s) me \<Longrightarrow>
      outcome (RW (link_work uid me provider subject)) s = (Inl (PlayerE ErrPlayerNotFound), db_tables s)"
    and "(\<forall>p. \<not> linked (db_tables s) provider subject p) \<Longrightarrow> row \<in> set (players (db_tables s)) \<Longrightarrow> p_id row = me \<Longrightarrow>
      outcome (RW (link_work uid me provider subject)) s = (Inr (playerFromRow row), (db_tables s)\<lparr>player_identities :=
        player_identities (db_tables s) @ [new_identity uid (db_now s) provider subject me]\<rparr>)"
proof -
  let ?s = "begin_tx False s" and ?work = "link_work uid me provider subject"
  have live: "live False ?s" "db_tables ?s = db_tables s" "db_now ?s = db_now s" using q by simp_all
  have inv': "auth_inv (db_tables ?s)" using inv live by simp
  note success = outcome_run_success [OF q, of ?work False] and failure = outcome_run_error [OF q, of ?work False]
  note find = Identity_Find_eval [OF live(1) inv', of provider subject, unfolded live(2)]
  show "outcome (RW ?work) s = (Inl (PlayerE ErrIdentityAlreadyLinked), db_tables s)"
    if "linked (db_tables s) provider subject p" "p \<noteq> me"
    using failure [of "PlayerE ErrIdentityAlreadyLinked" ?s] find(1) [OF that(1)] that(2)
    by (auto simp: link_work_def tx_eval RW_def)
  show "outcome (RW ?work) s = (Inr (playerFromRow row), db_tables s)"
    if "row \<in> set (players (db_tables s))" "p_id row = me" "linked (db_tables s) provider subject me"
    using success [of "playerFromRow row" ?s] find(1) [OF that(3)] GetByID_eval(1) [OF live(1) inv', of row] that live
    by (auto simp: link_work_def tx_eval RW_def)
  show "outcome (RW ?work) s = (Inl (PlayerE ErrPlayerNotFound), db_tables s)"
    if "\<forall>p. \<not> linked (db_tables s) provider subject p" "\<not> has_player (db_tables s) me"
    using failure [of "PlayerE ErrPlayerNotFound" ?s] find(2) [OF that(1)] GetByID_eval(2) [OF live(1) inv', of me] that live
    by (simp add: link_work_def tx_eval RW_def)
  show "outcome (RW ?work) s = (Inr (playerFromRow row), (db_tables s)\<lparr>player_identities :=
        player_identities (db_tables s) @ [new_identity uid (db_now s) provider subject me]\<rparr>)"
    if none: "\<forall>p. \<not> linked (db_tables s) provider subject p" and row: "row \<in> set (players (db_tables s))" "p_id row = me"
  proof -
    have "\<not> list_ex (is_identity provider subject) (player_identities (db_tables s))"
      using none by (auto simp: linked_def list_ex_iff)
    moreover have "Player_GetByID me ?s = (Inr (playerFromRow row), ?s)" "has_player (db_tables s) me"
      using GetByID_eval(1) [OF live(1) inv', of row] find_player(2) [OF inv row(1)] row live by simp_all
    ultimately have "?work ?s = (Inr (playerFromRow row), ?s\<lparr>db_tables := (db_tables s)\<lparr>player_identities :=
        player_identities (db_tables s) @ [new_identity uid (db_now s) provider subject me]\<rparr>\<rparr>)"
      using find(2) [OF none] live i
      by (simp add: link_work_def tx_eval tx_wrap_def Identity_Save_def sql_CreatePlayerIdentity_def NewIdentity_def new_identity_def)
    from success [OF this] show ?thesis using live by (simp add: RW_def)
  qed
qed

section \<open>Instances\<close>

text \<open>A small account database and an issuer for concrete instances.\<close>

definition sample_usecase :: AuthUsecase where
  "sample_usecase =
     \<lparr>au_tokens = \<lparr>issuer_SignAccess = \<lambda>p now ttl. Inr ''access'',
        issuer_NewRefresh = \<lambda>random. (case random of Inl e \<Rightarrow> Inl e
          | Inr buf \<Rightarrow> Inr (hex_EncodeToString buf, string_bytes (hex_EncodeToString buf))),
        issuer_HashRefresh = string_bytes\<rparr>,
      au_verifier = \<lambda>prov tok. Inr \<lparr>Subject = tok, vi_Name = []\<rparr>, accessTokenTTL = Second, refreshTokenTTL = 60 * Second\<rparr>"

definition sample_draws :: "uuid \<Rightarrow> draws" where
  "sample_draws n = \<lparr>draw_player = n, draw_identity = n, draw_token = n, draw_uid = [], draw_random = Inr [ucast n]\<rparr>"

definition sample_token :: refresh_token_row where
  "sample_token = \<lparr>rt_id = 9, rt_player_id = 1, rt_token_hash = string_bytes ''xx'', rt_expires_at = 10,
     rt_revoked_at = None, rt_created_at = 0\<rparr>"

definition sample_accounts :: db where
  "sample_accounts = \<lparr>db_tables = empty_tables\<lparr>players := [sample_player 1], refresh_tokens := [sample_token]\<rparr>,
     db_now = 0, db_tx = None, db_faults = []\<rparr>"

lemma sample_issuer: "auth_issuer sample_usecase"
  by unfold_locales (auto simp: sample_usecase_def split: sum.splits)

lemma sample_accounts_inv: "auth_inv (db_tables sample_accounts)"
  by (simp add: sample_accounts_def auth_inv_def empty_tables_def sample_player_def sample_token_def has_player_def
      validateNickname_def)

lemmas auth_eval = tx_defs Let_def sample_accounts_def sample_usecase_def sample_draws_def sample_token_def
  sample_player_def empty_tables_def has_player_def string_bytes_def hex_EncodeToString_def hex_digit_def
  RefreshToken_FindByHash_def sql_FindRefreshTokenByHash_def tx_mapping_def IsActive_def RefreshToken_Revoke_def
  sql_RevokeRefreshToken_def revoke_rows_def Player_GetByID_def sql_GetPlayerByID_def issueTokens_def lift_result_def
  tx_wrap_def RefreshToken_Create_def sql_CreateRefreshToken_def toTimestamptz_def playerFromRow_def

lemma sample_refresh_works: "\<exists>r s'. Auth_Refresh sample_usecase (sample_draws 3) ''xx'' 5 sample_accounts = (Inr r, s')"
  by (simp add: Auth_Refresh_def refresh_work_def auth_eval)

section \<open>Properties\<close>

text \<open>
  C17. A refresh token works once: after a \<open>Refresh\<close> that succeeded, the same raw token is refused
  for ever, whatever calls and faults come in between, and the rotation handed out a new, active
  token of the same player; after a \<open>Logout\<close> every token of the player is refused likewise.
\<close>

theorem refresh_single_use:
  assumes "auth_issuer u" "auth_inv (db_tables s)"
  shows "(Auth_Refresh u d raw now s = (Inr r, s') \<longrightarrow>
      isl (fst (Auth_Refresh u d' raw now' (fold (auth_step u) calls s')))
      \<and> active_token u (db_tables s') (RefreshTokenRaw r) (Player_ID (LoginPlayer r)))
    \<and> (Logout p now s = (Inr (), s1) \<and> token_row (db_tables s1) (issuer_HashRefresh (au_tokens u) raw) (\<lambda>r. rt_player_id r = p) \<longrightarrow>
      isl (fst (Auth_Refresh u d' raw now' (fold (auth_step u) calls s1))))"
proof -
  have f: "auth_from (db_tables s) (db_tables s)" using assms(2) by (simp add: auth_from_def)
  note refused = auth_issuer.refused_after_revoke [OF assms(1)]
  have "isl (fst (Auth_Refresh u d' raw now' (fold (auth_step u) calls s')))
      \<and> active_token u (db_tables s') (RefreshTokenRaw r) (Player_ID (LoginPlayer r))"
    if "Auth_Refresh u d raw now s = (Inr r, s')"
    using tx_tripleD(1) [OF auth_issuer.Refresh_triple [OF assms(1)] f that] refused [of s']
    by (simp add: auth_from_def)
  moreover have "isl (fst (Auth_Refresh u d' raw now' (fold (auth_step u) calls s1)))"
    if "Logout p now s = (Inr (), s1)" "token_row (db_tables s1) (issuer_HashRefresh (au_tokens u) raw) (\<lambda>r. rt_player_id r = p)"
    using tx_tripleD(1) [OF Logout_triple f that(1)] all_revoked_token [OF _ that(2)] refused [of s1]
    by (simp add: auth_from_def)
  ultimately show ?thesis by blast
qed

theorem refresh_single_use_witness:
  "\<exists>r s'. Auth_Refresh sample_usecase (sample_draws 3) ''xx'' 5 sample_accounts = (Inr r, s')
     \<and> isl (fst (Auth_Refresh sample_usecase (sample_draws 4) ''xx'' 5
          (fold (auth_step sample_usecase) [CallLogout 2 5, CallUpdate 1 None] s')))"
proof -
  obtain r s' where run: "Auth_Refresh sample_usecase (sample_draws 3) ''xx'' 5 sample_accounts = (Inr r, s')"
    using sample_refresh_works by blast
  have "isl (fst (Auth_Refresh sample_usecase (sample_draws 4) ''xx'' 5
          (fold (auth_step sample_usecase) [CallLogout 2 5, CallUpdate 1 None] s')))"
    using refresh_single_use [OF sample_issuer sample_accounts_inv] run by blast
  with run show ?thesis by blast
qed

text \<open>
  C18. Signing in finds the account or makes it, on a working store and with fresh draws: a device id or
  provider account that is linked gets its own player, unchanged, and nothing is added but the refresh token; an
  unknown one gets a new player with exactly one identity and one token, or \<open>ErrInvalidNickname\<close> and nothing; a credential the provider
  refuses changes nothing. Linking refuses an account of another player, is idempotent for one's own, and
  adds exactly one identity for an existing caller otherwise.
\<close>

theorem sign_in_exact:
  assumes "quiet s" "auth_inv (db_tables s)" "fresh_draws d hash (db_tables s)"
    and "\<And>p. issuer_SignAccess (au_tokens u) p now (accessTokenTTL u) = Inr (access p)"
    and "issuer_NewRefresh (au_tokens u) (draw_random d) = Inr (raw, hash)"
    and "x = toTimestamptz (now + refreshTokenTTL u)" and "t = db_tables s"
  shows "signed_in d access raw hash x (db_now s) ProviderAnonymous dev nickname now t
      (outcome (LoginAnonymous u d d' (Some dev) nickname now) s) \<and>
    (case au_verifier u provider idToken of
       Inl e \<Rightarrow> outcome (LoginOIDC u d d' provider idToken now) s = (Inl ErrInvalidCredential, t) \<and>
         outcome (LinkIdentity u (draw_identity d) me provider idToken) s = (Inl ErrInvalidCredential, t)
     | Inr i \<Rightarrow> signed_in d access raw hash x (db_now s) provider (Subject i) (nicknameOrNil (vi_Name i)) now t
           (outcome (LoginOIDC u d d' provider idToken now) s) \<and>
         (let out = outcome (LinkIdentity u (draw_identity d) me provider idToken) s in
          (\<forall>p. linked t provider (Subject i) p \<and> p \<noteq> me \<longrightarrow> out = (Inl (PlayerE ErrIdentityAlreadyLinked), t)) \<and>
          (\<forall>row \<in> set (players t). p_id row = me \<and> linked t provider (Subject i) me \<longrightarrow> out = (Inr (playerFromRow row), t)) \<and>
          ((\<forall>p. \<not> linked t provider (Subject i) p) \<and> \<not> has_player t me \<longrightarrow> out = (Inl (PlayerE ErrPlayerNotFound), t)) \<and>
          (\<forall>row \<in> set (players t). p_id row = me \<and> (\<forall>p. \<not> linked t provider (Subject i) p) \<longrightarrow>
             out = (Inr (playerFromRow row), t\<lparr>player_identities := player_identities t @
               [new_identity (draw_identity d) (db_now s) provider (Subject i) me]\<rparr>))))"
proof -
  note login = login_eval [OF assms(1-5)]
  have i: "draw_identity d \<notin> pi_id ` set (player_identities (db_tables s))" using assms(3) by (simp add: fresh_draws_def)
  note link = link_eval [OF assms(1,2) i]
  show ?thesis
  proof (cases "au_verifier u provider idToken")
    case (Inl e)
    then show ?thesis using login
      by (simp add: assms(6,7) LoginAnonymous_def findOrCreatePlayer_def LoginOIDC_def LinkIdentity_def outcome_fail)
  next
    case (Inr i)
    then have "LoginOIDC u d d' provider idToken now = runLoginTx (login_work u (\<lambda>d.
          findOrCreateByIdentity d provider (Subject i) (nicknameOrNil (vi_Name i)) now) now) d d'"
      "LinkIdentity u (draw_identity d) me provider idToken = RW (link_work (draw_identity d) me provider (Subject i))"
      by (simp_all add: LoginOIDC_def LinkIdentity_def)
    moreover have "LoginAnonymous u d d' (Some dev) nickname now = runLoginTx (login_work u (\<lambda>d.
          findOrCreateByIdentity d ProviderAnonymous dev nickname now) now) d d'"
      by (simp add: LoginAnonymous_def findOrCreatePlayer_def)
    ultimately show ?thesis
      unfolding Inr assms(6,7) Let_def sum.case using login link by (simp only:) blast
  qed
qed

theorem sign_in_exact_witness:
  "\<exists>r s'. LoginAnonymous sample_usecase (sample_draws 3) (sample_draws 4) (Some ''dev'') None 5 sample_accounts = (Inr r, s') \<and>
     LoginPlayer r = \<lparr>Player_ID = 3, Nickname = None, RegisteredAt = 5\<rparr> \<and>
     player_identities (db_tables s') = [new_identity 3 0 ProviderAnonymous ''dev'' 3]"
proof -
  let ?d = "sample_draws 3" and ?t = "db_tables sample_accounts"
  obtain raw hash where ref: "issuer_NewRefresh (au_tokens sample_usecase) (draw_random ?d) = Inr (raw, hash)"
    by (simp add: sample_usecase_def sample_draws_def)
  have acc: "issuer_SignAccess (au_tokens sample_usecase) p 5 (accessTokenTTL sample_usecase) = Inr ''access''" for p
    by (simp add: sample_usecase_def)
  have fresh: "fresh_draws ?d hash ?t" "quiet sample_accounts" "\<forall>p. \<not> linked ?t ProviderAnonymous ''dev'' p"
    using ref by (auto simp: fresh_draws_def auth_eval quiet_def linked_def)
  have "fst (outcome (LoginAnonymous sample_usecase ?d (sample_draws 4) (Some ''dev'') None 5) sample_accounts) =
      Inr \<lparr>AccessToken = ''access'', RefreshTokenRaw = raw, LoginPlayer = \<lparr>Player_ID = 3, Nickname = None, RegisteredAt = 5\<rparr>\<rparr> \<and>
    player_identities (snd (outcome (LoginAnonymous sample_usecase ?d (sample_draws 4) (Some ''dev'') None 5) sample_accounts)) =
      [new_identity 3 0 ProviderAnonymous ''dev'' 3]"
    using conjunct1 [OF sign_in_exact [OF fresh(2) sample_accounts_inv fresh(1) acc ref refl refl, of "''dev''" None "sample_draws 4"]] fresh(3)
    by (simp add: signed_in_def validateNickname_def sample_draws_def sample_accounts_def empty_tables_def)
  then show ?thesis
    by (cases "LoginAnonymous sample_usecase ?d (sample_draws 4) (Some ''dev'') None 5 sample_accounts") (auto simp: outcome_def)
qed

text \<open>
  An account is permanent: once a login has returned a player for a device id, every later login
  with that device id that succeeds returns the same player, whatever calls, other sign-ups, links
  and faults come in between; the same holds for a provider account.
\<close>

theorem login_same_player:
  assumes "auth_issuer u" "auth_inv (db_tables s)"
  shows "(LoginAnonymous u d1 d2 (Some dev) nick now s = (Inr r, s') \<and>
      LoginAnonymous u d3 d4 (Some dev) nick' now' (fold (auth_step u) calls s') = (Inr r', s'') \<longrightarrow>
      Player_ID (LoginPlayer r') = Player_ID (LoginPlayer r))
    \<and> (LoginOIDC u d1 d2 prov tok now s = (Inr r, s') \<and>
      LoginOIDC u d3 d4 prov tok' now' (fold (auth_step u) calls s') = (Inr r', s'') \<and>
      map_sum id Subject (au_verifier u prov tok') = map_sum id Subject (au_verifier u prov tok) \<longrightarrow>
      Player_ID (LoginPlayer r') = Player_ID (LoginPlayer r))"
proof -
  have f: "auth_from (db_tables s) (db_tables s)" using assms(2) by (simp add: auth_from_def)
  let ?s = "fold (auth_step u) calls s'"
  have same: "q = p" if "auth_inv (db_tables s')" "linked (db_tables s') a b p"
    "auth_from (db_tables ?s) (db_tables s'')" "linked (db_tables s'') a b q" for a b p q
  proof -
    have "linked (db_tables ?s) a b p" using linked_mono [OF auth_issuer.steps_after(2) [OF assms(1) that(1)] that(2)] .
    then have "linked (db_tables s'') a b p" using linked_mono that(3) by (auto simp: auth_from_def)
    then show ?thesis using linked_unique that(3,4) by (auto simp: auth_from_def)
  qed
  have f': "auth_from (db_tables ?s) (db_tables ?s)" if "auth_from t (db_tables s')" for t
    using auth_issuer.steps_after(1) [OF assms(1), of s' calls] that by (auto simp: auth_from_def)
  have "Player_ID (LoginPlayer r') = Player_ID (LoginPlayer r)"
    if "LoginAnonymous u d1 d2 (Some dev) nick now s = (Inr r, s')"
      "LoginAnonymous u d3 d4 (Some dev) nick' now' ?s = (Inr r', s'')"
  proof -
    note a = tx_tripleD(1) [OF auth_issuer.LoginAnonymous_triple [OF assms(1)] f that(1)]
    note b = tx_tripleD(1) [OF auth_issuer.LoginAnonymous_triple [OF assms(1)] f' that(2)]
    show ?thesis using a b same [of ProviderAnonymous dev] by (auto simp: auth_from_def)
  qed
  moreover have "Player_ID (LoginPlayer r') = Player_ID (LoginPlayer r)"
    if h: "LoginOIDC u d1 d2 prov tok now s = (Inr r, s')" "LoginOIDC u d3 d4 prov tok' now' ?s = (Inr r', s'')"
      "map_sum id Subject (au_verifier u prov tok') = map_sum id Subject (au_verifier u prov tok)"
  proof -
    note a = tx_tripleD(1) [OF auth_issuer.LoginOIDC_triple [OF assms(1)] f that(1)]
    note b = tx_tripleD(1) [OF auth_issuer.LoginOIDC_triple [OF assms(1)] f' that(2)]
    obtain i where i: "au_verifier u prov tok = Inr i"
      using h(1) by (cases "au_verifier u prov tok") (auto simp: LoginOIDC_def tx_fail_def)
    then obtain j where "au_verifier u prov tok' = Inr j" "Subject j = Subject i"
      using h(3) by (cases "au_verifier u prov tok'") auto
    then show ?thesis using a b i same [of prov "Subject i"] by (auto simp: auth_from_def)
  qed
  ultimately show ?thesis by blast
qed

lemma sample_login_works:
  "\<exists>r s'. LoginAnonymous sample_usecase (sample_draws 3) (sample_draws 4) (Some ''dev'') None 5 sample_accounts = (Inr r, s')
    \<and> (\<exists>r' s''. LoginAnonymous sample_usecase (sample_draws 5) (sample_draws 6) (Some ''dev'') None 7
          (fold (auth_step sample_usecase) [] s') = (Inr r', s''))"
  by (simp add: LoginAnonymous_def runLoginTx_def login_work_def findOrCreatePlayer_def findOrCreateByIdentity_def
      create_player_def tx_optional_def Identity_Find_def sql_FindIdentity_def is_identity_def NewPlayer_def validateNickname_def
      Player_Save_def sql_UpsertPlayer_def Identity_Save_def sql_CreatePlayerIdentity_def NewIdentity_def ProviderAnonymous_def auth_eval)

theorem login_same_player_witness:
  "\<exists>r s' r' s''. LoginAnonymous sample_usecase (sample_draws 3) (sample_draws 4) (Some ''dev'') None 5 sample_accounts = (Inr r, s')
    \<and> LoginAnonymous sample_usecase (sample_draws 5) (sample_draws 6) (Some ''dev'') None 7
          (fold (auth_step sample_usecase) [] s') = (Inr r', s'')
    \<and> Player_ID (LoginPlayer r') = Player_ID (LoginPlayer r)"
proof -
  obtain r s' r' s'' where run:
    "LoginAnonymous sample_usecase (sample_draws 3) (sample_draws 4) (Some ''dev'') None 5 sample_accounts = (Inr r, s')"
    "LoginAnonymous sample_usecase (sample_draws 5) (sample_draws 6) (Some ''dev'') None 7
          (fold (auth_step sample_usecase) [] s') = (Inr r', s'')"
    using sample_login_works by blast
  then have "Player_ID (LoginPlayer r') = Player_ID (LoginPlayer r)"
    using login_same_player [OF sample_issuer sample_accounts_inv] by blast
  with run show ?thesis by blast
qed

end
