(* ===== verification/Adapters.thy ===== *)
theory Adapters
  imports Valkey Matchmaker Auth
begin

text \<open>
  The adapters through which the gateway and the rooms reach outside services: the two room allocators
  (\<open>internal/infra/allocator\<close>), the game server's reports to Agones (\<open>internal/infra/agones\<close>) and the
  verifier of provider tokens (\<open>internal/infra/oidc\<close>). The services' client libraries are arguments.
\<close>


section \<open>Allocators\<close>

text \<open>
  \<open>uuid.New\<close> draws from a source of ids that the allocators advance: \<open>draws i\<close> is the id of draw \<open>i\<close>.
\<close>

record Stub =
  stub_endpoint :: string

definition NewStub :: "string \<Rightarrow> Stub" where
  "NewStub endpoint = \<lparr>stub_endpoint = endpoint\<rparr>"

definition Stub_Allocate :: "Stub \<Rightarrow> (nat \<Rightarrow> uuid) \<Rightarrow> string \<Rightarrow> nat \<Rightarrow> nat \<Rightarrow> (go_error + RoomAllocation) \<times> nat" where
  "Stub_Allocate s draws gameMode n i = (Inr \<lparr>ra_MatchID = draws i, ra_Endpoint = stub_endpoint s\<rparr>, Suc i)"

text \<open>
  The Kubernetes client is an argument: creating a \<open>GameServerAllocation\<close> in a namespace gives its status
  or an error, and moves the cluster on.
\<close>

definition GameModeLabel :: string where
  "GameModeLabel = ''vfx.dev/game-mode''"

record GameServerSelector =
  MatchLabels :: "(string \<times> string) list"
  GameServerState :: string

record AllocationStatus =
  State :: string
  GameServerName :: string
  Address :: string
  Ports :: "int list"

record 'k Agones =
  agones_client :: "string \<Rightarrow> GameServerSelector list \<Rightarrow> 'k \<Rightarrow> AllocationStatus result \<times> 'k"
  namespace :: string

definition newAgonesWithClient :: "(string \<Rightarrow> GameServerSelector list \<Rightarrow> 'k \<Rightarrow> AllocationStatus result \<times> 'k) \<Rightarrow> string \<Rightarrow> 'k Agones" where
  "newAgonesWithClient client ns = \<lparr>agones_client = client, namespace = ns\<rparr>"

definition NewAgones :: "'c result \<Rightarrow> ('c \<Rightarrow> (string \<Rightarrow> GameServerSelector list \<Rightarrow> 'k \<Rightarrow> AllocationStatus result \<times> 'k) result) \<Rightarrow>
    string \<Rightarrow> 'k Agones result" where
  "NewAgones inClusterConfig newForConfig ns = (case inClusterConfig of
     Inl err \<Rightarrow> Inl (Wrap ''allocator: in-cluster config'' err)
   | Inr cfg \<Rightarrow> (case newForConfig cfg of
       Inl err \<Rightarrow> Inl (Wrap ''allocator: agones clientset'' err)
     | Inr client \<Rightarrow> Inr (newAgonesWithClient client ns)))"

definition Agones_Allocate ::
    "'k Agones \<Rightarrow> (nat \<Rightarrow> uuid) \<Rightarrow> string \<Rightarrow> nat \<Rightarrow> 'k \<times> nat \<Rightarrow> (go_error + RoomAllocation) \<times> 'k \<times> nat" where
  "Agones_Allocate a draws gameMode n = (\<lambda>(k, i).
     case agones_client a (namespace a) [\<lparr>MatchLabels = [(GameModeLabel, gameMode)], GameServerState = ''Ready''\<rparr>] k of
       (Inl err, k') \<Rightarrow> (Inl (Wrap ''allocator: create allocation'' err), k', i)
     | (Inr status, k') \<Rightarrow>
         if State status \<noteq> ''Allocated''
         then (Inl (ErrorString (''allocator: no game server available for '' @ gameMode @ '' (state='' @ State status @ '')'')), k', i)
         else if Ports status = []
         then (Inl (ErrorString (''allocator: allocated game server '' @ GameServerName status @ '' exposes no ports'')), k', i)
         else (Inr \<lparr>ra_MatchID = draws i, ra_Endpoint = Address status @ '':'' @ show_int (hd (Ports status))\<rparr>, k', Suc i))"

text \<open>The rooms a sequence of calls hands out.\<close>

fun allocated_ids :: "(string \<Rightarrow> nat \<Rightarrow> 'a \<Rightarrow> (go_error + RoomAllocation) \<times> 'a) \<Rightarrow> (string \<times> nat) list \<Rightarrow> 'a \<Rightarrow> uuid list" where
  "allocated_ids allocate [] s = []"
| "allocated_ids allocate ((mode, n) # calls) s = (case allocate mode n s of
     (Inl e, s') \<Rightarrow> allocated_ids allocate calls s' | (Inr a, s') \<Rightarrow> ra_MatchID a # allocated_ids allocate calls s')"

text \<open>Every room takes the next draw, so two rooms have the same match id only if two draws coincide.\<close>

lemma Stub_ids: "allocated_ids (Stub_Allocate s draws) calls i = map (\<lambda>j. draws (i + j)) [0..<length calls]"
proof (induction calls arbitrary: i)
  case (Cons c calls)
  then show ?case using Cons.IH [of "Suc i"] by (cases c) (simp add: Stub_Allocate_def map_upt_Suc del: upt_Suc)
qed simp

lemma Agones_ids: "\<exists>n \<le> length calls. allocated_ids (Agones_Allocate a draws) calls (k, i) = map (\<lambda>j. draws (i + j)) [0..<n]"
proof (induction calls arbitrary: k i)
  case (Cons c calls)
  obtain mode m where c: "c = (mode, m)" by (cases c)
  obtain r k' i' where run: "Agones_Allocate a draws mode m (k, i) = (r, k', i')" by (metis prod_cases3)
  show ?case
  proof (cases r)
    case (Inl e)
    then have "i' = i" using run by (auto simp: Agones_Allocate_def split: prod.splits sum.splits if_splits)
    then show ?thesis using Cons.IH [of k' i] run Inl c by (auto intro: le_SucI)
  next
    case (Inr room)
    then have "i' = Suc i \<and> ra_MatchID room = draws i"
      using run by (auto simp: Agones_Allocate_def split: prod.splits sum.splits if_splits)
    moreover obtain n where "n \<le> length calls" "allocated_ids (Agones_Allocate a draws) calls (k', Suc i) = map (\<lambda>j. draws (Suc i + j)) [0..<n]"
      using Cons.IH by blast
    ultimately have "Suc n \<le> length (c # calls) \<and> allocated_ids (Agones_Allocate a draws) (c # calls) (k, i) = map (\<lambda>j. draws (i + j)) [0..<Suc n]"
      using run Inr c by (simp add: map_upt_Suc del: upt_Suc)
    then show ?thesis by blast
  qed
qed simp

text \<open>A room comes only from a server that the cluster reports as allocated and that exposes a port.\<close>

lemma Agones_Allocate_room:
  assumes "Agones_Allocate a draws mode n (k, i) = (Inr room, k', i')"
  obtains status where
    "agones_client a (namespace a) [\<lparr>MatchLabels = [(GameModeLabel, mode)], GameServerState = ''Ready''\<rparr>] k = (Inr status, k')"
    "State status = ''Allocated''" "Ports status \<noteq> []" "ra_Endpoint room = Address status @ '':'' @ show_int (hd (Ports status))"
  using assms that by (auto simp: Agones_Allocate_def split: prod.splits sum.splits if_splits)

section \<open>The game server's lifecycle\<close>

text \<open>
  The calls a room daemon makes to the Agones sidecar. The select of the health loop and the call of
  \<open>stop\<close> are events: a tick of the ticker, the end of the context, and \<open>stop\<close>, which waits for the loop to
  return before it sends \<open>Shutdown\<close>.
\<close>

datatype sdk_call = Ready | Health | Shutdown
datatype life_event = HealthTick | ContextDone | StopCalled

record agones_life =
  lc_calls :: "sdk_call list"
  lc_pinging :: bool

definition start_lifecycle :: "go_error option \<Rightarrow> agones_life result" where
  "start_lifecycle ready = (case ready of
     Some err \<Rightarrow> Inl (Wrap ''agones: ready'' err)
   | None \<Rightarrow> Inr \<lparr>lc_calls = [Ready], lc_pinging = True\<rparr>)"

definition Start_lifecycle :: "go_error option \<Rightarrow> go_error option \<Rightarrow> agones_life result" where
  "Start_lifecycle newSDK ready = (case newSDK of
     Some err \<Rightarrow> Inl (Wrap ''agones: connect sdk'' err)
   | None \<Rightarrow> start_lifecycle ready)"

fun life_step :: "life_event \<Rightarrow> agones_life \<Rightarrow> agones_life" where
  "life_step HealthTick l = (if lc_pinging l then l\<lparr>lc_calls := lc_calls l @ [Health]\<rparr> else l)"
| "life_step ContextDone l = l\<lparr>lc_pinging := False\<rparr>"
| "life_step StopCalled l = l\<lparr>lc_pinging := False, lc_calls := lc_calls l @ [Shutdown]\<rparr>"

text \<open>Ready comes first and once, and no health ping follows the shutdown.\<close>

definition life_ok :: "agones_life \<Rightarrow> bool" where
  "life_ok l \<longleftrightarrow> (\<exists>pings stops. lc_calls l = Ready # replicate pings Health @ replicate stops Shutdown \<and> (lc_pinging l \<longrightarrow> stops = 0))"

lemma life_step_ok: "life_ok l \<Longrightarrow> life_ok (life_step e l)"
proof -
  assume "life_ok l"
  then obtain p q where c: "lc_calls l = Ready # replicate p Health @ replicate q Shutdown" "lc_pinging l \<longrightarrow> q = 0"
    by (auto simp: life_ok_def)
  have snoc: "replicate n x @ [x] = replicate (Suc n) x" for n and x :: sdk_call by (simp add: replicate_append_same)
  show "life_ok (life_step e l)"
  proof (cases e)
    case HealthTick
    then show ?thesis using c snoc [of p Health]
      by (auto simp: life_ok_def intro: exI [of _ p] exI [of _ "Suc p"] exI [of _ q])
  next
    case ContextDone
    then show ?thesis using c by (auto simp: life_ok_def)
  next
    case StopCalled
    then have "lc_calls (life_step e l) = Ready # replicate p Health @ replicate (Suc q) Shutdown \<and> \<not> lc_pinging (life_step e l)"
      using c snoc [of q Shutdown] by simp
    then show ?thesis unfolding life_ok_def by blast
  qed
qed

lemma lifecycle_ordered:
  assumes "Start_lifecycle newSDK ready = Inr l"
  shows "life_ok (fold life_step events l)"
proof -
  have "life_ok l" using assms by (auto simp: Start_lifecycle_def start_lifecycle_def life_ok_def split: option.splits)
  then show ?thesis by (induction events arbitrary: l) (simp_all add: life_step_ok)
qed

section \<open>The OIDC verifier\<close>

text \<open>
  The library is an argument: a verifier made for an issuer, the URL of its keys and a client id either
  rejects a token or gives its subject and, when the claims decode, its name.
\<close>

record oidc_endpoint =
  issuer :: string
  jwksURL :: string

definition providerEndpoints :: "string \<rightharpoonup> oidc_endpoint" where
  "providerEndpoints = [
     ProviderGoogle \<mapsto> \<lparr>issuer = ''https://accounts.google.com'', jwksURL = ''https://www.googleapis.com/oauth2/v3/certs''\<rparr>,
     ProviderApple \<mapsto> \<lparr>issuer = ''https://appleid.apple.com'', jwksURL = ''https://appleid.apple.com/auth/keys''\<rparr>]"

type_synonym oidc_lib = "string \<Rightarrow> string \<Rightarrow> string \<Rightarrow> string \<Rightarrow> (string \<times> string result) result"

record Verifier =
  verifiers :: "string \<rightharpoonup> oidc_endpoint \<times> string"

definition New_Verifier :: "(string \<rightharpoonup> string) \<Rightarrow> Verifier" where
  "New_Verifier cfg = \<lparr>verifiers = (\<lambda>provider. case cfg provider of
     None \<Rightarrow> None
   | Some audience \<Rightarrow> (case providerEndpoints provider of
       None \<Rightarrow> None
     | Some ep \<Rightarrow> if audience = [] then None else Some (ep, audience)))\<rparr>"

definition Verifier_Verify :: "oidc_lib \<Rightarrow> Verifier \<Rightarrow> string \<Rightarrow> string \<Rightarrow> VerifiedIdentity result" where
  "Verifier_Verify lib v provider idToken = (case verifiers v provider of
     None \<Rightarrow> Inl (ErrorString (''oidc: provider '' @ provider @ '' is not configured''))
   | Some (ep, audience) \<Rightarrow> (case lib (issuer ep) (jwksURL ep) audience idToken of
       Inl err \<Rightarrow> Inl (Wrap (''oidc: verify '' @ provider @ '' token'') err)
     | Inr (subject, name) \<Rightarrow> Inr \<lparr>Subject = subject, vi_Name = (case name of Inl _ \<Rightarrow> [] | Inr n \<Rightarrow> n)\<rparr>))"


text \<open>
  Only tokens of configured providers sign in: with the OIDC verifier of the gateway, a sign-in or a
  link of an identity that changed anything or returned a player was made with a provider whose
  client id is configured, and the library accepted the token for the pinned issuer and keys of that
  provider and for that client id; otherwise the call is refused as an invalid credential and the store is
  untouched.
\<close>

theorem oidc_configured_only:
  assumes "au_verifier u = Verifier_Verify lib (New_Verifier cfg)"
  shows "(\<exists>ep audience subject name. providerEndpoints provider = Some ep \<and> cfg provider = Some audience \<and> audience \<noteq> [] \<and>
      lib (issuer ep) (jwksURL ep) audience idToken = Inr (subject, name)) \<or>
    LoginOIDC u d d' provider idToken now s = (Inl ErrInvalidCredential, s) \<and>
    LinkIdentity u uid playerID provider idToken s = (Inl ErrInvalidCredential, s)"
  using assms
  by (auto simp: LoginOIDC_def LinkIdentity_def Verifier_Verify_def New_Verifier_def tx_fail_def
      split: option.splits sum.splits prod.splits if_splits)

definition picky_lib :: oidc_lib where
  "picky_lib iss keys aud tok = (if iss = ''https://accounts.google.com'' \<and> aud = ''vfx-app'' \<and> tok = ''good''
     then Inr (''sub-1'', Inr ''Ada'') else Inl (ErrorString ''oidc: expected audience''))"

definition picky_auth :: AuthUsecase where
  "picky_auth = sample_usecase\<lparr>au_verifier := Verifier_Verify picky_lib (New_Verifier [ProviderGoogle \<mapsto> ''vfx-app''])\<rparr>"

theorem oidc_configured_only_witness:
  "LoginOIDC picky_auth (sample_draws 1) (sample_draws 2) ProviderApple ''good'' 0 sample_accounts = (Inl ErrInvalidCredential, sample_accounts) \<and>
   LoginOIDC picky_auth (sample_draws 1) (sample_draws 2) ProviderGoogle ''bad'' 0 sample_accounts = (Inl ErrInvalidCredential, sample_accounts) \<and>
   Verifier_Verify picky_lib (New_Verifier [ProviderGoogle \<mapsto> ''vfx-app'']) ProviderGoogle ''good'' = Inr \<lparr>Subject = ''sub-1'', vi_Name = ''Ada''\<rparr>"
proof -
  have u: "au_verifier picky_auth = Verifier_Verify picky_lib (New_Verifier [ProviderGoogle \<mapsto> ''vfx-app''])" by (simp add: picky_auth_def)
  have "Verifier_Verify picky_lib (New_Verifier [ProviderGoogle \<mapsto> ''vfx-app'']) ProviderGoogle ''good'' = Inr \<lparr>Subject = ''sub-1'', vi_Name = ''Ada''\<rparr>"
    by (simp add: Verifier_Verify_def New_Verifier_def providerEndpoints_def picky_lib_def ProviderGoogle_def ProviderApple_def)
  then show ?thesis
    using oidc_configured_only [OF u, of ProviderApple "''good''" "sample_draws 1" "sample_draws 2" 0 sample_accounts]
      oidc_configured_only [OF u, of ProviderGoogle "''bad''" "sample_draws 1" "sample_draws 2" 0 sample_accounts]
    by (auto simp: picky_lib_def ProviderGoogle_def ProviderApple_def)
qed

end
