(* ===== verification/Plugin.thy ===== *)
theory Plugin
  imports Prelude "HOL-Library.AList"
begin

text \<open>
  The contract between the room daemon and the game logic it hosts
  (\<open>internal/domain/plugin\<close>), with the messages of the plugin ABI it is stated in and the frames
  of the realtime protocol. A plugin instance is a value of a type \<open>'s\<close>, the state the instance
  keeps; the four methods of the interface are the fields of \<open>Plugin\<close>, each returning its answer
  and the state afterwards. A method that reports an error returns no message, as the two
  implementations in the repository do.

  The registry of factories is an association list with distinct names; \<open>Names\<close> lists them in
  the order of the list where the code's map iteration leaves the order open.
\<close>

section \<open>Messages\<close>

record PlayerAction =
  PlayerId :: string
  ClientTick :: "32 word"
  Payload :: bytes

datatype NetworkEvent = PlayerJoined string | PlayerLeft string string

record OnTickRequest =
  Tick :: "32 word"
  Timestamp :: go_time
  Actions :: "PlayerAction list"
  NetworkEvents :: "NetworkEvent list"

record OutboundEvent =
  Recipients :: "string list"
  EventType :: string
  EventPayload :: bytes

record OnTickResponse =
  resp_StateDelta :: bytes
  resp_Events :: "OutboundEvent list"
  resp_GameEnded :: bool

record InitResponse =
  TickRateHz :: "32 word"
  InitialSnapshot :: bytes

record PlayerResult =
  res_PlayerId :: string
  Rank :: int
  Stats :: "(string \<times> string) list"

record OnGameEndResponse =
  FinalState :: bytes
  PlayerResults :: "PlayerResult list"

datatype Frame =
    Frame_Hello string
  | Frame_Input "32 word" bytes
  | Frame_Heartbeat "64 word"
  | Frame_Snapshot "32 word" bytes
  | Frame_Delta "32 word" "32 word" bytes
  | Frame_Event string bytes
  | Frame_Error string string

section \<open>The plugin interface\<close>

record 's Plugin =
  plugin_Init :: "'s \<Rightarrow> string list \<Rightarrow> InitResponse result \<times> 's"
  plugin_OnTick :: "'s \<Rightarrow> OnTickRequest \<Rightarrow> OnTickResponse result \<times> 's"
  plugin_OnGameEnd :: "'s \<Rightarrow> 32 word \<Rightarrow> OnGameEndResponse result \<times> 's"
  plugin_Close :: "'s \<Rightarrow> go_error option \<times> 's"

section \<open>The registry\<close>

record 'f Registry =
  factories :: "(string \<times> 'f) list"

definition NewRegistry :: "'f Registry" where
  "NewRegistry = \<lparr>factories = []\<rparr>"

definition Register :: "('f \<Rightarrow> string) \<Rightarrow> 'f \<Rightarrow> 'f Registry \<Rightarrow> go_error option \<times> 'f Registry" where
  "Register name f r =
     (case map_of (factories r) (name f) of
        Some _ \<Rightarrow> (Some (ErrorString (''plugin: '' @ name f @ '' already registered'')), r)
      | None \<Rightarrow> (None, r\<lparr>factories := AList.update (name f) f (factories r)\<rparr>))"

definition Lookup :: "string \<Rightarrow> 'f Registry \<Rightarrow> 'f result" where
  "Lookup name r =
     (case map_of (factories r) name of
        None \<Rightarrow> Inl (ErrorString (''plugin: '' @ name @ '' not registered''))
      | Some f \<Rightarrow> Inr f)"

definition Names :: "'f Registry \<Rightarrow> string list" where
  "Names r = map fst (factories r)"

fun register_all :: "('f \<Rightarrow> string) \<Rightarrow> 'f list \<Rightarrow> 'f Registry \<Rightarrow> 'f Registry" where
  "register_all name [] r = r"
| "register_all name (f # fs) r = register_all name fs (snd (Register name f r))"

lemma update_fresh: "map_of xs k = None \<Longrightarrow> AList.update k v xs = xs @ [(k, v)]"
  by (induction xs) (auto split: if_splits)

lemma Register_cases:
  "Register name f r = (if name f \<in> set (Names r)
     then (Some (ErrorString (''plugin: '' @ name f @ '' already registered'')), r)
     else (None, r\<lparr>factories := factories r @ [(name f, f)]\<rparr>))"
  by (auto simp: Register_def Names_def update_fresh map_of_eq_None_iff[symmetric] split: option.splits)

lemma Names_distinct: "distinct (Names (register_all name fs NewRegistry))"
proof -
  have "distinct (Names r) \<Longrightarrow> distinct (Names (register_all name fs r))" for r
    by (induction fs arbitrary: r) (auto simp: Register_cases, simp add: Names_def)
  then show ?thesis by (simp add: NewRegistry_def Names_def)
qed

text \<open>The first factory registered under a name is the one a lookup finds; later ones are refused.\<close>

lemma Lookup_register_all:
  "Lookup n (register_all name fs NewRegistry) =
     (case find (\<lambda>f. name f = n) fs of
        None \<Rightarrow> Inl (ErrorString (''plugin: '' @ n @ '' not registered''))
      | Some f \<Rightarrow> Inr f)"
proof -
  have "map_of (factories (register_all name fs r)) n =
          (case map_of (factories r) n of Some f \<Rightarrow> Some f | None \<Rightarrow> find (\<lambda>f. name f = n) fs)" for r
    by (induction fs arbitrary: r)
       (auto simp: Register_cases Names_def map_add_def split: option.splits
          dest: map_of_SomeD weak_map_of_SomeI)
  then show ?thesis by (simp add: Lookup_def NewRegistry_def split: option.splits)
qed

end
