(* ===== verification/Bootstrap.thy ===== *)
theory Bootstrap
  imports Leaderboard_Index Valkey_Chat Cloud_Blobs Adapters Plugin
begin

text \<open>
  How the processes are put together (\<open>internal/bootstrap\<close>, with the constructors in
  \<open>internal/infra/postgres\<close>, \<open>internal/infra/valkey\<close> and \<open>internal/infra/config\<close>): which implementation of each
  interface the configuration selects, what each usecase is given, and which handles are open when
  construction fails or succeeds.
\<close>


section \<open>Configuration\<close>


record AdminConfig =
  ac_DatabaseURL :: string
  ac_ValkeyURL :: string
  ac_MatchQueue :: string
  ac_AuthToken :: string
  ac_StorageBucket :: string
  ac_StorageEmulatorHost :: string
  ac_StorageTitlePrefix :: string



section \<open>Resources\<close>







section \<open>Choices\<close>





definition parse_spec :: "string \<Rightarrow> (string \<rightharpoonup> Leaderboard) \<Rightarrow> (string \<rightharpoonup> Leaderboard) result" where
  "parse_spec spec defs =
     (case Cut spec (CHR '':'') of (i, order, _) \<Rightarrow>
      let lid = TrimSpace i in
      if lid = [] then Inr defs
      else if TrimSpace order = [] \<or> TrimSpace order = ''desc''
      then Inr (defs(lid \<mapsto> \<lparr>Leaderboard_ID = lid, Leaderboard_SortOrder = Descending\<rparr>))
      else if TrimSpace order = ''asc''
      then Inr (defs(lid \<mapsto> \<lparr>Leaderboard_ID = lid, Leaderboard_SortOrder = Ascending\<rparr>))
      else Inl (ErrorString (''bootstrap: leaderboard '' @ lid @ '' has unknown order '' @ order)))"

fun parse_specs :: "string list \<Rightarrow> (string \<rightharpoonup> Leaderboard) \<Rightarrow> (string \<rightharpoonup> Leaderboard) result" where
  "parse_specs [] defs = Inr defs"
| "parse_specs (spec # specs) defs = (case parse_spec spec defs of Inl err \<Rightarrow> Inl err | Inr defs' \<Rightarrow> parse_specs specs defs')"

definition parseLeaderboards :: "string list \<Rightarrow> (string \<rightharpoonup> Leaderboard) result" where
  "parseLeaderboards specs = parse_specs specs Map.empty"


section \<open>The gateway\<close>








section \<open>The operations server and the room daemon\<close>








section \<open>Properties\<close>








definition spec_id :: "string \<Rightarrow> string" where
  "spec_id spec = TrimSpace (fst (Cut spec (CHR '':'')))"

definition spec_order :: "string \<Rightarrow> SortOrder option" where
  "spec_order spec = (let order = TrimSpace (fst (snd (Cut spec (CHR '':'')))) in
     if order = [] \<or> order = ''desc'' then Some Descending else if order = ''asc'' then Some Ascending else None)"

definition last_spec :: "string list \<Rightarrow> string \<Rightarrow> string option" where
  "last_spec specs lid = List.find (\<lambda>spec. spec_id spec = lid) (rev specs)"

lemma parse_spec_eq:
  "parse_spec spec defs = (if spec_id spec = [] then Inr defs else case spec_order spec of
     None \<Rightarrow> Inl (ErrorString (''bootstrap: leaderboard '' @ spec_id spec @ '' has unknown order '' @ fst (snd (Cut spec (CHR '':'')))))
   | Some order \<Rightarrow> Inr (defs(spec_id spec \<mapsto> \<lparr>Leaderboard_ID = spec_id spec, Leaderboard_SortOrder = order\<rparr>)))"
  by (simp add: parse_spec_def spec_id_def spec_order_def Let_def split_beta)

lemma last_spec_Cons: "last_spec (spec # specs) lid =
    (case last_spec specs lid of None \<Rightarrow> if spec_id spec = lid then Some spec else None | Some s \<Rightarrow> Some s)"
proof -
  have "List.find P (xs @ [x]) = (case List.find P xs of None \<Rightarrow> if P x then Some x else None | Some y \<Rightarrow> Some y)" for P xs and x :: string
    by (induction xs) simp_all
  then show ?thesis by (simp add: last_spec_def)
qed

lemma parse_specs_outcome:
  "case parse_specs specs defs of
     Inl _ \<Rightarrow> \<exists>spec \<in> set specs. spec_id spec \<noteq> [] \<and> spec_order spec = None
   | Inr defs' \<Rightarrow> (\<forall>spec \<in> set specs. spec_id spec \<noteq> [] \<longrightarrow> spec_order spec \<noteq> None) \<and>
       (\<forall>lid. defs' lid = (if lid = [] then defs [] else case last_spec specs lid of
          None \<Rightarrow> defs lid
        | Some spec \<Rightarrow> Some \<lparr>Leaderboard_ID = lid, Leaderboard_SortOrder = the (spec_order spec)\<rparr>))"
proof (induction specs arbitrary: defs)
  case (Cons spec specs)
  consider "spec_id spec = []" | "spec_id spec \<noteq> []" "spec_order spec = None" | order where "spec_id spec \<noteq> []" "spec_order spec = Some order"
    by fastforce
  then show ?case
  proof cases
    case 1
    then show ?thesis using Cons.IH [of defs] by (auto simp: parse_spec_eq last_spec_Cons split: sum.splits option.splits)
  next
    case 2
    then show ?thesis by (simp add: parse_spec_eq)
  next
    case 3
    define defs' where "defs' = defs(spec_id spec \<mapsto> \<lparr>Leaderboard_ID = spec_id spec, Leaderboard_SortOrder = order\<rparr>)"
    have at: "defs' [] = defs []" "lid \<noteq> spec_id spec \<Longrightarrow> defs' lid = defs lid"
      "defs' (spec_id spec) = Some \<lparr>Leaderboard_ID = spec_id spec, Leaderboard_SortOrder = order\<rparr>" for lid
      using 3 by (auto simp: defs'_def)
    have step: "parse_specs (spec # specs) defs = parse_specs specs defs'" using 3 by (simp add: parse_spec_eq defs'_def)
    show ?thesis using Cons.IH [of defs'] 3 unfolding step
      by (auto simp: last_spec_Cons at split: sum.splits option.splits)
  qed
qed (simp add: last_spec_def)

text \<open>
  Leaderboards are what the configuration names: when the specs are accepted, a board exists for an
  id exactly when some spec names it, it carries that id and the order of the last spec that names it, and the ids are not empty; they
  are accepted exactly when every spec that names a board has one of the three orders.
\<close>

theorem leaderboards_configured:
  "case parseLeaderboards specs of
     Inl _ \<Rightarrow> \<exists>spec \<in> set specs. spec_id spec \<noteq> [] \<and> spec_order spec = None
   | Inr defs \<Rightarrow> (\<forall>spec \<in> set specs. spec_id spec \<noteq> [] \<longrightarrow> spec_order spec \<noteq> None) \<and>
       (\<forall>lid. defs lid = (if lid = [] then None else case last_spec specs lid of
          None \<Rightarrow> None
        | Some spec \<Rightarrow> Some \<lparr>Leaderboard_ID = lid, Leaderboard_SortOrder = the (spec_order spec)\<rparr>))"
  using parse_specs_outcome [of specs Map.empty] by (simp add: parseLeaderboards_def split: sum.splits)

theorem leaderboards_configured_witness:
  "\<exists>defs. parseLeaderboards [''a'', ''b:asc'', '' '', ''a : ''] = Inr defs \<and>
     defs ''a'' = Some \<lparr>Leaderboard_ID = ''a'', Leaderboard_SortOrder = Descending\<rparr> \<and>
     defs ''b'' = Some \<lparr>Leaderboard_ID = ''b'', Leaderboard_SortOrder = Ascending\<rparr> \<and> defs '' '' = None"
proof -
  let ?specs = "[''a'', ''b:asc'', '' '', ''a : '']"
  note trim = TrimSpace_def TrimLeft.simps TrimRight.simps DecodeLastRune_def DecodeRune_def byte_at_def IsSpace_def in_range_def RuneStart_def
  have t: "TrimSpace ''a'' = ''a''" "TrimSpace ''b'' = ''b''" "TrimSpace '' '' = []" "TrimSpace ''a '' = ''a''"
    by (simp_all add: trim)
  moreover have "TrimSpace ''asc'' = ''asc''" by (simp add: trim numeral_eq_Suc)
  ultimately have ids: "spec_id ''a'' = ''a''" "spec_id ''b:asc'' = ''b''" "spec_id '' '' = []" "spec_id ''a : '' = ''a''"
    "spec_order ''a'' = Some Descending" "spec_order ''b:asc'' = Some Ascending" "spec_order ''a : '' = Some Descending"
    by (simp_all add: spec_id_def spec_order_def Cut_def)
  have "\<not> isl (parseLeaderboards ?specs)"
    using leaderboards_configured [of ?specs] by (auto simp: ids split: sum.splits)
  then obtain defs where d: "parseLeaderboards ?specs = Inr defs" by (cases "parseLeaderboards ?specs") auto
  show ?thesis using leaderboards_configured [of ?specs] by (auto simp: d ids last_spec_def)
qed

end
