(* ===== verification/Room_Match.thy ===== *)
theory Room_Match
  imports Plugin
begin

text \<open>
  One in-progress game, \<open>internal/usecase/room/match.go\<close>: the players that joined, the plugin
  instance, the two buffered channels and the tick loop.

  \<^item> The two channels are lists of at most \<open>256\<close> actions and \<open>32\<close> events; a send in a \<open>select\<close>
    with a \<open>default\<close> branch is \<open>select_send\<close>, which drops the element of a full buffer.
  \<^item> \<open>players\<close> is an association list with distinct keys. A session is a number, the identity of
    the \<open>PlayerIO\<close> object; what the code does to a session is a \<open>room_effect\<close>, listed in order.
    The order in which the code ranges over the map is the argument \<open>ord\<close>, any permutation, a
    new one for each loop.
  \<^item> The clock, the text form of a player id and the wire encoding are arguments (\<open>room_env\<close>).
  \<^item> \<open>match_step\<close> interleaves handlers and the tick loop: \<open>Join\<close> and \<open>Leave\<close> are two steps each,
    as they unlock the mutex before they touch the channel (and \<open>Leave\<close> before it closes the
    session); one iteration of the loop in \<open>Run\<close> is one step. Logs and histograms are left out.
\<close>

section \<open>Channels\<close>

definition select_send :: "nat \<Rightarrow> 'a \<Rightarrow> 'a list \<Rightarrow> 'a list" where
  "select_send cap x ch = (if length ch < cap then ch @ [x] else ch)"

fun drain :: "'a list \<Rightarrow> 'a list \<Rightarrow> 'a list \<times> 'a list" where
  "drain out [] = (out, [])"
| "drain out (a # ch) = drain (out @ [a]) ch"

lemma drain_all [simp]: "drain out ch = (out @ ch, [])"
  by (induction out ch rule: drain.induct) simp_all

lemma select_send_bound [simp]: "length ch \<le> cap \<Longrightarrow> length (select_send cap x ch) \<le> cap"
  by (simp add: select_send_def)

section \<open>State\<close>

record 's Match =
  Match_id :: uuid
  Match_plugin :: 's
  players :: "(uuid \<times> nat) list"
  currentTick :: "32 word"
  tickRateHz :: "32 word"
  inputs :: "PlayerAction list"
  events :: "NetworkEvent list"
  done_closed :: bool

datatype room_effect = Send nat Frame | CloseIO nat | ClosePlugin

record room_env =
  uuid_String :: "uuid \<Rightarrow> string"
  uuid_Parse :: "string \<Rightarrow> uuid option"
  marshal_end :: "OnGameEndResponse \<Rightarrow> bytes result"

type_synonym player_order = "(uuid \<times> nat) list \<Rightarrow> (uuid \<times> nat) list"

section \<open>Operations\<close>

definition NewMatch :: "uuid \<Rightarrow> 's \<Rightarrow> 32 word \<Rightarrow> 's Match" where
  "NewMatch matchID p rate =
     \<lparr>Match_id = matchID, Match_plugin = p, players = [], currentTick = 0, tickRateHz = rate,
      inputs = [], events = [], done_closed = False\<rparr>"

definition Join_lock :: "uuid \<Rightarrow> nat \<Rightarrow> 's Match \<Rightarrow> ('s Match) result" where
  "Join_lock playerID io m =
     (if map_of (players m) playerID \<noteq> None then Inl (ErrorString ''match: player already joined'')
      else Inr (m\<lparr>players := AList.update playerID io (players m)\<rparr>))"

definition emit :: "NetworkEvent \<Rightarrow> 's Match \<Rightarrow> 's Match" where
  "emit ev m = m\<lparr>events := select_send 32 ev (events m)\<rparr>"

definition Join :: "room_env \<Rightarrow> uuid \<Rightarrow> nat \<Rightarrow> 's Match \<Rightarrow> go_error option \<times> 's Match" where
  "Join env playerID io m =
     (case Join_lock playerID io m of
        Inl e \<Rightarrow> (Some e, m)
      | Inr m' \<Rightarrow> (None, emit (PlayerJoined (uuid_String env playerID)) m'))"

definition Leave_lock :: "uuid \<Rightarrow> 's Match \<Rightarrow> nat option \<times> 's Match" where
  "Leave_lock playerID m =
     (case map_of (players m) playerID of
        None \<Rightarrow> (None, m)
      | Some io \<Rightarrow> (Some io, m\<lparr>players := AList.delete playerID (players m)\<rparr>))"

definition Leave :: "room_env \<Rightarrow> uuid \<Rightarrow> string \<Rightarrow> 's Match \<Rightarrow> room_effect list \<times> 's Match" where
  "Leave env playerID reason m =
     (case Leave_lock playerID m of
        (None, m') \<Rightarrow> ([], m')
      | (Some io, m') \<Rightarrow> ([CloseIO io], emit (PlayerLeft (uuid_String env playerID) reason) m'))"

definition action_of :: "room_env \<Rightarrow> uuid \<Rightarrow> 32 word \<Rightarrow> bytes \<Rightarrow> PlayerAction" where
  "action_of env playerID clientTick payload =
     \<lparr>PlayerId = uuid_String env playerID, ClientTick = clientTick, Payload = payload\<rparr>"

definition SubmitInput :: "room_env \<Rightarrow> uuid \<Rightarrow> 32 word \<Rightarrow> bytes \<Rightarrow> 's Match \<Rightarrow> 's Match" where
  "SubmitInput env playerID clientTick payload m =
     m\<lparr>inputs := select_send 256 (action_of env playerID clientTick payload) (inputs m)\<rparr>"

definition broadcast :: "player_order \<Rightarrow> 's Match \<Rightarrow> Frame \<Rightarrow> room_effect list" where
  "broadcast ord m frame = map (\<lambda>(p, io). Send io frame) (ord (players m))"

definition target :: "room_env \<Rightarrow> 's Match \<Rightarrow> string \<Rightarrow> nat option" where
  "target env m rid =
     (case uuid_Parse env rid of None \<Rightarrow> None | Some p \<Rightarrow> map_of (players m) p)"

definition dispatchEvent :: "room_env \<Rightarrow> player_order \<Rightarrow> 's Match \<Rightarrow> OutboundEvent \<Rightarrow> room_effect list" where
  "dispatchEvent env ord m ev =
     (let frame = Frame_Event (EventType ev) (EventPayload ev) in
      if Recipients ev = [] then broadcast ord m frame
      else map (\<lambda>io. Send io frame) (List.map_filter (target env m) (Recipients ev)))"

definition closeAllPlayers :: "player_order \<Rightarrow> 's Match \<Rightarrow> room_effect list \<times> 's Match" where
  "closeAllPlayers ord m = (map (\<lambda>(p, io). CloseIO io) (ord (players m)), m\<lparr>players := []\<rparr>)"

definition tick_request :: "go_time \<Rightarrow> 's Match \<Rightarrow> OnTickRequest \<times> 's Match" where
  "tick_request now m =
     (let (actions, ich) = drain [] (inputs m);
          (evs, ech) = drain [] (events m)
      in (\<lparr>Tick = currentTick m, Timestamp = now, Actions = actions, NetworkEvents = evs\<rparr>,
          m\<lparr>inputs := ich, events := ech\<rparr>))"

definition tick_frames :: "room_env \<Rightarrow> (nat \<Rightarrow> player_order) \<Rightarrow> 's Match \<Rightarrow> OnTickResponse \<Rightarrow> room_effect list" where
  "tick_frames env ord m resp =
     (if resp_StateDelta resp \<noteq> []
      then broadcast (ord 0) m (Frame_Delta (currentTick m) (currentTick m + 1) (resp_StateDelta resp))
      else []) @
     concat (map (\<lambda>(i, ev). dispatchEvent env (ord i) m ev) (enumerate 1 (resp_Events resp)))"

definition Match_tick :: "room_env \<Rightarrow> 's Plugin \<Rightarrow> (nat \<Rightarrow> player_order) \<Rightarrow> go_time \<Rightarrow> 's Match \<Rightarrow>
    bool result \<times> room_effect list \<times> 's Match" where
  "Match_tick env P ord now m =
     (let (req, m1) = tick_request now m in
      case plugin_OnTick P (Match_plugin m1) req of
        (Inl err, pl) \<Rightarrow> (Inl (Wrap ''plugin OnTick'' err), [], m1\<lparr>Match_plugin := pl\<rparr>)
      | (Inr resp, pl) \<Rightarrow>
          (Inr (resp_GameEnded resp), tick_frames env ord m1 resp,
           m1\<lparr>Match_plugin := pl, currentTick := currentTick m1 + 1\<rparr>))"

text \<open>
  The payload of the last event. Go tests the response and the error apart; no plugin of the repository returns
  a response together with an error, and a result has one or the other.
\<close>

definition end_payload :: "room_env \<Rightarrow> OnGameEndResponse result \<Rightarrow> bytes" where
  "end_payload env r =
     (case r of Inl _ \<Rightarrow> []
      | Inr resp \<Rightarrow> (case marshal_end env resp of Inr data \<Rightarrow> data | Inl _ \<Rightarrow> []))"

definition finalise :: "room_env \<Rightarrow> 's Plugin \<Rightarrow> (nat \<Rightarrow> player_order) \<Rightarrow> 's Match \<Rightarrow> room_effect list \<times> 's Match" where
  "finalise env P ord m =
     (let (r, pl) = plugin_OnGameEnd P (Match_plugin m) (currentTick m);
          m1 = m\<lparr>Match_plugin := pl\<rparr>;
          sent = broadcast (ord 0) m1 (Frame_Event ''game_ended'' (end_payload env r));
          (closed, m2) = closeAllPlayers (ord 1) m1
      in (sent @ closed, m2))"

text \<open>The deferred calls of \<open>Run\<close>, in the order Go runs them, and one iteration of its loop.\<close>

definition Run_exit :: "'s Plugin \<Rightarrow> 's Match \<Rightarrow> room_effect list \<times> 's Match" where
  "Run_exit P m =
     (let (_, pl) = plugin_Close P (Match_plugin m)
      in ([ClosePlugin], m\<lparr>Match_plugin := pl, done_closed := True\<rparr>))"

definition Run_cancelled :: "'s Plugin \<Rightarrow> player_order \<Rightarrow> 's Match \<Rightarrow> room_effect list \<times> 's Match" where
  "Run_cancelled P ord m =
     (let (closed, m1) = closeAllPlayers ord m; (ex, m2) = Run_exit P m1 in (closed @ ex, m2))"

definition Run_tick :: "room_env \<Rightarrow> 's Plugin \<Rightarrow> (nat \<Rightarrow> player_order) \<Rightarrow> (nat \<Rightarrow> player_order) \<Rightarrow> go_time \<Rightarrow>
    's Match \<Rightarrow> go_error option option \<times> room_effect list \<times> 's Match" where
  "Run_tick env P ord ord' now m =
     (case Match_tick env P ord now m of
        (Inl err, eff, m1) \<Rightarrow>
          (let (closed, m2) = Run_cancelled P (ord' 0) m1 in (Some (Some err), eff @ closed, m2))
      | (Inr False, eff, m1) \<Rightarrow> (None, eff, m1)
      | (Inr True, eff, m1) \<Rightarrow>
          (let (fin, m2) = finalise env P ord' m1; (ex, m3) = Run_exit P m2
           in (Some None, eff @ fin @ ex, m3)))"

definition tickInterval :: "32 word \<Rightarrow> duration" where
  "tickInterval rateHz = (if rateHz = 0 then 50 * Millisecond else Second div uint rateHz)"

section \<open>Interleavings\<close>

datatype handler = AfterJoin uuid | AfterLeave uuid nat string

record 's match_sys =
  the_match :: "'s Match"
  pending :: "handler list"
  effects :: "room_effect list"
  accepted :: "PlayerAction list"
  announced :: "NetworkEvent list"
  requests :: "OnTickRequest list"
  sessions :: "nat list"

definition start_sys :: "uuid \<Rightarrow> 's \<Rightarrow> 32 word \<Rightarrow> 's match_sys" where
  "start_sys matchID p rate =
     \<lparr>the_match = NewMatch matchID p rate, pending = [], effects = [], accepted = [], announced = [],
      requests = [], sessions = []\<rparr>"

definition accept :: "nat \<Rightarrow> 'a list \<Rightarrow> 'a \<Rightarrow> 'a list \<Rightarrow> 'a list" where
  "accept cap ch x xs = (if length ch < cap then xs @ [x] else xs)"

definition announce :: "NetworkEvent \<Rightarrow> 's match_sys \<Rightarrow> 's match_sys" where
  "announce ev s = s\<lparr>the_match := emit ev (the_match s),
     announced := accept 32 (events (the_match s)) ev (announced s)\<rparr>"

definition permutes_players :: "player_order \<Rightarrow> bool" where
  "permutes_players ord \<longleftrightarrow> (\<forall>ps. mset (ord ps) = mset ps)"

inductive match_step :: "room_env \<Rightarrow> 's Plugin \<Rightarrow> 's match_sys \<Rightarrow> 's match_sys \<Rightarrow> bool"
  for env :: room_env and P :: "'s Plugin" where
  join: "Join_lock p io (the_match s) = Inr m' \<Longrightarrow> io \<notin> set (sessions s) \<Longrightarrow>
    match_step env P s (s\<lparr>the_match := m', pending := pending s @ [AfterJoin p], sessions := sessions s @ [io]\<rparr>)"
| after_join: "pending s = xs @ AfterJoin p # ys \<Longrightarrow>
    match_step env P s (announce (PlayerJoined (uuid_String env p)) (s\<lparr>pending := xs @ ys\<rparr>))"
| leave: "Leave_lock p (the_match s) = (Some io, m') \<Longrightarrow>
    match_step env P s (s\<lparr>the_match := m', pending := pending s @ [AfterLeave p io reason]\<rparr>)"
| after_leave: "pending s = xs @ AfterLeave p io reason # ys \<Longrightarrow>
    match_step env P s (announce (PlayerLeft (uuid_String env p) reason)
      (s\<lparr>pending := xs @ ys, effects := effects s @ [CloseIO io]\<rparr>))"
| submit: "match_step env P s (s\<lparr>the_match := SubmitInput env p t payload (the_match s),
      accepted := accept 256 (inputs (the_match s)) (action_of env p t payload) (accepted s)\<rparr>)"
| run_tick: "\<not> done_closed (the_match s) \<Longrightarrow> \<forall>i. permutes_players (ord i) \<and> permutes_players (ord' i) \<Longrightarrow>
    Run_tick env P ord ord' now (the_match s) = (out, eff, m') \<Longrightarrow>
    match_step env P s (s\<lparr>the_match := m', effects := effects s @ eff,
      requests := requests s @ [fst (tick_request now (the_match s))]\<rparr>)"
| cancel: "\<not> done_closed (the_match s) \<Longrightarrow> permutes_players ord \<Longrightarrow>
    Run_cancelled P ord (the_match s) = (eff, m') \<Longrightarrow>
    match_step env P s (s\<lparr>the_match := m', effects := effects s @ eff\<rparr>)"

definition closed_ios :: "room_effect list \<Rightarrow> nat list" where
  "closed_ios es = List.map_filter (\<lambda>e. case e of CloseIO io \<Rightarrow> Some io | _ \<Rightarrow> None) es"

definition leaving_ios :: "handler list \<Rightarrow> nat list" where
  "leaving_ios hs = List.map_filter (\<lambda>h. case h of AfterLeave p io r \<Rightarrow> Some io | _ \<Rightarrow> None) hs"

definition joined_ios :: "'s Match \<Rightarrow> nat list" where
  "joined_ios m = map snd (players m)"

lemma closed_ios_simps [simp]:
  "closed_ios [] = []" "closed_ios (xs @ ys) = closed_ios xs @ closed_ios ys"
  "closed_ios (CloseIO io # es) = io # closed_ios es" "closed_ios (Send io f # es) = closed_ios es"
  "closed_ios (ClosePlugin # es) = closed_ios es"
  "closed_ios (map (\<lambda>(p, io). CloseIO io) ps) = map snd ps"
  "closed_ios (map (\<lambda>(p, io). Send io f) ps) = []" "closed_ios (map (\<lambda>io. Send io f) ios) = []"
  by (simp_all add: closed_ios_def map_filter_def filter_map o_def case_prod_beta)

lemma leaving_ios_simps [simp]:
  "leaving_ios [] = []" "leaving_ios (xs @ ys) = leaving_ios xs @ leaving_ios ys"
  "leaving_ios (AfterJoin p # hs) = leaving_ios hs"
  "leaving_ios (AfterLeave p io r # hs) = io # leaving_ios hs"
  by (simp_all add: leaving_ios_def map_filter_def)

section \<open>Effects of one operation\<close>

lemma permutesD: "permutes_players ord \<Longrightarrow> mset (map f (ord ps)) = image_mset f (mset ps)"
  by (simp add: permutes_players_def)

lemma tick_frames_closed [simp]: "closed_ios (tick_frames env ord m resp) = []"
  "ClosePlugin \<notin> set (tick_frames env ord m resp)"
proof -
  have "closed_ios (concat (map (\<lambda>(i, ev). dispatchEvent env (ord i) m ev) xs)) = []" for xs
    by (induction xs) (auto simp: dispatchEvent_def broadcast_def Let_def)
  then show "closed_ios (tick_frames env ord m resp) = []"
    by (simp add: tick_frames_def broadcast_def)
  show "ClosePlugin \<notin> set (tick_frames env ord m resp)"
    by (auto simp: tick_frames_def broadcast_def dispatchEvent_def Let_def split: if_splits)
qed

lemma closeAll_closed:
  "permutes_players ord \<Longrightarrow> mset (closed_ios (fst (closeAllPlayers ord m))) = mset (joined_ios m)"
  by (simp add: closeAllPlayers_def joined_ios_def permutes_players_def)

lemma tick_request_simps [simp]:
  "fst (tick_request now m) = \<lparr>Tick = currentTick m, Timestamp = now, Actions = inputs m, NetworkEvents = events m\<rparr>"
  "snd (tick_request now m) = m\<lparr>inputs := [], events := []\<rparr>"
  by (simp_all add: tick_request_def)

text \<open>What an iteration of the loop leaves behind, whichever way the tick went.\<close>

lemma Run_tick_frame:
  assumes "\<forall>i. permutes_players (ord i) \<and> permutes_players (ord' i)"
    and "Run_tick env P ord ord' now m = (out, eff, m')"
  shows "inputs m' = []" "events m' = []" "Match_id m' = Match_id m" "tickRateHz m' = tickRateHz m"
    and "done_closed m' \<longleftrightarrow> out \<noteq> None \<or> done_closed m"
    and "out = None \<Longrightarrow> players m' = players m \<and> currentTick m' = currentTick m + 1"
    and "out \<noteq> None \<Longrightarrow> players m' = []"
    and "mset (closed_ios eff) + mset (joined_ios m') = mset (joined_ios m)"
    and "count_list eff ClosePlugin = (if out = None then 0 else 1)"
  using assms
  by (auto simp: Run_tick_def Match_tick_def tick_request_def Let_def Run_cancelled_def Run_exit_def finalise_def
      closeAllPlayers_def broadcast_def joined_ios_def count_list_0_iff case_prod_beta permutes_players_def
      split: sum.splits prod.splits bool.splits)

section \<open>The invariant of a match\<close>

definition sys_ok :: "'s match_sys \<Rightarrow> bool" where
  "sys_ok s \<longleftrightarrow>
     length (inputs (the_match s)) \<le> 256 \<and> length (events (the_match s)) \<le> 32 \<and>
     distinct (map fst (players (the_match s))) \<and> distinct (sessions s)"

definition sys_fifo :: "'s match_sys \<Rightarrow> bool" where
  "sys_fifo s \<longleftrightarrow>
     accepted s = concat (map Actions (requests s)) @ inputs (the_match s) \<and>
     announced s = concat (map NetworkEvents (requests s)) @ events (the_match s)"

definition sys_ticks :: "'s match_sys \<Rightarrow> bool" where
  "sys_ticks s \<longleftrightarrow>
     map Tick (requests s) = map of_nat [0..<length (requests s)] \<and>
     (\<not> done_closed (the_match s) \<longrightarrow> currentTick (the_match s) = of_nat (length (requests s)))"

definition sys_sessions :: "'s match_sys \<Rightarrow> bool" where
  "sys_sessions s \<longleftrightarrow>
     mset (sessions s) = mset (joined_ios (the_match s)) + mset (leaving_ios (pending s))
                         + mset (closed_ios (effects s)) \<and>
     count_list (effects s) ClosePlugin = (if done_closed (the_match s) then 1 else 0)"

definition sys_inv :: "'s match_sys \<Rightarrow> bool" where
  "sys_inv s \<longleftrightarrow> sys_ok s \<and> sys_fifo s \<and> sys_ticks s \<and> sys_sessions s"

lemmas sys_inv_defs = sys_inv_def sys_ok_def sys_fifo_def sys_ticks_def sys_sessions_def

lemma start_sys_inv: "sys_inv (start_sys matchID p rate)"
  by (simp add: sys_inv_defs start_sys_def NewMatch_def joined_ios_def)

lemma Join_lock_Inr:
  "Join_lock p io m = Inr m' \<longleftrightarrow>
     p \<notin> fst ` set (players m) \<and> m' = m\<lparr>players := players m @ [(p, io)]\<rparr>"
  by (auto simp: Join_lock_def update_fresh map_of_eq_None_iff)

lemma delete_split:
  assumes "distinct (map fst ps)" "map_of ps p = Some io"
  shows "add_mset io (mset (map snd (AList.delete p ps))) = mset (map snd ps)"
  using assms
proof (induction ps)
  case (Cons q ps)
  obtain r j where q: "q = (r, j)" by fastforce
  show ?case
  proof (cases "r = p")
    case True
    then have "AList.delete p ps = ps"
      using Cons.prems q by (auto simp: delete_id)
    then show ?thesis using True q Cons.prems by simp
  next
    case False
    then show ?thesis using q Cons by (auto simp: add_mset_commute)
  qed
qed simp

lemma Leave_lock_Some:
  "Leave_lock p m = (Some io, m') \<longleftrightarrow>
     map_of (players m) p = Some io \<and> m' = m\<lparr>players := AList.delete p (players m)\<rparr>"
  by (auto simp: Leave_lock_def split: option.splits)

lemma Run_cancelled_frame:
  assumes "permutes_players ord" "Run_cancelled P ord m = (eff, m')"
  shows "inputs m' = inputs m" "events m' = events m" "players m' = []" "done_closed m'"
    "currentTick m' = currentTick m"
    and "mset (closed_ios eff) = mset (joined_ios m)" "count_list eff ClosePlugin = 1"
  using assms
  by (auto simp: Run_cancelled_def closeAllPlayers_def Run_exit_def joined_ios_def case_prod_beta
      permutes_players_def count_list_0_iff)

lemma announce_simps [simp]:
  "pending (announce ev s) = pending s" "effects (announce ev s) = effects s"
  "accepted (announce ev s) = accepted s" "requests (announce ev s) = requests s"
  "sessions (announce ev s) = sessions s" "players (the_match (announce ev s)) = players (the_match s)"
  "inputs (the_match (announce ev s)) = inputs (the_match s)"
  "currentTick (the_match (announce ev s)) = currentTick (the_match s)"
  "done_closed (the_match (announce ev s)) = done_closed (the_match s)"
  "events (the_match (announce ev s)) = select_send 32 ev (events (the_match s))"
  "announced (announce ev s) = accept 32 (events (the_match s)) ev (announced s)"
  by (simp_all add: announce_def emit_def)

lemma sys_ok_step: "match_step env P s s' \<Longrightarrow> sys_ok s \<Longrightarrow> sys_ok s'"
proof (induction rule: match_step.induct)
  case (run_tick s ord ord' now out eff m')
  note f = Run_tick_frame [OF run_tick(2,3)]
  show ?case using run_tick f(1,2,6,7) by (cases "out = None") (auto simp: sys_ok_def)
next
  case (cancel s ord eff m')
  then show ?case using Run_cancelled_frame [OF cancel(2,3)] by (auto simp: sys_ok_def)
qed (auto simp: sys_ok_def Join_lock_Inr Leave_lock_Some distinct_delete SubmitInput_def)

lemma sys_fifo_step: "match_step env P s s' \<Longrightarrow> sys_fifo s \<Longrightarrow> sys_fifo s'"
proof (induction rule: match_step.induct)
  case (run_tick s ord ord' now out eff m')
  show ?case using run_tick(4) Run_tick_frame(1,2) [OF run_tick(2,3)] by (simp add: sys_fifo_def)
next
  case (cancel s ord eff m')
  then show ?case using Run_cancelled_frame [OF cancel(2,3)] by (auto simp: sys_fifo_def)
qed (auto simp: sys_fifo_def Join_lock_Inr Leave_lock_Some SubmitInput_def accept_def select_send_def)

lemma sys_ticks_step: "match_step env P s s' \<Longrightarrow> sys_ticks s \<Longrightarrow> sys_ticks s'"
proof (induction rule: match_step.induct)
  case (run_tick s ord ord' now out eff m')
  note f = Run_tick_frame [OF run_tick(2,3)]
  show ?case using run_tick(1,4) f(5,6) by (cases "out = None") (auto simp: sys_ticks_def)
next
  case (cancel s ord eff m')
  then show ?case using Run_cancelled_frame [OF cancel(2,3)] by (auto simp: sys_ticks_def)
qed (auto simp: sys_ticks_def Join_lock_Inr Leave_lock_Some SubmitInput_def)

lemma sys_sessions_step: "match_step env P s s' \<Longrightarrow> sys_ok s \<Longrightarrow> sys_sessions s \<Longrightarrow> sys_sessions s'"
proof (induction rule: match_step.induct)
  case (run_tick s ord ord' now out eff m')
  note f = Run_tick_frame [OF run_tick(2,3)]
  show ?case using run_tick(1,5) f(5,8,9) by (cases "out = None") (auto simp: sys_sessions_def ac_simps)
next
  case (cancel s ord eff m')
  then show ?case using Run_cancelled_frame [OF cancel(2,3)]
    by (auto simp: sys_sessions_def joined_ios_def ac_simps)
next
  case (leave p s io m' reason)
  then show ?case using delete_split [of "players (the_match s)" p io]
    by (auto simp: sys_sessions_def sys_ok_def Leave_lock_Some joined_ios_def)
qed (auto simp: sys_sessions_def Join_lock_Inr SubmitInput_def joined_ios_def)

lemma sys_inv_step: "match_step env P s s' \<Longrightarrow> sys_inv s \<Longrightarrow> sys_inv s'"
  unfolding sys_inv_def by (blast intro: sys_ok_step sys_fifo_step sys_ticks_step sys_sessions_step)

lemma sys_inv_reachable: "(match_step env P)\<^sup>*\<^sup>* (start_sys matchID p rate) s \<Longrightarrow> sys_inv s"
  by (induction rule: rtranclp_induct) (auto intro: start_sys_inv sys_inv_step)

section \<open>Frames seen by one session\<close>

definition frames_to :: "nat \<Rightarrow> room_effect list \<Rightarrow> Frame list" where
  "frames_to io es = List.map_filter (\<lambda>e. case e of Send io' f \<Rightarrow> if io' = io then Some f else None | _ \<Rightarrow> None) es"

lemma frames_to_simps [simp]:
  "frames_to io [] = []" "frames_to io (xs @ ys) = frames_to io xs @ frames_to io ys"
  "frames_to io (CloseIO io' # es) = frames_to io es" "frames_to io (ClosePlugin # es) = frames_to io es"
  "frames_to io (Send io' f # es) = (if io' = io then f # frames_to io es else frames_to io es)"
  by (simp_all add: frames_to_def map_filter_def)

lemma frames_to_concat: "frames_to io (concat xss) = concat (map (frames_to io) xss)"
  by (induction xss) simp_all

lemma frames_to_sends:
  "frames_to io (map (\<lambda>io'. Send io' f) ios) = replicate (count_list ios io) f"
  by (induction ios) simp_all

lemma frames_to_sends_players:
  "frames_to io (map (\<lambda>(p, io'). Send io' f) ps) = replicate (count_list (map snd ps) io) f"
  by (induction ps) auto

lemma count_list_once: "distinct xs \<Longrightarrow> x \<in> set xs \<Longrightarrow> count_list xs x = 1"
  by (induction xs) (auto simp: count_list_0_iff)

lemma frames_to_broadcast:
  assumes "permutes_players ord" "distinct (joined_ios m)" "io \<in> set (joined_ios m)"
  shows "frames_to io (broadcast ord m f) = [f]"
proof -
  have "count (mset (map snd (ord (players m)))) io = count (mset (map snd (players m))) io"
    using assms(1) by (simp add: permutes_players_def)
  also have "\<dots> = 1"
    using assms(2,3) count_list_once [of "map snd (players m)" io] by (simp only: joined_ios_def count_mset)
  finally show ?thesis by (simp only: broadcast_def frames_to_sends_players count_mset) simp
qed

definition copies :: "room_env \<Rightarrow> 's Match \<Rightarrow> nat \<Rightarrow> OutboundEvent \<Rightarrow> nat" where
  "copies env m io ev =
     (if Recipients ev = [] then 1 else length (filter (\<lambda>rid. target env m rid = Some io) (Recipients ev)))"

lemma count_map_filter:
  "count_list (List.map_filter f xs) y = length (filter (\<lambda>x. f x = Some y) xs)"
  by (induction xs) (auto simp: map_filter_simps split: option.splits)

lemma frames_to_dispatch:
  assumes "permutes_players ord" "distinct (joined_ios m)" "io \<in> set (joined_ios m)"
  shows "frames_to io (dispatchEvent env ord m ev) =
           replicate (copies env m io ev) (Frame_Event (EventType ev) (EventPayload ev))"
  using frames_to_broadcast [OF assms]
  by (simp add: dispatchEvent_def copies_def Let_def frames_to_sends count_map_filter)

lemma frames_to_tick:
  assumes "\<forall>i. permutes_players (ord i)" "distinct (joined_ios m)" "io \<in> set (joined_ios m)"
  shows "frames_to io (tick_frames env ord m resp) =
           (if resp_StateDelta resp = [] then []
            else [Frame_Delta (currentTick m) (currentTick m + 1) (resp_StateDelta resp)]) @
           concat (map (\<lambda>ev. replicate (copies env m io ev) (Frame_Event (EventType ev) (EventPayload ev)))
                       (resp_Events resp))"
proof -
  have "concat (map (\<lambda>(i, ev). frames_to io (dispatchEvent env (ord i) m ev)) (enumerate k evs)) =
        concat (map (\<lambda>ev. replicate (copies env m io ev) (Frame_Event (EventType ev) (EventPayload ev))) evs)"
    for k evs
    using assms by (induction evs arbitrary: k) (auto simp: frames_to_dispatch)
  then show ?thesis
    using assms by (simp add: tick_frames_def frames_to_concat frames_to_broadcast o_def case_prod_beta')
qed

text \<open>A small plugin to run the match with: it echoes what players send and ends on its second tick.\<close>

definition echo_plugin :: "nat Plugin" where
  "echo_plugin =
     \<lparr>plugin_Init = \<lambda>n ids. (Inr \<lparr>TickRateHz = 20, InitialSnapshot = []\<rparr>, n),
      plugin_OnTick = \<lambda>n req. (Inr \<lparr>resp_StateDelta = concat (map Payload (Actions req)),
        resp_Events = map (\<lambda>a. \<lparr>Recipients = [PlayerId a], EventType = ''ack'', EventPayload = []\<rparr>) (Actions req),
        resp_GameEnded = (n = 1)\<rparr>, n + 1),
      plugin_OnGameEnd = \<lambda>n t. (Inr \<lparr>FinalState = [], PlayerResults = []\<rparr>, n),
      plugin_Close = \<lambda>n. (None, n)\<rparr>"

definition sample_env :: room_env where
  "sample_env = \<lparr>uuid_String = \<lambda>u. replicate (unat u) (CHR ''u''), uuid_Parse = \<lambda>s. Some (of_nat (length s)),
     marshal_end = \<lambda>r. Inr [7]\<rparr>"

definition sample_match :: "nat Match" where
  "sample_match = (NewMatch 9 1 0)\<lparr>players := [(1, 10), (2, 20)],
     inputs := [\<lparr>PlayerId = ''u'', ClientTick = 0, Payload = [5]\<rparr>]\<rparr>"

lemma permutes_id [simp]: "permutes_players (\<lambda>ps. ps)" by (simp add: permutes_players_def)

definition sample_sys :: "nat match_sys" where
  "sample_sys =
     \<lparr>the_match = \<lparr>Match_id = 9, Match_plugin = 1, players = [(1, 10)], currentTick = 1, tickRateHz = 20,
        inputs = [], events = [], done_closed = False\<rparr>,
      pending = [], effects = [Send 10 (Frame_Delta 0 1 [5]), Send 10 (Frame_Event ''ack'' [])],
      accepted = [\<lparr>PlayerId = ''u'', ClientTick = 0, Payload = [5]\<rparr>],
      announced = [PlayerJoined ''u''],
      requests = [\<lparr>Tick = 0, Timestamp = 0, Actions = [\<lparr>PlayerId = ''u'', ClientTick = 0, Payload = [5]\<rparr>],
        NetworkEvents = [PlayerJoined ''u'']\<rparr>],
      sessions = [10]\<rparr>"

lemma sample_run: "(match_step sample_env echo_plugin)\<^sup>*\<^sup>* (start_sys 9 0 20) sample_sys"
proof -
  let ?s0 = "start_sys 9 0 20 :: nat match_sys"
  let ?m1 = "(NewMatch 9 0 20 :: nat Match)\<lparr>players := [(1, 10)]\<rparr>"
  let ?s1 = "?s0\<lparr>the_match := ?m1, pending := pending ?s0 @ [AfterJoin 1], sessions := sessions ?s0 @ [10]\<rparr>"
  let ?s2 = "announce (PlayerJoined (uuid_String sample_env 1)) (?s1\<lparr>pending := [] @ []\<rparr>)"
  let ?s3 = "?s2\<lparr>the_match := SubmitInput sample_env 1 0 [5] (the_match ?s2),
      accepted := accept 256 (inputs (the_match ?s2)) (action_of sample_env 1 0 [5]) (accepted ?s2)\<rparr>"
  let ?eff = "[Send 10 (Frame_Delta 0 1 [5]), Send 10 (Frame_Event ''ack'' [])]"
  let ?s4 = "?s3\<lparr>the_match := the_match sample_sys, effects := effects ?s3 @ ?eff,
      requests := requests ?s3 @ [fst (tick_request 0 (the_match ?s3))]\<rparr>"
  note defs = start_sys_def NewMatch_def announce_def emit_def select_send_def accept_def SubmitInput_def
    action_of_def sample_env_def sample_sys_def
  have "match_step sample_env echo_plugin ?s0 ?s1"
    by (rule match_step.join [of 1 10]) (simp_all add: Join_lock_def defs)
  moreover have "match_step sample_env echo_plugin ?s1 ?s2"
    by (rule match_step.after_join) (simp add: defs)
  moreover have "match_step sample_env echo_plugin ?s2 ?s3" by (rule match_step.submit)
  moreover have "match_step sample_env echo_plugin ?s3 ?s4"
    by (rule match_step.run_tick [where ord = "\<lambda>_ ps. ps" and ord' = "\<lambda>_ ps. ps" and out = None])
       (simp_all add: defs Run_tick_def Match_tick_def tick_request_def echo_plugin_def tick_frames_def
          broadcast_def dispatchEvent_def target_def map_filter_simps)
  moreover have "?s4 = sample_sys" by (simp add: defs tick_request_def)
  ultimately show ?thesis
    by (metis (no_types, lifting) converse_rtranclp_into_rtranclp rtranclp.rtrancl_refl)
qed

text \<open>
  The tick period is positive and the loop runs at most \<open>rateHz\<close> times a second, up to a rate of
  \<open>10\<^sup>9\<close>; above that the integer division gives a zero period, which \<open>time.NewTicker\<close> refuses by
  panicking.
\<close>

lemma tickInterval_pos: "0 < tickInterval r \<longleftrightarrow> uint r \<le> 1000000000"
proof (cases "r = 0")
  case False
  then have "0 < uint r" by (simp add: word_neq_0_conv word_less_def)
  then show ?thesis using False
    by (auto simp: tickInterval_def Second_def pos_imp_zdiv_pos_iff zdiv_eq_0_iff)
qed (simp add: tickInterval_def Millisecond_def)

lemma tickInterval_rate: "r \<noteq> 0 \<Longrightarrow> tickInterval r * uint r \<le> Second \<and> Second < (tickInterval r + 1) * uint r"
proof -
  assume "r \<noteq> 0"
  then have r: "0 < uint r" by (simp add: word_neq_0_conv word_less_def)
  have "Second = (Second div uint r) * uint r + Second mod uint r" by simp
  moreover have "0 \<le> Second mod uint r" "Second mod uint r < uint r" using r by simp_all
  ultimately have "Second div uint r * uint r \<le> Second" "Second < Second div uint r * uint r + uint r"
    by linarith+
  then show ?thesis using \<open>r \<noteq> 0\<close> by (simp add: tickInterval_def distrib_right)
qed

section \<open>Properties\<close>

text \<open>
  C9. Buffered inputs and join/leave notices reach the plugin exactly once and in order: in every
  interleaving of handlers with the tick loop, the actions (events) that entered the channel are the
  concatenation of the batches passed to \<open>OnTick\<close> so far followed by what is still queued, the queues
  never exceed 256 and 32, and the \<open>OnTick\<close> calls carry the tick numbers 0, 1, 2, ... modulo \<open>2\<^sup>3\<^sup>2\<close>.
\<close>

theorem match_delivers_in_order:
  assumes "(match_step env P)\<^sup>*\<^sup>* (start_sys matchID p rate) s"
  shows "accepted s = concat (map Actions (requests s)) @ inputs (the_match s)
    \<and> announced s = concat (map NetworkEvents (requests s)) @ events (the_match s)
    \<and> length (inputs (the_match s)) \<le> 256 \<and> length (events (the_match s)) \<le> 32
    \<and> map Tick (requests s) = map of_nat [0..<length (requests s)]"
  using sys_inv_reachable [OF assms] by (simp add: sys_inv_defs)

theorem match_delivers_in_order_witness:
  "accepted sample_sys = concat (map Actions (requests sample_sys)) @ inputs (the_match sample_sys)
   \<and> length (accepted sample_sys) = 1 \<and> map Tick (requests sample_sys) = map of_nat [0..<1]"
  using match_delivers_in_order [OF sample_run] by (simp add: sample_sys_def)

text \<open>
  C10. No session leaks and none is closed twice: in every interleaving, each session that joined is
  exactly one of still joined, being closed by its \<open>Leave\<close>, or closed once, and the plugin instance
  has been closed exactly once when the loop has ended and not before.
\<close>

theorem match_closes_once:
  assumes "(match_step env P)\<^sup>*\<^sup>* (start_sys matchID p rate) s"
  shows "distinct (joined_ios (the_match s) @ leaving_ios (pending s) @ closed_ios (effects s))
    \<and> set (sessions s) = set (joined_ios (the_match s)) \<union> set (leaving_ios (pending s)) \<union> set (closed_ios (effects s))
    \<and> count_list (effects s) ClosePlugin = (if done_closed (the_match s) then 1 else 0)"
proof -
  have inv: "sys_inv s" by (rule sys_inv_reachable [OF assms])
  then have eq: "mset (joined_ios (the_match s) @ leaving_ios (pending s) @ closed_ios (effects s)) = mset (sessions s)"
    by (simp add: sys_inv_defs ac_simps)
  have "distinct (sessions s)" using inv by (simp add: sys_inv_defs)
  then have "distinct (joined_ios (the_match s) @ leaving_ios (pending s) @ closed_ios (effects s))"
    by (metis eq distinct_count_atmost_1 mset_eq_setD)
  moreover have "set (joined_ios (the_match s) @ leaving_ios (pending s) @ closed_ios (effects s)) = set (sessions s)"
    using eq by (metis set_mset_mset)
  ultimately show ?thesis using inv by (auto simp: sys_inv_defs)
qed

theorem match_closes_once_witness:
  "distinct (joined_ios (the_match sample_sys) @ leaving_ios (pending sample_sys) @ closed_ios (effects sample_sys))
   \<and> sessions sample_sys = [10] \<and> joined_ios (the_match sample_sys) = [10]"
  using match_closes_once [OF sample_run] by (simp add: sample_sys_def joined_ios_def)

text \<open>
  What one tick sends to a joined session: the delta from this tick to the next if the plugin
  produced one, then the plugin's events in order, a broadcast event once and a targeted event once
  per recipient entry that names this session's player, and nothing else.
\<close>

theorem tick_delivers:
  assumes "plugin_OnTick P (Match_plugin m) \<lparr>Tick = currentTick m, Timestamp = now, Actions = inputs m,
             NetworkEvents = events m\<rparr> = (Inr resp, pl)"
    and "\<forall>i. permutes_players (ord i)" "distinct (joined_ios m)" "io \<in> set (joined_ios m)"
  shows "\<exists>eff. Match_tick env P ord now m = (Inr (resp_GameEnded resp), eff,
      m\<lparr>Match_plugin := pl, currentTick := currentTick m + 1, inputs := [], events := []\<rparr>)
    \<and> frames_to io eff =
        (if resp_StateDelta resp = [] then []
         else [Frame_Delta (currentTick m) (currentTick m + 1) (resp_StateDelta resp)]) @
        concat (map (\<lambda>ev. replicate (copies env m io ev) (Frame_Event (EventType ev) (EventPayload ev)))
                    (resp_Events resp))"
proof -
  let ?m = "m\<lparr>inputs := [], events := []\<rparr>"
  have j: "joined_ios ?m = joined_ios m" by (simp add: joined_ios_def)
  have "target env ?m = target env m" by (auto simp: target_def fun_eq_iff split: option.splits)
  then have c: "copies env ?m = copies env m" by (simp add: copies_def fun_eq_iff)
  have "Match_tick env P ord now m = (Inr (resp_GameEnded resp), tick_frames env ord ?m resp,
      m\<lparr>Match_plugin := pl, currentTick := currentTick m + 1, inputs := [], events := []\<rparr>)"
    using assms(1) by (cases m) (simp add: Match_tick_def tick_request_def)
  then show ?thesis
    using frames_to_tick [of ord ?m io env resp] assms(2-4) by (simp add: j c)
qed

theorem tick_delivers_witness:
  "\<exists>eff m'. Match_tick sample_env echo_plugin (\<lambda>_ ps. ps) 0 sample_match = (Inr True, eff, m')
     \<and> frames_to 10 eff = [Frame_Delta 0 1 [5], Frame_Event ''ack'' []]"
  using tick_delivers [of echo_plugin sample_match 0
      "\<lparr>resp_StateDelta = [5], resp_Events = [\<lparr>Recipients = [''u''], EventType = ''ack'', EventPayload = []\<rparr>],
        resp_GameEnded = True\<rparr>" 2 "\<lambda>_ ps. ps" 10 sample_env]
  by (auto simp: sample_match_def NewMatch_def echo_plugin_def joined_ios_def copies_def target_def sample_env_def)

text \<open>
  C13. When the plugin reports the end of the game, the iteration that saw it sends every joined
  session the tick's frames and then, last, one \<open>game_ended\<close> event, closes every session after that, closes the plugin,
  empties the player table and ends \<open>Run\<close> without error. This is so whether or not \<open>OnGameEnd\<close> succeeds:
  the event carries the encoded result, and an empty payload when \<open>OnGameEnd\<close> fails or its result does
  not encode.
\<close>

theorem Run_tick_game_end:
  assumes "plugin_OnTick P (Match_plugin m) (fst (tick_request now m)) = (Inr resp, pl)" "resp_GameEnded resp"
    and "plugin_OnGameEnd P pl (currentTick m + 1) = (result, pl')"
    and "\<forall>i. permutes_players (ord i) \<and> permutes_players (ord' i)" "distinct (joined_ios m)"
  shows "\<exists>sent closed m'. Run_tick env P ord ord' now m = (Some None, sent @ closed @ [ClosePlugin], m')
    \<and> closed_ios sent = [] \<and> mset closed = mset (map CloseIO (joined_ios m))
    \<and> players m' = [] \<and> done_closed m'
    \<and> (\<forall>io \<in> set (joined_ios m). \<exists>fs. frames_to io sent = fs @ [Frame_Event ''game_ended''
        (case result of Inl e \<Rightarrow> [] | Inr r \<Rightarrow> (case marshal_end env r of Inl e \<Rightarrow> [] | Inr data \<Rightarrow> data))])"
proof -
  let ?m = "m\<lparr>inputs := [], events := []\<rparr>"
  let ?n = "?m\<lparr>Match_plugin := pl', currentTick := currentTick m + 1\<rparr>"
  let ?ev = "Frame_Event ''game_ended'' (end_payload env result)"
  let ?sent = "tick_frames env ord ?m resp @ broadcast (ord' 0) ?n ?ev"
  let ?closed = "map (\<lambda>(p, io). CloseIO io) (ord' 1 (players m))"
  have payload: "end_payload env result =
      (case result of Inl e \<Rightarrow> [] | Inr r \<Rightarrow> (case marshal_end env r of Inl e \<Rightarrow> [] | Inr data \<Rightarrow> data))"
    by (simp add: end_payload_def split: sum.split)
  obtain m' where run: "Run_tick env P ord ord' now m = (Some None, ?sent @ ?closed @ [ClosePlugin], m')"
      "players m' = []" "done_closed m'"
    using assms(1-3)
    by (cases m) (simp add: Run_tick_def Match_tick_def tick_request_def finalise_def
        closeAllPlayers_def Run_exit_def case_prod_beta broadcast_def)
  have "mset ?closed = mset (map CloseIO (joined_ios m))"
    using assms(4) by (simp add: permutes_players_def joined_ios_def image_mset.compositionality o_def case_prod_beta')
  moreover have "\<exists>fs. frames_to io ?sent = fs @ [?ev]" if "io \<in> set (joined_ios m)" for io
    using frames_to_broadcast [of "ord' 0" ?n io ?ev] assms(4,5) that by (simp add: joined_ios_def)
  moreover have "closed_ios ?sent = []" by (simp add: broadcast_def)
  ultimately show ?thesis unfolding payload [symmetric] using run by blast
qed

theorem Run_tick_game_end_witness:
  "\<exists>sent closed m'. Run_tick sample_env echo_plugin (\<lambda>_ ps. ps) (\<lambda>_ ps. ps) 0 sample_match
       = (Some None, sent @ closed @ [ClosePlugin], m')
     \<and> mset closed = mset [CloseIO 10, CloseIO 20]
     \<and> (\<exists>fs. frames_to 20 sent = fs @ [Frame_Event ''game_ended'' [7]])"
  using Run_tick_game_end [of echo_plugin sample_match 0
      "\<lparr>resp_StateDelta = [5], resp_Events = [\<lparr>Recipients = [''u''], EventType = ''ack'', EventPayload = []\<rparr>],
        resp_GameEnded = True\<rparr>" 2 "Inr \<lparr>FinalState = [], PlayerResults = []\<rparr>" 2 
      "\<lambda>_ ps. ps" "\<lambda>_ ps. ps" sample_env]
  by (fastforce simp: sample_match_def NewMatch_def echo_plugin_def joined_ios_def sample_env_def)

section \<open>What a match relies on of its plugin\<close>

text \<open>
  The daemon calls a plugin only through its interface, so a property of the plugin's state that the
  three calls of the loop keep holds throughout every match that is run with it.
\<close>

locale plugin_contract =
  fixes P :: "'s Plugin" and good :: "'s \<Rightarrow> bool"
  assumes tick_good: "good st \<Longrightarrow> good (snd (plugin_OnTick P st req))"
    and end_good: "good st \<Longrightarrow> good (snd (plugin_OnGameEnd P st n))"
    and close_good: "good st \<Longrightarrow> good (snd (plugin_Close P st))"
begin

lemma Run_tick_good:
  assumes "Run_tick env P ord ord' now m = (out, eff, m')" "good (Match_plugin m)"
  shows "good (Match_plugin m')"
proof -
  define t where "t = Match_tick env P ord now m"
  have t: "good (Match_plugin (snd (snd t)))"
    using assms(2) tick_good [of "Match_plugin m"]
    by (simp add: t_def Match_tick_def tick_request_def split: prod.splits sum.splits) (metis snd_conv)
  show ?thesis using assms(1) t end_good [of "Match_plugin (snd (snd t))"]
      close_good [of "Match_plugin (snd (snd t))"]
      close_good [of "snd (plugin_OnGameEnd P (Match_plugin (snd (snd t))) (currentTick (snd (snd t))))"]
    by (auto simp: Run_tick_def t_def [symmetric] Run_cancelled_def closeAllPlayers_def Run_exit_def
        finalise_def case_prod_beta Let_def split: prod.splits sum.splits bool.splits)
qed

lemma match_step_good:
  assumes "match_step env P s s'" "good (Match_plugin (the_match s))"
  shows "good (Match_plugin (the_match s'))"
  using assms
proof (induction rule: match_step.induct)
  case (run_tick s ord ord' now out eff m')
  then show ?case using Run_tick_good by simp
next
  case (cancel s ord eff m')
  then show ?case
    by (auto simp: Run_cancelled_def closeAllPlayers_def Run_exit_def case_prod_beta close_good)
qed (auto simp: Join_lock_Inr Leave_lock_Some announce_def emit_def SubmitInput_def)

lemma match_good:
  assumes "(match_step env P)\<^sup>*\<^sup>* (start_sys matchID p rate) s" "good p"
  shows "good (Match_plugin (the_match s))"
  using assms
  by (induction rule: rtranclp_induct) (auto simp: start_sys_def NewMatch_def intro: match_step_good)

end

end
