(* ===== verification/Room_Manager.thy ===== *)
theory Room_Manager
  imports Room_Match
begin

text \<open>
  The table of active matches, \<open>internal/usecase/room/manager.go\<close>. A match object is a reference
  into \<open>objects\<close>, so that two matches with the same id are told apart as the code's pointers are;
  the reference is also the number of the plugin instance the match was built around.

  \<open>FindOrCreate\<close> holds the mutex twice: to look the id up, and again to install what it built in
  between. \<open>mgr_step\<close> interleaves its callers at those points, with the goroutine that runs an
  installed match: \<open>Run\<close> returns (its deferred calls close the plugin), then \<open>cleanup\<close>, then the
  gauge is decremented. What a match does while it runs is any change that keeps its id.
\<close>

record 's Manager =
  matches :: "(uuid \<times> nat) list"
  objects :: "nat \<Rightarrow> 's Match option"
  activeMatches :: int

definition NewManager :: "'s Manager" where
  "NewManager = \<lparr>matches = [], objects = \<lambda>_. None, activeMatches = 0\<rparr>"

definition Get :: "uuid \<Rightarrow> 's Manager \<Rightarrow> nat option" where
  "Get matchID mgr = map_of (matches mgr) matchID"

definition Count :: "'s Manager \<Rightarrow> nat" where
  "Count mgr = length (matches mgr)"

text \<open>
  The part of \<open>FindOrCreate\<close> between the two critical sections: \<open>created\<close> is what the factory's
  \<open>Create\<close> returned. The list says whether the instance was closed again.
\<close>

definition build_match :: "room_env \<Rightarrow> 's Plugin \<Rightarrow> 's result \<Rightarrow> uuid \<Rightarrow> uuid list \<Rightarrow>
    ('s Match) result \<times> room_effect list" where
  "build_match env P created matchID roster =
     (case created of
        Inl err \<Rightarrow> (Inl err, [])
      | Inr pl \<Rightarrow>
          (case plugin_Init P pl (map (uuid_String env) roster) of
             (Inl err, pl') \<Rightarrow> (Inl err, [ClosePlugin])
           | (Inr resp, pl') \<Rightarrow> (Inr (NewMatch matchID pl' (TickRateHz resp)), [])))"

definition install_match :: "nat \<Rightarrow> 's Match \<Rightarrow> 's Manager \<Rightarrow> nat \<times> room_effect list \<times> 's Manager" where
  "install_match self m mgr =
     (case map_of (matches mgr) (Match_id m) of
        Some existing \<Rightarrow> (existing, [ClosePlugin], mgr)
      | None \<Rightarrow> (self, [], mgr\<lparr>matches := AList.update (Match_id m) self (matches mgr),
                              objects := (objects mgr)(self \<mapsto> m),
                              activeMatches := activeMatches mgr + 1\<rparr>))"

definition FindOrCreate :: "room_env \<Rightarrow> 's Plugin \<Rightarrow> 's result \<Rightarrow> nat \<Rightarrow> uuid \<Rightarrow> uuid list \<Rightarrow> 's Manager \<Rightarrow>
    nat result \<times> room_effect list \<times> 's Manager" where
  "FindOrCreate env P created self matchID roster mgr =
     (case Get matchID mgr of
        Some existing \<Rightarrow> (Inr existing, [], mgr)
      | None \<Rightarrow>
          (case build_match env P created matchID roster of
             (Inl err, eff) \<Rightarrow> (Inl err, eff, mgr)
           | (Inr m, eff) \<Rightarrow>
               (let (r, eff', mgr') = install_match self m mgr in (Inr r, eff @ eff', mgr'))))"

definition cleanup :: "uuid \<Rightarrow> nat \<Rightarrow> 's Manager \<Rightarrow> 's Manager" where
  "cleanup matchID self mgr =
     (if map_of (matches mgr) matchID = Some self
      then mgr\<lparr>matches := AList.delete matchID (matches mgr)\<rparr> else mgr)"

section \<open>Interleavings\<close>

datatype 's caller = Building uuid "uuid list" | Built nat "'s Match" | Answered uuid "nat result"
datatype run_phase = Running | RunReturned | CleanedUp

record 's mgr_sys =
  mgr :: "'s Manager"
  callers :: "nat \<Rightarrow> 's caller option"
  runs :: "nat \<Rightarrow> run_phase option"
  created_plugins :: nat
  closed_plugins :: "nat list"

definition start_mgr :: "'s mgr_sys" where
  "start_mgr = \<lparr>mgr = NewManager, callers = \<lambda>_. None, runs = \<lambda>_. None, created_plugins = 0, closed_plugins = []\<rparr>"

inductive mgr_step :: "room_env \<Rightarrow> 's Plugin \<Rightarrow> 's mgr_sys \<Rightarrow> 's mgr_sys \<Rightarrow> bool"
  for env :: room_env and P :: "'s Plugin" where
  found: "callers s g = None \<Longrightarrow> Get matchID (mgr s) = Some r \<Longrightarrow>
    mgr_step env P s (s\<lparr>callers := (callers s)(g \<mapsto> Answered matchID (Inr r))\<rparr>)"
| absent: "callers s g = None \<Longrightarrow> Get matchID (mgr s) = None \<Longrightarrow>
    mgr_step env P s (s\<lparr>callers := (callers s)(g \<mapsto> Building matchID roster)\<rparr>)"
| create_failed: "callers s g = Some (Building matchID roster) \<Longrightarrow>
    build_match env P (Inl err) matchID roster = (Inl err', eff) \<Longrightarrow>
    mgr_step env P s (s\<lparr>callers := (callers s)(g \<mapsto> Answered matchID (Inl err'))\<rparr>)"
| init_failed: "callers s g = Some (Building matchID roster) \<Longrightarrow>
    build_match env P (Inr pl) matchID roster = (Inl err, eff) \<Longrightarrow>
    mgr_step env P s (s\<lparr>callers := (callers s)(g \<mapsto> Answered matchID (Inl err)),
      created_plugins := created_plugins s + 1,
      closed_plugins := closed_plugins s @ map (\<lambda>_. created_plugins s) eff\<rparr>)"
| built: "callers s g = Some (Building matchID roster) \<Longrightarrow>
    build_match env P (Inr pl) matchID roster = (Inr m, eff) \<Longrightarrow>
    mgr_step env P s (s\<lparr>callers := (callers s)(g \<mapsto> Built (created_plugins s) m),
      created_plugins := created_plugins s + 1,
      closed_plugins := closed_plugins s @ map (\<lambda>_. created_plugins s) eff\<rparr>)"
| install: "callers s g = Some (Built self m) \<Longrightarrow> install_match self m (mgr s) = (r, eff, mgr') \<Longrightarrow>
    mgr_step env P s (s\<lparr>mgr := mgr', callers := (callers s)(g \<mapsto> Answered (Match_id m) (Inr r)),
      runs := (if r = self then (runs s)(self \<mapsto> Running) else runs s),
      closed_plugins := closed_plugins s @ map (\<lambda>_. self) eff\<rparr>)"
| play: "objects (mgr s) r = Some m \<Longrightarrow> Match_id m' = Match_id m \<Longrightarrow>
    mgr_step env P s (s\<lparr>mgr := (mgr s)\<lparr>objects := (objects (mgr s))(r \<mapsto> m')\<rparr>\<rparr>)"
| run_end: "runs s r = Some Running \<Longrightarrow>
    mgr_step env P s (s\<lparr>runs := (runs s)(r \<mapsto> RunReturned), closed_plugins := closed_plugins s @ [r]\<rparr>)"
| clean: "runs s r = Some RunReturned \<Longrightarrow> objects (mgr s) r = Some m \<Longrightarrow>
    mgr_step env P s (s\<lparr>mgr := cleanup (Match_id m) r (mgr s), runs := (runs s)(r \<mapsto> CleanedUp)\<rparr>)"
| dec: "runs s r = Some CleanedUp \<Longrightarrow>
    mgr_step env P s (s\<lparr>mgr := (mgr s)\<lparr>activeMatches := activeMatches (mgr s) - 1\<rparr>, runs := (runs s)(r := None)\<rparr>)"

section \<open>The invariant\<close>

definition live_run :: "'s mgr_sys \<Rightarrow> nat \<Rightarrow> bool" where
  "live_run s r \<longleftrightarrow> runs s r = Some Running \<or> runs s r = Some RunReturned"

definition table_ok :: "'s mgr_sys \<Rightarrow> bool" where
  "table_ok s \<longleftrightarrow> distinct (map fst (matches (mgr s))) \<and>
     (\<forall>matchID r. (matchID, r) \<in> set (matches (mgr s)) \<longleftrightarrow>
        live_run s r \<and> (\<exists>m. objects (mgr s) r = Some m \<and> Match_id m = matchID)) \<and>
     (\<forall>r. runs s r \<noteq> None \<longrightarrow> objects (mgr s) r \<noteq> None)"

definition gauge_ok :: "'s mgr_sys \<Rightarrow> bool" where
  "gauge_ok s \<longleftrightarrow> finite (dom (runs s)) \<and> activeMatches (mgr s) = int (card (dom (runs s)))"

definition held :: "(nat \<Rightarrow> 's caller option) \<Rightarrow> nat \<Rightarrow> nat \<Rightarrow> bool" where
  "held cs g r \<longleftrightarrow> (\<exists>m. cs g = Some (Built r m))"

definition plugins_ok :: "'s mgr_sys \<Rightarrow> bool" where
  "plugins_ok s \<longleftrightarrow> distinct (closed_plugins s) \<and>
     (\<forall>r. objects (mgr s) r \<noteq> None \<or> runs s r \<noteq> None \<or> r \<in> set (closed_plugins s) \<longrightarrow> r < created_plugins s) \<and>
     (\<forall>g r. held (callers s) g r \<longrightarrow> r < created_plugins s \<and> objects (mgr s) r = None \<and> runs s r = None
                            \<and> r \<notin> set (closed_plugins s)) \<and>
     (\<forall>g g' r. held (callers s) g r \<and> held (callers s) g' r \<longrightarrow> g = g') \<and>
     (\<forall>r. runs s r = Some Running \<longrightarrow> r \<notin> set (closed_plugins s)) \<and>
     (\<forall>r < created_plugins s. (\<exists>g. held (callers s) g r) \<or> runs s r = Some Running \<or> r \<in> set (closed_plugins s))"

definition mgr_inv :: "'s mgr_sys \<Rightarrow> bool" where
  "mgr_inv s \<longleftrightarrow> table_ok s \<and> gauge_ok s \<and> plugins_ok s"

lemma start_mgr_inv: "mgr_inv start_mgr"
  by (simp add: mgr_inv_def start_mgr_def NewManager_def table_ok_def gauge_ok_def plugins_ok_def live_run_def held_def)

lemma install_match_cases:
  assumes "install_match self m mg = (r, eff, mg')"
  obtains (found) "(Match_id m, r) \<in> set (matches mg)" "eff = [ClosePlugin]" "mg' = mg"
  | (fresh) "Match_id m \<notin> fst ` set (matches mg)" "r = self" "eff = []"
      "mg' = mg\<lparr>matches := matches mg @ [(Match_id m, self)], objects := (objects mg)(self \<mapsto> m),
                activeMatches := activeMatches mg + 1\<rparr>"
proof (cases "map_of (matches mg) (Match_id m)")
  case None
  then have "Match_id m \<notin> fst ` set (matches mg)" by (simp add: map_of_eq_None_iff)
  moreover have "install_match self m mg = (self, [], mg\<lparr>matches := matches mg @ [(Match_id m, self)],
      objects := (objects mg)(self \<mapsto> m), activeMatches := activeMatches mg + 1\<rparr>)"
    using None by (simp add: install_match_def update_fresh)
  ultimately show ?thesis using fresh assms by (metis prod.inject)
next
  case (Some x)
  then have "install_match self m mg = (x, [ClosePlugin], mg)" by (simp add: install_match_def)
  then show ?thesis using found Some assms by (metis map_of_SomeD prod.inject)
qed

lemma build_match_Inr:
  "build_match env P (Inr pl) matchID roster = (Inr m, eff) \<Longrightarrow> eff = [] \<and> Match_id m = matchID"
  by (auto simp: build_match_def NewMatch_def split: prod.splits sum.splits)

lemma build_match_Inl:
  "build_match env P (Inr pl) matchID roster = (Inl err, eff) \<Longrightarrow> eff = [ClosePlugin]"
  by (auto simp: build_match_def split: prod.splits sum.splits)

lemma set_delete: "set (AList.delete k xs) = {p \<in> set xs. fst p \<noteq> k}"
  by (auto simp: AList.delete_eq)

lemma table_ok_Get:
  "table_ok s \<Longrightarrow> Get matchID (mgr s) = Some r \<longleftrightarrow>
     live_run s r \<and> (\<exists>m. objects (mgr s) r = Some m \<and> Match_id m = matchID)"
  by (auto simp: Get_def table_ok_def map_of_eq_Some_iff)

lemma live_unique:
  assumes "table_ok s" "live_run s r" "live_run s r'" "objects (mgr s) r = Some m" "objects (mgr s) r' = Some m'"
    "Match_id m = Match_id m'"
  shows "r = r'"
proof -
  have "Get (Match_id m) (mgr s) = Some r" "Get (Match_id m) (mgr s) = Some r'"
    using assms by (auto simp: table_ok_Get)
  then show ?thesis by simp
qed

lemma plugins_ok_held:
  assumes "plugins_ok s" "callers s g = Some (Built r m)"
  shows "r < created_plugins s" "objects (mgr s) r = None" "runs s r = None" "r \<notin> set (closed_plugins s)"
  using assms unfolding plugins_ok_def held_def by blast+

lemma held_not_listed:
  assumes "table_ok s" "plugins_ok s" "callers s g = Some (Built r m)"
  shows "(matchID, r) \<notin> set (matches (mgr s))"
  using assms(1) plugins_ok_held(2) [OF assms(2,3)] by (auto simp: table_ok_def)

text \<open>The identity check in \<open>cleanup\<close> never fails: the table still names the match that ended.\<close>

lemma cleanup_finds_self:
  assumes "table_ok s" "runs s r = Some RunReturned" "objects (mgr s) r = Some m"
  shows "Get (Match_id m) (mgr s) = Some r"
  using assms by (simp add: table_ok_Get live_run_def)

lemma table_ok_step:
  assumes "mgr_step env P s s'" "table_ok s" "plugins_ok s"
  shows "table_ok s'"
  using assms
proof (induction rule: mgr_step.induct)
  case (install s g self m r eff mgr')
  note self = plugins_ok_held [OF install(4,1)] held_not_listed [OF install(3,4,1)]
  show ?case using install(2)
  proof (cases rule: install_match_cases)
    case found
    then show ?thesis using install(3) self by (auto simp: table_ok_def live_run_def)
  next
    case fresh
    then show ?thesis using install(3) self by (auto simp: table_ok_def live_run_def)
  qed
next
  case (clean s r m)
  have "map_of (matches (mgr s)) (Match_id m) = Some r"
    using cleanup_finds_self [OF clean(3,1,2)] by (simp add: Get_def)
  moreover have "\<forall>r' m'. live_run s r' \<and> objects (mgr s) r' = Some m' \<and> Match_id m' = Match_id m \<longrightarrow> r' = r"
    using live_unique [OF clean(3)] clean(1,2) by (auto simp: live_run_def)
  ultimately show ?case using clean
    by (auto simp: table_ok_def live_run_def cleanup_def set_delete distinct_delete)
next
  case (play s r m m')
  then show ?case by (auto simp: table_ok_def live_run_def)
next
  case (run_end s r)
  then show ?case by (auto simp: table_ok_def live_run_def)
next
  case (dec s r)
  then show ?case by (auto simp: table_ok_def live_run_def)
qed (simp_all add: table_ok_def live_run_def)

lemma gauge_ok_step:
  assumes "mgr_step env P s s'" "gauge_ok s" "plugins_ok s" "table_ok s"
  shows "gauge_ok s'"
  using assms
proof (induction rule: mgr_step.induct)
  case (install s g self m r eff mgr')
  note self = plugins_ok_held [OF install(4,1)] held_not_listed [OF install(5,4,1)]
  have "self \<notin> dom (runs s)" using self by auto
  with install(2) show ?case using install(3) self
    by (elim install_match_cases) (auto simp: gauge_ok_def)
next
  case (clean s r m)
  then have "insert r (dom (runs s)) = dom (runs s)" by auto
  then show ?case using clean by (simp add: gauge_ok_def cleanup_def)
next
  case (run_end s r)
  then have "insert r (dom (runs s)) = dom (runs s)" by auto
  then show ?case using run_end by (simp add: gauge_ok_def)
next
  case (dec s r)
  then have "r \<in> dom (runs s)" by auto
  then have "card (dom (runs s)) = Suc (card (dom (runs s) - {r}))"
    using dec by (metis card.remove gauge_ok_def)
  then show ?case using dec by (simp add: gauge_ok_def)
qed (simp_all add: gauge_ok_def)


lemma plugins_ok_ended:
  assumes "plugins_ok s" "runs s r = Some ph" "ph \<noteq> Running"
  shows "r \<in> set (closed_plugins s)"
proof -
  have "r < created_plugins s" using assms(1,2) by (simp add: plugins_ok_def)
  then have "(\<exists>g. held (callers s) g r) \<or> runs s r = Some Running \<or> r \<in> set (closed_plugins s)"
    using assms(1) by (simp add: plugins_ok_def)
  moreover have "runs s r = None" if "held (callers s) g r" for g
    using assms(1) that by (simp add: plugins_ok_def)
  ultimately show ?thesis using assms(2,3) by auto
qed

lemma held_callers:
  "held (cs(g \<mapsto> c)) g' r \<longleftrightarrow> (if g' = g then \<exists>m. c = Built r m else held cs g' r)"
  by (simp add: held_def)

lemma plugins_ok_step:
  assumes "mgr_step env P s s'" "plugins_ok s" "table_ok s"
  shows "plugins_ok s'"
  using assms
proof (induction rule: mgr_step.induct)
  case (init_failed s g matchID roster pl err eff)
  note e = build_match_Inl [OF init_failed(2)]
  have "\<not> held (callers s) g r" for r using init_failed(1) by (simp add: held_def)
  then show ?case using init_failed(3) e
    by (auto simp: plugins_ok_def held_callers less_Suc_eq) metis
next
  case (built s g matchID roster pl m eff)
  note e = build_match_Inr [OF built(2)]
  have "\<not> held (callers s) g r" for r using built(1) by (simp add: held_def)
  then show ?case using built(3) e
    by (auto simp: plugins_ok_def held_callers less_Suc_eq) metis+
next
  case (install s g self m r eff mgr')
  note self = plugins_ok_held [OF install(3,1)] held_not_listed [OF install(4,3,1)]
  have h: "held (callers s) g r' \<longleftrightarrow> r' = self" for r' using install(1) by (auto simp: held_def)
  show ?case using install(2)
  proof (cases rule: install_match_cases)
    case found
    then show ?thesis using install(3) self h by (auto simp: plugins_ok_def held_callers) metis
  next
    case fresh
    then show ?thesis using install(3) self h by (auto simp: plugins_ok_def held_callers) metis
  qed
next
  case (run_end s r)
  then show ?case by (auto simp: plugins_ok_def)
next
  case (clean s r m)
  have "r \<in> set (closed_plugins s)" using plugins_ok_ended [OF clean(3,1)] by simp
  then show ?case using clean by (auto simp: plugins_ok_def cleanup_def)
next
  case (dec s r)
  have "r \<in> set (closed_plugins s)" using plugins_ok_ended [OF dec(2,1)] by simp
  then show ?case using dec by (auto simp: plugins_ok_def)
next
  case (play s r m m')
  then show ?case by (auto simp: plugins_ok_def)
next
  case (found s g matchID r)
  then have "\<not> held (callers s) g r'" for r' by (simp add: held_def)
  then show ?case using found(3) by (auto simp: plugins_ok_def held_callers) metis
next
  case (absent s g matchID roster)
  then have "\<not> held (callers s) g r'" for r' by (simp add: held_def)
  then show ?case using absent(3) by (auto simp: plugins_ok_def held_callers) metis
next
  case (create_failed s g matchID roster err err' eff)
  then have "\<not> held (callers s) g r'" for r' by (simp add: held_def)
  then show ?case using create_failed(3) by (auto simp: plugins_ok_def held_callers) metis
qed

lemma mgr_inv_step: "mgr_step env P s s' \<Longrightarrow> mgr_inv s \<Longrightarrow> mgr_inv s'"
  unfolding mgr_inv_def by (blast intro: table_ok_step gauge_ok_step plugins_ok_step)

lemma mgr_inv_reachable: "(mgr_step env P)\<^sup>*\<^sup>* start_mgr s \<Longrightarrow> mgr_inv s"
  by (induction rule: rtranclp_induct) (auto intro: start_mgr_inv mgr_inv_step)

lemma live_object: "table_ok s \<Longrightarrow> live_run s r \<Longrightarrow> \<exists>m. objects (mgr s) r = Some m"
  by (auto simp: table_ok_def live_run_def)

lemma Count_live:
  assumes "table_ok s"
  shows "Count (mgr s) = card {r. live_run s r}"
proof -
  let ?ms = "matches (mgr s)"
  have "set ?ms = {(k, r). live_run s r \<and> (\<exists>m. objects (mgr s) r = Some m \<and> Match_id m = k)}"
    using assms by (auto simp: table_ok_def)
  moreover have "objects (mgr s) r \<noteq> None" if "live_run s r" for r
    using live_object [OF assms that] by auto
  ultimately have img: "snd ` set ?ms = {r. live_run s r}" and inj: "inj_on snd (set ?ms)"
    by (force, auto simp: inj_on_def)
  have "distinct ?ms" using assms by (auto simp: table_ok_def distinct_map)
  then have "length ?ms = card (set ?ms)" by (simp add: distinct_card)
  then show ?thesis using card_image [OF inj] img by (simp add: Count_def)
qed

text \<open>A caller of \<open>FindOrCreate\<close> is answered with the match the table holds at that moment.\<close>

lemma answered_current:
  assumes "mgr_step env P s s'" "callers s g \<noteq> callers s' g" "callers s' g = Some (Answered matchID (Inr r))"
  shows "Get matchID (mgr s') = Some r"
  using assms
  by (cases rule: mgr_step.cases)
     (auto simp: Get_def install_match_def update_conv split: if_splits option.splits)

text \<open>Two players arrive for the same new match; both build it and the second one is discarded.\<close>

definition race_match :: "nat Match" where
  "race_match = NewMatch 9 0 20"

definition race_sys :: "nat mgr_sys" where
  "race_sys =
     \<lparr>mgr = \<lparr>matches = [(9, 0)], objects = [0 \<mapsto> race_match], activeMatches = 1\<rparr>,
      callers = [1 \<mapsto> Answered 9 (Inr 0), 2 \<mapsto> Answered 9 (Inr 0)], runs = [0 \<mapsto> Running],
      created_plugins = 2, closed_plugins = [1]\<rparr>"

lemma race_run: "(mgr_step sample_env echo_plugin)\<^sup>*\<^sup>* start_mgr race_sys"
proof -
  let ?step = "mgr_step sample_env echo_plugin"
  let ?s1 = "(start_mgr :: nat mgr_sys)\<lparr>callers := (callers (start_mgr :: nat mgr_sys))(1 \<mapsto> Building 9 [1, 2])\<rparr>"
  let ?s2 = "?s1\<lparr>callers := (callers ?s1)(2 \<mapsto> Building 9 [1, 2])\<rparr>"
  let ?s3 = "?s2\<lparr>callers := (callers ?s2)(1 \<mapsto> Built (created_plugins ?s2) race_match),
      created_plugins := created_plugins ?s2 + 1,
      closed_plugins := closed_plugins ?s2 @ map (\<lambda>_. created_plugins ?s2) ([] :: room_effect list)\<rparr>"
  let ?s4 = "?s3\<lparr>callers := (callers ?s3)(2 \<mapsto> Built (created_plugins ?s3) race_match),
      created_plugins := created_plugins ?s3 + 1,
      closed_plugins := closed_plugins ?s3 @ map (\<lambda>_. created_plugins ?s3) ([] :: room_effect list)\<rparr>"
  let ?s5 = "?s4\<lparr>mgr := mgr race_sys, callers := (callers ?s4)(1 \<mapsto> Answered (Match_id race_match) (Inr 0)),
      runs := (if (0::nat) = 0 then (runs ?s4)(0 \<mapsto> Running) else runs ?s4),
      closed_plugins := closed_plugins ?s4 @ map (\<lambda>_. 0) ([] :: room_effect list)\<rparr>"
  let ?s6 = "?s5\<lparr>mgr := mgr race_sys, callers := (callers ?s5)(2 \<mapsto> Answered (Match_id race_match) (Inr 0)),
      runs := (if (0::nat) = 1 then (runs ?s5)(1 \<mapsto> Running) else runs ?s5),
      closed_plugins := closed_plugins ?s5 @ map (\<lambda>_. 1) [ClosePlugin]\<rparr>"
  note defs = start_mgr_def NewManager_def race_sys_def race_match_def NewMatch_def Get_def
  have "?step start_mgr ?s1" by (rule mgr_step.absent) (simp_all add: defs)
  moreover have "?step ?s1 ?s2" by (rule mgr_step.absent) (simp_all add: defs)
  moreover have "?step ?s2 ?s3"
    by (rule mgr_step.built [where pl = 0 and eff = "[]" and matchID = 9 and roster = "[1, 2]"])
       (simp_all add: build_match_def echo_plugin_def race_match_def)
  moreover have "?step ?s3 ?s4"
    by (rule mgr_step.built [where pl = 0 and eff = "[]" and matchID = 9 and roster = "[1, 2]"])
       (simp_all add: build_match_def echo_plugin_def race_match_def)
  moreover have "?step ?s4 ?s5"
    by (rule mgr_step.install [where eff = "[]"]) (simp_all add: install_match_def defs)
  moreover have "?step ?s5 ?s6"
    by (rule mgr_step.install [where eff = "[ClosePlugin]"]) (simp_all add: install_match_def defs)
  moreover have "?s6 = race_sys" by (simp add: defs)
  ultimately show ?thesis
    by (metis (no_types, lifting) converse_rtranclp_into_rtranclp rtranclp.rtrancl_refl)
qed

text \<open>
  C11. At most one running match per id, under any interleaving of \<open>FindOrCreate\<close> callers and match
  goroutines: the table maps an id to exactly the match of that id whose goroutine has not cleaned up
  yet, two such matches with the same id are the same one, \<open>Count\<close> is their number, and the
  active-match gauge counts the goroutines that have not finished.
\<close>

theorem manager_one_match_per_id:
  assumes "(mgr_step env P)\<^sup>*\<^sup>* start_mgr s"
  shows "(Get matchID (mgr s) = Some r \<longleftrightarrow>
            live_run s r \<and> (\<exists>m. objects (mgr s) r = Some m \<and> Match_id m = matchID))
    \<and> (live_run s r \<and> live_run s r' \<and> map_option Match_id (objects (mgr s) r) = map_option Match_id (objects (mgr s) r')
         \<longrightarrow> r = r')
    \<and> Count (mgr s) = card {r. live_run s r} \<and> activeMatches (mgr s) = int (card (dom (runs s)))"
proof -
  have inv: "table_ok s" "gauge_ok s" using mgr_inv_reachable [OF assms] by (simp_all add: mgr_inv_def)
  have "r = r'" if h: "live_run s r" "live_run s r'"
    "map_option Match_id (objects (mgr s) r) = map_option Match_id (objects (mgr s) r')"
  proof -
    obtain m where m: "objects (mgr s) r = Some m" using live_object [OF inv(1) h(1)] by blast
    obtain m' where m': "objects (mgr s) r' = Some m'" using live_object [OF inv(1) h(2)] by blast
    show ?thesis by (rule live_unique [OF inv(1) h(1,2) m m']) (use h(3) m m' in simp)
  qed
  moreover have "activeMatches (mgr s) = int (card (dom (runs s)))" using inv(2) by (simp add: gauge_ok_def)
  ultimately show ?thesis
    by (intro conjI table_ok_Get [OF inv(1)] Count_live [OF inv(1)]) blast+
qed

theorem manager_one_match_per_id_witness:
  "Get 9 (mgr race_sys) = Some 0 \<and> live_run race_sys 0 \<and> Count (mgr race_sys) = card {r. live_run race_sys r}"
proof -
  have "live_run race_sys 0" "objects (mgr race_sys) 0 = Some race_match" "Match_id race_match = 9"
    by (simp_all add: race_sys_def live_run_def race_match_def NewMatch_def)
  then show ?thesis using manager_one_match_per_id [OF race_run, of 9 0 0] by simp
qed

text \<open>
  C12. Every plugin instance the factory created is closed exactly once: at any moment an instance is
  held by one caller still building its match, or runs in a match, or has been closed (after a failed
  \<open>Init\<close>, as the loser of a race, or at the end of its match), never twice; when no caller is building
  and no match runs, all of them are closed.
\<close>

theorem manager_closes_every_plugin:
  assumes "(mgr_step env P)\<^sup>*\<^sup>* start_mgr s"
  shows "distinct (closed_plugins s) \<and> set (closed_plugins s) \<subseteq> {..<created_plugins s}
    \<and> (\<forall>r < created_plugins s. r \<in> set (closed_plugins s) \<longleftrightarrow>
          \<not> (\<exists>g. held (callers s) g r) \<and> runs s r \<noteq> Some Running)
    \<and> (\<forall>g g'. held (callers s) g r \<and> held (callers s) g' r \<longrightarrow> g = g')
    \<and> (\<forall>g. held (callers s) g r \<longrightarrow> runs s r = None)"
proof -
  have "plugins_ok s" using mgr_inv_reachable [OF assms] by (simp add: mgr_inv_def)
  then show ?thesis unfolding plugins_ok_def by (intro conjI allI impI subsetI) (simp, blast+)
qed

theorem manager_closes_every_plugin_witness:
  "1 \<in> set (closed_plugins race_sys) \<and> 0 \<notin> set (closed_plugins race_sys) \<and> created_plugins race_sys = 2"
  using manager_closes_every_plugin [OF race_run, of 0]
  by (simp add: race_sys_def held_def numeral_2_eq_2)

end
