(* ===== verification/Room_Server.thy ===== *)
theory Room_Server
  imports Room_Manager Token
begin

text \<open>
  The room daemon's entry point: the adapter from a WebTransport session to the match's view of it
  (\<open>internal/presentation/room/session.go\<close>) and the handler of \<open>/room/{match_id}\<close>
  (\<open>internal/presentation/room/server.go\<close>).

  The transport is the argument \<open>wt\<close>: whether a datagram was accepted and what opening and writing a
  stream returned; what goes on the wire is the list of \<open>wire\<close> events. The protobuf codec is an
  argument too. \<open>handleRoom\<close> is split where it first blocks on the connection: \<open>admit\<close> is the part up
  to the roster, and \<open>handleRoom\<close> continues with the match table, the join, the read loop over the
  datagrams the session delivers, and the deferred \<open>Leave\<close>.
\<close>

section \<open>Sessions\<close>

datatype wire = Datagram bytes | StreamFrame bytes

record wt_session =
  SendDatagram :: "bytes \<Rightarrow> go_error option"
  OpenUniStreamSync :: "go_error option"
  stream_Write :: "bytes \<Rightarrow> go_error option"

record playerSession =
  ps_playerID :: uuid
  ps_matchID :: uuid
  datagramMax :: int
  closed_flag :: bool

definition newPlayerSession :: "uuid \<Rightarrow> uuid \<Rightarrow> int \<Rightarrow> playerSession" where
  "newPlayerSession playerID matchID dmax =
     \<lparr>ps_playerID = playerID, ps_matchID = matchID, datagramMax = dmax, closed_flag = False\<rparr>"

fun reliableFrame :: "Frame \<Rightarrow> bool" where
  "reliableFrame (Frame_Event _ _) = True"
| "reliableFrame (Frame_Snapshot _ _) = True"
| "reliableFrame (Frame_Error _ _) = True"
| "reliableFrame _ = False"

definition sendStream :: "wt_session \<Rightarrow> bytes \<Rightarrow> go_error option \<times> wire list" where
  "sendStream wt data =
     (case OpenUniStreamSync wt of
        Some err \<Rightarrow> (Some (Wrap ''room: open uni stream'' err), [])
      | None \<Rightarrow>
          (case stream_Write wt data of
             Some err \<Rightarrow> (Some (Wrap ''room: write stream frame'' err), [])
           | None \<Rightarrow> (None, [StreamFrame data])))"

definition SendFrame :: "(Frame \<Rightarrow> bytes result) \<Rightarrow> wt_session \<Rightarrow> playerSession \<Rightarrow> Frame \<Rightarrow> go_error option \<times> wire list" where
  "SendFrame marshal wt s frame =
     (if closed_flag s then (Some (ErrorString ''room: session closed''), [])
      else case marshal frame of
        Inl err \<Rightarrow> (Some (Wrap ''room: marshal frame'' err), [])
      | Inr data \<Rightarrow>
          if reliableFrame frame \<or> int (length data) > datagramMax s then sendStream wt data
          else (case SendDatagram wt data of
                  Some _ \<Rightarrow> sendStream wt data
                | None \<Rightarrow> (None, [Datagram data])))"

definition playerSession_Close :: "playerSession \<Rightarrow> playerSession" where
  "playerSession_Close s = s\<lparr>closed_flag := True\<rparr>"

text \<open>One datagram, and the loop over those that arrive before the session ends.\<close>

definition readLoop_body :: "room_env \<Rightarrow> (bytes \<Rightarrow> Frame result) \<Rightarrow> uuid \<Rightarrow> bytes \<Rightarrow> 's Match \<Rightarrow> 's Match" where
  "readLoop_body env unmarshal playerID raw m =
     (case unmarshal raw of
        Inl _ \<Rightarrow> m
      | Inr (Frame_Input t payload) \<Rightarrow> SubmitInput env playerID t payload m
      | Inr _ \<Rightarrow> m)"

fun readLoop :: "room_env \<Rightarrow> (bytes \<Rightarrow> Frame result) \<Rightarrow> uuid \<Rightarrow> bytes list \<Rightarrow> 's Match \<Rightarrow> 's Match" where
  "readLoop env unmarshal playerID [] m = m"
| "readLoop env unmarshal playerID (raw # raws) m =
     readLoop env unmarshal playerID raws (readLoop_body env unmarshal playerID raw m)"

section \<open>The handler\<close>

datatype admission =
    BadRequest string
  | UpgradeFailed
  | Unauthenticated go_error
  | Mismatched
  | Admitted uuid uuid "uuid list"

definition TrimPrefix :: "string \<Rightarrow> string \<Rightarrow> string" where
  "TrimPrefix s p = (if take (length p) s = p then drop (length p) s else s)"

text \<open>
  \<open>no_stream\<close> is the error of accepting the client's first stream within the handshake timeout, if
  any, and \<open>hello\<close> what reading it to its end gave.
\<close>

definition authenticate :: "jwt_lib \<Rightarrow> Signer \<Rightarrow> go_time \<Rightarrow> (bytes \<Rightarrow> Frame result) \<Rightarrow> go_error option \<Rightarrow>
    bytes result \<Rightarrow> SessionClaims result" where
  "authenticate J signer now unmarshal no_stream hello =
     (case (no_stream, hello) of
        (Some err, _) \<Rightarrow> Inl (Wrap ''accept hello stream'' err)
      | (None, Inl err) \<Rightarrow> Inl (Wrap ''read hello'' err)
      | (None, Inr raw) \<Rightarrow>
          (case unmarshal raw of
             Inl err \<Rightarrow> Inl (Wrap ''unmarshal hello'' err)
           | Inr (Frame_Hello session_token) \<Rightarrow> VerifySession J signer now session_token
           | Inr _ \<Rightarrow> Inl (ErrorString ''first frame was not a ClientHello'')))"

definition roster_of :: "room_env \<Rightarrow> SessionClaims \<Rightarrow> uuid list" where
  "roster_of env claims =
     (let roster = List.map_filter (uuid_Parse env) (MatchPlayers claims)
      in if roster = [] then [session_PlayerID claims] else roster)"

definition admit :: "room_env \<Rightarrow> jwt_lib \<Rightarrow> Signer \<Rightarrow> go_time \<Rightarrow> (bytes \<Rightarrow> Frame result) \<Rightarrow> string \<Rightarrow>
    go_error option \<Rightarrow> go_error option \<Rightarrow> bytes result \<Rightarrow> admission" where
  "admit env J signer now unmarshal path upgrade no_stream hello =
     (let matchIDStr = TrimPrefix path ''/room/'' in
      if matchIDStr = [] then BadRequest ''match id required''
      else case uuid_Parse env matchIDStr of
        None \<Rightarrow> BadRequest ''invalid match id''
      | Some matchID \<Rightarrow>
          if upgrade \<noteq> None then UpgradeFailed
          else (case authenticate J signer now unmarshal no_stream hello of
                  Inl err \<Rightarrow> Unauthenticated err
                | Inr claims \<Rightarrow>
                    if MatchID claims \<noteq> matchIDStr then Mismatched
                    else Admitted matchID (session_PlayerID claims) (roster_of env claims)))"

definition handleRoom :: "room_env \<Rightarrow> 's Plugin \<Rightarrow> (bytes \<Rightarrow> Frame result) \<Rightarrow> 's result \<Rightarrow> nat \<Rightarrow> nat \<Rightarrow> bytes list \<Rightarrow>
    admission \<Rightarrow> 's Manager \<Rightarrow> go_error option \<times> room_effect list \<times> 's Manager" where
  "handleRoom env P unmarshal created self io datagrams adm mg =
     (case adm of
        Admitted matchID playerID roster \<Rightarrow>
          (case FindOrCreate env P created self matchID roster mg of
             (Inl err, eff, mg') \<Rightarrow> (Some err, eff, mg')
           | (Inr r, eff, mg') \<Rightarrow>
               (case objects mg' r of
                  None \<Rightarrow> (None, eff, mg')
                | Some m \<Rightarrow>
                    (case Join env playerID io m of
                       (Some err, m1) \<Rightarrow> (Some err, eff, mg')
                     | (None, m1) \<Rightarrow>
                         (let m2 = readLoop env unmarshal playerID datagrams m1;
                              (eff', m3) = Leave env playerID ''disconnected'' m2
                          in (None, eff @ eff', mg'\<lparr>objects := (objects mg')(r \<mapsto> m3)\<rparr>)))))
      | _ \<Rightarrow> (None, [], mg))"

section \<open>Lemmas\<close>

lemma sendStream_cases:
  "sendStream wt data = (e, out) \<Longrightarrow> (e = None \<and> out = [StreamFrame data]) \<or> (e \<noteq> None \<and> out = [])"
  by (auto simp: sendStream_def split: option.splits)

lemma TrimPrefix_append [simp]: "TrimPrefix (p @ s) p = s"
  by (simp add: TrimPrefix_def)

text \<open>The read loop only appends inputs of this player, and never touches who has joined.\<close>

lemma readLoop_frame [simp]:
  "players (readLoop env un p raws m) = players m" "Match_plugin (readLoop env un p raws m) = Match_plugin m"
  "events (readLoop env un p raws m) = events m" "Match_id (readLoop env un p raws m) = Match_id m"
proof (induction env un p raws m rule: readLoop.induct)
  case (2 env un p raw raws m)
  have "players (readLoop_body env un p raw m) = players m" "Match_plugin (readLoop_body env un p raw m) = Match_plugin m"
    "events (readLoop_body env un p raw m) = events m" "Match_id (readLoop_body env un p raw m) = Match_id m"
    by (simp_all add: readLoop_body_def SubmitInput_def split: sum.splits Frame.splits)
  with 2 show
    "players (readLoop env un p (raw # raws) m) = players m"
    "Match_plugin (readLoop env un p (raw # raws) m) = Match_plugin m"
    "events (readLoop env un p (raw # raws) m) = events m" "Match_id (readLoop env un p (raw # raws) m) = Match_id m"
    by simp_all
qed simp_all

lemma readLoop_inputs: "length (inputs m) \<le> 256 \<Longrightarrow>
    length (inputs (readLoop env un p raws m)) \<le> 256 \<and>
    (\<exists>as. inputs (readLoop env un p raws m) = inputs m @ as \<and> (\<forall>a \<in> set as. PlayerId a = uuid_String env p))"
proof (induction env un p raws m rule: readLoop.induct)
  case (2 env un p raw raws m)
  have "length (inputs (readLoop_body env un p raw m)) \<le> 256 \<and>
    (\<exists>as. inputs (readLoop_body env un p raw m) = inputs m @ as \<and> (\<forall>a \<in> set as. PlayerId a = uuid_String env p))"
    using 2(2) by (auto simp: readLoop_body_def SubmitInput_def select_send_def action_of_def split: sum.splits Frame.splits)
  with 2(1) show ?case by fastforce
qed simp

lemma delete_fresh: "p \<notin> fst ` set ps \<Longrightarrow> AList.delete p (ps @ [(p, io)]) = ps"
  by (induction ps) auto

text \<open>
  A whole connection, from an admitted handshake to the disconnect: the session that joined is closed
  and gone, the others are untouched, and the plugin will see both notices.
\<close>

lemma handleRoom_connection:
  assumes "FindOrCreate env P created self matchID roster mg = (Inr r, eff, mg')"
    and "objects mg' r = Some m" "playerID \<notin> fst ` set (players m)"
  shows "\<exists>m'. handleRoom env P unmarshal created self io datagrams (Admitted matchID playerID roster) mg
      = (None, eff @ [CloseIO io], mg'\<lparr>objects := (objects mg')(r \<mapsto> m')\<rparr>)
    \<and> players m' = players m \<and> Match_plugin m' = Match_plugin m"
proof -
  have join: "Join_lock playerID io m = Inr (m\<lparr>players := players m @ [(playerID, io)]\<rparr>)"
    using assms(3) by (simp add: Join_lock_Inr)
  let ?m2 = "readLoop env unmarshal playerID datagrams
    (emit (PlayerJoined (uuid_String env playerID)) (m\<lparr>players := players m @ [(playerID, io)]\<rparr>))"
  have frame: "players (emit ev n) = players n" "Match_plugin (emit ev n) = Match_plugin n" for ev and n :: "'a Match"
    by (simp_all add: emit_def)
  have "map_of (players m) playerID = None" using assms(3) by (simp add: map_of_eq_None_iff)
  then have lookup: "map_of (players ?m2) playerID = Some io" by (simp add: frame map_add_def)
  have "handleRoom env P unmarshal created self io datagrams (Admitted matchID playerID roster) mg
    = (None, eff @ [CloseIO io], mg'\<lparr>objects := (objects mg')(r \<mapsto>
        emit (PlayerLeft (uuid_String env playerID) ''disconnected'')
          (?m2\<lparr>players := AList.delete playerID (players ?m2)\<rparr>))\<rparr>)"
    using assms(1,2) lookup by (simp add: handleRoom_def Join_def join Leave_def Leave_lock_def Let_def del: readLoop_frame)
  then show ?thesis using assms(3) by (fastforce simp: frame delete_fresh)
qed

section \<open>Properties\<close>

text \<open>
  Delivery of a frame to a session: a closed session gets nothing and an error; otherwise success
  means the encoded frame went out exactly once and failure that it did not go out at all; events,
  snapshots, errors and every frame above the datagram limit only ever travel on a stream, and a
  datagram that is refused falls back to a stream.
\<close>

theorem SendFrame_delivery:
  "SendFrame marshal wt s frame = (e, out) \<Longrightarrow>
    (e = None \<longrightarrow> \<not> closed_flag s \<and> (\<exists>data. marshal frame = Inr data \<and> out \<in> {[Datagram data], [StreamFrame data]}))
    \<and> (e \<noteq> None \<longrightarrow> out = [])
    \<and> (\<forall>data. Datagram data \<in> set out \<longrightarrow> \<not> reliableFrame frame \<and> int (length data) \<le> datagramMax s)
    \<and> (\<forall>data. \<not> closed_flag s \<and> marshal frame = Inr data \<and> OpenUniStreamSync wt = None \<and> stream_Write wt data = None
         \<longrightarrow> e = None)"
  by (auto simp: SendFrame_def sendStream_def split: if_splits sum.splits option.splits)

definition open_session :: wt_session where
  "open_session = \<lparr>SendDatagram = \<lambda>_. None, OpenUniStreamSync = None, stream_Write = \<lambda>_. None\<rparr>"

theorem SendFrame_delivery_witness:
  "SendFrame (\<lambda>_. Inr [1, 2]) open_session (newPlayerSession 1 2 10) (Frame_Event ''game_ended'' []) = (None, [StreamFrame [1, 2]])
   \<and> Datagram [1, 2] \<notin> set [StreamFrame [1, 2]]"
proof -
  have run: "SendFrame (\<lambda>_. Inr [1, 2]) open_session (newPlayerSession 1 2 10) (Frame_Event ''game_ended'' []) = (None, [StreamFrame [1, 2]])"
    by (simp add: SendFrame_def open_session_def newPlayerSession_def sendStream_def)
  show ?thesis using run SendFrame_delivery [OF run] by simp
qed

text \<open>
  C14. Admission to a match: a session token the gateway issued for a player, a match id and a roster
  opens exactly that match while it is valid, with the parsed roster (or the player alone when none
  parses); any other match id is refused, an expired token is refused, and an access token opens no
  match at all.
\<close>

theorem room_admission:
  assumes "jwt_ok J" "SignSession J s p mid mps issued ttl = Inr tok" "SignAccess J s p issued ttl = Inr atok"
    and "unmarshal raw = Inr (Frame_Hello tok)" "unmarshal araw = Inr (Frame_Hello atok)"
    and "x \<noteq> []" "uuid_Parse env x = Some matchID"
  shows "admit env J s now unmarshal (''/room/'' @ x) None None (Inr raw) =
      (if now < (issued + ttl) div Second * Second
       then if x = mid then Admitted matchID p (case List.map_filter (uuid_Parse env) mps of [] \<Rightarrow> [p] | us \<Rightarrow> us)
            else Mismatched
       else Unauthenticated (projl (VerifySession J s now tok)))
    \<and> (\<forall>u q ro. admit env J s now unmarshal (''/room/'' @ x) None None (Inr araw) \<noteq> Admitted u q ro)"
proof -
  have date: "jwt_NewNumericDate J t = t div Second" for t using assms(1) by (simp add: jwt_ok_def)
  let ?c = "\<lparr>session_PlayerID = p, MatchID = mid, MatchPlayers = mps,
    session_IssuedAt = issued div Second, session_ExpiresAt = (issued + ttl) div Second\<rparr>"
  let ?a = "\<lparr>access_PlayerID = p, access_IssuedAt = issued div Second, access_ExpiresAt = (issued + ttl) div Second\<rparr>"
  have "jwt_SignedString J (session_json ?c) (secret s) = Inr tok" using assms(2) by (simp add: SignSession_def date)
  note parse = jwt_parse_signed [OF assms(1) this, of now]
  have v: "if now < (issued + ttl) div Second * Second then VerifySession J s now tok = Inr ?c
    else isl (VerifySession J s now tok)"
    using parse by (simp add: VerifySession_def unexpired_def session_json_def json_session_def)
  have "jwt_SignedString J (access_json ?a) (secret s) = Inr atok" using assms(3) by (simp add: SignAccess_def date)
  note parse' = jwt_parse_signed [OF assms(1) this, of now]
  have v': "if now < (issued + ttl) div Second * Second
    then \<exists>c. VerifySession J s now atok = Inr c \<and> MatchID c = [] else isl (VerifySession J s now atok)"
    using parse' by (auto simp: VerifySession_def unexpired_def access_json_def json_session_def)
  have "x \<noteq> [] \<Longrightarrow> MatchID c = [] \<Longrightarrow> MatchID c \<noteq> x" for c :: SessionClaims by auto
  then show ?thesis
    using v v' assms(4-7)
    by (auto simp: admit_def authenticate_def roster_of_def TrimPrefix_def Let_def isl_def split: if_splits list.splits)
qed

theorem room_admission_witness:
  "\<exists>tok atok. SignSession numbered_jwt (NewSigner ''s'') 7 ''u'' [''u'', ''uu''] 0 (60 * Second) = Inr tok
    \<and> admit sample_env numbered_jwt (NewSigner ''s'') 5
        (\<lambda>raw. Inr (Frame_Hello (if raw = [1] then tok else atok))) ''/room/u'' None None (Inr [1]) = Admitted 1 7 [1, 2]"
proof -
  obtain tok atok where tok: "SignSession numbered_jwt (NewSigner ''s'') 7 ''u'' [''u'', ''uu''] 0 (60 * Second) = Inr tok"
    "SignAccess numbered_jwt (NewSigner ''s'') 7 0 (60 * Second) = Inr atok"
    by (simp add: SignSession_def SignAccess_def wrap_err_def numbered_jwt_def)
  have "admit sample_env numbered_jwt (NewSigner ''s'') 5
        (\<lambda>raw. Inr (Frame_Hello (if raw = [1] then tok else atok))) (''/room/'' @ ''u'') None None (Inr [1]) = Admitted 1 7 [1, 2]"
    using room_admission [OF jwt_ok_numbered tok, of "\<lambda>raw. Inr (Frame_Hello (if raw = [1] then tok else atok))"
        "[1]" "[2]" "''u''" sample_env 1 5]
    by (simp add: sample_env_def Second_def map_filter_simps)
  then show ?thesis using tok by auto
qed

end
