(* ===== verification/Rps.thy ===== *)
theory Rps
  imports Room_Match
begin

text \<open>
  Rock-paper-scissors, the plugin the repository ships (\<open>examples/rps/plugin\<close>): the rules in
  \<open>game.go\<close>, and the adapter of \<open>plugin.go\<close> as a value of \<open>Plugin\<close>. \<open>encode\<close>, the JSON form of the
  state, is an argument. Go's \<open>map[string]byte\<close> of the current round's choices is an association list
  with distinct keys; a lookup of an absent key gives the zero byte. Scores and rounds are Go \<open>int\<close>s
  kept as \<open>int\<close>; the invariant bounds them far below the width.
\<close>

type_synonym choice = "8 word"

abbreviation Rock :: choice where "Rock \<equiv> 82"
abbreviation Paper :: choice where "Paper \<equiv> 80"
abbreviation Scissors :: choice where "Scissors \<equiv> 83"

text \<open>\<open>string(rune(c))\<close> of an ASCII byte.\<close>

definition byte_string :: "choice \<Rightarrow> string" where
  "byte_string c = [char_of (unat c)]"

definition rounds :: int where "rounds = 3"
definition winsToWin :: int where "winsToWin = 2"

record roundResult =
  rr_Round :: int
  rr_Winner :: string
  ChoiceA :: string
  ChoiceB :: string

record gameState =
  playerA :: string
  playerB :: string
  Round :: int
  Scores :: "(string \<times> int) list"
  Choices :: "(string \<times> choice) list"
  History :: "roundResult list"
  MatchWinner :: string
  scoreA :: int
  scoreB :: int
  matchWinner :: string

definition newGameState :: gameState where
  "newGameState = \<lparr>playerA = [], playerB = [], Round = 1, Scores = [], Choices = [], History = [],
     MatchWinner = [], scoreA = 0, scoreB = 0, matchWinner = []\<rparr>"

definition normalize :: "choice \<Rightarrow> choice" where
  "normalize c = (if c = 82 \<or> c = 114 then Rock else if c = 80 \<or> c = 112 then Paper
                  else if c = 83 \<or> c = 115 then Scissors else 0)"

definition decideRound :: "choice \<Rightarrow> choice \<Rightarrow> string \<Rightarrow> string \<Rightarrow> string" where
  "decideRound a b idA idB =
     (if a = b then []
      else if (a = Rock \<and> b = Scissors) \<or> (a = Paper \<and> b = Rock) \<or> (a = Scissors \<and> b = Paper) then idA
      else idB)"

definition chosen :: "string \<Rightarrow> gameState \<Rightarrow> choice" where
  "chosen p s = (case map_of (Choices s) p of Some c \<Rightarrow> c | None \<Rightarrow> 0)"

definition record_round :: "string \<Rightarrow> choice \<Rightarrow> choice \<Rightarrow> gameState \<Rightarrow> gameState" where
  "record_round winner a b s =
     (let s1 = (if winner = playerA s
                then s\<lparr>scoreA := scoreA s + 1, Scores := AList.update (playerA s) (scoreA s + 1) (Scores s)\<rparr>
                else if winner = playerB s
                then s\<lparr>scoreB := scoreB s + 1, Scores := AList.update (playerB s) (scoreB s + 1) (Scores s)\<rparr>
                else s)
      in s1\<lparr>History := History s1 @ [\<lparr>rr_Round = Round s1, rr_Winner = winner, ChoiceA = byte_string a, ChoiceB = byte_string b\<rparr>]\<rparr>)"

definition decideMatch :: "gameState \<Rightarrow> string" where
  "decideMatch s =
     (if scoreA s \<ge> winsToWin then playerA s
      else if scoreB s \<ge> winsToWin then playerB s
      else if Round s \<ge> rounds
      then (if scoreA s > scoreB s then playerA s else if scoreB s > scoreA s then playerB s else ''draw'')
      else matchWinner s)"

definition resolveRound :: "gameState \<Rightarrow> gameState" where
  "resolveRound s =
     (let a = chosen (playerA s) s; b = chosen (playerB s) s;
          s1 = record_round (decideRound a b (playerA s) (playerB s)) a b s;
          w = decideMatch s1
      in s1\<lparr>matchWinner := w, MatchWinner := w, Round := Round s1 + 1, Choices := []\<rparr>)"

definition applyAction :: "PlayerAction \<Rightarrow> gameState \<Rightarrow> bool \<times> gameState" where
  "applyAction action s =
     (case Payload action of
        [] \<Rightarrow> (False, s)
      | c # _ \<Rightarrow>
          (let choice = normalize c in
           if choice = 0 then (False, s)
           else if map_of (Choices s) (PlayerId action) \<noteq> None then (False, s)
           else (let s1 = s\<lparr>Choices := AList.update (PlayerId action) choice (Choices s)\<rparr> in
                 if length (Choices s1) < 2 then (False, s1) else (True, resolveRound s1))))"

definition rankOf :: "string \<Rightarrow> gameState \<Rightarrow> int" where
  "rankOf playerID s =
     (if matchWinner s = [] \<or> matchWinner s = ''draw'' then 0
      else if matchWinner s = playerID then 1 else -1)"

definition Game_Init :: "(gameState \<Rightarrow> bytes result) \<Rightarrow> gameState \<Rightarrow> string list \<Rightarrow> InitResponse result \<times> gameState" where
  "Game_Init encode s ids =
     (if length ids \<noteq> 2 then (Inl (ErrorString ''rps: requires exactly two players''), s)
      else (let s1 = s\<lparr>playerA := ids ! 0, playerB := ids ! 1\<rparr> in
            case encode s1 of
              Inl err \<Rightarrow> (Inl err, s1)
            | Inr snapshot \<Rightarrow> (Inr \<lparr>TickRateHz = 0, InitialSnapshot = snapshot\<rparr>, s1)))"

fun apply_actions :: "PlayerAction list \<Rightarrow> bool \<Rightarrow> gameState \<Rightarrow> bool \<times> gameState" where
  "apply_actions [] progressed s = (progressed, s)"
| "apply_actions (a # as) progressed s =
     (if matchWinner s \<noteq> [] then (progressed, s)
      else (let (p, s1) = applyAction a s in apply_actions as (p \<or> progressed) s1))"

definition Game_OnTick :: "(gameState \<Rightarrow> bytes result) \<Rightarrow> gameState \<Rightarrow> OnTickRequest \<Rightarrow> OnTickResponse result \<times> gameState" where
  "Game_OnTick encode s req =
     (let (progressed, s1) = apply_actions (Actions req) False s;
          ended = (matchWinner s1 \<noteq> [])
      in if progressed
         then (case encode s1 of
                 Inl err \<Rightarrow> (Inl err, s1)
               | Inr delta \<Rightarrow> (Inr \<lparr>resp_StateDelta = delta, resp_Events = [], resp_GameEnded = ended\<rparr>, s1))
         else (Inr \<lparr>resp_StateDelta = [], resp_Events = [], resp_GameEnded = ended\<rparr>, s1))"

text \<open>\<open>strconv.Itoa\<close> on the scores, which the invariant keeps between 0 and 2.\<close>

definition strconv_Itoa :: "int \<Rightarrow> string" where
  "strconv_Itoa n = (if n < 0 then ''-'' else []) @
     (let fuel = nat \<bar>n\<bar> + 1; digit = (\<lambda>d. char_of (48 + nat d)) in
      rev (map (\<lambda>i. digit (\<bar>n\<bar> div 10 ^ i mod 10)) (filter (\<lambda>i. i = 0 \<or> \<bar>n\<bar> div 10 ^ i > 0) [0..<fuel])))"

definition Game_OnGameEnd :: "(gameState \<Rightarrow> bytes result) \<Rightarrow> gameState \<Rightarrow> 32 word \<Rightarrow> OnGameEndResponse result \<times> gameState" where
  "Game_OnGameEnd encode s finalTick =
     (case encode s of
        Inl err \<Rightarrow> (Inl err, s)
      | Inr final \<Rightarrow>
          (Inr \<lparr>FinalState = final,
                PlayerResults =
                  [\<lparr>res_PlayerId = playerA s, Rank = rankOf (playerA s) s, Stats = [(''wins'', strconv_Itoa (scoreA s))]\<rparr>,
                   \<lparr>res_PlayerId = playerB s, Rank = rankOf (playerB s) s, Stats = [(''wins'', strconv_Itoa (scoreB s))]\<rparr>]\<rparr>, s))"

definition hostAdapter :: "(gameState \<Rightarrow> bytes result) \<Rightarrow> gameState Plugin" where
  "hostAdapter encode =
     \<lparr>plugin_Init = Game_Init encode, plugin_OnTick = Game_OnTick encode,
      plugin_OnGameEnd = Game_OnGameEnd encode, plugin_Close = \<lambda>s. (None, s)\<rparr>"

definition Factory_Create :: "gameState result" where
  "Factory_Create = Inr newGameState"

section \<open>The rule of one round\<close>

definition valid_choice :: "choice \<Rightarrow> bool" where
  "valid_choice c \<longleftrightarrow> c = Rock \<or> c = Paper \<or> c = Scissors"

definition choice_number :: "choice \<Rightarrow> int" where
  "choice_number c = (if c = Rock then 0 else if c = Paper then 1 else 2)"

lemma normalize_valid: "normalize c \<noteq> 0 \<longleftrightarrow> valid_choice (normalize c)"
  by (auto simp: normalize_def valid_choice_def)

lemma normalize_idem [simp]: "valid_choice c \<Longrightarrow> normalize c = c"
  by (auto simp: normalize_def valid_choice_def)

lemma decideRound_cases: "decideRound a b idA idB \<in> {[], idA, idB}"
  by (simp add: decideRound_def)

lemma decideRound_mod3:
  assumes "valid_choice a" "valid_choice b"
  shows "decideRound a b idA idB =
    (case (choice_number a - choice_number b) mod 3 of
       n \<Rightarrow> if n = 0 then [] else if n = 1 then idA else idB)"
  using assms by (auto simp: valid_choice_def decideRound_def choice_number_def)

section \<open>The invariant of a game\<close>

definition roster_ok :: "gameState \<Rightarrow> bool" where
  "roster_ok s \<longleftrightarrow> playerA s \<noteq> playerB s \<and> playerA s \<notin> {[], ''draw''} \<and> playerB s \<notin> {[], ''draw''}"

definition wins :: "string \<Rightarrow> gameState \<Rightarrow> int" where
  "wins p s = int (length (filter (\<lambda>r. rr_Winner r = p) (History s)))"

definition decided :: "gameState \<Rightarrow> bool" where
  "decided s \<longleftrightarrow> scoreA s \<ge> winsToWin \<or> scoreB s \<ge> winsToWin \<or> Round s > rounds"

definition final_winner :: "gameState \<Rightarrow> string" where
  "final_winner s = (if scoreA s > scoreB s then playerA s else if scoreB s > scoreA s then playerB s else ''draw'')"

definition game_inv :: "gameState \<Rightarrow> bool" where
  "game_inv s \<longleftrightarrow> roster_ok s \<and>
     Round s = int (length (History s)) + 1 \<and> map rr_Round (History s) = map int [1..<length (History s) + 1] \<and>
     scoreA s = wins (playerA s) s \<and> scoreB s = wins (playerB s) s \<and>
     scoreA s \<le> 2 \<and> scoreB s \<le> 2 \<and> length (History s) \<le> 3 \<and>
     matchWinner s = (if decided s then final_winner s else []) \<and> MatchWinner s = matchWinner s \<and>
     length (Choices s) \<le> 1"

lemma record_round_frame [simp]:
  "playerA (record_round w a b s) = playerA s" "playerB (record_round w a b s) = playerB s"
  "Round (record_round w a b s) = Round s" "matchWinner (record_round w a b s) = matchWinner s"
  "History (record_round w a b s) = History s @ [\<lparr>rr_Round = Round s, rr_Winner = w, ChoiceA = byte_string a, ChoiceB = byte_string b\<rparr>]"
  "scoreA (record_round w a b s) = scoreA s + (if w = playerA s then 1 else 0)"
  "scoreB (record_round w a b s) = scoreB s + (if w \<noteq> playerA s \<and> w = playerB s then 1 else 0)"
  by (auto simp: record_round_def Let_def)

lemma disjoint_filters:
  "(\<And>x. \<not> (P x \<and> Q x)) \<Longrightarrow> length (filter P xs) + length (filter Q xs) \<le> length xs"
proof (induction xs)
  case (Cons x xs)
  then show ?case using Cons.prems [of x] by (cases "P x"; cases "Q x") auto
qed simp

lemma wins_le: "roster_ok s \<Longrightarrow> wins (playerA s) s + wins (playerB s) s \<le> int (length (History s))"
  using disjoint_filters [of "\<lambda>r. rr_Winner r = playerA s" "\<lambda>r. rr_Winner r = playerB s" "History s"]
  by (auto simp: wins_def roster_ok_def)

lemma undecided:
  assumes "game_inv s" "matchWinner s = []"
  shows "\<not> decided s"
  using assms by (auto simp: game_inv_def roster_ok_def final_winner_def split: if_splits)

lemma resolveRound_inv:
  assumes inv: "game_inv (s\<lparr>Choices := []\<rparr>)" and none: "matchWinner s = []"
  shows "game_inv (resolveRound s)"
proof -
  let ?a = "chosen (playerA s) s" and ?b = "chosen (playerB s) s"
  let ?w = "decideRound ?a ?b (playerA s) (playerB s)"
  let ?s1 = "record_round ?w ?a ?b s"
  have und: "\<not> decided s" using undecided [OF inv] none by (simp add: decided_def)
  have r: "playerA s \<noteq> playerB s" "playerA s \<notin> {[], ''draw''}" "playerB s \<notin> {[], ''draw''}"
    using inv by (simp_all add: game_inv_def roster_ok_def)
  have wins: "wins p ?s1 = wins p s + (if ?w = p then 1 else 0)" for p by (simp add: wins_def)
  have sc: "scoreA ?s1 = wins (playerA s) ?s1" "scoreB ?s1 = wins (playerB s) ?s1"
    using inv r by (simp_all add: wins game_inv_def wins_def)
  have nw: "decideMatch ?s1 = (if decided (?s1\<lparr>Round := Round s + 1\<rparr>) then final_winner ?s1 else [])"
    using und none wins_le [of ?s1] sc inv
    by (auto simp: decideMatch_def decided_def final_winner_def winsToWin_def rounds_def roster_ok_def game_inv_def)
  show ?thesis
    using inv und sc nw r
    unfolding resolveRound_def Let_def game_inv_def decided_def final_winner_def roster_ok_def wins_def
      winsToWin_def rounds_def
    by auto
qed

lemma game_inv_Choices: "length cs \<le> 1 \<Longrightarrow> game_inv s \<Longrightarrow> game_inv (s\<lparr>Choices := cs\<rparr>)"
  by (simp add: game_inv_def roster_ok_def wins_def decided_def final_winner_def)

lemma applyAction_inv:
  assumes "game_inv s" "matchWinner s = []"
  shows "game_inv (snd (applyAction a s))"
proof (cases "Payload a")
  case (Cons c cs)
  let ?s1 = "s\<lparr>Choices := AList.update (PlayerId a) (normalize c) (Choices s)\<rparr>"
  have "game_inv (resolveRound ?s1)"
    by (rule resolveRound_inv) (use assms game_inv_Choices [of "[]" s] in simp_all)
  then show ?thesis
    using Cons assms game_inv_Choices [of "Choices ?s1" s] by (simp add: applyAction_def Let_def)
qed (simp add: applyAction_def assms)

lemma apply_actions_inv: "game_inv s \<Longrightarrow> game_inv (snd (apply_actions as p s))"
  by (induction as arbitrary: p s) (auto simp: case_prod_beta Let_def applyAction_inv)

lemma Game_OnTick_state: "snd (Game_OnTick encode s req) = snd (apply_actions (Actions req) False s)"
  by (auto simp: Game_OnTick_def Let_def split: prod.splits sum.splits)

lemma Game_OnGameEnd_state: "snd (Game_OnGameEnd encode s n) = s"
  by (auto simp: Game_OnGameEnd_def split: sum.splits)

interpretation rps: plugin_contract "hostAdapter encode" game_inv for encode
  by unfold_locales
     (auto simp: hostAdapter_def Game_OnTick_state Game_OnGameEnd_state apply_actions_inv)

lemma Game_Init_inv:
  assumes "ids = [a, b]" "a \<noteq> b" "a \<notin> {[], ''draw''}" "b \<notin> {[], ''draw''}"
  shows "game_inv (snd (Game_Init encode newGameState ids))"
  using assms
  by (auto simp: Game_Init_def newGameState_def game_inv_def roster_ok_def wins_def decided_def
      winsToWin_def rounds_def Let_def split: sum.splits)

section \<open>Best of three\<close>



definition play :: "string \<Rightarrow> choice \<Rightarrow> PlayerAction" where
  "play p c = \<lparr>PlayerId = p, ClientTick = 0, Payload = [c]\<rparr>"







lemma decided_iff: "game_inv s \<Longrightarrow> decided s \<longleftrightarrow> scoreA s \<ge> 2 \<or> scoreB s \<ge> 2 \<or> length (History s) \<ge> 3"
  by (auto simp: game_inv_def decided_def winsToWin_def rounds_def)




section \<open>Properties\<close>

text \<open>
  C15. Rock-paper-scissors hosted by the room daemon: at every point of every match, whatever players
  send and however handlers interleave, at most three rounds have been resolved, they are numbered
  1, 2, 3, each player's score is the number of rounds that name it as winner and at most two, and a
  match winner is declared exactly when a player has two wins or three rounds are over: the one with
  the higher score, or a draw.
\<close>

theorem rps_match_invariant:
  assumes "a \<noteq> b" "a \<notin> {[], ''draw''}" "b \<notin> {[], ''draw''}"
    and "Game_Init encode newGameState [a, b] = (Inr resp, g)"
    and "(match_step env (hostAdapter encode))\<^sup>*\<^sup>* (start_sys matchID g (TickRateHz resp)) s"
  shows "let g' = Match_plugin (the_match s) in
    length (History g') \<le> 3 \<and> map rr_Round (History g') = map int [1..<length (History g') + 1]
    \<and> scoreA g' = wins (playerA g') g' \<and> scoreB g' = wins (playerB g') g' \<and> scoreA g' \<le> 2 \<and> scoreB g' \<le> 2
    \<and> matchWinner g' = (if scoreA g' = 2 \<or> scoreB g' = 2 \<or> length (History g') = 3 then final_winner g' else [])"
proof -
  have "game_inv g" using Game_Init_inv [OF refl assms(1-3), of encode] assms(4) by simp
  then have inv: "game_inv (Match_plugin (the_match s))" by (rule rps.match_good [OF assms(5)])
  then show ?thesis using decided_iff [OF inv] by (auto simp: game_inv_def Let_def)
qed

definition sample_game :: gameState where
  "sample_game = newGameState\<lparr>playerA := ''a'', playerB := ''b''\<rparr>"

definition sample_room :: "gameState match_sys" where
  "sample_room = (let s = start_sys 9 sample_game 0 in
     s\<lparr>the_match := SubmitInput sample_env 1 0 [82] (the_match s),
       accepted := accept 256 (inputs (the_match s)) (action_of sample_env 1 0 [82]) (accepted s)\<rparr>)"

theorem rps_match_invariant_witness:
  "length (History (Match_plugin (the_match sample_room))) \<le> 3 \<and> length (inputs (the_match sample_room)) = 1"
proof -
  have "match_step sample_env (hostAdapter (\<lambda>_. Inr [])) (start_sys 9 sample_game 0) sample_room"
    unfolding sample_room_def Let_def by (rule match_step.submit)
  then have run: "(match_step sample_env (hostAdapter (\<lambda>_. Inr [])))\<^sup>*\<^sup>* (start_sys 9 sample_game 0) sample_room" ..
  have "length (History (Match_plugin (the_match sample_room))) \<le> 3"
    using rps_match_invariant [of "''a''" "''b''" "\<lambda>_. Inr []" "\<lparr>TickRateHz = 0, InitialSnapshot = []\<rparr>" sample_game]
      run by (simp add: Game_Init_def Let_def sample_game_def)
  then show ?thesis by (simp add: sample_room_def start_sys_def NewMatch_def SubmitInput_def select_send_def)
qed



text \<open>
  Only membership in the two is counted, not who they are: a choice sent under an id outside the roster
  fills a slot of the round, and the player who did not choose loses it.
\<close>

lemma outsider_completes_round:
  assumes "game_inv s" "matchWinner s = []" "Choices s = [(playerA s, Rock)]" "p \<notin> {playerA s, playerB s}"
  shows "applyAction (play p Rock) s = (True, resolveRound (s\<lparr>Choices := [(playerA s, Rock), (p, Rock)]\<rparr>))"
    and "rr_Winner (last (History (snd (applyAction (play p Rock) s)))) = playerB s"
  using assms by (auto simp: applyAction_def play_def normalize_def resolveRound_def Let_def chosen_def
      decideRound_def game_inv_def roster_ok_def)

end
