(* ===== verification/Admin.thy ===== *)
theory Admin
  imports Auth Match_Queue Storage
begin

text \<open>
  The operations API: the read-only usecase \<open>internal/usecase/admin\<close> and its HTTP entry point
  \<open>internal/presentation/admin/server.go\<close>, which also publishes and deletes title files through the
  storage usecase. A request is what \<open>net/http\<close>'s router makes of it, the matched pattern with its path
  values; a pattern that is not mounted answers 404.

  The lemmas show what the bearer token guards and that a published title file is what players read.
\<close>

section \<open>Usecase\<close>

record 'q AdminUsecase =
  au_Depth :: "string \<Rightarrow> 'q \<Rightarrow> 32 word result"

definition Admin_GetPlayer :: "uuid \<Rightarrow> Player tx" where
  "Admin_GetPlayer uid = RO (Player_GetByID uid)"

definition Admin_QueueDepth :: "'q AdminUsecase \<Rightarrow> string \<Rightarrow> 'q \<Rightarrow> 32 word result" where
  "Admin_QueueDepth u mode q = au_Depth u mode q"

section \<open>HTTP server\<close>

definition maxTitleFileBytes :: nat where
  "maxTitleFileBytes = 8 * 2 ^ 20"

datatype admin_body =
    NoBody
  | ErrorText string
  | PlayerView string "string option" go_time
  | QueueView string "32 word"
  | TitleFileView string "64 word" string "string list option" go_time

type_synonym http_response = "nat \<times> admin_body"

record ('q, 'b) admin_world =
  aw_db :: db
  aw_blobs :: 'b
  aw_queue :: 'q

datatype admin_pattern =
    Healthz
  | Readyz
  | GetPlayer string
  | GetMatchmaking string
  | PutTitleFile string string "string result" string
  | DeleteTitleFilePath string

record admin_request =
  ar_Authorization :: string
  ar_pattern :: admin_pattern

record ('q, 'b) AdminHandler =
  ah_uc :: "'q AdminUsecase"
  ah_storage :: "'b StorageUsecase option"
  ah_ping :: "db \<Rightarrow> go_error option"
  ah_authToken :: string
  ah_parse :: "string \<Rightarrow> uuid option"
  ah_str :: "uuid \<Rightarrow> string"
  ah_Error :: "go_error \<Rightarrow> string"

definition splitTags :: "string \<Rightarrow> string list option" where
  "splitTags raw = (if raw = [] then None
     else Some (filter (\<lambda>t. t \<noteq> []) (map TrimSpace (split_on (CHR '','') raw))))"

definition writeError :: "nat \<Rightarrow> string \<Rightarrow> http_response" where
  "writeError status msg = (status, ErrorText msg)"

definition writeStorageError :: "(go_error \<Rightarrow> string) \<Rightarrow> go_error \<Rightarrow> http_response" where
  "writeStorageError text err =
     (if errors_Is err (StorageE ErrInvalidFilename) \<or> errors_Is err (StorageE ErrFileTooLarge) then writeError 400 (text err)
      else if errors_Is err (StorageE ErrFileNotFound) then writeError 404 ''title file not found''
      else writeError 500 ''title file operation failed'')"

text \<open>\<open>requireToken\<close>: the constant-time comparison is equality of the header with the expected one.\<close>

definition requireToken :: "string \<Rightarrow> ('w \<Rightarrow> http_response \<times> 'w) \<Rightarrow> string \<Rightarrow> 'w \<Rightarrow> http_response \<times> 'w" where
  "requireToken token h authorization w =
     (if token = [] then h w
      else if authorization \<noteq> ''Bearer '' @ token then (writeError 401 ''unauthorized'', w)
      else h w)"

definition get_player :: "('q, 'b) AdminHandler \<Rightarrow> string \<Rightarrow> ('q, 'b) admin_world \<Rightarrow> http_response \<times> ('q, 'b) admin_world" where
  "get_player H raw w =
     (case ah_parse H raw of
        None \<Rightarrow> (writeError 400 ''invalid player id'', w)
      | Some uid \<Rightarrow> (case Admin_GetPlayer uid (aw_db w) of
          (Inl err, s') \<Rightarrow>
            (if errors_Is err (PlayerE ErrPlayerNotFound) then writeError 404 ''player not found'' else writeError 500 ''lookup failed'',
             w\<lparr>aw_db := s'\<rparr>)
        | (Inr p, s') \<Rightarrow> ((200, PlayerView (ah_str H (Player_ID p)) (Nickname p) (RegisteredAt p)), w\<lparr>aw_db := s'\<rparr>)))"

definition get_matchmaking :: "('q, 'b) AdminHandler \<Rightarrow> string \<Rightarrow> ('q, 'b) admin_world \<Rightarrow> http_response \<times> ('q, 'b) admin_world" where
  "get_matchmaking H mode w =
     (case Admin_QueueDepth (ah_uc H) mode (aw_queue w) of
        Inl err \<Rightarrow> (writeError 500 ''queue lookup failed'', w)
      | Inr depth \<Rightarrow> ((200, QueueView mode depth), w))"

text \<open>\<open>body\<close> is what reading the request body gives; beyond the limit the reader fails.\<close>

definition put_title_file ::
    "('q, 'b) AdminHandler \<Rightarrow> 'b StorageUsecase \<Rightarrow> uuid \<Rightarrow> go_time \<Rightarrow> string \<Rightarrow> string \<Rightarrow> string result \<Rightarrow> string \<Rightarrow>
      ('q, 'b) admin_world \<Rightarrow> http_response \<times> ('q, 'b) admin_world" where
  "put_title_file H u uid now name rawTags body contentType w =
     (let tags = splitTags rawTags in
      case body of
        Inl err \<Rightarrow> (writeError 413 ''title file too large or unreadable'', w)
      | Inr data \<Rightarrow>
          if length data > maxTitleFileBytes then (writeError 413 ''title file too large or unreadable'', w)
          else (case PublishTitleFile u uid name tags data (if contentType = [] then ''application/octet-stream'' else contentType) now
                  (aw_db w, aw_blobs w) of
            (Inl err, s', b') \<Rightarrow> (writeStorageError (ah_Error H) err, w\<lparr>aw_db := s', aw_blobs := b'\<rparr>)
          | (Inr f, s', b') \<Rightarrow> ((200, TitleFileView (File_Filename f) (File_Size f) (File_Hash f) tags (File_ModifiedAt f)),
              w\<lparr>aw_db := s', aw_blobs := b'\<rparr>)))"

definition delete_title_file ::
    "('q, 'b) AdminHandler \<Rightarrow> 'b StorageUsecase \<Rightarrow> string \<Rightarrow> ('q, 'b) admin_world \<Rightarrow> http_response \<times> ('q, 'b) admin_world" where
  "delete_title_file H u name w =
     (case DeleteTitleFile u name (aw_db w, aw_blobs w) of
        (Inl err, s', b') \<Rightarrow> (writeStorageError (ah_Error H) err, w\<lparr>aw_db := s', aw_blobs := b'\<rparr>)
      | (Inr _, s', b') \<Rightarrow> ((204, NoBody), w\<lparr>aw_db := s', aw_blobs := b'\<rparr>))"

definition not_mounted :: http_response where
  "not_mounted = (404, ErrorText ''404 page not found'')"

definition admin_serve ::
    "('q, 'b) AdminHandler \<Rightarrow> uuid \<Rightarrow> go_time \<Rightarrow> admin_request \<Rightarrow> ('q, 'b) admin_world \<Rightarrow> http_response \<times> ('q, 'b) admin_world" where
  "admin_serve H uid now r w =
     (let guarded = (\<lambda>h. requireToken (ah_authToken H) h (ar_Authorization r) w) in
      case ar_pattern r of
        Healthz \<Rightarrow> ((200, NoBody), w)
      | Readyz \<Rightarrow> (case ah_ping H (aw_db w) of
          Some err \<Rightarrow> ((503, ErrorText (''postgres unreachable: '' @ ah_Error H err)), w) | None \<Rightarrow> ((200, NoBody), w))
      | GetPlayer raw \<Rightarrow> guarded (get_player H raw)
      | GetMatchmaking mode \<Rightarrow> guarded (get_matchmaking H mode)
      | PutTitleFile name rawTags body contentType \<Rightarrow> (case ah_storage H of
          None \<Rightarrow> (not_mounted, w)
        | Some u \<Rightarrow> guarded (put_title_file H u uid now name rawTags body contentType))
      | DeleteTitleFilePath name \<Rightarrow> (case ah_storage H of
          None \<Rightarrow> (not_mounted, w)
        | Some u \<Rightarrow> guarded (delete_title_file H u name)))"

section \<open>What a request can change\<close>

text \<open>Everything in the database but the title files.\<close>

definition same_but_titles :: "tables \<Rightarrow> tables \<Rightarrow> bool" where
  "same_but_titles t t' \<longleftrightarrow> t\<lparr>title_files := []\<rparr> = t'\<lparr>title_files := []\<rparr>"

lemma same_but_titles_simps [simp]: "same_but_titles t t" "same_but_titles t (t'\<lparr>title_files := ts\<rparr>) = same_but_titles t t'"
  by (simp_all add: same_but_titles_def)

lemma title_calls_keep:
  "same_but_titles t (db_tables (fst w)) \<Longrightarrow> same_but_titles t (db_tables (fst (snd (PublishTitleFile u uid f tags data ct now w))))"
  "same_but_titles t (db_tables (fst w)) \<Longrightarrow> same_but_titles t (db_tables (fst (snd (DeleteTitleFile u f w))))"
  using storage_step_keeps [of "CallPublish uid f tags data ct now" "same_but_titles t" u w]
    storage_step_keeps [of "CallDeleteTitle f" "same_but_titles t" u w] by simp_all

lemma GetByID_keeps: "preserves I (Player_GetByID uid)"
  unfolding Player_GetByID_def sql_GetPlayerByID_def
  by (rule triple_bind [where R = "\<lambda>_. I"], rule triple_mapping [where E = "\<lambda>_. I"], rule triple_one) (auto intro!: triple_return)

lemma Admin_GetPlayer_tables: "db_tables (snd (Admin_GetPlayer uid s)) = db_tables s"
  unfolding Admin_GetPlayer_def
  using preserves_snd [OF session_ro.run_preserves [OF GetByID_keeps [where I = "\<lambda>t. t = db_tables s"]]] by simp

text \<open>
  The bearer token guards the operations API. With a token configured, a request without it changes
  nothing and is answered 401, the health probes and endpoints that are not mounted apart; and whatever a
  request with the token does, under any failures, it changes nothing in the database but title files and
  leaves the match queue alone.
\<close>

theorem admin_guarded:
  assumes "ah_authToken H \<noteq> []"
  shows "(ar_Authorization r \<noteq> ''Bearer '' @ ah_authToken H \<longrightarrow> snd (admin_serve H uid now r w) = w \<and>
      (fst (fst (admin_serve H uid now r w)) = 401 \<or> ar_pattern r \<in> {Healthz, Readyz} \<or> fst (admin_serve H uid now r w) = not_mounted)) \<and>
    same_but_titles (db_tables (aw_db w)) (db_tables (aw_db (snd (admin_serve H uid now r w)))) \<and>
    aw_queue (snd (admin_serve H uid now r w)) = aw_queue w"
proof -
  have guard: "ar_Authorization r \<noteq> ''Bearer '' @ ah_authToken H \<longrightarrow> snd (admin_serve H uid now r w) = w \<and>
      (fst (fst (admin_serve H uid now r w)) = 401 \<or> ar_pattern r \<in> {Healthz, Readyz} \<or> fst (admin_serve H uid now r w) = not_mounted)"
    using assms by (cases "ar_pattern r") (auto simp: admin_serve_def requireToken_def writeError_def split: option.split)
  have player: "same_but_titles (db_tables (aw_db w)) (db_tables (aw_db (snd (get_player H raw w)))) \<and> aw_queue (snd (get_player H raw w)) = aw_queue w" for raw
    using Admin_GetPlayer_tables [of _ "aw_db w"]
    by (auto simp: get_player_def split: option.split prod.split sum.split) (metis same_but_titles_simps(1) snd_conv)+
  have queue: "snd (get_matchmaking H mode w) = w" for mode
    by (simp add: get_matchmaking_def split: sum.split)
  have put: "same_but_titles (db_tables (aw_db w)) (db_tables (aw_db (snd (put_title_file H u uid now name rt body ct w)))) \<and>
      aw_queue (snd (put_title_file H u uid now name rt body ct w)) = aw_queue w" for u name rt body ct
    using title_calls_keep(1) [of "db_tables (aw_db w)" "(aw_db w, aw_blobs w)" u uid name]
    by (auto simp: put_title_file_def Let_def split: sum.split prod.split) (metis fst_conv snd_conv same_but_titles_simps(1))+
  have del: "same_but_titles (db_tables (aw_db w)) (db_tables (aw_db (snd (delete_title_file H u name w)))) \<and>
      aw_queue (snd (delete_title_file H u name w)) = aw_queue w" for u name
    using title_calls_keep(2) [of "db_tables (aw_db w)" "(aw_db w, aw_blobs w)" u name]
    by (auto simp: delete_title_file_def split: sum.split prod.split)
  have "same_but_titles (db_tables (aw_db w)) (db_tables (aw_db (snd (admin_serve H uid now r w)))) \<and>
      aw_queue (snd (admin_serve H uid now r w)) = aw_queue w"
    using player queue put del by (cases "ar_pattern r") (simp_all add: admin_serve_def requireToken_def split: option.split)
  then show ?thesis using guard by blast
qed


section \<open>Publishing\<close>

lemma TitleFile_SaveFile_stores:
  "tx_triple (\<lambda>_. True) (TitleFile_SaveFile uid f tags)
     (\<lambda>_ t. \<exists>row. List.find (\<lambda>r. tf_filename r = File_Filename f) (title_files t) = Some row \<and> tf_size row = sint (File_Size f) \<and>
        tf_hash row = File_Hash f \<and> tf_tags row = tags_or_empty tags \<and> tf_modified_at row = toTimestamptz (File_ModifiedAt f))
     (\<lambda>_ _. True)"
  unfolding TitleFile_SaveFile_def sql_UpsertTitleFile_def
proof (rule triple_exec)
  fix now t x t'
  let ?P = "\<lambda>r. tf_filename r = File_Filename f"
  let ?upd = "\<lambda>r. if tf_filename r = File_Filename f then r\<lparr>tf_size := sint (File_Size f), tf_hash := File_Hash f, tf_tags := tags_or_empty tags,
      tf_modified_at := toTimestamptz (File_ModifiedAt f)\<rparr> else r"
  let ?new = "\<lparr>tf_id = uid, tf_filename = File_Filename f, tf_size = sint (File_Size f), tf_hash = File_Hash f, tf_tags = tags_or_empty tags,
      tf_modified_at = toTimestamptz (File_ModifiedAt f), tf_created_at = now\<rparr>"
  let ?put = "\<lambda>r. r\<lparr>tf_size := sint (File_Size f), tf_hash := File_Hash f, tf_tags := tags_or_empty tags,
      tf_modified_at := toTimestamptz (File_ModifiedAt f)\<rparr>"
  have upd: "\<exists>r. List.find ?P (map ?upd rows) = Some (?put r)" if "File_Filename f \<in> tf_filename ` set rows" for rows
    using that by (induction rows) auto
  have app: "List.find ?P (rows @ [?new]) = Some ?new" if "File_Filename f \<notin> tf_filename ` set rows" for rows
    using that by (induction rows) auto
  assume run: "(if File_Filename f \<in> tf_filename ` set (title_files t)
     then Inr ((), t\<lparr>title_files := map ?upd (title_files t)\<rparr>)
     else if uid \<in> tf_id ` set (title_files t) then Inl unique_violation
     else Inr ((), t\<lparr>title_files := title_files t @ [?new]\<rparr>)) = Inr (x, t')"
  show "\<exists>row. List.find ?P (title_files t') = Some row \<and> tf_size row = sint (File_Size f) \<and> tf_hash row = File_Hash f \<and>
      tf_tags row = tags_or_empty tags \<and> tf_modified_at row = toTimestamptz (File_ModifiedAt f)"
  proof (cases "File_Filename f \<in> tf_filename ` set (title_files t)")
    case True
    then obtain r where "List.find ?P (map ?upd (title_files t)) = Some (?put r)" using upd by blast
    then show ?thesis using run True by auto
  next
    case False
    then show ?thesis using run app [OF False] by (auto split: if_splits)
  qed
qed simp

lemma PublishTitleFile_Inr:
  assumes "PublishTitleFile u uid f tags data ct now (s, b) = (Inr fl, s', b')"
  obtains attrs :: ObjectAttrs where "NewFile f (Attrs_Size attrs) (Attrs_Hash attrs) now = Inr fl" "RW (TitleFile_SaveFile uid fl tags) s = (Inr (), s')"
proof -
  have "\<exists>attrs :: ObjectAttrs. NewFile f (Attrs_Size attrs) (Attrs_Hash attrs) now = Inr fl \<and> RW (TitleFile_SaveFile uid fl tags) s = (Inr (), s')"
    using assms unfolding PublishTitleFile_def io_defs by (auto split: sum.splits prod.splits)
  then show thesis using that by blast
qed

lemma TitleFile_GetFile_run:
  assumes "quiet s"
  shows "outcome (RO (TitleFile_GetFile f)) s =
    (case List.find (\<lambda>r. tf_filename r = f) (title_files (db_tables s)) of Some row \<Rightarrow> Inr (titleFileToDomain row) | None \<Rightarrow> Inl (StorageE ErrFileNotFound),
     db_tables s)"
proof (rule RO_outcome [OF assms])
  show "TitleFile_GetFile f (begin_tx True s) =
    (case List.find (\<lambda>r. tf_filename r = f) (title_files (db_tables s)) of Some row \<Rightarrow> Inr (titleFileToDomain row) | None \<Rightarrow> Inl (StorageE ErrFileNotFound),
     begin_tx True s)"
    using live_begin_tx [OF assms, of True]
    by (auto simp: TitleFile_GetFile_def sql_GetTitleFile_def tx_mapping_def tx_eval split: option.split)
qed

lemma QueryTitleFiles_run:
  assumes "quiet s"
  shows "\<exists>files. fst (QueryTitleFiles u tags (s, b)) = Inr files \<and>
    set files = titleFileToDomain ` {r \<in> set (title_files (db_tables s)). set (tags_or_empty tags) \<subseteq> set (tf_tags r)}"
proof -
  let ?q = "\<lambda>t. sort_by (\<lambda>a b. su_collate u (tf_filename a) (tf_filename b)) (filter (\<lambda>r. set (tags_or_empty tags) \<subseteq> set (tf_tags r)) (title_files t))"
  have "outcome (RO (TitleFile_ListFiles (su_collate u) tags)) s = (Inr (map titleFileToDomain (?q (db_tables s))), db_tables s)"
    by (rule RO_outcome [OF assms])
      (use live_begin_tx [OF assms, of True] in \<open>simp add: TitleFile_ListFiles_def sql_ListTitleFiles_def tx_eval\<close>)
  then obtain s' where "RO (TitleFile_ListFiles (su_collate u) tags) s = (Inr (map titleFileToDomain (?q (db_tables s))), s')"
    by (metis outcome_def fst_conv prod.collapse)
  then have "fst (QueryTitleFiles u tags (s, b)) = Inr (map titleFileToDomain (?q (db_tables s)))"
    by (simp add: QueryTitleFiles_def io_defs)
  then show ?thesis by auto
qed


lemma word_of_sint_size: "word_of_int (sint (n :: 64 word)) = n"
  by simp

text \<open>
  C31. A published title file is what players read. When the operations API answers a publication with
  200, under whatever failures, then every logged-in player who queries with some of its tags finds the
  file in the list, and reading it by name returns the same metadata, the instant kept to the microsecond.
\<close>

theorem published_title_visible:
  assumes "put_title_file H u uid now name rawTags body ct w = ((200, v), w')"
    and "quiet s2" and "db_tables s2 = db_tables (aw_db w')" and "ctx_player c = Some p"
    and "set (tags_or_empty tags) \<subseteq> set (tags_or_empty (splitTags rawTags))"
    and "blob_SignDownload (su_blobs u) (titleKey u name) (URLTTL (su_cfg u)) b2 = (Inr url, b3)"
  shows "\<exists>fl files. v = TitleFileView name (File_Size fl) (File_Hash fl) (splitTags rawTags) now \<and>
    fst (Title_QueryFiles u c tags (s2, b2)) = Inr files \<and> toFileMetadataPb (fl\<lparr>File_ModifiedAt := toTimestamptz now\<rparr>) \<in> set files \<and>
    fst (Title_ReadFile u c name (s2, b2)) = Inr (toFileMetadataPb (fl\<lparr>File_ModifiedAt := toTimestamptz now\<rparr>), URL url, URL_Expires url)"
proof -
  obtain data fl s' b' where pub: "PublishTitleFile u uid name (splitTags rawTags) data (if ct = [] then ''application/octet-stream'' else ct) now
        (aw_db w, aw_blobs w) = (Inr fl, s', b')"
      and v: "v = TitleFileView (File_Filename fl) (File_Size fl) (File_Hash fl) (splitTags rawTags) (File_ModifiedAt fl)"
      and w': "db_tables (aw_db w') = db_tables s'"
    using assms(1) unfolding put_title_file_def Let_def
    by (auto simp: writeError_def writeStorageError_def split: sum.splits if_splits prod.splits)
  obtain attrs :: ObjectAttrs where c: "NewFile name (Attrs_Size attrs) (Attrs_Hash attrs) now = Inr fl" "RW (TitleFile_SaveFile uid fl (splitTags rawTags)) (aw_db w) = (Inr (), s')"
    using PublishTitleFile_Inr [OF pub] .
  have fl: "ValidateFilename name = Inr ()" "fl = \<lparr>File_Filename = name, File_Size = Attrs_Size attrs, File_Hash = Attrs_Hash attrs, File_ModifiedAt = now\<rparr>"
    using c(1) by (auto simp: NewFile_Inr)
  let ?rows = "title_files (db_tables s2)"
  from tx_tripleD(1) [OF session_rw.run_triple [OF TitleFile_SaveFile_stores] TrueI c(2)]
  obtain row where r: "List.find (\<lambda>r. tf_filename r = File_Filename fl) (title_files (db_tables s')) = Some row" "tf_size row = sint (File_Size fl)"
      "tf_hash row = File_Hash fl" "tf_tags row = tags_or_empty (splitTags rawTags)" "tf_modified_at row = toTimestamptz (File_ModifiedAt fl)"
    by blast
  have "tf_filename row = name" using find_Some [OF r(1)] fl(2) by simp
  then have row: "List.find (\<lambda>r. tf_filename r = name) ?rows = Some row" "tf_tags row = tags_or_empty (splitTags rawTags)"
      "titleFileToDomain row = fl\<lparr>File_ModifiedAt := toTimestamptz now\<rparr>"
    using r assms(3) w' fl(2) by (simp_all add: titleFileToDomain_def)
  then have mem: "row \<in> set ?rows" by (auto dest: find_Some)
  obtain files where files: "fst (QueryTitleFiles u tags (s2, b2)) = Inr files"
      "set files = titleFileToDomain ` {r \<in> set ?rows. set (tags_or_empty tags) \<subseteq> set (tf_tags r)}"
    using QueryTitleFiles_run [OF assms(2), of u tags b2] by blast
  have "fl\<lparr>File_ModifiedAt := toTimestamptz now\<rparr> \<in> set files"
    using files(2) mem row(2,3) assms(5) by force
  moreover have "fst (Title_QueryFiles u c tags (s2, b2)) = Inr (map toFileMetadataPb files)"
    using files(1) assms(4) by (cases "QueryTitleFiles u tags (s2, b2)") (simp add: Title_QueryFiles_def respond_def toFileMetadataListPb_def)
  moreover have "fst (Title_ReadFile u c name (s2, b2)) = Inr (toFileMetadataPb (fl\<lparr>File_ModifiedAt := toTimestamptz now\<rparr>), URL url, URL_Expires url)"
  proof -
    obtain s3 where "RO (TitleFile_GetFile name) s2 = (Inr (fl\<lparr>File_ModifiedAt := toTimestamptz now\<rparr>), s3)"
      using TitleFile_GetFile_run [OF assms(2), of name] row(1,3) by (metis outcome_def fst_conv option.case(2) prod.collapse)
    then show ?thesis
      using assms(4,6) fl(1) by (simp add: Title_ReadFile_def ReadTitleFile_def io_defs respond_def readFileResponse_def)
  qed
  ultimately show ?thesis using v fl(2) by (intro exI [of _ fl] exI [of _ "map toFileMetadataPb files"]) auto
qed


definition sample_admin :: "(InMem, FakeBlob) AdminHandler" where
  "sample_admin = \<lparr>ah_uc = \<lparr>au_Depth = (\<lambda>mode q. Inr (Depth mode q))\<rparr>, ah_storage = Some sample_storage, ah_ping = (\<lambda>_. None), ah_authToken = ''secret'',
     ah_parse = (\<lambda>_. None), ah_str = unary_str, ah_Error = (\<lambda>_. [])\<rparr>"

definition sample_admin_world :: "(InMem, FakeBlob) admin_world" where
  "sample_admin_world = \<lparr>aw_db = sample_db [1], aw_blobs = NewFakeBlob, aw_queue = NewInMem\<rparr>"

theorem admin_guarded_witness:
  "snd (admin_serve sample_admin 7 5000 \<lparr>ar_Authorization = ''Bearer guess'', ar_pattern = DeleteTitleFilePath ''a''\<rparr> sample_admin_world) = sample_admin_world"
  using admin_guarded [of sample_admin "\<lparr>ar_Authorization = ''Bearer guess'', ar_pattern = DeleteTitleFilePath ''a''\<rparr>" 7 5000 sample_admin_world]
  by (simp add: sample_admin_def)

lemma sample_publish:
  obtains v w' where "put_title_file sample_admin sample_storage 7 5000 ''a'' ''eu, us'' (Inr ''hello'') [] sample_admin_world = ((200, v), w')"
proof -
  let ?key = "titleKey sample_storage ''a''"
  let ?attrs = "\<lparr>Attrs_Size = 5, Attrs_Hash = format_hex (unat (fnv64a ''hello''))\<rparr>"
  have up: "blob_Upload (su_blobs sample_storage) ?key ''hello'' ct NewFakeBlob = (Inr (), fake_Put ?key ?attrs NewFakeBlob)" for ct
    by (simp add: sample_storage_def fake_blobs_def fake_Upload_def)
  have st: "blob_Stat (su_blobs sample_storage) ?key (fake_Put ?key ?attrs NewFakeBlob) = (Inr ?attrs, fake_Put ?key ?attrs NewFakeBlob)"
    by (simp add: sample_storage_def fake_blobs_def fake_Stat_def fake_Put_def)
  have sz: "ValidateSize 5 = Inr ()" by (simp add: ValidateSize_def word_less_def uint_MaxFileSize)
  have new: "NewFile ''a'' 5 h 5000 = Inr \<lparr>File_Filename = ''a'', File_Size = 5, File_Hash = h, File_ModifiedAt = 5000\<rparr>" for h
    by (simp add: NewFile_def sample_names sz)
  have save: "fst (outcome (RW (TitleFile_SaveFile 7 \<lparr>File_Filename = ''a'', File_Size = 5, File_Hash = h, File_ModifiedAt = 5000\<rparr> tags)) (sample_db [1])) = Inr ()" for h tags
    by (simp add: RW_def TitleFile_SaveFile_def sql_UpsertTitleFile_def outcome_def Session_run_def sample_simps tx_defs)
  then obtain s' where "RW (TitleFile_SaveFile 7 \<lparr>File_Filename = ''a'', File_Size = 5, File_Hash = Attrs_Hash ?attrs, File_ModifiedAt = 5000\<rparr> (splitTags ''eu, us'')) (sample_db [1]) = (Inr (), s')"
    by (metis outcome_def fst_conv prod.collapse)
  then have "PublishTitleFile sample_storage 7 ''a'' (splitTags ''eu, us'') ''hello'' ct 5000 (sample_db [1], NewFakeBlob) =
      (Inr \<lparr>File_Filename = ''a'', File_Size = 5, File_Hash = Attrs_Hash ?attrs, File_ModifiedAt = 5000\<rparr>, s', fake_Put ?key ?attrs NewFakeBlob)" for ct
    by (simp add: PublishTitleFile_def io_defs sample_names sz up st new)
  then show thesis
    using that by (simp add: put_title_file_def sample_admin_world_def maxTitleFileBytes_def)
qed

theorem published_title_visible_witness:
  "\<exists>v w' fl files. put_title_file sample_admin sample_storage 7 5000 ''a'' ''eu, us'' (Inr ''hello'') [] sample_admin_world = ((200, v), w') \<and>
     fst (Title_QueryFiles sample_storage \<lparr>ctx_player = Some 1\<rparr> None ((aw_db w')\<lparr>db_faults := [], db_tx := None\<rparr>, aw_blobs w')) = Inr files \<and>
     toFileMetadataPb (fl\<lparr>File_ModifiedAt := 5000\<rparr>) \<in> set files"
proof -
  obtain v w' where run: "put_title_file sample_admin sample_storage 7 5000 ''a'' ''eu, us'' (Inr ''hello'') [] sample_admin_world = ((200, v), w')"
    using sample_publish .
  have q: "quiet ((aw_db w')\<lparr>db_faults := [], db_tx := None\<rparr>)" "db_tables ((aw_db w')\<lparr>db_faults := [], db_tx := None\<rparr>) = db_tables (aw_db w')"
    by (simp_all add: quiet_def)
  obtain url b3 where sign: "blob_SignDownload (su_blobs sample_storage) (titleKey sample_storage ''a'') (URLTTL (su_cfg sample_storage)) (aw_blobs w') = (Inr url, b3)"
    by (simp add: sample_storage_def fake_blobs_def fake_SignDownload_def)
  have "toTimestamptz 5000 = 5000" by (simp add: toTimestamptz_def)
  with published_title_visible [OF run q, of "\<lparr>ctx_player = Some 1\<rparr>" 1 None, OF _ _ sign] run
  show ?thesis by (fastforce simp: tags_or_empty_def)
qed

end
