(* ===== verification/Wasm_Plugin.thy ===== *)
theory Wasm_Plugin
  imports Plugin
begin

text \<open>
  Plugins compiled to WebAssembly: the guest SDK \<open>sdk/plugin/go/guest.go\<close>, linked into the module, and
  the host \<open>internal/infra/plugin/wazerohost\<close>, which makes a module instance a \<open>Plugin\<close>. The two talk
  through the instance's linear memory in the ABI both describe: the host asks for a request buffer,
  writes the encoded request into it, calls an export with pointer and length, and gets back a packed
  pointer and length of a result frame, a status byte and a payload.

  The linear memory and the guest's allocator are the locale \<open>linear_memory\<close>; the protobuf codecs of the
  two sides are values of \<open>Wire\<close>. The lemmas show that a game behind this boundary answers as the same
  game linked natively does.
\<close>

section \<open>Messages and their codecs\<close>

text \<open>
  One request and its response on the wire: the host encodes requests and decodes responses
  (\<open>proto.Marshal\<close>, \<open>proto.Unmarshal\<close>), the guest the other way round (\<open>UnmarshalVT\<close>, \<open>MarshalVT\<close>).
\<close>

record ('q, 'r) Wire =
  wire_Marshal :: "'q \<Rightarrow> string result"
  wire_UnmarshalVT :: "string \<Rightarrow> 'q result"
  wire_MarshalVT :: "'r \<Rightarrow> string result"
  wire_Unmarshal :: "string \<Rightarrow> 'r result"

record ABI =
  abi_init :: "(string list, InitResponse) Wire"
  abi_on_tick :: "(OnTickRequest, OnTickResponse) Wire"
  abi_on_game_end :: "(32 word, OnGameEndResponse) Wire"
  abi_Error :: "go_error \<Rightarrow> string"

section \<open>The guest\<close>

text \<open>\<open>Game\<close>, the interface a plugin implements, on the state \<open>'s\<close> of a game.\<close>

record 's Game =
  game_Init :: "'s \<Rightarrow> string list \<Rightarrow> InitResponse result \<times> 's"
  game_OnTick :: "'s \<Rightarrow> OnTickRequest \<Rightarrow> OnTickResponse result \<times> 's"
  game_OnGameEnd :: "'s \<Rightarrow> 32 word \<Rightarrow> OnGameEndResponse result \<times> 's"

text \<open>The linear memory and what the guest's \<open>make\<close> does with it; no result means the instance traps.\<close>

record 'm Memory =
  memory_Read :: "'m \<Rightarrow> 32 word \<Rightarrow> 32 word \<Rightarrow> string option"
  memory_Write :: "'m \<Rightarrow> 32 word \<Rightarrow> string \<Rightarrow> 'm option"
  memory_make :: "'m \<Rightarrow> nat \<Rightarrow> (32 word \<times> 'm) option"

text \<open>An instance: its memory and the package variables of the SDK; a buffer is its address and length.\<close>

record ('m, 's) Instance =
  inst_memory :: 'm
  inst_game :: "'s option"
  inst_reqBuf :: "32 word \<times> nat"
  inst_respBuf :: "32 word \<times> nat"

record ('m, 's) Guest =
  guest_memory :: "'m Memory"
  guest_game :: "'s Game"
  guest_factory :: "'s"
  guest_abi :: ABI

abbreviation trap :: go_error where
  "trap \<equiv> ErrorString ''wasm error: unreachable''"

definition bytesPtr :: "32 word \<times> nat \<Rightarrow> 32 word" where
  "bytesPtr b = (if snd b = 0 then 0 else fst b)"

definition pack :: "32 word \<Rightarrow> 32 word \<Rightarrow> 64 word" where
  "pack p n = or (push_bit 32 (ucast p)) (ucast n)"

definition vfxAlloc :: "('m, 's) Guest \<Rightarrow> 32 word \<Rightarrow> ('m, 's) Instance \<Rightarrow> 32 word result \<times> ('m, 's) Instance" where
  "vfxAlloc G n i =
     (case memory_make (guest_memory G) (inst_memory i) (unat n) of
        None \<Rightarrow> (Inl trap, i)
      | Some (p, m) \<Rightarrow> (Inr (bytesPtr (p, unat n)), i\<lparr>inst_memory := m, inst_reqBuf := (p, unat n)\<rparr>))"

abbreviation statusOK :: char where
  "statusOK \<equiv> CHR 0x00"

abbreviation statusErr :: char where
  "statusErr \<equiv> CHR 0x01"

definition frame :: "('m, 's) Guest \<Rightarrow> char \<Rightarrow> string \<Rightarrow> ('m, 's) Instance \<Rightarrow> 64 word result \<times> ('m, 's) Instance" where
  "frame G status payload i =
     (case memory_make (guest_memory G) (inst_memory i) (length payload + 1) of
        None \<Rightarrow> (Inl trap, i)
      | Some (p, m) \<Rightarrow> (case memory_Write (guest_memory G) m p (status # payload) of
          None \<Rightarrow> (Inl trap, i\<lparr>inst_memory := m\<rparr>)
        | Some m' \<Rightarrow> (Inr (pack (bytesPtr (p, length payload + 1)) (of_nat (length payload + 1))),
            i\<lparr>inst_memory := m', inst_respBuf := (p, length payload + 1)\<rparr>)))"

definition guest_fail :: "('m, 's) Guest \<Rightarrow> string \<Rightarrow> ('m, 's) Instance \<Rightarrow> 64 word result \<times> ('m, 's) Instance" where
  "guest_fail G msg i = frame G statusErr msg i"

definition guest_ok :: "('m, 's) Guest \<Rightarrow> string result \<Rightarrow> ('m, 's) Instance \<Rightarrow> 64 word result \<times> ('m, 's) Instance" where
  "guest_ok G marshalled i = (case marshalled of
     Inl err \<Rightarrow> guest_fail G (''marshal response: '' @ abi_Error (guest_abi G) err) i
   | Inr out \<Rightarrow> frame G statusOK out i)"

text \<open>\<open>reqBuf[:length]\<close>: a length beyond the buffer panics.\<close>

definition reqBytes :: "('m, 's) Guest \<Rightarrow> 32 word \<Rightarrow> ('m, 's) Instance \<Rightarrow> string option" where
  "reqBytes G len i =
     (if unat len > snd (inst_reqBuf i) then None
      else if len = 0 then Some []
      else memory_Read (guest_memory G) (inst_memory i) (fst (inst_reqBuf i)) len)"

text \<open>The body the three lifecycle exports share, with the codec and the method of each.\<close>

definition lifecycle ::
    "('m, 's) Guest \<Rightarrow> ('q, 'r) Wire \<Rightarrow> ('s \<Rightarrow> 'q \<Rightarrow> 'r result \<times> 's) \<Rightarrow> string \<Rightarrow> 32 word \<Rightarrow> ('m, 's) Instance \<Rightarrow>
      64 word result \<times> ('m, 's) Instance" where
  "lifecycle G W mth msg len i =
     (case reqBytes G len i of
        None \<Rightarrow> (Inl trap, i)
      | Some raw \<Rightarrow> (case wire_UnmarshalVT W raw of
          Inl err \<Rightarrow> guest_fail G (''unmarshal '' @ msg @ '': '' @ abi_Error (guest_abi G) err) i
        | Inr req \<Rightarrow> (case inst_game i of
            None \<Rightarrow> (Inl trap, i)
          | Some g \<Rightarrow> (case mth g req of
              (Inl err, g') \<Rightarrow> guest_fail G (abi_Error (guest_abi G) err) (i\<lparr>inst_game := Some g'\<rparr>)
            | (Inr resp, g') \<Rightarrow> guest_ok G (wire_MarshalVT W resp) (i\<lparr>inst_game := Some g'\<rparr>)))))"

definition vfxInit :: "('m, 's) Guest \<Rightarrow> 32 word \<Rightarrow> 32 word \<Rightarrow> ('m, 's) Instance \<Rightarrow> 64 word result \<times> ('m, 's) Instance" where
  "vfxInit G p len i =
     lifecycle G (abi_init (guest_abi G)) (game_Init (guest_game G)) ''InitRequest'' len (i\<lparr>inst_game := Some (guest_factory G)\<rparr>)"

definition vfxOnTick :: "('m, 's) Guest \<Rightarrow> 32 word \<Rightarrow> 32 word \<Rightarrow> ('m, 's) Instance \<Rightarrow> 64 word result \<times> ('m, 's) Instance" where
  "vfxOnTick G p len i = lifecycle G (abi_on_tick (guest_abi G)) (game_OnTick (guest_game G)) ''OnTickRequest'' len i"

definition vfxOnGameEnd :: "('m, 's) Guest \<Rightarrow> 32 word \<Rightarrow> 32 word \<Rightarrow> ('m, 's) Instance \<Rightarrow> 64 word result \<times> ('m, 's) Instance" where
  "vfxOnGameEnd G p len i = lifecycle G (abi_on_game_end (guest_abi G)) (game_OnGameEnd (guest_game G)) ''OnGameEndRequest'' len i"

section \<open>The host\<close>

text \<open>
  An instantiated module as wazero shows it: its exports, absent ones \<open>None\<close>, on the state \<open>'i\<close> of the
  instance. Parameters and results cross as 64-bit values, of which a 32-bit one is the low half.
\<close>

record 'i Module =
  mod_alloc :: "(64 word \<Rightarrow> 'i \<Rightarrow> 64 word result \<times> 'i) option"
  mod_init :: "(64 word \<Rightarrow> 64 word \<Rightarrow> 'i \<Rightarrow> 64 word result \<times> 'i) option"
  mod_on_tick :: "(64 word \<Rightarrow> 64 word \<Rightarrow> 'i \<Rightarrow> 64 word result \<times> 'i) option"
  mod_on_game_end :: "(64 word \<Rightarrow> 64 word \<Rightarrow> 'i \<Rightarrow> 64 word result \<times> 'i) option"
  mod_read :: "(32 word \<Rightarrow> 32 word \<Rightarrow> 'i \<Rightarrow> string option) option"
  mod_write :: "32 word \<Rightarrow> string \<Rightarrow> 'i \<Rightarrow> 'i option"
  mod_Close :: "'i \<Rightarrow> go_error option \<times> 'i"

record 'i wasmPlugin =
  wp_alloc :: "64 word \<Rightarrow> 'i \<Rightarrow> 64 word result \<times> 'i"
  wp_init :: "64 word \<Rightarrow> 64 word \<Rightarrow> 'i \<Rightarrow> 64 word result \<times> 'i"
  wp_onTick :: "64 word \<Rightarrow> 64 word \<Rightarrow> 'i \<Rightarrow> 64 word result \<times> 'i"
  wp_onGameEnd :: "64 word \<Rightarrow> 64 word \<Rightarrow> 'i \<Rightarrow> 64 word result \<times> 'i"
  wp_read :: "32 word \<Rightarrow> 32 word \<Rightarrow> 'i \<Rightarrow> string option"
  wp_write :: "32 word \<Rightarrow> string \<Rightarrow> 'i \<Rightarrow> 'i option"
  wp_Close :: "'i \<Rightarrow> go_error option \<times> 'i"

definition Wasm_Create :: "('i Module \<times> 'i) result \<Rightarrow> ('i wasmPlugin \<times> 'i) result" where
  "Wasm_Create instantiated = (case instantiated of
     Inl err \<Rightarrow> Inl (Wrap ''wazerohost: instantiate module'' err)
   | Inr (m, i) \<Rightarrow> (case (mod_alloc m, mod_init m, mod_on_tick m, mod_on_game_end m, mod_read m) of
       (Some alloc, Some ini, Some tick, Some fin, Some rd) \<Rightarrow>
         Inr (\<lparr>wp_alloc = alloc, wp_init = ini, wp_onTick = tick, wp_onGameEnd = fin, wp_read = rd, wp_write = mod_write m,
           wp_Close = mod_Close m\<rparr>, i)
     | _ \<Rightarrow> Inl (ErrorString ''wazerohost: module is missing required vfx exports'')))"

definition read_frame :: "'i wasmPlugin \<Rightarrow> ('q, 'r) Wire \<Rightarrow> 64 word \<Rightarrow> 'i \<Rightarrow> 'r result" where
  "read_frame p W packed i =
     (let respPtr = ucast (drop_bit 32 packed) :: 32 word; respLen = ucast packed :: 32 word in
      if respLen = 0 then Inl (ErrorString ''wazerohost: guest returned an empty frame'')
      else case wp_read p respPtr respLen i of
        None \<Rightarrow> Inl (ErrorString ''wazerohost: failed reading response from guest memory'')
      | Some fr \<Rightarrow>
          if hd fr \<noteq> statusOK then Inl (ErrorString (''wazerohost: plugin returned an error: '' @ tl fr))
          else (case wire_Unmarshal W (tl fr) of
            Inl err \<Rightarrow> Inl (Wrap ''wazerohost: unmarshal response'' err) | Inr out \<Rightarrow> Inr out))"

definition wasm_call ::
    "'i wasmPlugin \<Rightarrow> ('q, 'r) Wire \<Rightarrow> (64 word \<Rightarrow> 64 word \<Rightarrow> 'i \<Rightarrow> 64 word result \<times> 'i) \<Rightarrow> 'q \<Rightarrow> 'i \<Rightarrow> 'r result \<times> 'i" where
  "wasm_call p W fn req i =
     (case wire_Marshal W req of
        Inl err \<Rightarrow> (Inl (Wrap ''wazerohost: marshal request'' err), i)
      | Inr data \<Rightarrow> (case wp_alloc p (of_nat (length data)) i of
          (Inl err, i1) \<Rightarrow> (Inl (Wrap ''wazerohost: alloc'' err), i1)
        | (Inr res, i1) \<Rightarrow>
            let ptr = ucast res :: 32 word;
                written = (if data = [] then Some i1 else wp_write p ptr data i1)
            in case written of
                 None \<Rightarrow> (Inl (ErrorString ''wazerohost: failed writing request into guest memory''), i1)
               | Some i2 \<Rightarrow> (case fn (ucast ptr) (of_nat (length data)) i2 of
                   (Inl err, i3) \<Rightarrow> (Inl (Wrap ''wazerohost: call export'' err), i3)
                 | (Inr packed, i3) \<Rightarrow> (read_frame p W packed i3, i3))))"

definition wasm_Init :: "ABI \<Rightarrow> 'i wasmPlugin \<Rightarrow> 'i \<Rightarrow> string list \<Rightarrow> InitResponse result \<times> 'i" where
  "wasm_Init abi p i req = wasm_call p (abi_init abi) (wp_init p) req i"

definition wasm_OnTick :: "ABI \<Rightarrow> 'i wasmPlugin \<Rightarrow> 'i \<Rightarrow> OnTickRequest \<Rightarrow> OnTickResponse result \<times> 'i" where
  "wasm_OnTick abi p i req = wasm_call p (abi_on_tick abi) (wp_onTick p) req i"

definition wasm_OnGameEnd :: "ABI \<Rightarrow> 'i wasmPlugin \<Rightarrow> 'i \<Rightarrow> 32 word \<Rightarrow> OnGameEndResponse result \<times> 'i" where
  "wasm_OnGameEnd abi p i req = wasm_call p (abi_on_game_end abi) (wp_onGameEnd p) req i"

definition wasm_Close :: "'i wasmPlugin \<Rightarrow> 'i \<Rightarrow> go_error option \<times> 'i" where
  "wasm_Close p i = wp_Close p i"

definition wasm_plugin :: "ABI \<Rightarrow> 'i wasmPlugin \<Rightarrow> 'i Plugin" where
  "wasm_plugin abi p = \<lparr>plugin_Init = wasm_Init abi p, plugin_OnTick = wasm_OnTick abi p, plugin_OnGameEnd = wasm_OnGameEnd abi p,
     plugin_Close = wasm_Close p\<rparr>"

section \<open>The packed result\<close>

lemma pack_unpack: "ucast (drop_bit 32 (pack p n)) = p" "ucast (pack p n) = n"
proof -
  show "ucast (drop_bit 32 (pack p n)) = p"
    by (rule bit_word_eqI) (auto simp: pack_def bit_simps dest: bit_imp_le_length)
  show "ucast (pack p n) = n"
    by (rule bit_word_eqI) (auto simp: pack_def bit_simps)
qed

section \<open>Host and guest together\<close>

text \<open>The guest as the module wazero instantiates.\<close>

definition guest_module :: "('m, 's) Guest \<Rightarrow> ('m, 's) Instance Module" where
  "guest_module G = \<lparr>
     mod_alloc = Some (\<lambda>n i. case vfxAlloc G (ucast n) i of (r, i') \<Rightarrow> (map_sum (\<lambda>e. e) ucast r, i')),
     mod_init = Some (\<lambda>p n. vfxInit G (ucast p) (ucast n)),
     mod_on_tick = Some (\<lambda>p n. vfxOnTick G (ucast p) (ucast n)),
     mod_on_game_end = Some (\<lambda>p n. vfxOnGameEnd G (ucast p) (ucast n)),
     mod_read = Some (\<lambda>p n i. memory_Read (guest_memory G) (inst_memory i) p n),
     mod_write = (\<lambda>p d i. map_option (\<lambda>m. i\<lparr>inst_memory := m\<rparr>) (memory_Write (guest_memory G) (inst_memory i) p d)),
     mod_Close = (\<lambda>i. (None, i))\<rparr>"

definition guest_plugin :: "('m, 's) Guest \<Rightarrow> ('m, 's) Instance wasmPlugin" where
  "guest_plugin G = \<lparr>
     wp_alloc = (\<lambda>n i. case vfxAlloc G (ucast n) i of (r, i') \<Rightarrow> (map_sum (\<lambda>e. e) ucast r, i')),
     wp_init = (\<lambda>p n. vfxInit G (ucast p) (ucast n)),
     wp_onTick = (\<lambda>p n. vfxOnTick G (ucast p) (ucast n)),
     wp_onGameEnd = (\<lambda>p n. vfxOnGameEnd G (ucast p) (ucast n)),
     wp_read = (\<lambda>p n i. memory_Read (guest_memory G) (inst_memory i) p n),
     wp_write = (\<lambda>p d i. map_option (\<lambda>m. i\<lparr>inst_memory := m\<rparr>) (memory_Write (guest_memory G) (inst_memory i) p d)),
     wp_Close = (\<lambda>i. (None, i))\<rparr>"

lemma Create_guest: "Wasm_Create (Inr (guest_module G, i)) = Inr (guest_plugin G, i)"
  by (simp add: Wasm_Create_def guest_module_def guest_plugin_def)

text \<open>
  What the boundary relies on of the memory: an allocated buffer can be written up to its size, and what
  was written is read back. \<open>spacious\<close> says that the guest does not run out of memory.
\<close>

locale linear_memory =
  fixes M :: "'m Memory"
  assumes make_room: "memory_make M m n = Some (p, m') \<Longrightarrow> length d \<le> n \<Longrightarrow> memory_Write M m' p d \<noteq> None"
    and read_back: "memory_Write M m p d = Some m' \<Longrightarrow> d \<noteq> [] \<Longrightarrow> length d < 2 ^ 32 \<Longrightarrow> memory_Read M m' p (of_nat (length d)) = Some d"

definition spacious :: "'m Memory \<Rightarrow> bool" where
  "spacious M \<longleftrightarrow> (\<forall>m n. n < 2 ^ 31 \<longrightarrow> memory_make M m n \<noteq> None)"

text \<open>A message that the codecs carry: encoded within the bound protobuf sets and decoded to itself.\<close>

definition carries_request :: "('q, 'r) Wire \<Rightarrow> 'q \<Rightarrow> bool" where
  "carries_request W q \<longleftrightarrow> (case wire_Marshal W q of Inr d \<Rightarrow> length d < 2 ^ 31 \<and> wire_UnmarshalVT W d = Inr q | Inl _ \<Rightarrow> False)"

definition carries_answer :: "ABI \<Rightarrow> ('q, 'r) Wire \<Rightarrow> 'r result \<Rightarrow> bool" where
  "carries_answer abi W r \<longleftrightarrow> (case r of
     Inl e \<Rightarrow> length (abi_Error abi e) + 1 < 2 ^ 31
   | Inr x \<Rightarrow> (case wire_MarshalVT W x of Inr d \<Rightarrow> length d + 1 < 2 ^ 31 \<and> wire_Unmarshal W d = Inr x | Inl _ \<Rightarrow> False))"

text \<open>How an answer of the game arrives at the host.\<close>

definition through_wasm :: "ABI \<Rightarrow> 'r result \<Rightarrow> 'r result" where
  "through_wasm abi r = map_sum (\<lambda>e. ErrorString (''wazerohost: plugin returned an error: '' @ abi_Error abi e)) (\<lambda>x. x) r"

lemma unat_of_nat_len: "n < 2 ^ 31 \<Longrightarrow> unat (of_nat n :: 32 word) = n"
  by (simp add: unat_of_nat take_bit_nat_eq_self_iff)

lemma ucast_of_nat_len: "n < 2 ^ 31 \<Longrightarrow> ucast (of_nat n :: 64 word) = (of_nat n :: 32 word)"
  by (simp add: unsigned_of_nat take_bit_nat_eq_self)

lemma ucast_up_down: "ucast (ucast p :: 64 word) = (p :: 32 word)"
  by (rule bit_word_eqI) (auto simp: bit_simps)

lemma reqBytes_game: "reqBytes G len (i\<lparr>inst_game := x\<rparr>) = reqBytes G len i"
  by (simp add: reqBytes_def)

context linear_memory
begin

lemma frame_read:
  assumes "guest_memory G = M" "spacious M" "length payload + 1 < 2 ^ 31"
  shows "\<exists>packed i'. frame G st payload i = (Inr packed, i') \<and> inst_game i' = inst_game i \<and>
    read_frame (guest_plugin G) W packed i' = (if st \<noteq> statusOK then Inl (ErrorString (''wazerohost: plugin returned an error: '' @ payload))
      else case wire_Unmarshal W payload of Inl err \<Rightarrow> Inl (Wrap ''wazerohost: unmarshal response'' err) | Inr out \<Rightarrow> Inr out)"
proof -
  obtain p m where mk: "memory_make M (inst_memory i) (length payload + 1) = Some (p, m)"
    using assms(2,3) by (fastforce simp: spacious_def)
  then obtain m' where wr: "memory_Write M m p (st # payload) = Some m'"
    using make_room [OF mk, of "st # payload"] by auto
  have rd: "memory_Read M m' p (of_nat (length payload + 1)) = Some (st # payload)"
    using read_back [OF wr] assms(3) by simp
  have "(of_nat (length payload + 1) :: 32 word) \<noteq> 0"
    using unat_of_nat_len [OF assms(3)] by (metis add_is_0 one_neq_zero unat_0)
  then show ?thesis
    using mk wr rd by (simp add: frame_def assms(1) read_frame_def pack_unpack guest_plugin_def bytesPtr_def)
qed

lemma request_arrives:
  assumes "guest_memory G = M" "spacious M" "length data < 2 ^ 31"
  shows "\<exists>ptr i1 i2. wp_alloc (guest_plugin G) (of_nat (length data)) i = (Inr ptr, i1) \<and>
    (if data = [] then Some i1 else wp_write (guest_plugin G) (ucast ptr) data i1) = Some i2 \<and>
    inst_game i2 = inst_game i \<and> reqBytes G (of_nat (length data)) i2 = Some data"
proof -
  obtain p m where mk: "memory_make M (inst_memory i) (length data) = Some (p, m)"
    using assms(2,3) by (fastforce simp: spacious_def)
  then obtain m' where wr: "memory_Write M m p data = Some m'"
    using make_room [OF mk, of data] by auto
  have "data \<noteq> [] \<Longrightarrow> memory_Read M m' p (of_nat (length data)) = Some data"
    using read_back [OF wr] assms(3) by simp
  moreover have "data \<noteq> [] \<Longrightarrow> (of_nat (length data) :: 32 word) \<noteq> 0"
    using unat_of_nat_len [OF assms(3)] by (metis length_0_conv unat_0)
  ultimately show ?thesis
    using mk wr assms(3) by (cases "data = []")
      (simp_all add: guest_plugin_def vfxAlloc_def assms(1) ucast_of_nat_len unat_of_nat_len bytesPtr_def reqBytes_def ucast_up_down)
qed

lemma wasm_call_native:
  assumes G: "guest_memory G = M" "spacious M"
    and fn: "\<And>p len i. fn p len i = lifecycle G W mth msg (ucast len) (i\<lparr>inst_game := k (inst_game i)\<rparr>)"
    and g: "k (inst_game i) = Some g"
    and carried: "carries_request W q" "carries_answer (guest_abi G) W (fst (mth g q))"
  shows "\<exists>i'. wasm_call (guest_plugin G) W fn q i = (through_wasm (guest_abi G) (fst (mth g q)), i') \<and>
    inst_game i' = Some (snd (mth g q))"
proof -
  obtain data where data: "wire_Marshal W q = Inr data" "length data < 2 ^ 31" "wire_UnmarshalVT W data = Inr q"
    using carried(1) by (auto simp: carries_request_def split: sum.splits)
  obtain ptr i1 i2 where req: "wp_alloc (guest_plugin G) (of_nat (length data)) i = (Inr ptr, i1)"
      "(if data = [] then Some i1 else wp_write (guest_plugin G) (ucast ptr) data i1) = Some i2"
      "inst_game i2 = inst_game i" "reqBytes G (of_nat (length data)) i2 = Some data"
    using request_arrives [OF G data(2), of i] by blast
  obtain r g' where mth: "mth g q = (r, g')" by fastforce
  have life: "fn (ucast (ucast ptr :: 32 word)) (of_nat (length data)) i2 = (case r of
      Inl err \<Rightarrow> guest_fail G (abi_Error (guest_abi G) err) (i2\<lparr>inst_game := Some g'\<rparr>)
    | Inr resp \<Rightarrow> guest_ok G (wire_MarshalVT W resp) (i2\<lparr>inst_game := Some g'\<rparr>))"
    using req(3,4) g data(3) by (simp add: fn lifecycle_def ucast_of_nat_len [OF data(2)] reqBytes_game mth split: sum.split)
  have call: "wasm_call (guest_plugin G) W fn q i = (case fn (ucast (ucast ptr :: 32 word)) (of_nat (length data)) i2 of
      (Inl err, i3) \<Rightarrow> (Inl (Wrap ''wazerohost: call export'' err), i3)
    | (Inr packed, i3) \<Rightarrow> (read_frame (guest_plugin G) W packed i3, i3))"
    by (simp only: wasm_call_def data(1) req(1) req(2) sum.case prod.case Let_def option.case)
  show ?thesis
  proof (cases r)
    case (Inl e)
    then have "length (abi_Error (guest_abi G) e) + 1 < 2 ^ 31" using carried(2) mth by (simp add: carries_answer_def)
    from frame_read [OF G this, of statusErr "i2\<lparr>inst_game := Some g'\<rparr>" W] show ?thesis
      using Inl life call mth by (auto simp: guest_fail_def through_wasm_def)
  next
    case (Inr x)
    then obtain d where d: "wire_MarshalVT W x = Inr d" "length d + 1 < 2 ^ 31" "wire_Unmarshal W d = Inr x"
      using carried(2) mth by (auto simp: carries_answer_def split: sum.splits)
    from frame_read [OF G d(2), of statusOK "i2\<lparr>inst_game := Some g'\<rparr>" W] show ?thesis
      using Inr life call mth d by (auto simp: guest_ok_def through_wasm_def)
  qed
qed

end


section \<open>A match, native or through WebAssembly\<close>

datatype lifecycle_call = CallInit "string list" | CallOnTick OnTickRequest | CallOnGameEnd "32 word"

datatype lifecycle_answer = AnswerInit "InitResponse result" | AnswerOnTick "OnTickResponse result" | AnswerOnGameEnd "OnGameEndResponse result"

fun plugin_call :: "'s Plugin \<Rightarrow> 's \<Rightarrow> lifecycle_call \<Rightarrow> lifecycle_answer \<times> 's" where
  "plugin_call P s (CallInit q) = map_prod AnswerInit (\<lambda>x. x) (plugin_Init P s q)"
| "plugin_call P s (CallOnTick q) = map_prod AnswerOnTick (\<lambda>x. x) (plugin_OnTick P s q)"
| "plugin_call P s (CallOnGameEnd q) = map_prod AnswerOnGameEnd (\<lambda>x. x) (plugin_OnGameEnd P s q)"

fun plugin_answers :: "'s Plugin \<Rightarrow> 's \<Rightarrow> lifecycle_call list \<Rightarrow> lifecycle_answer list" where
  "plugin_answers P s [] = []"
| "plugin_answers P s (c # cs) = (case plugin_call P s c of (a, s') \<Rightarrow> a # plugin_answers P s' cs)"

text \<open>The game linked in directly, and how its answers look through the boundary.\<close>

definition native_plugin :: "'s Game \<Rightarrow> 's Plugin" where
  "native_plugin G = \<lparr>plugin_Init = game_Init G, plugin_OnTick = game_OnTick G, plugin_OnGameEnd = game_OnGameEnd G, plugin_Close = (\<lambda>s. (None, s))\<rparr>"

fun answer_through :: "ABI \<Rightarrow> lifecycle_answer \<Rightarrow> lifecycle_answer" where
  "answer_through abi (AnswerInit r) = AnswerInit (through_wasm abi r)"
| "answer_through abi (AnswerOnTick r) = AnswerOnTick (through_wasm abi r)"
| "answer_through abi (AnswerOnGameEnd r) = AnswerOnGameEnd (through_wasm abi r)"

fun carried :: "ABI \<Rightarrow> lifecycle_call \<Rightarrow> lifecycle_answer \<Rightarrow> bool" where
  "carried abi (CallInit q) (AnswerInit r) = (carries_request (abi_init abi) q \<and> carries_answer abi (abi_init abi) r)"
| "carried abi (CallOnTick q) (AnswerOnTick r) = (carries_request (abi_on_tick abi) q \<and> carries_answer abi (abi_on_tick abi) r)"
| "carried abi (CallOnGameEnd q) (AnswerOnGameEnd r) = (carries_request (abi_on_game_end abi) q \<and> carries_answer abi (abi_on_game_end abi) r)"
| "carried abi _ _ = False"

fun run_carried :: "ABI \<Rightarrow> 's Game \<Rightarrow> 's \<Rightarrow> lifecycle_call list \<Rightarrow> bool" where
  "run_carried abi G s [] = True"
| "run_carried abi G s (c # cs) = (case plugin_call (native_plugin G) s c of (a, s') \<Rightarrow> carried abi c a \<and> run_carried abi G s' cs)"

definition is_init :: "lifecycle_call \<Rightarrow> bool" where
  "is_init c = (case c of CallInit _ \<Rightarrow> True | _ \<Rightarrow> False)"

context linear_memory
begin

lemma wasm_step_native:
  assumes G: "guest_memory G = M" "spacious M"
    and g: "if is_init c then g = guest_factory G else inst_game i = Some g"
    and c: "carried (guest_abi G) c (fst (plugin_call (native_plugin (guest_game G)) g c))"
  shows "\<exists>i'. plugin_call (wasm_plugin (guest_abi G) (guest_plugin G)) i c =
      (answer_through (guest_abi G) (fst (plugin_call (native_plugin (guest_game G)) g c)), i') \<and>
    inst_game i' = Some (snd (plugin_call (native_plugin (guest_game G)) g c))"
proof (cases c)
  case (CallInit q)
  have "wp_init (guest_plugin G) p len i = lifecycle G (abi_init (guest_abi G)) (game_Init (guest_game G)) ''InitRequest'' (ucast len)
      (i\<lparr>inst_game := (\<lambda>_. Some g) (inst_game i)\<rparr>)" for p len i
    using g CallInit by (simp add: guest_plugin_def vfxInit_def is_init_def)
  from wasm_call_native [OF G, where fn = "wp_init (guest_plugin G)" and k = "\<lambda>_. Some g" and i = i and g = g and q = q, OF this] c show ?thesis
    by (auto simp: CallInit wasm_plugin_def wasm_Init_def native_plugin_def)
next
  case (CallOnTick q)
  have "wp_onTick (guest_plugin G) p len i = lifecycle G (abi_on_tick (guest_abi G)) (game_OnTick (guest_game G)) ''OnTickRequest'' (ucast len)
      (i\<lparr>inst_game := (\<lambda>x. x) (inst_game i)\<rparr>)" for p len i
    by (simp add: guest_plugin_def vfxOnTick_def)
  from wasm_call_native [OF G, where fn = "wp_onTick (guest_plugin G)" and k = "\<lambda>x. x" and i = i and g = g and q = q, OF this] g c show ?thesis
    by (auto simp: CallOnTick wasm_plugin_def wasm_OnTick_def native_plugin_def is_init_def)
next
  case (CallOnGameEnd q)
  have "wp_onGameEnd (guest_plugin G) p len i = lifecycle G (abi_on_game_end (guest_abi G)) (game_OnGameEnd (guest_game G)) ''OnGameEndRequest'' (ucast len)
      (i\<lparr>inst_game := (\<lambda>x. x) (inst_game i)\<rparr>)" for p len i
    by (simp add: guest_plugin_def vfxOnGameEnd_def)
  from wasm_call_native [OF G, where fn = "wp_onGameEnd (guest_plugin G)" and k = "\<lambda>x. x" and i = i and g = g and q = q, OF this] g c show ?thesis
    by (auto simp: CallOnGameEnd wasm_plugin_def wasm_OnGameEnd_def native_plugin_def is_init_def)
qed

lemma wasm_run_native:
  assumes G: "guest_memory G = M" "spacious M" and "inst_game i = Some g" "\<forall>c \<in> set cs. \<not> is_init c" "run_carried (guest_abi G) (guest_game G) g cs"
  shows "plugin_answers (wasm_plugin (guest_abi G) (guest_plugin G)) i cs =
    map (answer_through (guest_abi G)) (plugin_answers (native_plugin (guest_game G)) g cs)"
  using assms(3-5)
proof (induction cs arbitrary: i g)
  case (Cons c cs)
  obtain a g' where nat: "plugin_call (native_plugin (guest_game G)) g c = (a, g')" by fastforce
  then obtain i' where "plugin_call (wasm_plugin (guest_abi G) (guest_plugin G)) i c = (answer_through (guest_abi G) a, i')" "inst_game i' = Some g'"
    using wasm_step_native [OF G, of c g i] Cons.prems by auto
  then show ?case using Cons nat by simp
qed simp

end


section \<open>A flat address space\<close>

text \<open>
  A memory of 2^32 bytes in which the guest places each buffer at the same address, as it may: a request
  is decoded before the response is written.
\<close>

definition flat_memory :: "(nat \<Rightarrow> char) Memory" where
  "flat_memory = \<lparr>
     memory_Read = (\<lambda>m p n. if unat p + unat n \<le> 2 ^ 32 then Some (map m [unat p ..< unat p + unat n]) else None),
     memory_Write = (\<lambda>m p d. if unat p + length d \<le> 2 ^ 32
       then Some (\<lambda>a. if unat p \<le> a \<and> a < unat p + length d then d ! (a - unat p) else m a) else None),
     memory_make = (\<lambda>m n. if 8 + n \<le> 2 ^ 32 then Some (8, \<lambda>a. if 8 \<le> a \<and> a < 8 + n then CHR 0x00 else m a) else None)\<rparr>"

interpretation flat: linear_memory flat_memory
proof
  fix m n p m' and d :: string
  assume "memory_make flat_memory m n = Some (p, m')" "length d \<le> n"
  then show "memory_Write flat_memory m' p d \<noteq> None"
    by (auto simp: flat_memory_def split: if_splits)
next
  fix m p m' and d :: string
  assume w: "memory_Write flat_memory m p d = Some m'" "length d < 2 ^ 32"
  then have "unat (of_nat (length d) :: 32 word) = length d" by (simp add: unat_of_nat take_bit_nat_eq_self_iff)
  then show "memory_Read flat_memory m' p (of_nat (length d)) = Some d"
    using w by (auto simp: flat_memory_def intro!: nth_equalityI split: if_splits)
qed

lemma flat_spacious: "spacious flat_memory"
  by (simp add: spacious_def flat_memory_def)

section \<open>Properties\<close>

text \<open>
  C32. A game compiled to WebAssembly answers as the same game linked natively. For a match that is
  initialised once and then ticked and ended in any order, every answer the host gets through the packed
  pointers and result frames of the ABI is the answer of the game itself, an error as its text behind the
  host's prefix, as long as the guest does not run out of memory and every message of the run is one the
  protobuf codecs carry.
\<close>

theorem wasm_equals_native:
  assumes "linear_memory (guest_memory G)" and "spacious (guest_memory G)"
    and "Wasm_Create (Inr (guest_module G, i0)) = Inr (p, i)"
    and "\<forall>c \<in> set cs. \<not> is_init c" and "run_carried (guest_abi G) (guest_game G) (guest_factory G) (CallInit roster # cs)"
  shows "plugin_answers (wasm_plugin (guest_abi G) p) i (CallInit roster # cs) =
    map (answer_through (guest_abi G)) (plugin_answers (native_plugin (guest_game G)) (guest_factory G) (CallInit roster # cs))"
proof -
  have p: "p = guest_plugin G" using assms(3) by (simp add: Create_guest)
  let ?N = "native_plugin (guest_game G)" and ?g = "guest_factory G"
  obtain a g' where nat: "plugin_call ?N ?g (CallInit roster) = (a, g')" by fastforce
  have c: "carried (guest_abi G) (CallInit roster) a" "run_carried (guest_abi G) (guest_game G) g' cs"
    using assms(5) nat by (auto simp del: plugin_call.simps)
  obtain i' where init: "plugin_call (wasm_plugin (guest_abi G) p) i (CallInit roster) = (answer_through (guest_abi G) a, i')" "inst_game i' = Some g'"
    using linear_memory.wasm_step_native [OF assms(1) refl assms(2), of "CallInit roster" ?g i] c(1) nat p by (auto simp: is_init_def simp del: plugin_call.simps)
  have "plugin_answers (wasm_plugin (guest_abi G) p) i' cs = map (answer_through (guest_abi G)) (plugin_answers ?N g' cs)"
    unfolding p by (rule linear_memory.wasm_run_native [OF assms(1) refl assms(2) init(2) assms(4) c(2)])
  then show ?thesis using init(1) nat by (simp del: plugin_call.simps)
qed

definition sample_wire :: "'q \<Rightarrow> 'r \<Rightarrow> ('q, 'r) Wire" where
  "sample_wire q r = \<lparr>wire_Marshal = (\<lambda>_. Inr ''q''), wire_UnmarshalVT = (\<lambda>_. Inr q), wire_MarshalVT = (\<lambda>_. Inr ''r''), wire_Unmarshal = (\<lambda>_. Inr r)\<rparr>"

definition sample_tick :: OnTickRequest where
  "sample_tick = \<lparr>Tick = 1, Timestamp = 0, Actions = [], NetworkEvents = []\<rparr>"

definition sample_guest :: "(nat \<Rightarrow> char, nat) Guest" where
  "sample_guest = (let ini = \<lparr>TickRateHz = 20, InitialSnapshot = []\<rparr>; tck = \<lparr>resp_StateDelta = [], resp_Events = [], resp_GameEnded = True\<rparr> in
    \<lparr>guest_memory = flat_memory,
     guest_game = \<lparr>game_Init = (\<lambda>n roster. (Inr ini, Suc n)), game_OnTick = (\<lambda>n req. (if n = 1 then Inr tck else Inl (ErrorString ''over''), Suc n)),
       game_OnGameEnd = (\<lambda>n t. (Inl (ErrorString ''no''), n))\<rparr>,
     guest_factory = 0,
     guest_abi = \<lparr>abi_init = sample_wire [''ann''] ini, abi_on_tick = sample_wire sample_tick tck,
       abi_on_game_end = sample_wire 0 \<lparr>FinalState = [], PlayerResults = []\<rparr>, abi_Error = (\<lambda>_. ''over'')\<rparr>\<rparr>)"

theorem wasm_equals_native_witness:
  "plugin_answers (wasm_plugin (guest_abi sample_guest) (guest_plugin sample_guest))
      \<lparr>inst_memory = (\<lambda>_. CHR 0x00), inst_game = None, inst_reqBuf = (0, 0), inst_respBuf = (0, 0)\<rparr> [CallInit [''ann''], CallOnTick sample_tick, CallOnTick sample_tick]
    = [AnswerInit (Inr \<lparr>TickRateHz = 20, InitialSnapshot = []\<rparr>),
       AnswerOnTick (Inr \<lparr>resp_StateDelta = [], resp_Events = [], resp_GameEnded = True\<rparr>),
       AnswerOnTick (Inl (ErrorString ''wazerohost: plugin returned an error: over''))]"
proof -
  have run: "run_carried (guest_abi sample_guest) (guest_game sample_guest) (guest_factory sample_guest)
      (CallInit [''ann''] # [CallOnTick sample_tick, CallOnTick sample_tick])"
    by (simp add: sample_guest_def Let_def native_plugin_def sample_wire_def carries_request_def carries_answer_def)
  have mem: "linear_memory (guest_memory sample_guest)" "spacious (guest_memory sample_guest)"
    using flat.linear_memory_axioms flat_spacious by (simp_all add: sample_guest_def Let_def)
  have no_init: "\<forall>c \<in> set [CallOnTick sample_tick, CallOnTick sample_tick]. \<not> is_init c" by (simp add: is_init_def)
  show ?thesis
    using wasm_equals_native [OF mem Create_guest no_init run]
    by (simp add: sample_guest_def Let_def native_plugin_def through_wasm_def)
qed

end
