(* ===== verification/Spec2Isabelle.thy ===== *)
theory Spec2Isabelle
  imports Social Matchmaker Leaderboard_Index Valkey_Chat Bootstrap Room_Server Rps Auth Chat Leaderboards Storage Admin Wasm_Plugin
begin

text \<open>
  Verification of vfx, a game backend written in Go. Two kinds of process make up the system. The
  \<^emph>\<open>gateway\<close> answers Connect RPCs of players: sign-in, friends, groups, chat, leaderboards, file
  storage and matchmaking; a matchmaker loop inside it pairs waiting tickets, asks an allocator for a
  room and hands every player a session token. The \<^emph>\<open>room\<close> daemon accepts WebTransport sessions that
  present such a token, keeps one running match per match id and drives the game plugin, linked
  natively or compiled to WebAssembly, tick by tick. An \<^emph>\<open>admin\<close> HTTP server gives operators read
  access and publishes title files. PostgreSQL holds the durable state; replicas of the gateway share
  a Valkey server.

  \<^bold>\<open>Layers.\<close> The gateway's packages are modelled layer by layer as they are written, one definition per
  function: domain (\<open>internal/domain\<close>), SQL statements (\<open>schema/db/queries\<close>) and repositories
  (\<open>internal/infra/repository\<close>), usecases (\<open>internal/usecase\<close>), handlers
  (\<open>internal/presentation\<close>). A Go function that returns \<open>(T, error)\<close> returns \<open>go_error + T\<close>; one
  that also changes state takes and returns the state. Random draws, clock readings, map iteration
  orders and every library outside the repository are arguments.

  \<^bold>\<open>Foundations.\<close>
  \<^item> \<open>Prelude\<close>: Go's basic types, errors and sorting, list lemmas. \<open>Go_Strings\<close>: UTF-8, character
    classes, \<open>strings\<close> and \<open>path\<close>. \<open>Go_Float\<close>: \<open>float64\<close> with IEEE rounding.
  \<^item> \<open>Database\<close>: the tables of \<open>schema/db/schema.sql\<close>, transactions (\<open>internal/infra/db/db.go\<close>), and a
    script of faults: any round trip may fail before it takes effect, and a commit may take effect
    although its answer is lost. The locale \<open>transactor\<close> states what the usecases rely on and is
    interpreted on \<open>RW\<close> and \<open>RO\<close>; \<open>tx_triple\<close> is the proof rule every usecase lemma uses.
    Transactions are serial.
  \<^item> \<open>Connect\<close>: authentication context, interceptor, error codes.

  \<^bold>\<open>Gateway components.\<close>
  \<^item> \<open>Social\<close> (\<open>domain/social\<close>, \<open>usecase/social\<close>): friend requests, friendships, blocks. The three tables
    keep their invariant through any calls under any faults, a block severs all ties, and the
    operations refine an abstract friend graph.
  \<^item> \<open>Auth\<close> (\<open>domain/player\<close>, \<open>usecase/auth\<close>): anonymous and OIDC sign-in, linking, refresh rotation,
    logout. A refresh token works once, on any calls and faults; on a working store a sign-in finds the
    account of its credential or makes exactly one, and linking takes no account from another player.
    \<open>Token\<close> (\<open>infra/token\<close>): JWT access and session tokens over the library's signer and parser,
    SHA-256 of refresh tokens.
  \<^item> \<open>Player_Groups\<close> (\<open>domain/group\<close>, \<open>usecase/group\<close>): groups and memberships, refined to an abstract
    set of clubs. \<open>Chat\<close> (\<open>domain/chat\<close>, \<open>usecase/chat\<close>, \<open>infra/chatstream/inmem.go\<close>): direct and
    channel messages, histories, fan-out; its two ports are the locales \<open>channel_members\<close>, interpreted
    on the group repository, and \<open>broker_contract\<close>, interpreted on the in-process stream. What a
    subscription gets is stated against a history of the calls, not against the stream's own table. Paging
    is complete where no two messages have one instant.
  \<^item> \<open>Leaderboards\<close> (\<open>domain/leaderboard\<close>, \<open>usecase/leaderboard\<close>): keep-best scores in both orders,
    counted and paged ranks and when they agree.
  \<^item> \<open>Storage\<close> (\<open>domain/storage\<close>, \<open>usecase/storage\<close>): player and title files, quota, signed URLs; the object
    store is the locale \<open>blob_store\<close>, interpreted on \<open>internal/testutils/fakeblob\<close>. The quota holds for
    calls that run one after the other. \<open>Cloud_Blobs\<close> (\<open>infra/blobstore/gcs.go\<close>): the object store of a
    deployment over the Cloud Storage client, the locale \<open>gcs_service\<close>, interpreted on a simulated bucket; it
    meets \<open>blob_store\<close>. \<open>Admin\<close> (\<open>usecase/admin\<close>, \<open>presentation/admin\<close>): the operations API over the
    same usecase.
  \<^item> \<open>Matcher\<close> (\<open>domain/match\<close>): grouping of tickets by rating, region and party. \<open>Match_Queue\<close>
    (\<open>infra/matchqueue/inmem.go\<close>): the ticket queue with its channels. \<open>Matchmaker\<close>
    (\<open>usecase/match\<close>, \<open>presentation/gateway/match\<close>): the worker, the service, the handlers. The queue's
    contract is the locale \<open>match_queue\<close>; the worker's termination is proved inside it. Every ticket of a
    claimed group ends with the event its branch calls for, failed allocations included.
  \<^item> \<open>Adapters\<close> (\<open>infra/allocator\<close>, \<open>infra/agones\<close>, \<open>infra/oidc\<close>): the two allocators, the lifecycle calls
    of a game server and the OIDC verifier, over the libraries they wrap.
  \<^item> \<open>Bootstrap\<close> (\<open>internal/bootstrap\<close>, the constructors in \<open>infra/postgres\<close>, \<open>infra/valkey\<close>, the fields of
    \<open>infra/config\<close>): which implementations a configuration selects, how gateway, operations server and room
    are put together, and that a failed start leaves nothing open.

  \<^bold>\<open>State shared by replicas.\<close>
  \<^item> \<open>Valkey\<close>: the commands the program sends, what the server does with them, the Lua scripts, and code
    that talks to the server as a datatype (\<open>'a vk\<close>) that a client function runs. The locale
    \<open>valkey_server\<close> states what is relied on: commands are atomic and do what they are documented to do,
    or are reported as failed, and then may have taken effect or not; before each of them the rest of
    the world may act within a \<open>rely\<close> relation. It is interpreted on a server with a script of faults.
  \<^item> \<open>Valkey_Queue\<close> (\<open>infra/matchqueue/valkey.go\<close>): every method of the shared queue; \<open>vq_step\<close> interleaves
    calls of any number of replicas command by command, and no ticket is won twice as long as no ticket
    id is created twice. \<open>Valkey_Contract\<close>: the shared queue, with rivals that claim and cancel, meets the
    same locale \<open>match_queue\<close> as the in-memory one, so the matchmaker ends on it; subscribers miss no event.
  \<^item> \<open>Valkey_Stores\<close> (\<open>infra/assignmentstore/valkey.go\<close>, \<open>infra/leaderlock\<close>): recovery of an assignment by
    any replica; one leader at a time while leases do not run out.
  \<^item> \<open>Leaderboard_Index\<close> (\<open>infra/repository/leaderboard_valkey.go\<close>): the sorted set beside the table; for
    distinct scores below \<open>2 ^ 53\<close>, which \<open>float64\<close> holds exactly, ranks through it are the table's.
  \<^item> \<open>Valkey_Chat\<close> (\<open>infra/chatstream/valkey.go\<close>): the chat broker over streams that are trimmed and expire.
    The locale \<open>chat_server\<close> states the law over a history of all that was appended, of which the server
    holds a tail; it is interpreted on a server that runs \<open>Publish\<close>, trims and expires by a script. A subscriber gets
    new messages in order, none twice, and at a steady pace (\<open>paced\<close>: at most 64 between two reads, no expiry)
    without gaps. \<open>dollar_gap\<close> and \<open>lapse_gap\<close> show what it misses otherwise.

  \<^bold>\<open>Room components.\<close>
  \<^item> \<open>Plugin\<close> (\<open>domain/plugin\<close>): the plugin interface and registry. \<open>Room_Match\<close>
    (\<open>usecase/room/match.go\<close>): one match; \<open>match_step\<close> interleaves session handlers, the tick loop and
    cancellation; delivery in order, bounded buffers, sessions closed once, and the end of a game on
    every branch. The locale
    \<open>plugin_contract\<close> carries a plugin's invariant through every match.
  \<^item> \<open>Room_Manager\<close> (\<open>usecase/room/manager.go\<close>): \<open>mgr_step\<close> interleaves \<open>FindOrCreate\<close> at its critical
    sections; one live match per id, every plugin closed once. \<open>Room_Server\<close>
    (\<open>presentation/room\<close>): admission by session token and frame delivery.
  \<^item> \<open>Rps\<close> (\<open>examples/rps/plugin\<close>): the shipped game, with its invariant in every room and its refinement
    of best of three. \<open>Wasm_Plugin\<close> (\<open>sdk/plugin/go\<close>, \<open>infra/plugin/wazerohost\<close>): the WebAssembly ABI on
    both sides; the linear memory is the locale \<open>linear_memory\<close>, interpreted on a flat memory; a game
    behind the boundary answers as the native one.

  \<^bold>\<open>Bounds and fuel.\<close> \<open>processMode\<close> takes fuel, and more fuel than waiting tickets always suffices
  (\<open>Matchmaker.processMode_terminates\<close>, \<open>Valkey_Contract.shared_matchmaker_terminates\<close>). The goroutines
  of subscriptions run until their context ends: \<open>reads\<close> and \<open>sends\<close> say when that is, and the delivery
  theorems say how many are enough. Every other loop is structural or has a termination proof.
  File sizes and quotas are 64-bit words; the quota theorem assumes limits whose sum does not wrap.
  Queue depths and page sizes are 32-bit words. Scores and counters of the game are unbounded
  integers that the invariants bound.

  \<^bold>\<open>Not modelled.\<close> Metrics, tracing and the interceptors that carry them, the parsing of the
  environment, the command line with its HTTP servers, the client SDK, example binaries and test
  fixtures. Libraries (JWT, JSON, OIDC, Kubernetes, Cloud Storage, WebAssembly runtime) are arguments of
  the theories that use them; what is relied on of them is a hypothesis or a locale, as that a signed
  token parses to its claims until it expires, or that JSON decodes to what was encoded where a
  theorem says so. Transactions run one after the other, the program's are \<open>READ COMMITTED\<close>;
  \<open>Storage.quota_race\<close> shows where it matters.
\<close>

end
